(* ===== verification/Prelude.thy ===== *)
theory Prelude
  imports "HOL-Library.Word"
begin

text \<open>
  Shared vocabulary of the development: the C integer types of the tools on
  the supported host (LP64, signed \<^verbatim>\<open>char\<close>), the result type of
  operations that can stop the program, and generic lemmas on words, lists and
  results that the component theories use.
\<close>

unbundle bit_operations_syntax

section \<open>Integer types\<close>

text \<open>
  \<^verbatim>\<open>unsigned char\<close> is \<open>byte\<close>; \<^verbatim>\<open>offset_t\<close> of the assembler is \<^verbatim>\<open>size_t\<close>
  (64 bits on the host, although \<^verbatim>\<open>SIZEOF_OFFSET_T\<close> is 2); \<^verbatim>\<open>u2_pt\<close> and
  \<^verbatim>\<open>unsigned\<close> are 32 bits; \<^verbatim>\<open>u4_t\<close> is \<^verbatim>\<open>unsigned long\<close>, 64 bits;
  \<^verbatim>\<open>bin_off_t\<close> of the linker is \<^verbatim>\<open>int\<close>.
\<close>

type_synonym byte = "8 word"
type_synonym u16 = "16 word"
type_synonym u32 = "32 word"
type_synonym u64 = "64 word"

text \<open>C's truth value of \<^verbatim>\<open>d & m\<close>.\<close>

abbreviation has :: "'a::len word \<Rightarrow> 'a word \<Rightarrow> bool"
  where "has d m \<equiv> d AND m \<noteq> 0"

text \<open>A text literal as the bytes of a C string, without its terminator.\<close>

abbreviation bytes_of :: "string \<Rightarrow> byte list"
  where "bytes_of s \<equiv> map of_char s"

section \<open>Operations that may stop the program\<close>

text \<open>
  The ways a modelled routine can fail to return: fuel of a recursive model
  (never with enough fuel, which is proved per routine), a division by zero or
  an oversized shift, a signed overflow or a null dereference in the C code, reading outside an
  array or past the end of the input, and the program's own fatal exits.
\<close>

datatype stop =
    NoFuel
  | DivideByZero
  | ShiftTooFar
  | Overflow
  | NullPointer
  | OutOfBounds
  | Fatal string

definition bindE :: "stop + 'a \<Rightarrow> ('a \<Rightarrow> stop + 'b) \<Rightarrow> stop + 'b" where
  "bindE m f = (case m of Inl e \<Rightarrow> Inl e | Inr x \<Rightarrow> f x)"

lemma bindE_simps [simp]:
  "bindE (Inl e) f = Inl e"
  "bindE (Inr x) f = f x"
  by (simp_all add: bindE_def)

lemma bindE_cong [fundef_cong]:
  "m = m' \<Longrightarrow> (\<And>x. m' = Inr x \<Longrightarrow> f x = g x) \<Longrightarrow> bindE m f = bindE m' g"
  by (cases m') (simp_all)

lemma bindE_Inr_iff: "bindE m f = Inr y \<longleftrightarrow> (\<exists>x. m = Inr x \<and> f x = Inr y)"
  by (cases m) auto

lemma bindE_InrE:
  assumes "bindE m f = Inr y"
  obtains x where "m = Inr x" and "f x = Inr y"
  using assms by (auto simp: bindE_Inr_iff)

lemma bindE_assoc: "bindE (bindE m f) g = bindE m (\<lambda>x. bindE (f x) g)"
  by (cases m) simp_all

lemma bindE_split:
  "P (bindE m f) \<longleftrightarrow> (\<forall>e. m = Inl e \<longrightarrow> P (Inl e)) \<and> (\<forall>x. m = Inr x \<longrightarrow> P (f x))"
  by (cases m) simp_all

section \<open>Lists\<close>

text \<open>Exchange two elements of an array.\<close>

definition swap :: "nat \<Rightarrow> nat \<Rightarrow> 'a list \<Rightarrow> 'a list" where
  "swap i j xs = xs[i := xs ! j, j := xs ! i]"

lemma length_swap [simp]: "length (swap i j xs) = length xs"
  by (simp add: swap_def)

lemma length_ge2_iff: "2 \<le> length xs \<longleftrightarrow> (\<exists>a b r. xs = a # b # r)"
  by (auto simp: Suc_le_length_iff numeral_2_eq_2)

lemma length_ge4_iff: "4 \<le> length xs \<longleftrightarrow> (\<exists>a b c d r. xs = a # b # c # d # r)"
  by (auto simp: Suc_le_length_iff eval_nat_numeral)

text \<open>A counted read from a buffer of the bytes it holds.\<close>

lemma take_append_exact: "length xs = n \<Longrightarrow> take n (xs @ ys) = xs"
  by simp

lemma drop_append_exact: "length xs = n \<Longrightarrow> drop n (xs @ ys) = ys"
  by simp

section \<open>Options\<close>

lemma option_eqI: "(\<And>x. a = Some x \<longleftrightarrow> b = Some x) \<Longrightarrow> a = b"
  by (cases a; cases b) auto

section \<open>Words\<close>

lemma has_bit: "has d (2 ^ n) \<longleftrightarrow> bit (d :: 'a::len word) n"
  by (simp add: bit_iff_and_push_bit_not_eq_0 push_bit_eq_mult)

lemma ucast_byte_eq_mod: "unat (ucast (w :: 'a::len word) :: byte) = unat w mod 256"
  by (simp add: unsigned_ucast_eq take_bit_eq_mod)

text \<open>A \<^verbatim>\<open>char\<close> below \<^verbatim>\<open>0x80\<close> is its code, whether or not \<^verbatim>\<open>char\<close> is signed.\<close>

lemma sint_small_byte: "uint (c :: byte) < 128 \<Longrightarrow> sint c = uint c"
  using signed_take_bit_int_eq_self [of 7 "uint c"] uint_ge_0 [of c] by (simp add: sint_uint)

lemma word8_induct_bits: "(\<And>n. n < 8 \<Longrightarrow> bit (a :: byte) n = bit b n) \<Longrightarrow> a = b"
  by (rule bit_word_eqI) simp

text \<open>Equality of bytes, bit by bit: flag arithmetic becomes propositional.\<close>

lemma byte_eq_bits:
  "(d :: byte) = e \<longleftrightarrow>
     bit d 0 = bit e 0 \<and> bit d 1 = bit e 1 \<and> bit d 2 = bit e 2 \<and> bit d 3 = bit e 3 \<and>
     bit d 4 = bit e 4 \<and> bit d 5 = bit e 5 \<and> bit d 6 = bit e 6 \<and> bit d 7 = bit e 7"
proof
  assume "bit d 0 = bit e 0 \<and> bit d 1 = bit e 1 \<and> bit d 2 = bit e 2 \<and> bit d 3 = bit e 3 \<and>
     bit d 4 = bit e 4 \<and> bit d 5 = bit e 5 \<and> bit d 6 = bit e 6 \<and> bit d 7 = bit e 7"
  then have "bit d n = bit e n" if "n < 8" for n
    using that by (auto simp: less_Suc_eq numeral_eq_Suc)
  then show "d = e" by (rule word8_induct_bits)
qed simp

lemmas byte_bits = byte_eq_bits bit_and_iff bit_or_iff bit_xor_iff bit_not_iff

text \<open>Narrowing to a smaller word commutes with addition.\<close>

lemma ucast_add_16: "(ucast (a + b :: u64) :: u16) = ucast a + ucast b"
proof -
  have "(unat a + unat b) mod 2 ^ 64 mod 2 ^ 16 = (unat a mod 2 ^ 16 + unat b mod 2 ^ 16) mod 2 ^ 16"
    by (simp add: mod_mod_cancel mod_add_eq)
  then show ?thesis
    by (simp add: word_unat_eq_iff unsigned_ucast_eq take_bit_eq_mod unat_word_ariths)
qed

lemma take_bit_small_u32: "unat v < 0x100 \<Longrightarrow> take_bit 8 (ucast (v :: u64) :: u32) = take_bit 16 (ucast v)"
proof -
  assume "unat v < 0x100"
  then have "take_bit 8 v = v"
    by (simp add: word_unat_eq_iff unsigned_take_bit_eq take_bit_nat_eq_self)
  then have "bit v k \<Longrightarrow> k < 8" for k by (metis bit_take_bit_iff)
  then show ?thesis by (intro bit_word_eqI) (auto simp: bit_simps dest: less_trans)
qed

end
