(* ===== verification/Symtab.thy ===== *)
theory Symtab
  imports Prelude
begin

text \<open>
  The assembler's symbol table, \<^verbatim>\<open>as/table.c\<close> with \<^verbatim>\<open>struct sym_s\<close> of
  \<^verbatim>\<open>as/type.h\<close>: a hash table of chains of entries.  A symbol pointer is an
  index into the list of allocated entries, a chain is the list of the entries
  linked by \<^verbatim>\<open>next\<close>.  The interface the scanner relies on is the locale
  \<open>name_table\<close>, which the linker's table satisfies too.
\<close>

section \<open>Flags\<close>

text \<open>Bits of a symbol's \<^verbatim>\<open>type\<close> (\<^verbatim>\<open>as/const.h\<close>).\<close>

abbreviation ENTBIT :: byte where "ENTBIT \<equiv> 0x01"
abbreviation COMMBIT :: byte where "COMMBIT \<equiv> 0x02"
abbreviation LABIT :: byte where "LABIT \<equiv> 0x04"
abbreviation MNREGBIT :: byte where "MNREGBIT \<equiv> 0x08"
abbreviation MACBIT :: byte where "MACBIT \<equiv> 0x10"
abbreviation REDBIT :: byte where "REDBIT \<equiv> 0x20"
abbreviation VARBIT :: byte where "VARBIT \<equiv> 0x40"
abbreviation EXPBIT :: byte where "EXPBIT \<equiv> 0x80"

text \<open>Bits of the \<^verbatim>\<open>data\<close> of a symbol, an expression or the location counter.\<close>

abbreviation REGBIT :: byte where "REGBIT \<equiv> 0x04"
abbreviation SEGM :: byte where "SEGM \<equiv> 0x0F"
abbreviation RELBIT :: byte where "RELBIT \<equiv> 0x10"
abbreviation FORBIT :: byte where "FORBIT \<equiv> 0x20"
abbreviation IMPBIT :: byte where "IMPBIT \<equiv> 0x40"
abbreviation UNDBIT :: byte where "UNDBIT \<equiv> 0x80"

section \<open>Entries and table\<close>

text \<open>
  The union \<^verbatim>\<open>value_reg_or_op\<close> is its widest member, the value; the register
  code and the routine number overlay its low byte, the opcode the next one.
\<close>

record sym_s =
  sy_type :: byte
  sy_data :: byte
  sy_value :: u64
  sy_length :: byte
  sy_name :: "byte list"

definition sy_reg :: "sym_s \<Rightarrow> byte" where
  "sy_reg y = ucast (sy_value y)"

definition sy_routine :: "sym_s \<Rightarrow> byte" where
  "sy_routine y = ucast (sy_value y)"

definition sy_opcode :: "sym_s \<Rightarrow> byte" where
  "sy_opcode y = ucast (drop_bit 8 (sy_value y))"

text \<open>Store the two bytes of the \<^verbatim>\<open>op\<close> member, leaving the rest of the union.\<close>

definition set_op :: "byte \<Rightarrow> byte \<Rightarrow> sym_s \<Rightarrow> sym_s" where
  "set_op routine opcode y =
     y\<lparr>sy_value := (sy_value y AND NOT 0xFFFF) OR ucast routine OR push_bit 8 (ucast opcode)\<rparr>"

record symtab =
  syms :: "sym_s list"
  spt :: "nat \<Rightarrow> nat list"
  ifflag :: bool
  inidata :: byte

abbreviation SPTSIZ :: nat where "SPTSIZ \<equiv> 1024"

text \<open>An assignment through a symbol pointer.\<close>

definition upd_sym :: "nat \<Rightarrow> (sym_s \<Rightarrow> sym_s) \<Rightarrow> 'a symtab_scheme \<Rightarrow> 'a symtab_scheme" where
  "upd_sym r f s = s\<lparr>syms := (syms s)[r := f (syms s ! r)]\<rparr>"

section \<open>Lookup\<close>

definition hconv :: "byte \<Rightarrow> u32" where
  "hconv ch = ucast ch - 0x41"

definition hash_name :: "byte list \<Rightarrow> nat" where
  "hash_name name =
     (let n = length name;
          hashval =
            (if n \<le> 3 then
               (if n \<le> 2 then hconv (name ! (n - 1)) * 16
                else hconv (name ! (n - 2)) * 16 XOR hconv (name ! (n - 1)))
             else hconv (name ! (n - n div 2)) * 16
                  XOR push_bit 2 (hconv (name ! (n - 2)))
                  XOR hconv (name ! (n - 1)))
      in unat ((hashval XOR push_bit 1 (hconv (name ! 0))) mod 1024))"

text \<open>
  The comparison of one chain entry: the stored length is one byte, and
  \<^verbatim>\<open>memcmp\<close> compares as many bytes as the name sought has.
\<close>

definition sym_matches :: "sym_s list \<Rightarrow> byte list \<Rightarrow> nat \<Rightarrow> bool" where
  "sym_matches ys name r \<longleftrightarrow>
     of_nat (length name) = sy_length (ys ! r) \<and> take (length name) (sy_name (ys ! r)) = name"

definition new_sym :: "byte \<Rightarrow> byte list \<Rightarrow> sym_s" where
  "new_sym ini name =
     \<lparr>sy_type = 0, sy_data = ini, sy_value = 0, sy_length = of_nat (length name), sy_name = name\<rparr>"

definition find_sym :: "byte list \<Rightarrow> 'a symtab_scheme \<Rightarrow> nat option" where
  "find_sym name s = List.find (sym_matches (syms s) name) (spt s (hash_name name))"

definition add_sym :: "byte list \<Rightarrow> 'a symtab_scheme \<Rightarrow> nat \<times> 'a symtab_scheme" where
  "add_sym name s =
     (let h = hash_name name; r = length (syms s)
      in (r, s\<lparr>syms := syms s @ [new_sym (inidata s) name],
               spt := (spt s)(h := spt s h @ [r])\<rparr>))"

definition lookup :: "byte list \<Rightarrow> 'a symtab_scheme \<Rightarrow> nat option \<times> 'a symtab_scheme" where
  "lookup name s =
     (case find_sym name s of
        Some r \<Rightarrow> (Some r, s)
      | None \<Rightarrow> if \<not> ifflag s then (None, s)
                else (case add_sym name s of (r, s') \<Rightarrow> (Some r, s')))"

section \<open>The interface: tables of named entries\<close>

locale name_table =
  fixes inv :: "'s \<Rightarrow> bool"
    and key_ok :: "'k \<Rightarrow> bool"
    and look :: "'k \<Rightarrow> 's \<Rightarrow> 'p option"
    and add :: "'k \<Rightarrow> 's \<Rightarrow> 'p \<times> 's"
  assumes add_inv:
      "\<lbrakk>inv s; key_ok k; look k s = None\<rbrakk> \<Longrightarrow> inv (snd (add k s))"
    and look_add:
      "\<lbrakk>inv s; key_ok k; key_ok k'; look k s = None\<rbrakk> \<Longrightarrow>
         look k' (snd (add k s)) = (if k' = k then Some (fst (add k s)) else look k' s)"
    and look_inj:
      "\<lbrakk>inv s; key_ok k; key_ok k'; look k s = Some p; look k' s = Some p\<rbrakk> \<Longrightarrow> k' = k"
begin

text \<open>Find an entry or make one, as both tools do with every name they meet.\<close>

definition intern :: "'k \<Rightarrow> 's \<Rightarrow> 'p \<times> 's" where
  "intern k s = (case look k s of Some p \<Rightarrow> (p, s) | None \<Rightarrow> add k s)"

fun intern_all :: "'k list \<Rightarrow> 's \<Rightarrow> 'p list \<times> 's" where
  "intern_all [] s = ([], s)"
| "intern_all (k # ks) s =
     (let (p, s1) = intern k s; (ps, s2) = intern_all ks s1 in (p # ps, s2))"

lemma intern_inv: "\<lbrakk>inv s; key_ok k\<rbrakk> \<Longrightarrow> inv (snd (intern k s))"
  by (auto simp: intern_def add_inv split: option.split)

lemma look_intern:
  "\<lbrakk>inv s; key_ok k; key_ok k'\<rbrakk> \<Longrightarrow>
     look k' (snd (intern k s)) = (if k' = k then Some (fst (intern k s)) else look k' s)"
  by (auto simp: intern_def look_add split: option.split)

lemma intern_idem: "\<lbrakk>inv s; key_ok k\<rbrakk> \<Longrightarrow> intern k (snd (intern k s)) = intern k s"
  using look_intern [of s k k] by (simp add: intern_def [of k "snd (intern k s)"] prod_eq_iff)

text \<open>An entry, once found, stays where it is however many names are interned.\<close>

lemma look_intern_all:
  "\<lbrakk>inv s; \<forall>k\<in>set ks. key_ok k; key_ok k'; look k' s = Some p\<rbrakk> \<Longrightarrow>
     look k' (snd (intern_all ks s)) = Some p"
proof (induction ks arbitrary: s)
  case Nil
  then show ?case by simp
next
  case (Cons k ks)
  have "look k' (snd (intern k s)) = Some p"
    using Cons.prems look_intern [of s k k'] by (auto simp: intern_def)
  moreover have "inv (snd (intern k s))"
    using Cons.prems intern_inv by simp
  ultimately have "look k' (snd (intern_all ks (snd (intern k s)))) = Some p"
    using Cons.IH Cons.prems by simp
  then show ?case by (simp add: Let_def case_prod_beta)
qed

lemma intern_all_inv:
  "\<lbrakk>inv s; \<forall>k\<in>set ks. key_ok k\<rbrakk> \<Longrightarrow> inv (snd (intern_all ks s))"
  by (induction ks arbitrary: s) (simp_all add: Let_def case_prod_beta intern_inv)

lemma length_intern_all: "length (fst (intern_all ks s)) = length ks"
  by (induction ks arbitrary: s) (simp_all add: Let_def case_prod_beta)

lemma intern_all_found:
  "\<lbrakk>inv s; \<forall>k\<in>set ks. key_ok k; i < length ks\<rbrakk> \<Longrightarrow>
     look (ks ! i) (snd (intern_all ks s)) = Some (fst (intern_all ks s) ! i)"
proof (induction ks arbitrary: s i)
  case Nil
  then show ?case by simp
next
  case (Cons k ks)
  have inv1: "inv (snd (intern k s))"
    using Cons.prems intern_inv by simp
  show ?case
  proof (cases i)
    case 0
    have "look k (snd (intern k s)) = Some (fst (intern k s))"
      using Cons.prems look_intern by simp
    then have "look k (snd (intern_all ks (snd (intern k s)))) = Some (fst (intern k s))"
      using Cons.prems inv1 look_intern_all by simp
    with 0 show ?thesis by (simp add: Let_def case_prod_beta)
  next
    case (Suc j)
    with Cons.prems have "j < length ks" by simp
    with Suc Cons.IH [OF inv1] Cons.prems show ?thesis
      by (simp add: Let_def case_prod_beta)
  qed
qed

text \<open>Equal names share an entry and different names never do.\<close>

lemma intern_all_eq_iff:
  assumes "inv s" "\<forall>k\<in>set ks. key_ok k" "i < length ks" "j < length ks"
  shows "fst (intern_all ks s) ! i = fst (intern_all ks s) ! j \<longleftrightarrow> ks ! i = ks ! j"
proof -
  have "look (ks ! i) (snd (intern_all ks s)) = Some (fst (intern_all ks s) ! i)"
    and "look (ks ! j) (snd (intern_all ks s)) = Some (fst (intern_all ks s) ! j)"
    using assms intern_all_found by blast+
  moreover have "inv (snd (intern_all ks s))"
    using assms intern_all_inv by blast
  ultimately show ?thesis
    using look_inj assms nth_mem by (metis option.inject)
qed

end

section \<open>Invariant\<close>

text \<open>
  Every entry is on the chain its name hashes to and on no other, names are
  never repeated, and the stored length is the length of the name (names of up
  to 255 characters; the byte that stores it wraps beyond).
\<close>

definition symtab_ok :: "'a symtab_scheme \<Rightarrow> bool" where
  "symtab_ok s \<longleftrightarrow>
     (\<forall>h. \<forall>r\<in>set (spt s h). r < length (syms s) \<and> hash_name (sy_name (syms s ! r)) = h) \<and>
     (\<forall>r<length (syms s). r \<in> set (spt s (hash_name (sy_name (syms s ! r)))) \<and>
        sy_length (syms s ! r) = of_nat (length (sy_name (syms s ! r))) \<and>
        length (sy_name (syms s ! r)) < 256) \<and>
     distinct (map sy_name (syms s))"

text \<open>The reference: a search of all entries by name, without any hashing.\<close>

definition sym_abs :: "'a symtab_scheme \<Rightarrow> byte list \<Rightarrow> nat option" where
  "sym_abs s name = List.find (\<lambda>r. sy_name (syms s ! r) = name) [0..<length (syms s)]"

lemma byte_length_eq:
  assumes "m < 256" and "n < 256" and "(of_nat m :: byte) = of_nat n"
  shows "m = n"
proof -
  have "unat (of_nat m :: byte) = unat (of_nat n :: byte)"
    using assms(3) by simp
  with assms(1,2) show ?thesis
    by (simp add: unat_of_nat)
qed

lemma sym_matches_iff:
  assumes "symtab_ok s" and "r < length (syms s)" and "length name < 256"
  shows "sym_matches (syms s) name r \<longleftrightarrow> sy_name (syms s ! r) = name"
proof -
  from assms have y: "sy_length (syms s ! r) = of_nat (length (sy_name (syms s ! r)))"
    "length (sy_name (syms s ! r)) < 256"
    by (auto simp: symtab_ok_def)
  show ?thesis
  proof
    assume "sym_matches (syms s) name r"
    then have "length name = length (sy_name (syms s ! r))"
      and "take (length name) (sy_name (syms s ! r)) = name"
      using byte_length_eq [OF assms(3) y(2)] y(1) by (simp_all add: sym_matches_def)
    then show "sy_name (syms s ! r) = name" by simp
  next
    assume "sy_name (syms s ! r) = name"
    with y show "sym_matches (syms s) name r" by (auto simp: sym_matches_def)
  qed
qed

lemma distinct_names_unique:
  "\<lbrakk>symtab_ok s; r < length (syms s); q < length (syms s);
    sy_name (syms s ! r) = sy_name (syms s ! q)\<rbrakk> \<Longrightarrow> r = q"
  using nth_eq_iff_index_eq [of "map sy_name (syms s)" r q] by (simp add: symtab_ok_def)

lemma find_Some_unique:
  assumes "\<And>q. q \<in> set xs \<Longrightarrow> P q \<longleftrightarrow> q = r" and "r \<in> set xs"
  shows "List.find P xs = Some r"
  using assms by (induction xs) auto

lemma find_sym_Some_iff:
  assumes ok: "symtab_ok s" and len: "length name < 256"
  shows "find_sym name s = Some r \<longleftrightarrow> r < length (syms s) \<and> sy_name (syms s ! r) = name"
proof
  assume "find_sym name s = Some r"
  then have "r \<in> set (spt s (hash_name name))" and m: "sym_matches (syms s) name r"
    by (auto simp: find_sym_def find_Some_iff)
  with ok have r: "r < length (syms s)" by (auto simp: symtab_ok_def)
  with m show "r < length (syms s) \<and> sy_name (syms s ! r) = name"
    using sym_matches_iff [OF ok r len] by simp
next
  assume r: "r < length (syms s) \<and> sy_name (syms s ! r) = name"
  have "List.find (sym_matches (syms s) name) (spt s (hash_name name)) = Some r"
  proof (rule find_Some_unique)
    show "r \<in> set (spt s (hash_name name))"
      using ok r by (auto simp: symtab_ok_def)
    fix q
    assume "q \<in> set (spt s (hash_name name))"
    with ok have "q < length (syms s)" by (auto simp: symtab_ok_def)
    then show "sym_matches (syms s) name q \<longleftrightarrow> q = r"
      using sym_matches_iff [OF ok _ len] distinct_names_unique [OF ok] r by metis
  qed
  then show "find_sym name s = Some r" by (simp add: find_sym_def)
qed

lemma sym_abs_Some_iff:
  assumes "symtab_ok s"
  shows "sym_abs s name = Some r \<longleftrightarrow> r < length (syms s) \<and> sy_name (syms s ! r) = name"
proof
  assume "sym_abs s name = Some r"
  then show "r < length (syms s) \<and> sy_name (syms s ! r) = name"
    by (auto simp: sym_abs_def find_Some_iff)
next
  assume r: "r < length (syms s) \<and> sy_name (syms s ! r) = name"
  show "sym_abs s name = Some r"
    unfolding sym_abs_def
    by (rule find_Some_unique) (use r distinct_names_unique [OF assms] in auto)
qed

lemma find_sym_eq_abs:
  "\<lbrakk>symtab_ok s; length name < 256\<rbrakk> \<Longrightarrow> find_sym name s = sym_abs s name"
  by (rule option_eqI) (simp add: find_sym_Some_iff sym_abs_Some_iff)

section \<open>Installing an entry\<close>

lemma add_sym_simps [simp]:
  "fst (add_sym name s) = length (syms s)"
  "syms (snd (add_sym name s)) = syms s @ [new_sym (inidata s) name]"
  "spt (snd (add_sym name s)) =
     (spt s)(hash_name name := spt s (hash_name name) @ [length (syms s)])"
  "ifflag (snd (add_sym name s)) = ifflag s"
  "inidata (snd (add_sym name s)) = inidata s"
  by (simp_all add: add_sym_def Let_def)

lemma new_sym_simps [simp]:
  "sy_name (new_sym ini name) = name"
  "sy_length (new_sym ini name) = of_nat (length name)"
  by (simp_all add: new_sym_def)

lemma add_sym_ok:
  assumes ok: "symtab_ok s" and len: "length name < 256" and none: "find_sym name s = None"
  shows "symtab_ok (snd (add_sym name s))"
proof -
  let ?n = "length (syms s)"
  have fresh: "name \<notin> sy_name ` set (syms s)"
  proof
    assume "name \<in> sy_name ` set (syms s)"
    then obtain r where "r < ?n" "sy_name (syms s ! r) = name"
      by (auto simp: in_set_conv_nth)
    with none find_sym_Some_iff [OF ok len] show False by (metis option.distinct(1))
  qed
  have nth: "sy_name ((syms s @ [new_sym i name]) ! r) =
      (if r < ?n then sy_name (syms s ! r) else name)" if "r < Suc ?n" for r i
    using that by (auto simp: nth_append less_Suc_eq)
  have chain: "r < ?n" "hash_name (sy_name (syms s ! r)) = h" if "r \<in> set (spt s h)" for r h
    using ok that by (auto simp: symtab_ok_def)
  have entry: "r \<in> set (spt s (hash_name (sy_name (syms s ! r))))"
    "sy_length (syms s ! r) = of_nat (length (sy_name (syms s ! r)))"
    "length (sy_name (syms s ! r)) < 256" if "r < ?n" for r
    using ok that by (auto simp: symtab_ok_def)
  have "r < Suc ?n \<and> hash_name (sy_name ((syms s @ [new_sym i name]) ! r)) = h"
    if "r \<in> set (((spt s)(hash_name name := spt s (hash_name name) @ [?n])) h)" for r h i
    using that chain nth [of r i] by (force split: if_splits)
  moreover have "r \<in> set (((spt s)(hash_name name := spt s (hash_name name) @ [?n]))
        (hash_name (sy_name ((syms s @ [new_sym i name]) ! r)))) \<and>
      sy_length ((syms s @ [new_sym i name]) ! r) =
        of_nat (length (sy_name ((syms s @ [new_sym i name]) ! r))) \<and>
      length (sy_name ((syms s @ [new_sym i name]) ! r)) < 256" if "r < Suc ?n" for r i
    using entry [of r] len nth [OF that] that
    by (cases "r = ?n") (auto simp: nth_append)
  moreover have "distinct (map sy_name (syms s @ [new_sym i name]))" for i
    using ok fresh by (simp add: symtab_ok_def)
  ultimately show ?thesis
    by (simp add: symtab_ok_def)
qed

lemma sym_abs_add_sym:
  assumes ok: "symtab_ok s" and len: "length name < 256" and none: "find_sym name s = None"
  shows "sym_abs (snd (add_sym name s)) = (sym_abs s)(name \<mapsto> length (syms s))"
proof
  fix k
  have ok': "symtab_ok (snd (add_sym name s))"
    using assms by (rule add_sym_ok)
  have unknown: "sy_name (syms s ! r) \<noteq> name" if "r < length (syms s)" for r
    using none find_sym_Some_iff [OF ok len, of r] that by auto
  have "sym_abs (snd (add_sym name s)) k = Some r \<longleftrightarrow>
      ((sym_abs s)(name \<mapsto> length (syms s))) k = Some r" for r
    using unknown [of r]
    by (cases "r < length (syms s)")
       (auto simp: sym_abs_Some_iff [OF ok'] sym_abs_Some_iff [OF ok] nth_append)
  then show "sym_abs (snd (add_sym name s)) k = ((sym_abs s)(name \<mapsto> length (syms s))) k"
    by (rule option_eqI)
qed

interpretation as_table: name_table symtab_ok "\<lambda>name. length name < 256" find_sym add_sym
proof
  fix s :: "'a symtab_scheme" and k k' :: "byte list" and p
  assume ok: "symtab_ok s" and k: "length k < 256"
  { assume none: "find_sym k s = None"
    show "symtab_ok (snd (add_sym k s))"
      using ok k none by (rule add_sym_ok)
    assume k': "length k' < 256"
    have "symtab_ok (snd (add_sym k s))"
      using ok k none by (rule add_sym_ok)
    then show "find_sym k' (snd (add_sym k s)) =
        (if k' = k then Some (fst (add_sym k s)) else find_sym k' s)"
      using ok k k' none
      by (simp add: find_sym_eq_abs sym_abs_add_sym) }
  assume "length k' < 256" "find_sym k s = Some p" "find_sym k' s = Some p"
  with ok k show "k' = k" by (simp add: find_sym_Some_iff)
qed

text \<open>
  C2: on a well-formed table, \<^verbatim>\<open>lookup\<close> agrees with a linear search of all
  entries: a known name gives its entry and changes nothing; an unknown one is
  refused while not assembling, and otherwise becomes a new entry that the
  search finds from then on, with every other name unaffected and the table
  still well-formed.
\<close>

theorem lookup_spec:
  assumes "symtab_ok s" and "length name < 256"
  shows "case sym_abs s name of
           Some r \<Rightarrow> lookup name s = (Some r, s)
         | None \<Rightarrow>
             if ifflag s then
               fst (lookup name s) = Some (length (syms s)) \<and>
               sym_abs (snd (lookup name s)) = (sym_abs s)(name \<mapsto> length (syms s)) \<and>
               symtab_ok (snd (lookup name s))
             else lookup name s = (None, s)"
proof (cases "find_sym name s")
  case None
  then show ?thesis
    using assms sym_abs_add_sym [OF assms None] add_sym_ok [OF assms None]
    by (simp add: lookup_def find_sym_eq_abs [symmetric] case_prod_beta)
next
  case (Some r)
  then show ?thesis
    using assms by (simp add: lookup_def find_sym_eq_abs [symmetric])
qed

abbreviation empty_symtab :: symtab
  where "empty_symtab \<equiv> \<lparr>syms = [], spt = (\<lambda>_. []), ifflag = True, inidata = 0x90\<rparr>"

lemma empty_symtab_ok: "symtab_ok empty_symtab"
  by (simp add: symtab_ok_def)

theorem lookup_spec_witness:
  "fst (lookup (bytes_of ''START'') empty_symtab) = Some 0 \<and>
   symtab_ok (snd (lookup (bytes_of ''START'') empty_symtab))"
  using lookup_spec [OF empty_symtab_ok, of "bytes_of ''START''"] by (simp add: sym_abs_def)

section \<open>Assignments through symbol pointers\<close>

lemma length_upd_sym [simp]: "length (syms (upd_sym r f s)) = length (syms s)"
  by (simp add: upd_sym_def)

lemma upd_sym_frame [simp]:
  "spt (upd_sym r f s) = spt s"
  "ifflag (upd_sym r f s) = ifflag s"
  "inidata (upd_sym r f s) = inidata s"
  by (simp_all add: upd_sym_def)

definition keeps_name :: "(sym_s \<Rightarrow> sym_s) \<Rightarrow> bool" where
  "keeps_name f \<longleftrightarrow> (\<forall>y. sy_name (f y) = sy_name y \<and> sy_length (f y) = sy_length y)"

lemma nth_upd_sym:
  "r < length (syms s) \<Longrightarrow>
   syms (upd_sym r f s) ! q = (if q = r then f (syms s ! r) else syms s ! q)"
  by (simp add: upd_sym_def nth_list_update)

lemma upd_sym_names:
  assumes "keeps_name f"
  shows "sy_name (syms (upd_sym r f s) ! q) = sy_name (syms s ! q)"
    and "sy_length (syms (upd_sym r f s) ! q) = sy_length (syms s ! q)"
    and "map sy_name (syms (upd_sym r f s)) = map sy_name (syms s)"
proof -
  show n: "sy_name (syms (upd_sym r f s) ! q) = sy_name (syms s ! q)"
    and "sy_length (syms (upd_sym r f s) ! q) = sy_length (syms s ! q)" for q
    using assms
    by (cases "r < length (syms s)";
        simp add: upd_sym_def keeps_name_def nth_list_update list_update_beyond)+
  show "map sy_name (syms (upd_sym r f s)) = map sy_name (syms s)"
    by (rule nth_equalityI) (simp_all add: n)
qed

lemma upd_sym_ok: "\<lbrakk>keeps_name f; symtab_ok s\<rbrakk> \<Longrightarrow> symtab_ok (upd_sym r f s)"
  by (simp add: symtab_ok_def upd_sym_names)

lemma find_sym_upd_sym: "keeps_name f \<Longrightarrow> find_sym name (upd_sym r f s) = find_sym name s"
proof -
  assume "keeps_name f"
  then have "sym_matches (syms (upd_sym r f s)) name = sym_matches (syms s) name"
    by (simp add: fun_eq_iff sym_matches_def upd_sym_names)
  then show "find_sym name (upd_sym r f s) = find_sym name s"
    by (simp add: find_sym_def)
qed

end
