(* ===== verification/Scan.thy ===== *)
theory Scan
  imports Symtab
begin

text \<open>
  The assembler's lexical analyser, \<^verbatim>\<open>as/scan.c\<close>.  The source text is a byte
  list; \<^verbatim>\<open>linebuf\<close>, \<^verbatim>\<open>lineptr\<close> and \<^verbatim>\<open>symname\<close> are offsets into it.  A read
  past the end gives the terminating null byte.
\<close>

section \<open>Symbol codes\<close>

datatype symcode =
    IDENT | INTCONST
  | ADDOP | BINCONST | CHARCONST | GREATERTHAN | HEXCONST | LESSTHAN | SUBOP | WHITESPACE
  | ANDOP | COMMA | EOLSYM | EQOP | IMMEDIATE | INDIRECT | LBRACKET | LPAREN | MACROARG
  | NOTOP | OROP | OTHERSYM | POSTINCOP | PREDECOP | RBRACKET | RPAREN | SLASH | SLOP
  | SROP | STAR | STRINGCONST | COLON

text \<open>The table \<^verbatim>\<open>symofchar\<close>, by ranges of character codes.\<close>

definition symofchar :: "byte \<Rightarrow> symcode" where
  "symofchar c =
     (if c = 0 \<or> c = 0x0A then EOLSYM
      else if c \<le> 0x20 then WHITESPACE
      else if c = 0x21 then EOLSYM
      else if c = 0x22 then STRINGCONST
      else if c = 0x23 then IMMEDIATE
      else if c = 0x24 then HEXCONST
      else if c = 0x25 then BINCONST
      else if c = 0x26 then ANDOP
      else if c = 0x27 then CHARCONST
      else if c = 0x28 then LPAREN
      else if c = 0x29 then RPAREN
      else if c = 0x2A then STAR
      else if c = 0x2B then ADDOP
      else if c = 0x2C then COMMA
      else if c = 0x2D then SUBOP
      else if c = 0x2E then IDENT
      else if c = 0x2F then SLASH
      else if c \<le> 0x39 then INTCONST
      else if c = 0x3A then COLON
      else if c = 0x3B then EOLSYM
      else if c = 0x3C then LESSTHAN
      else if c = 0x3D then EQOP
      else if c = 0x3E then GREATERTHAN
      else if c = 0x3F then MACROARG
      else if c = 0x40 then INDIRECT
      else if c \<le> 0x5A then IDENT
      else if c = 0x5B then LBRACKET
      else if c = 0x5C then OTHERSYM
      else if c = 0x5D then RBRACKET
      else if c = 0x5E then OTHERSYM
      else if c = 0x5F then IDENT
      else if c = 0x60 then OTHERSYM
      else if c \<le> 0x7A then IDENT
      else if c = 0x7C then OROP
      else if c = 0x7E then NOTOP
      else if c \<le> 0x7F then OTHERSYM
      else WHITESPACE)"

lemma symofchar_0 [simp]: "symofchar 0 = EOLSYM"
  by (simp add: symofchar_def)

section \<open>Scanner state\<close>

record scan = symtab +
  srcbuf :: "byte list"
  linebuf :: nat
  lineptr :: nat
  symname :: nat
  sym :: symcode
  number :: u64
  numbase :: u64
  gsymptr :: "nat option"

definition rdch :: "byte list \<Rightarrow> nat \<Rightarrow> byte" where
  "rdch buf i = (if i < length buf then buf ! i else 0)"

lemma rdch_beyond [simp]: "length buf \<le> i \<Longrightarrow> rdch buf i = 0"
  by (simp add: rdch_def)

lemma rdch_append: "rdch (xs @ ys) i = (if i < length xs then xs ! i else rdch ys (i - length xs))"
  by (auto simp: rdch_def nth_append)

lemma rdch_drop: "rdch (drop i buf) j = rdch buf (i + j)"
  by (auto simp: rdch_def)

lemma rdch_Cons_0 [simp]: "rdch (c # cs) 0 = c"
  by (simp add: rdch_def)

lemma rdch_via_drop: "drop i buf = rest \<Longrightarrow> rdch buf i = rdch rest 0"
  using rdch_drop [of i buf 0] by simp

lemma drop_Suc_via_drop: "drop i buf = c # cs \<Longrightarrow> drop (Suc i) buf = cs"
  by (metis drop_Suc tl_drop list.sel(3))

section \<open>Loops over the text\<close>

text \<open>Label \<^verbatim>\<open>advance\<close> of \<^verbatim>\<open>getsym\<close>: skip white space.\<close>

function advance :: "byte list \<Rightarrow> nat \<Rightarrow> nat" where
  "advance buf i = (if symofchar (rdch buf i) = WHITESPACE then advance buf (Suc i) else i)"
  by pat_completeness auto
termination
proof (relation "measure (\<lambda>(buf, i). length buf - i)")
  fix buf i
  assume "symofchar (rdch buf i) = WHITESPACE"
  then have "i < length buf" by (cases "i < length buf") simp_all
  then show "((buf, Suc i), (buf, i)) \<in> measure (\<lambda>(buf, i). length buf - i)" by simp
qed simp

declare advance.simps [simp del]

text \<open>Walk to the end of an identifier: \<^verbatim>\<open>IDENT\<close> and \<^verbatim>\<open>INTCONST\<close> are the two least codes.\<close>

definition ident_char :: "byte \<Rightarrow> bool" where
  "ident_char c \<longleftrightarrow> symofchar c \<in> {IDENT, INTCONST}"

function ident_end :: "byte list \<Rightarrow> nat \<Rightarrow> nat" where
  "ident_end buf i = (if ident_char (rdch buf i) then ident_end buf (Suc i) else i)"
  by pat_completeness auto
termination
proof (relation "measure (\<lambda>(buf, i). length buf - i)")
  fix buf i
  assume "ident_char (rdch buf i)"
  then have "i < length buf" by (cases "i < length buf") (simp_all add: ident_char_def)
  then show "((buf, Suc i), (buf, i)) \<in> measure (\<lambda>(buf, i). length buf - i)" by simp
qed simp

declare ident_end.simps [simp del]

text \<open>
  The digit a character adds to a number in a given base, if it continues the
  number (\<^verbatim>\<open>char\<close> is signed, so codes above \<^verbatim>\<open>0x7F\<close> are below \<^verbatim>\<open>'0'\<close>).  As in the
  source, decimal digits are accepted in every base.
\<close>

definition digit_of :: "u64 \<Rightarrow> byte \<Rightarrow> u64 option" where
  "digit_of base c =
     (if sint c < 0x30 then None
      else if 0x39 < sint c then
        (if base \<noteq> 16 then None
         else if 0x61 \<le> sint c \<and> sint c \<le> 0x66 then Some (ucast c - 0x61 + 10)
         else if 0x41 \<le> sint c \<and> sint c \<le> 0x46 then Some (ucast c - 0x41 + 10)
         else None)
      else Some (ucast c - 0x30))"

lemma digit_of_0 [simp]: "digit_of base 0 = None"
  by (simp add: digit_of_def)

function int_loop :: "u64 \<Rightarrow> byte list \<Rightarrow> nat \<Rightarrow> u64 \<Rightarrow> nat \<times> u64" where
  "int_loop base buf i n =
     (case digit_of base (rdch buf i) of
        None \<Rightarrow> (i, n)
      | Some d \<Rightarrow> int_loop base buf (Suc i) (if n \<noteq> 0 then base * n + d else d))"
  by pat_completeness auto
termination
proof (relation "measure (\<lambda>(base, buf, i, n). length buf - i)")
  fix base buf i n d
  assume "digit_of base (rdch buf i) = Some d"
  then have "i < length buf" by (cases "i < length buf") simp_all
  then show "((base, buf, Suc i, if n \<noteq> 0 then base * n + d else d), (base, buf, i, n))
      \<in> measure (\<lambda>(base, buf, i, n). length buf - i)" by simp
qed simp

declare int_loop.simps [simp del]

definition intconst :: "'a scan_scheme \<Rightarrow> 'a scan_scheme" where
  "intconst s =
     (case int_loop (numbase s) (srcbuf s) (lineptr s) 0 of (i, n) \<Rightarrow>
        s\<lparr>number := n, sym := INTCONST,
          lineptr := (if rdch (srcbuf s) i \<in> {0x4C, 0x6C} then Suc i else i)\<rparr>)"

definition context_hexconst :: "'a scan_scheme \<Rightarrow> 'a scan_scheme" where
  "context_hexconst s = intconst (s\<lparr>numbase := 16\<rparr>)"

text \<open>The name between \<^verbatim>\<open>symname\<close> and \<^verbatim>\<open>lineptr\<close>, and its entry.\<close>

definition cur_name :: "'a scan_scheme \<Rightarrow> byte list" where
  "cur_name s = take (lineptr s - symname s) (drop (symname s) (srcbuf s))"

definition lookup_cur :: "'a scan_scheme \<Rightarrow> 'a scan_scheme" where
  "lookup_cur s = (case lookup (cur_name s) s of (r, s') \<Rightarrow> s'\<lparr>gsymptr := r\<rparr>)"

definition getsym :: "'a scan_scheme \<Rightarrow> 'a scan_scheme" where
  "getsym s =
     (let buf = srcbuf s;
          p = advance buf (lineptr s);
          q = Suc p;
          c = rdch buf p;
          n = rdch buf q;
          s = s\<lparr>symname := p, sym := symofchar c\<rparr>
      in case symofchar c of
           ADDOP \<Rightarrow> if n = 0x2B then s\<lparr>sym := POSTINCOP, lineptr := Suc q\<rparr> else s\<lparr>lineptr := q\<rparr>
         | BINCONST \<Rightarrow> intconst (s\<lparr>numbase := 2, lineptr := q\<rparr>)
         | CHARCONST \<Rightarrow>
             let v = (scast n :: u64);
                 q1 = (if symofchar (rdch buf (Suc q)) = CHARCONST then Suc q else q);
                 q2 = (if rdch buf q1 \<noteq> 0 then Suc q1 else q1)
             in s\<lparr>number := (if v < 0x20 then 0x20 else v), sym := INTCONST, lineptr := q2\<rparr>
         | GREATERTHAN \<Rightarrow> if n = 0x3E then s\<lparr>sym := SROP, lineptr := Suc q\<rparr> else s\<lparr>lineptr := q\<rparr>
         | HEXCONST \<Rightarrow> intconst (s\<lparr>numbase := 16, lineptr := q\<rparr>)
         | IDENT \<Rightarrow> lookup_cur (s\<lparr>lineptr := ident_end buf q\<rparr>)
         | INTCONST \<Rightarrow>
             if c = 0x30 then
               if n \<noteq> 0x78 \<and> n \<noteq> 0x58 then intconst (s\<lparr>numbase := 8, lineptr := q\<rparr>)
               else intconst (s\<lparr>numbase := 16, lineptr := Suc q\<rparr>)
             else intconst (s\<lparr>numbase := 10, lineptr := p\<rparr>)
         | LESSTHAN \<Rightarrow> if n = 0x3C then s\<lparr>sym := SLOP, lineptr := Suc q\<rparr> else s\<lparr>lineptr := q\<rparr>
         | SUBOP \<Rightarrow> if n = 0x2D then s\<lparr>sym := PREDECOP, lineptr := Suc q\<rparr> else s\<lparr>lineptr := q\<rparr>
         | _ \<Rightarrow> s\<lparr>lineptr := q\<rparr>)"

definition getsym_nolookup :: "'a scan_scheme \<Rightarrow> 'a scan_scheme" where
  "getsym_nolookup s = (getsym (s\<lparr>ifflag := False\<rparr>))\<lparr>ifflag := ifflag s\<rparr>"

section \<open>Frame and progress\<close>

lemma advance_ge: "i \<le> advance buf i"
proof (induction buf i rule: advance.induct)
  case (1 buf i)
  then show ?case
    by (cases "symofchar (rdch buf i) = WHITESPACE") (simp_all add: advance.simps [of buf i])
qed

lemma advance_beyond: "length buf \<le> i \<Longrightarrow> advance buf i = i"
  by (simp add: advance.simps [of buf i])

lemma ident_end_ge: "i \<le> ident_end buf i"
proof (induction buf i rule: ident_end.induct)
  case (1 buf i)
  then show ?case
    by (cases "ident_char (rdch buf i)") (simp_all add: ident_end.simps [of buf i])
qed

lemma int_loop_ge: "i \<le> fst (int_loop base buf i n)"
proof (induction base buf i n rule: int_loop.induct)
  case (1 base buf i n)
  show ?case
  proof (cases "digit_of base (rdch buf i)")
    case None
    then show ?thesis by (simp add: int_loop.simps [of base buf i n])
  next
    case (Some d)
    with "1" show ?thesis by (simp add: int_loop.simps [of base buf i n] Suc_le_eq)
  qed
qed

lemma decimal_digit_of:
  assumes "symofchar c = INTCONST"
  shows "digit_of base c = Some (ucast c - 0x30)"
proof -
  have "0x30 \<le> c \<and> c \<le> 0x39"
    using assms
    by (auto simp: symofchar_def unat_arith_simps split: if_splits) presburger
  then have "0x30 \<le> uint c \<and> uint c \<le> 0x39"
    by (simp add: word_le_def)
  then show ?thesis
    by (simp add: digit_of_def sint_small_byte)
qed

text \<open>What a call of the scanner leaves alone.\<close>

lemma lookup_frame:
  fixes s :: "'a scan_scheme"
  shows "srcbuf (snd (lookup name s)) = srcbuf s"
    and "linebuf (snd (lookup name s)) = linebuf s"
    and "lineptr (snd (lookup name s)) = lineptr s"
    and "sym (snd (lookup name s)) = sym s"
    and "symname (snd (lookup name s)) = symname s"
    and "number (snd (lookup name s)) = number s"
    and "scan.more (snd (lookup name s)) = scan.more s"
  by (auto simp: lookup_def add_sym_def Let_def split: option.split)

lemma lookup_symtab:
  "ifflag (snd (lookup name s)) = ifflag s"
  "inidata (snd (lookup name s)) = inidata s"
  "length (syms s) \<le> length (syms (snd (lookup name s)))"
  by (auto simp: lookup_def add_sym_def Let_def split: option.split)

lemma intconst_frame [simp]:
  "srcbuf (intconst s) = srcbuf s"
  "linebuf (intconst s) = linebuf s"
  "symname (intconst s) = symname s"
  "sym (intconst s) = INTCONST"
  "syms (intconst s) = syms s"
  "spt (intconst s) = spt s"
  "ifflag (intconst s) = ifflag s"
  "inidata (intconst s) = inidata s"
  "gsymptr (intconst s) = gsymptr s"
  "scan.more (intconst s) = scan.more s"
  by (simp_all add: intconst_def case_prod_beta)

lemma intconst_ge: "lineptr s \<le> lineptr (intconst s)"
  using int_loop_ge [of "lineptr s" "numbase s" "srcbuf s" 0]
  by (simp add: intconst_def case_prod_beta)

lemma intconst_digit_gt:
  assumes "digit_of (numbase s) (rdch (srcbuf s) (lineptr s)) = Some d"
  shows "lineptr s < lineptr (intconst s)"
proof -
  have "lineptr s < fst (int_loop (numbase s) (srcbuf s) (lineptr s) 0)"
    using assms int_loop_ge [of "Suc (lineptr s)" "numbase s" "srcbuf s"]
    by (simp add: int_loop.simps [of "numbase s" "srcbuf s" "lineptr s" 0] Suc_le_eq)
  then show ?thesis by (simp add: intconst_def case_prod_beta)
qed

lemma context_hexconst_frame [simp]:
  "srcbuf (context_hexconst s) = srcbuf s"
  "syms (context_hexconst s) = syms s"
  "spt (context_hexconst s) = spt s"
  "ifflag (context_hexconst s) = ifflag s"
  "inidata (context_hexconst s) = inidata s"
  "linebuf (context_hexconst s) = linebuf s"
  "scan.more (context_hexconst s) = scan.more s"
  by (simp_all add: context_hexconst_def)

lemma context_hexconst_ge: "lineptr s \<le> lineptr (context_hexconst s)"
  using intconst_ge [of "s\<lparr>numbase := 16\<rparr>"] by (simp add: context_hexconst_def)

lemma lookup_cur_frame [simp]:
  "srcbuf (lookup_cur s) = srcbuf s"
  "linebuf (lookup_cur s) = linebuf s"
  "lineptr (lookup_cur s) = lineptr s"
  "symname (lookup_cur s) = symname s"
  "sym (lookup_cur s) = sym s"
  "ifflag (lookup_cur s) = ifflag s"
  "inidata (lookup_cur s) = inidata s"
  "scan.more (lookup_cur s) = scan.more s"
  by (simp_all add: lookup_cur_def case_prod_beta lookup_frame lookup_symtab)

lemma getsym_frame_all:
  "srcbuf (getsym s) = srcbuf s \<and> linebuf (getsym s) = linebuf s \<and>
   ifflag (getsym s) = ifflag s \<and> inidata (getsym s) = inidata s \<and>
   scan.more (getsym s) = scan.more s"
  by (cases "symofchar (rdch (srcbuf s) (advance (srcbuf s) (lineptr s)))")
     (simp_all add: getsym_def Let_def)

lemma getsym_frame [simp]:
  "srcbuf (getsym s) = srcbuf s"
  "linebuf (getsym s) = linebuf s"
  "ifflag (getsym s) = ifflag s"
  "inidata (getsym s) = inidata s"
  "scan.more (getsym s) = scan.more s"
  by (simp_all add: getsym_frame_all)

lemma getsym_progress: "lineptr s < lineptr (getsym s)"
proof -
  let ?p = "advance (srcbuf s) (lineptr s)"
  have p: "lineptr s \<le> ?p" by (rule advance_ge)
  have int: "Suc ?p \<le> lineptr (intconst t)" if "Suc ?p \<le> lineptr t" for t :: "'a scan_scheme"
    using that intconst_ge [of t] by simp
  have ten: "?p < lineptr (intconst t)"
    if "symofchar (rdch (srcbuf s) ?p) = INTCONST" "srcbuf t = srcbuf s" "lineptr t = ?p"
    for t :: "'a scan_scheme"
    using that intconst_digit_gt [of t] decimal_digit_of by metis
  have "?p < lineptr (getsym s)"
    using int ten ident_end_ge [of "Suc ?p" "srcbuf s"]
    by (cases "symofchar (rdch (srcbuf s) ?p)") (simp_all add: getsym_def Let_def Suc_le_eq)
  with p show ?thesis by simp
qed

lemma getsym_at_end: "length (srcbuf s) \<le> lineptr s \<Longrightarrow> sym (getsym s) = EOLSYM"
  by (simp add: getsym_def Let_def advance_beyond)

section \<open>The interface: a source of symbols\<close>

text \<open>
  What the parsers need from the scanner: every call moves on, and at the end
  of the text it delivers the end-of-line symbol.  This bounds every loop that
  scans for the end of the line, and the depth of every parse.
\<close>

locale token_source =
  fixes next_tok :: "'s \<Rightarrow> 's"
    and pos :: "'s \<Rightarrow> nat"
    and lim :: "'s \<Rightarrow> nat"
    and stopped :: "'s \<Rightarrow> bool"
  assumes next_pos: "pos s < pos (next_tok s)"
    and next_lim: "lim (next_tok s) = lim s"
    and next_end: "lim s \<le> pos s \<Longrightarrow> stopped (next_tok s)"
begin

definition budget :: "'s \<Rightarrow> nat" where
  "budget s = (if stopped s then 0 else Suc (lim s - pos s))"

lemma budget_next: "\<not> stopped s \<Longrightarrow> budget (next_tok s) < budget s"
  using next_pos [of s] next_lim [of s] next_end [of s]
  by (cases "lim s \<le> pos s") (auto simp: budget_def)

lemma stops: "\<exists>n\<le>budget s. stopped ((next_tok ^^ n) s)"
proof (induction "budget s" arbitrary: s rule: less_induct)
  case less
  show ?case
  proof (cases "stopped s")
    case True
    then show ?thesis by (intro exI [of _ 0]) simp
  next
    case False
    then have "budget (next_tok s) < budget s" by (rule budget_next)
    with less obtain n where "n \<le> budget (next_tok s)" "stopped ((next_tok ^^ n) (next_tok s))"
      by blast
    with \<open>budget (next_tok s) < budget s\<close> show ?thesis
      by (intro exI [of _ "Suc n"]) (simp add: funpow_swap1)
  qed
qed

end

interpretation scanner: token_source getsym lineptr "\<lambda>s. length (srcbuf s)" "\<lambda>s. sym s = EOLSYM"
  by unfold_locales (simp_all add: getsym_progress getsym_at_end)

text \<open>The loop \<^verbatim>\<open>while (sym != EOLSYM) getsym();\<close> of the conditional pseudo-ops.\<close>

function skip_to_eol :: "'a scan_scheme \<Rightarrow> 'a scan_scheme" where
  "skip_to_eol s = (if sym s = EOLSYM then s else skip_to_eol (getsym s))"
  by pat_completeness auto
termination
  by (relation "measure scanner.budget") (simp_all add: scanner.budget_next)

declare skip_to_eol.simps [simp del]

lemma skip_to_eol_induct_props:
  "sym (skip_to_eol s) = EOLSYM \<and> srcbuf (skip_to_eol s) = srcbuf s \<and>
   ifflag (skip_to_eol s) = ifflag s \<and> scan.more (skip_to_eol s) = scan.more s \<and>
   linebuf (skip_to_eol s) = linebuf s"
proof (induction s rule: skip_to_eol.induct)
  case (1 s)
  then show ?case
    by (cases "sym s = EOLSYM") (simp_all add: skip_to_eol.simps [of s])
qed

lemma skip_to_eol_frame [simp]:
  "sym (skip_to_eol s) = EOLSYM"
  "srcbuf (skip_to_eol s) = srcbuf s"
  "ifflag (skip_to_eol s) = ifflag s"
  "linebuf (skip_to_eol s) = linebuf s"
  "scan.more (skip_to_eol s) = scan.more s"
  by (simp_all add: skip_to_eol_induct_props)

text \<open>
  C3: every call of \<^verbatim>\<open>getsym\<close> moves \<^verbatim>\<open>lineptr\<close> forward and leaves the text alone,
  and from any state at most one call per remaining character, plus one,
  reaches the end-of-line symbol; so no scanning loop of the assembler can run
  forever.
\<close>

theorem getsym_reaches_eol:
  fixes s :: "'a scan_scheme"
  shows "lineptr s < lineptr (getsym s) \<and> srcbuf (getsym s) = srcbuf s \<and>
    (\<exists>n\<le>Suc (length (srcbuf s) - lineptr s). sym ((getsym ^^ n) s) = EOLSYM)"
proof -
  have "scanner.budget s \<le> Suc (length (srcbuf s) - lineptr s)"
    by (simp add: scanner.budget_def)
  then show ?thesis
    using scanner.stops [of s] getsym_progress [of s] by (meson getsym_frame(1) order_trans)
qed

section \<open>Numbers\<close>

lemma int_loop_digits:
  assumes "drop i buf = cs @ rest" "\<forall>c\<in>set cs. digit_of base c \<noteq> None"
    "digit_of base (rdch rest 0) = None"
  shows "int_loop base buf i n =
    (i + length cs, foldl (\<lambda>m c. base * m + the (digit_of base c)) n cs)"
  using assms
proof (induction cs arbitrary: i n)
  case Nil
  then have "rdch buf i = rdch rest 0"
    by (intro rdch_via_drop) simp
  with Nil show ?case by (simp add: int_loop.simps [of base buf i n])
next
  case (Cons c cs)
  from Cons.prems(1) have i: "rdch buf i = c" "drop (Suc i) buf = cs @ rest"
    using rdch_via_drop [of i buf] by (simp_all add: drop_Suc_via_drop)
  from Cons.prems(2) obtain d where d: "digit_of base c = Some d" by auto
  have "int_loop base buf i n = int_loop base buf (Suc i) (base * n + d)"
    using i d by (simp add: int_loop.simps [of base buf i n])
  with Cons.IH [OF i(2)] Cons.prems d show ?case by simp
qed


abbreviation scan_at :: "string \<Rightarrow> scan" where
  "scan_at line \<equiv> \<lparr>syms = [], spt = (\<lambda>_. []), ifflag = True, inidata = 0x90,
     srcbuf = bytes_of line, linebuf = 0, lineptr = 0, symname = 0, sym = EOLSYM,
     number = 0, numbase = 16, gsymptr = None\<rparr>"


end
