(* ===== verification/Keywords.thy ===== *)
theory Keywords
  imports Scan
begin

text \<open>
  The keyword tables, \<^verbatim>\<open>as/keywords.c\<close>, the routine numbers of
  \<^verbatim>\<open>as/opcode.h\<close> and their installation in the symbol table by
  \<^verbatim>\<open>inst_keywords\<close> and \<^verbatim>\<open>install\<close> of \<^verbatim>\<open>as/table.c\<close>: every name is entered in
  upper and in lower case.  A table is the packed array of the source: the
  length of a name, its characters, the routine number and the opcode, and a
  zero byte at the end.
\<close>

section \<open>Registers and routine numbers\<close>

abbreviation XREG :: byte where "XREG \<equiv> 0"
abbreviation AREG :: byte where "AREG \<equiv> 1"
abbreviation BREG :: byte where "BREG \<equiv> 2"
abbreviation CCREG :: byte where "CCREG \<equiv> 3"
abbreviation DREG :: byte where "DREG \<equiv> 4"
abbreviation NOREG :: byte where "NOREG \<equiv> 5"

abbreviation ELSEOP :: byte where "ELSEOP \<equiv> 0"
abbreviation ELSEIFOP :: byte where "ELSEIFOP \<equiv> 1"
abbreviation ELSEIFCOP :: byte where "ELSEIFCOP \<equiv> 2"
abbreviation ENDIFOP :: byte where "ENDIFOP \<equiv> 3"
abbreviation IFOP :: byte where "IFOP \<equiv> 4"
abbreviation IFCOP :: byte where "IFCOP \<equiv> 5"
abbreviation ALIGNOP :: byte where "ALIGNOP \<equiv> 6"
abbreviation ASCIZOP :: byte where "ASCIZOP \<equiv> 7"
abbreviation BLKWOP :: byte where "BLKWOP \<equiv> 8"
abbreviation BLOCKOP :: byte where "BLOCKOP \<equiv> 9"
abbreviation BSSOP :: byte where "BSSOP \<equiv> 10"
abbreviation COMMOP :: byte where "COMMOP \<equiv> 11"
abbreviation COMMOP1 :: byte where "COMMOP1 \<equiv> 12"
abbreviation DATAOP :: byte where "DATAOP \<equiv> 13"
abbreviation ENDBOP :: byte where "ENDBOP \<equiv> 14"
abbreviation ENTEROP :: byte where "ENTEROP \<equiv> 15"
abbreviation ENTRYOP :: byte where "ENTRYOP \<equiv> 16"
abbreviation EQUOP :: byte where "EQUOP \<equiv> 17"
abbreviation EVENOP :: byte where "EVENOP \<equiv> 18"
abbreviation EXPORTOP :: byte where "EXPORTOP \<equiv> 19"
abbreviation FAILOP :: byte where "FAILOP \<equiv> 20"
abbreviation FCBOP :: byte where "FCBOP \<equiv> 21"
abbreviation FCCOP :: byte where "FCCOP \<equiv> 22"
abbreviation FDBOP :: byte where "FDBOP \<equiv> 23"
abbreviation GETOP :: byte where "GETOP \<equiv> 24"
abbreviation GLOBLOP :: byte where "GLOBLOP \<equiv> 25"
abbreviation IDENTOP :: byte where "IDENTOP \<equiv> 26"
abbreviation IMPORTOP :: byte where "IMPORTOP \<equiv> 27"
abbreviation LCOMMOP :: byte where "LCOMMOP \<equiv> 28"
abbreviation LCOMMOP1 :: byte where "LCOMMOP1 \<equiv> 29"
abbreviation LISTOP :: byte where "LISTOP \<equiv> 30"
abbreviation LOCOP :: byte where "LOCOP \<equiv> 31"
abbreviation MACLISTOP :: byte where "MACLISTOP \<equiv> 32"
abbreviation MACROOP :: byte where "MACROOP \<equiv> 33"
abbreviation MAPOP :: byte where "MAPOP \<equiv> 34"
abbreviation ORGOP :: byte where "ORGOP \<equiv> 35"
abbreviation PROCEOFOP :: byte where "PROCEOFOP \<equiv> 36"
abbreviation RMBOP :: byte where "RMBOP \<equiv> 37"
abbreviation SECTOP :: byte where "SECTOP \<equiv> 38"
abbreviation SETOP :: byte where "SETOP \<equiv> 39"
abbreviation TEXTOP :: byte where "TEXTOP \<equiv> 40"
abbreviation WARNOP :: byte where "WARNOP \<equiv> 41"
abbreviation ALL_MODES :: byte where "ALL_MODES \<equiv> 42"
abbreviation ALTER :: byte where "ALTER \<equiv> 43"
abbreviation IMMED :: byte where "IMMED \<equiv> 44"
abbreviation INHER :: byte where "INHER \<equiv> 45"
abbreviation SHORT :: byte where "SHORT \<equiv> 46"

abbreviation MIN_NONCOND :: byte where "MIN_NONCOND \<equiv> ALIGNOP"

section \<open>The tables\<close>

definition regs_table :: "(string \<times> byte \<times> byte) list" where
  "regs_table =
     [(''A'', AREG, 0), (''B'', BREG, 0), (''D'', DREG, 0), (''X'', XREG, 0)]"

definition ops_table :: "(string \<times> byte \<times> byte) list" where
  "ops_table =
     [(''ELSE'', ELSEOP, 0), (''ELSEIF'', ELSEIFOP, 0), (''ELSEIFC'', ELSEIFCOP, 0),
      (''ENDIF'', ENDIFOP, 0), (''IF'', IFOP, 0), (''IFC'', IFCOP, 0),
      (''.ALIGN'', ALIGNOP, 0), (''.ASCII'', FCCOP, 0), (''.ASCIZ'', ASCIZOP, 0),
      (''.BLKB'', RMBOP, 0), (''.BLKW'', BLKWOP, 0), (''BLOCK'', BLOCKOP, 0),
      (''.BSS'', BSSOP, 0), (''.BYTE'', FCBOP, 0), (''COMM'', COMMOP, 0),
      (''.COMM'', COMMOP1, 0), (''.DATA'', DATAOP, 0), (''.DATA1'', FCBOP, 0),
      (''.DATA2'', FDBOP, 0), (''DB'', FCBOP, 0), (''.DEFINE'', EXPORTOP, 0),
      (''DW'', FDBOP, 0), (''END'', PROCEOFOP, 0), (''ENDB'', ENDBOP, 0),
      (''.ENTER'', ENTEROP, 0), (''ENTRY'', ENTRYOP, 0), (''EQU'', EQUOP, 0),
      (''.EVEN'', EVENOP, 0), (''EXPORT'', EXPORTOP, 0), (''EXTERN'', IMPORTOP, 0),
      (''.EXTERN'', IMPORTOP, 0), (''EXTRN'', IMPORTOP, 0), (''FAIL'', FAILOP, 0),
      (''.FAIL'', FAILOP, 0), (''FCB'', FCBOP, 0), (''FCC'', FCCOP, 0),
      (''FDB'', FDBOP, 0), (''GET'', GETOP, 0), (''.GLOBAL'', GLOBLOP, 0),
      (''.GLOBL'', GLOBLOP, 0), (''IDENT'', IDENTOP, 0), (''IMPORT'', IMPORTOP, 0),
      (''INCLUDE'', GETOP, 0), (''LCOMM'', LCOMMOP, 0), (''.LCOMM'', LCOMMOP1, 0),
      (''.LIST'', LISTOP, 0), (''LOC'', LOCOP, 0), (''.MACLIST'', MACLISTOP, 0),
      (''MACRO'', MACROOP, 0), (''.MAP'', MAPOP, 0), (''ORG'', ORGOP, 0),
      (''.ORG'', ORGOP, 0), (''PUBLIC'', EXPORTOP, 0), (''RMB'', RMBOP, 0),
      (''.ROM'', DATAOP, 0), (''.SECT'', SECTOP, 0), (''SET'', SETOP, 0),
      (''.SHORT'', FDBOP, 0), (''.SPACE'', RMBOP, 0), (''.TEXT'', TEXTOP, 0),
      (''.WARN'', WARNOP, 0), (''.WORD'', FDBOP, 0), (''.ZEROW'', BLKWOP, 0),
      (''ABA'', INHER, 0x1B), (''ABX'', INHER, 0x3A), (''ADCA'', ALL_MODES, 0x89),
      (''ADCB'', ALL_MODES, 0xC9), (''ADDA'', ALL_MODES, 0x8B), (''ADDB'', ALL_MODES, 0xCB),
      (''ADDD'', ALL_MODES, 0xC3), (''ANDA'', ALL_MODES, 0x84), (''ANDB'', ALL_MODES, 0xC4),
      (''ASL'', ALTER, 0x08), (''ASLA'', INHER, 0x48), (''ASLB'', INHER, 0x58),
      (''ASLD'', INHER, 0x05), (''ASR'', ALTER, 0x07), (''ASRA'', INHER, 0x47),
      (''ASRB'', INHER, 0x57), (''BCC'', SHORT, 0x24), (''BCS'', SHORT, 0x25),
      (''BEQ'', SHORT, 0x27), (''BGE'', SHORT, 0x2C), (''BGT'', SHORT, 0x2E),
      (''BHI'', SHORT, 0x22), (''BHS'', SHORT, 0x24), (''BITA'', ALL_MODES, 0x85),
      (''BITB'', ALL_MODES, 0xC5), (''BLE'', SHORT, 0x2F), (''BLO'', SHORT, 0x25),
      (''BLS'', SHORT, 0x23), (''BLT'', SHORT, 0x2D), (''BMI'', SHORT, 0x2B),
      (''BNE'', SHORT, 0x26), (''BPL'', SHORT, 0x2A), (''BRA'', SHORT, 0x20),
      (''BRN'', SHORT, 0x21), (''BSR'', SHORT, 0x8D), (''BVC'', SHORT, 0x28),
      (''BVS'', SHORT, 0x29), (''CBA'', INHER, 0x11), (''CLC'', INHER, 0x0C),
      (''CLI'', INHER, 0x0E), (''CLV'', INHER, 0x0A), (''CLR'', ALTER, 0x6F),
      (''CLRA'', INHER, 0x4F), (''CLRB'', INHER, 0x5F), (''CMPA'', ALL_MODES, 0x81),
      (''CMPB'', ALL_MODES, 0xC1), (''CMPX'', ALL_MODES, 0x8C), (''COM'', ALTER, 0x63),
      (''COMA'', INHER, 0x43), (''COMB'', INHER, 0x53), (''CPX'', ALL_MODES, 0x8C),
      (''DAA'', INHER, 0x19), (''DEC'', ALTER, 0x6A), (''DECA'', INHER, 0x4A),
      (''DECB'', INHER, 0x5A), (''DES'', INHER, 0x34), (''DEX'', INHER, 0x09),
      (''EORA'', ALL_MODES, 0x88), (''EORB'', ALL_MODES, 0xC8), (''INC'', ALTER, 0x6C),
      (''INCA'', INHER, 0x4C), (''INCB'', INHER, 0x5C), (''INS'', INHER, 0x31),
      (''INX'', INHER, 0x08), (''JMP'', ALTER, 0x6E), (''JSR'', ALTER, 0x8D),
      (''LDAA'', ALL_MODES, 0x86), (''LDAB'', ALL_MODES, 0xC6), (''LDD'', ALL_MODES, 0xCC),
      (''LDS'', ALL_MODES, 0x8E), (''LDX'', ALL_MODES, 0xCE), (''LSL'', ALTER, 0x08),
      (''LSLA'', INHER, 0x48), (''LSLB'', INHER, 0x58), (''LSLD'', INHER, 0x05),
      (''LSR'', ALTER, 0x04), (''LSRA'', INHER, 0x44), (''LSRB'', INHER, 0x54),
      (''LSRD'', INHER, 0x04), (''MUL'', INHER, 0x3D), (''NEG'', ALTER, 0x00),
      (''NEGA'', INHER, 0x40), (''NEGB'', INHER, 0x50), (''NOP'', INHER, 0x01),
      (''ORAA'', ALL_MODES, 0x8A), (''ORAB'', ALL_MODES, 0xCA), (''PSHA'', INHER, 0x36),
      (''PSHB'', INHER, 0x37), (''PSHX'', INHER, 0x3C), (''PULA'', INHER, 0x32),
      (''PULB'', INHER, 0x33), (''PULX'', INHER, 0x38), (''ROL'', ALTER, 0x09),
      (''ROLA'', INHER, 0x49), (''ROLB'', INHER, 0x59), (''ROR'', ALTER, 0x06),
      (''RORA'', INHER, 0x46), (''RORB'', INHER, 0x56), (''RTI'', INHER, 0x3B),
      (''RTS'', INHER, 0x39), (''SBA'', INHER, 0x10), (''SBCA'', ALL_MODES, 0x82),
      (''SBCB'', ALL_MODES, 0xC2), (''SEC'', INHER, 0x0D), (''SEI'', INHER, 0x0F),
      (''SEV'', INHER, 0x0B), (''STAA'', ALTER, 0x87), (''STAB'', ALTER, 0xC7),
      (''STD'', ALTER, 0xCD), (''STS'', ALTER, 0x8F), (''STX'', ALTER, 0xCF),
      (''SUBA'', ALL_MODES, 0x80), (''SUBB'', ALL_MODES, 0xC0), (''SUBD'', ALL_MODES, 0x83),
      (''SWI'', INHER, 0x3F), (''TAB'', INHER, 0x16), (''TAP'', INHER, 0x06),
      (''TBA'', INHER, 0x17), (''TPA'', INHER, 0x07), (''TST'', ALTER, 0x0D),
      (''TSTA'', INHER, 0x4D), (''TSTB'', INHER, 0x5D), (''TSX'', INHER, 0x30),
      (''TXS'', INHER, 0x35), (''WAI'', INHER, 0x3E)]"

definition pack_keyword :: "string \<times> byte \<times> byte \<Rightarrow> byte list" where
  "pack_keyword k =
     (case k of (name, routine, opcode) \<Rightarrow>
        of_nat (length name) # bytes_of name @ [routine, opcode])"

definition regs :: "byte list" where
  "regs = concat (map pack_keyword regs_table) @ [0]"

definition ops :: "byte list" where
  "ops = concat (map pack_keyword ops_table) @ [0]"

section \<open>Installation\<close>

definition lowcase :: "byte \<Rightarrow> byte" where
  "lowcase c = (if sint c < 0x41 \<or> 0x5A < sint c then c else c + 0x20)"

text \<open>One of the two entries made for a keyword.\<close>

definition install_name :: "byte list \<Rightarrow> byte \<Rightarrow> byte \<Rightarrow> byte \<Rightarrow> 'a symtab_scheme \<Rightarrow> 'a symtab_scheme"
  where
  "install_name name data routine opcode s =
     (case lookup name s of
        (Some r, s') \<Rightarrow>
          upd_sym r (\<lambda>y. set_op routine opcode (y\<lparr>sy_type := MNREGBIT, sy_data := data\<rparr>)) s'
      | (None, s') \<Rightarrow> s')"

function install :: "byte list \<Rightarrow> byte \<Rightarrow> 'a symtab_scheme \<Rightarrow> 'a symtab_scheme" where
  "install keys data s =
     (case keys of
        [] \<Rightarrow> s
      | n # ks \<Rightarrow>
          if n = 0 then s
          else let name = take (unat n) ks;
                   ks' = drop (unat n) ks;
                   routine = ks' ! 0;
                   opcode = ks' ! 1;
                   s1 = install_name name data routine opcode s;
                   s2 = install_name (map lowcase name) data routine opcode s1
               in install (drop 2 ks') data s2)"
  by pat_completeness auto
termination
  by (relation "measure (\<lambda>(keys, data, s). length keys)") auto

declare install.simps [simp del]

definition inst_keywords :: "'a symtab_scheme \<Rightarrow> 'a symtab_scheme" where
  "inst_keywords s = install ops 0 (install regs REGBIT s)"

end
