(* ===== verification/Keyword_Table.thy ===== *)
theory Keyword_Table
  imports Keywords
begin

text \<open>
  What \<^verbatim>\<open>inst_keywords\<close> leaves in the symbol table: the packed arrays are
  walked exactly to their ends, and every keyword is found in both cases with
  its class, routine number and opcode.
\<close>

section \<open>The view of a table by keyword\<close>

text \<open>Type, data, routine and opcode of the entry of a name.\<close>

definition kinfo :: "'a symtab_scheme \<Rightarrow> byte list \<rightharpoonup> byte \<times> byte \<times> byte \<times> byte" where
  "kinfo s name =
     map_option (\<lambda>r. let y = syms s ! r in (sy_type y, sy_data y, sy_routine y, sy_opcode y))
       (find_sym name s)"

definition table_ready :: "'a symtab_scheme \<Rightarrow> bool" where
  "table_ready s \<longleftrightarrow> symtab_ok s \<and> ifflag s"

lemma low_half_mask: "(0xFFFF :: u64) = mask 16"
  by (simp add: mask_eq_exp_minus_1)

lemma sy_routine_set_op [simp]: "sy_routine (set_op rt oc y) = rt"
  by (rule bit_word_eqI)
     (auto simp: sy_routine_def set_op_def low_half_mask bit_simps simp del: push_bit_and)

lemma sy_opcode_set_op [simp]: "sy_opcode (set_op rt oc y) = oc"
  by (rule bit_word_eqI)
     (auto simp: sy_opcode_def set_op_def low_half_mask drop_bit_and bit_simps
        dest: bit_imp_le_length)

lemma set_op_simps [simp]:
  "sy_type (set_op rt oc y) = sy_type y"
  "sy_data (set_op rt oc y) = sy_data y"
  "sy_name (set_op rt oc y) = sy_name y"
  "sy_length (set_op rt oc y) = sy_length y"
  by (simp_all add: set_op_def)

lemma lookup_ready:
  assumes "table_ready s" and "length name < 256"
  obtains r where "fst (lookup name s) = Some r" "r < length (syms (snd (lookup name s)))"
    "table_ready (snd (lookup name s))" "find_sym name (snd (lookup name s)) = Some r"
    "\<forall>k. length k < 256 \<and> k \<noteq> name \<longrightarrow> kinfo (snd (lookup name s)) k = kinfo s k"
proof (cases "find_sym name s")
  case None
  have ok: "symtab_ok s" and flag: "ifflag s"
    using assms(1) by (simp_all add: table_ready_def)
  have l: "lookup name s = (Some (length (syms s)), snd (add_sym name s))"
    using None flag by (simp add: lookup_def case_prod_beta)
  have "kinfo (snd (add_sym name s)) k = kinfo s k" if "length k < 256" "k \<noteq> name" for k
  proof -
    have "find_sym k (snd (add_sym name s)) = find_sym k s"
      using as_table.look_add [OF ok assms(2) that(1) None] that by simp
    moreover have "r < length (syms s)" if "find_sym k s = Some r" for r
      using that \<open>length k < 256\<close> find_sym_Some_iff [OF ok] by simp
    ultimately show ?thesis
      by (cases "find_sym k s") (simp_all add: kinfo_def nth_append)
  qed
  then show ?thesis
    using that [of "length (syms s)"] l add_sym_ok [OF ok assms(2) None] flag
      as_table.look_add [OF ok assms(2) assms(2) None]
    by (simp add: table_ready_def)
next
  case (Some r)
  then show ?thesis
    using that [of r] assms find_sym_Some_iff [of s name r]
    by (simp add: lookup_def table_ready_def)
qed

lemma install_name_kinfo:
  assumes "table_ready s" and "length name < 256"
  shows "table_ready (install_name name data rt oc s) \<and>
    (\<forall>k. length k < 256 \<longrightarrow>
       kinfo (install_name name data rt oc s) k =
         ((kinfo s)(name \<mapsto> (MNREGBIT, data, rt, oc))) k)"
proof -
  obtain r where r: "fst (lookup name s) = Some r" "r < length (syms (snd (lookup name s)))"
    "table_ready (snd (lookup name s))" "find_sym name (snd (lookup name s)) = Some r"
    "\<forall>k. length k < 256 \<and> k \<noteq> name \<longrightarrow> kinfo (snd (lookup name s)) k = kinfo s k"
    by (rule lookup_ready [OF assms])
  define t where "t = snd (lookup name s)"
  let ?f = "\<lambda>y. set_op rt oc (y\<lparr>sy_type := MNREGBIT, sy_data := data\<rparr>)"
  have f: "keeps_name ?f" by (simp add: keeps_name_def)
  have i: "install_name name data rt oc s = upd_sym r ?f t"
    using r(1) by (cases "lookup name s") (simp add: install_name_def t_def)
  have t: "symtab_ok t" "ifflag t" "find_sym name t = Some r" "r < length (syms t)"
    using r by (simp_all add: t_def table_ready_def)
  have ready: "table_ready (upd_sym r ?f t)"
    using t upd_sym_ok [OF f t(1)] by (simp add: table_ready_def)
  have same: "kinfo (upd_sym r ?f t) name = Some (MNREGBIT, data, rt, oc)"
    using t find_sym_upd_sym [OF f, of name r t] nth_upd_sym [OF t(4), of ?f r]
    by (simp add: kinfo_def)
  have other: "kinfo (upd_sym r ?f t) k = kinfo s k" if "length k < 256" "k \<noteq> name" for k
  proof -
    have "find_sym k t \<noteq> Some r"
      using that t find_sym_Some_iff [OF t(1), of k r] find_sym_Some_iff [OF t(1) assms(2), of r]
      by auto
    then have "kinfo (upd_sym r ?f t) k = kinfo t k"
      using find_sym_upd_sym [OF f, of k r t] nth_upd_sym [OF t(4), of ?f]
      by (cases "find_sym k t") (auto simp: kinfo_def)
    then show ?thesis using r(5) that by (simp add: t_def)
  qed
  show ?thesis using i ready same other by simp
qed

section \<open>Walking the packed arrays\<close>

definition short_names :: "(string \<times> byte \<times> byte) list \<Rightarrow> bool" where
  "short_names ks \<longleftrightarrow> list_all (\<lambda>(n, _). 0 < length n \<and> length n < 256) ks"

definition installs :: "byte \<Rightarrow> string \<times> byte \<times> byte \<Rightarrow> (byte list \<times> byte \<times> byte \<times> byte \<times> byte) list" where
  "installs data k =
     (case k of (n, rt, oc) \<Rightarrow>
        [(bytes_of n, MNREGBIT, data, rt, oc), (map lowcase (bytes_of n), MNREGBIT, data, rt, oc)])"

lemma install_pack:
  assumes "0 < length n" "length n < 256"
  shows "install (pack_keyword (n, rt, oc) @ rest) data s =
    install rest data (install_name (map lowcase (bytes_of n)) data rt oc
      (install_name (bytes_of n) data rt oc s))"
proof -
  have "unat (of_nat (length n) :: byte) = length n"
    using assms by (simp add: unat_of_nat)
  moreover from this have "(of_nat (length n) :: byte) \<noteq> 0"
    using assms(1) by (metis less_numeral_extra(3) unat_0)
  ultimately show ?thesis
    by (subst install.simps) (simp add: pack_keyword_def)
qed

lemma install_table:
  assumes "short_names ks" "table_ready s"
  shows "table_ready (install (concat (map pack_keyword ks) @ [0]) data s) \<and>
    (\<forall>k. length k < 256 \<longrightarrow>
      kinfo (install (concat (map pack_keyword ks) @ [0]) data s) k =
        (kinfo s ++ map_of (rev (concat (map (installs data) ks)))) k)"
  using assms
proof (induction ks arbitrary: s)
  case Nil
  then show ?case by (simp add: install.simps [of "[0]"])
next
  case (Cons e ks)
  obtain n rt oc where e: "e = (n, rt, oc)" by (cases e)
  have n: "0 < length n" "length n < 256" and ks: "short_names ks"
    using Cons.prems e by (simp_all add: short_names_def)
  define s1 where "s1 = install_name (bytes_of n) data rt oc s"
  define s2 where "s2 = install_name (map lowcase (bytes_of n)) data rt oc s1"
  have s1: "table_ready s1"
    "\<And>k. length k < 256 \<Longrightarrow> kinfo s1 k = ((kinfo s)(bytes_of n \<mapsto> (MNREGBIT, data, rt, oc))) k"
    using install_name_kinfo [of s "bytes_of n" data rt oc] Cons.prems(2) n by (simp_all add: s1_def)
  have s2: "table_ready s2"
    "\<And>k. length k < 256 \<Longrightarrow>
       kinfo s2 k = ((kinfo s1)(map lowcase (bytes_of n) \<mapsto> (MNREGBIT, data, rt, oc))) k"
    using install_name_kinfo [of s1 "map lowcase (bytes_of n)" data rt oc] s1 n
    by (simp_all add: s2_def)
  have "install (concat (map pack_keyword (e # ks)) @ [0]) data s =
      install (concat (map pack_keyword ks) @ [0]) data s2"
    using install_pack [OF n] by (simp add: e s1_def s2_def)
  moreover have "(kinfo s2 ++ map_of (rev (concat (map (installs data) ks)))) k =
      (kinfo s ++ map_of (rev (concat (map (installs data) (e # ks))))) k" if "length k < 256" for k
    using s1(2) [OF that] s2(2) [OF that]
    by (simp add: e installs_def map_add_def split: option.split)
  ultimately show ?case
    using Cons.IH [OF ks s2(1)] by simp
qed

section \<open>The names are distinct, in both cases together\<close>

lemma keyword_names_distinct: "distinct (map fst (regs_table @ ops_table))"
  unfolding regs_table_def ops_table_def by simp

lemma unat_of_char [simp]: "unat (of_char c :: byte) = of_char c"
proof -
  have "(of_char c :: byte) = of_nat (of_char c)"
    by (cases c) (simp add: of_char_def)
  then have "unat (of_char c :: byte) = of_char c mod 256"
    by (simp only: unat_of_nat) simp
  then show ?thesis by simp
qed

lemma bytes_of_inj: "bytes_of m = bytes_of n \<longleftrightarrow> m = n"
proof
  assume "bytes_of m = bytes_of n"
  then have "map unat (bytes_of m) = map unat (bytes_of n)" by simp
  then have "map (of_char :: char \<Rightarrow> nat) m = map of_char n" by (simp add: comp_def)
  then show "m = n" by (rule map_injective) (simp add: inj_def)
qed simp

text \<open>The conversion to lower case on a seven-bit character, on numbers.\<close>

lemma unat_lowcase:
  assumes "unat c < 0x80"
  shows "unat (lowcase c) = (if 0x41 \<le> unat c \<and> unat c \<le> 0x5A then unat c + 0x20 else unat c)"
proof -
  have u: "uint c = int (unat c)" by simp
  with assms have "sint c = int (unat c)"
    using sint_small_byte [of c] by linarith
  then have l: "lowcase c = (if unat c < 0x41 \<or> 0x5A < unat c then c else c + 0x20)"
    unfolding lowcase_def by (simp only: of_nat_less_iff [where 'a = int, symmetric]) simp
  have "unat (c + 0x20) = unat c + 0x20" if "unat c \<le> 0x5A"
    using that unat_add_lem [of c "0x20"] by simp
  then show ?thesis
    by (simp add: l)
qed

definition plain_char :: "char \<Rightarrow> bool" where
  "plain_char c \<longleftrightarrow> (of_char c :: nat) < 0x61"

definition has_upper :: "string \<Rightarrow> bool" where
  "has_upper n \<longleftrightarrow> list_ex (\<lambda>c. 0x41 \<le> (of_char c :: nat) \<and> (of_char c :: nat) \<le> 0x5A) n"

lemma keyword_chars:
  "list_all (\<lambda>(n, _). list_all plain_char n \<and> has_upper n \<and> 0 < length n \<and> length n < 256)
     (regs_table @ ops_table)"
  unfolding regs_table_def ops_table_def by (simp add: plain_char_def has_upper_def)


definition lower_name :: "string \<Rightarrow> byte list" where
  "lower_name n = map lowcase (bytes_of n)"

lemma lower_name_inj:
  assumes "list_all plain_char m" "list_all plain_char n" "lower_name m = lower_name n"
  shows "m = n"
  using assms
proof (induction m n rule: list_induct2')
  case (4 x xs y ys)
  then have "unat (lowcase (of_char x)) = unat (lowcase (of_char y))"
    and "(of_char x :: nat) < 0x61" "(of_char y :: nat) < 0x61"
    by (simp_all add: lower_name_def plain_char_def)
  then have "(of_char x :: nat) = of_char y"
    by (simp add: unat_lowcase split: if_splits)
  with 4 show ?case by (simp add: lower_name_def)
qed (simp_all add: lower_name_def)

lemma lower_name_upper:
  assumes "list_all plain_char m" "has_upper n"
  shows "lower_name m \<noteq> bytes_of n"
proof
  assume eq: "lower_name m = bytes_of n"
  from assms(2) obtain c where c: "c \<in> set n" "0x41 \<le> (of_char c :: nat)" "(of_char c :: nat) \<le> 0x5A"
    by (auto simp: has_upper_def list_ex_iff)
  then have "of_char c \<in> set (lower_name m)" by (simp add: eq)
  then obtain x where x: "x \<in> set m" "(of_char c :: byte) = lowcase (of_char x)"
    by (auto simp: lower_name_def)
  then have "(of_char x :: nat) < 0x61"
    using assms(1) by (auto simp: list_all_iff plain_char_def)
  moreover have "unat (of_char c :: byte) = unat (lowcase (of_char x))"
    using x(2) by simp
  ultimately show False
    using c(2,3) by (simp add: unat_lowcase split: if_splits)
qed

lemma distinct_pairs:
  assumes "distinct ns" "inj_on f (set ns)" "inj_on g (set ns)"
    "\<forall>m\<in>set ns. \<forall>n\<in>set ns. f m \<noteq> g n"
  shows "distinct (concat (map (\<lambda>n. [f n, g n]) ns))"
  using assms
proof (induction ns)
  case (Cons n ns)
  have "f n \<notin> f ` set ns" "g n \<notin> g ` set ns" "f n \<notin> g ` set ns" "g n \<notin> f ` set ns" "f n \<noteq> g n"
    using Cons.prems by (auto simp: inj_on_def)
  with Cons show ?case by (auto simp: inj_on_def)
qed simp

lemma map_fst_installs:
  "map fst (concat (map (installs data) ks)) =
   concat (map (\<lambda>n. [bytes_of n, lower_name n]) (map fst ks))"
  by (induction ks) (auto simp: installs_def lower_name_def)

definition keyword_map :: "(byte list \<times> byte \<times> byte \<times> byte \<times> byte) list" where
  "keyword_map = concat (map (installs REGBIT) regs_table) @ concat (map (installs 0) ops_table)"

lemma keyword_map_distinct: "distinct (map fst keyword_map)"
proof -
  let ?ns = "map fst (regs_table @ ops_table)"
  have plain: "list_all plain_char n \<and> has_upper n" if "n \<in> set ?ns" for n
  proof -
    obtain e where "e \<in> set (regs_table @ ops_table)" "n = fst e" using \<open>n \<in> set ?ns\<close> by auto
    with keyword_chars show ?thesis
      unfolding list_all_iff case_prod_beta by blast
  qed
  have "distinct (concat (map (\<lambda>n. [bytes_of n, lower_name n]) ?ns))"
  proof (rule distinct_pairs)
    show "distinct ?ns" by (rule keyword_names_distinct)
    show "inj_on bytes_of (set ?ns)" by (simp add: inj_on_def bytes_of_inj)
    show "inj_on lower_name (set ?ns)"
      by (rule inj_onI) (use plain lower_name_inj in blast)
    show "\<forall>m\<in>set ?ns. \<forall>n\<in>set ?ns. bytes_of m \<noteq> lower_name n"
    proof (intro ballI)
      fix m n
      assume "m \<in> set ?ns" "n \<in> set ?ns"
      then show "bytes_of m \<noteq> lower_name n"
        using plain [of m] plain [of n] lower_name_upper [of n m] by simp
    qed
  qed
  then show ?thesis
    by (simp add: keyword_map_def map_fst_installs del: map_map distinct_append)
qed

text \<open>
  C5: installing the keywords in any well-formed table leaves it well-formed,
  with every register and every mnemonic or pseudo-op found under its name in
  upper and in lower case, marked as a keyword, with its own routine number and
  opcode, although all of them go through the one hash table and a later entry
  could overwrite an earlier one.
\<close>

theorem inst_keywords_complete:
  assumes "symtab_ok s" and "ifflag s"
  shows "symtab_ok (inst_keywords s) \<and>
    (\<forall>(n, rt, oc)\<in>set regs_table.
       kinfo (inst_keywords s) (bytes_of n) = Some (MNREGBIT, REGBIT, rt, oc) \<and>
       kinfo (inst_keywords s) (map lowcase (bytes_of n)) = Some (MNREGBIT, REGBIT, rt, oc)) \<and>
    (\<forall>(n, rt, oc)\<in>set ops_table.
       kinfo (inst_keywords s) (bytes_of n) = Some (MNREGBIT, 0, rt, oc) \<and>
       kinfo (inst_keywords s) (map lowcase (bytes_of n)) = Some (MNREGBIT, 0, rt, oc))"
proof -
  have short: "short_names regs_table" "short_names ops_table"
    and len: "\<And>n rt oc. (n, rt, oc) \<in> set (regs_table @ ops_table) \<Longrightarrow> length n < 256"
    using keyword_chars by (auto simp: short_names_def list_all_iff)
  have r: "table_ready (install regs REGBIT s)"
    "\<And>k. length k < 256 \<Longrightarrow> kinfo (install regs REGBIT s) k =
       (kinfo s ++ map_of (rev (concat (map (installs REGBIT) regs_table)))) k"
    using install_table [OF short(1), of s REGBIT] assms by (auto simp: regs_def table_ready_def)
  have "table_ready (inst_keywords s)"
    "\<And>k. length k < 256 \<Longrightarrow> kinfo (inst_keywords s) k = (kinfo s ++ map_of (rev keyword_map)) k"
    using install_table [OF short(2) r(1), of 0] r(2)
    by (auto simp: inst_keywords_def ops_def keyword_map_def map_add_def split: option.split)
  moreover have "map_of (rev keyword_map) k = Some v" if "(k, v) \<in> set keyword_map" for k v
    using that keyword_map_distinct by (simp add: map_of_is_SomeI rev_map [symmetric])
  ultimately have k: "symtab_ok (inst_keywords s)"
    "\<And>k v. \<lbrakk>(k, v) \<in> set keyword_map; length k < 256\<rbrakk> \<Longrightarrow> kinfo (inst_keywords s) k = Some v"
    by (auto simp: table_ready_def)
  have "(bytes_of n, MNREGBIT, REGBIT, rt, oc) \<in> set keyword_map"
    "(map lowcase (bytes_of n), MNREGBIT, REGBIT, rt, oc) \<in> set keyword_map"
    if "(n, rt, oc) \<in> set regs_table" for n rt oc
    using that by (force simp: keyword_map_def installs_def)+
  moreover have "(bytes_of n, MNREGBIT, 0, rt, oc) \<in> set keyword_map"
    "(map lowcase (bytes_of n), MNREGBIT, 0, rt, oc) \<in> set keyword_map"
    if "(n, rt, oc) \<in> set ops_table" for n rt oc
    using that by (force simp: keyword_map_def installs_def)+
  ultimately show ?thesis
    using k len by fastforce
qed

theorem inst_keywords_complete_witness:
  "kinfo (inst_keywords empty_symtab) (bytes_of ''D'') = Some (MNREGBIT, REGBIT, DREG, 0)"
  using inst_keywords_complete [OF empty_symtab_ok] by (auto simp: regs_table_def)

end
