(* ===== verification/Errors.thy ===== *)
theory Errors
  imports Scan "HOL-Library.Multiset"
begin

text \<open>
  Error and warning reports of the assembler: the messages of \<^verbatim>\<open>as/errors.c\<close>
  and the per-line error buffer of \<^verbatim>\<open>as/genlist.c\<close>, with its number
  formatting routines.  The buffer keeps at most six reports per line, each
  with the column it belongs to.
\<close>

section \<open>Messages\<close>

type_synonym errmsg = string

definition COMEXP :: errmsg where "COMEXP = ''comma expected''"
definition DELEXP :: errmsg where "DELEXP = ''delimiter expected''"
definition FACEXP :: errmsg where "FACEXP = ''factor expected''"
definition IREGEXP :: errmsg where "IREGEXP = ''index register expected''"
definition LABEXP :: errmsg where "LABEXP = ''label expected''"
definition LPEXP :: errmsg where "LPEXP = ''left parentheses expected''"
definition OPEXP :: errmsg where "OPEXP = ''opcode expected''"
definition RBEXP :: errmsg where "RBEXP = ''right bracket expected''"
definition RPEXP :: errmsg where "RPEXP = ''right parentheses expected''"
definition ABSREQ :: errmsg where "ABSREQ = ''absolute expression required''"
definition NONIMPREQ :: errmsg where "NONIMPREQ = ''non-imported expression required''"
definition RELBAD :: errmsg where "RELBAD = ''relocation impossible''"
definition ILLAB :: errmsg where "ILLAB = ''illegal label''"
definition MACUID :: errmsg where "MACUID = ''MACRO used as identifier''"
definition MISLAB :: errmsg where "MISLAB = ''missing label''"
definition MNUID :: errmsg where "MNUID = ''opcode used as identifier''"
definition REGUID :: errmsg where "REGUID = ''register used as identifier''"
definition RELAB :: errmsg where "RELAB = ''redefined label''"
definition UNBLAB :: errmsg where "UNBLAB = ''unbound label''"
definition UNLAB :: errmsg where "UNLAB = ''undefined label''"
definition VARLAB :: errmsg where "VARLAB = ''variable used as label''"
definition ABOUNDS :: errmsg where "ABOUNDS = ''address out of bounds''"
definition DBOUNDS :: errmsg where "DBOUNDS = ''data out of bounds''"
definition ILLMOD :: errmsg where "ILLMOD = ''illegal address mode''"
definition ILLREG :: errmsg where "ILLREG = ''illegal register''"
definition ELSEBAD :: errmsg where "ELSEBAD = ''no matching IF''"
definition ENDBBAD :: errmsg where "ENDBBAD = ''no matching BLOCK''"
definition EOFBLOCK :: errmsg where "EOFBLOCK = ''end of file in BLOCK''"
definition EOFIF :: errmsg where "EOFIF = ''end of file in IF''"
definition EOFLC :: errmsg where "EOFLC = ''location counter was undefined at end''"
definition EOFMAC :: errmsg where "EOFMAC = ''end of file in MACRO''"
definition FAILERR :: errmsg where "FAILERR = ''user-generated error''"
definition BLOCKOV :: errmsg where "BLOCKOV = ''BLOCK stack overflow''"
definition BWRAP :: errmsg where "BWRAP = ''binary file wrap-around''"
definition COUNTOV :: errmsg where "COUNTOV = ''counter overflow''"
definition COUNTUN :: errmsg where "COUNTUN = ''counter underflow''"
definition GETOV :: errmsg where "GETOV = ''GET stack overflow''"
definition IFOV :: errmsg where "IFOV = ''IF stack overflow''"
definition LINLONG :: errmsg where "LINLONG = ''line too long''"
definition MACOV :: errmsg where "MACOV = ''MACRO stack overflow''"
definition OWRITE :: errmsg where "OWRITE = ''program overwrite''"
definition PAROV :: errmsg where "PAROV = ''parameter table overflow''"
definition OBJOUT :: errmsg where "OBJOUT = ''error writing object file''"
definition CTLINS :: errmsg where "CTLINS = ''control character in string''"
definition FURTHER :: errmsg where "FURTHER = ''futher errors suppressed''"
definition ILL_SECTION :: errmsg where "ILL_SECTION = ''illegal section''"
definition NOIMPORT :: errmsg where "NOIMPORT = ''no imports with binary file output''"
definition REENTER :: errmsg where "REENTER = ''multiple ENTER pseudo-ops''"
definition SEGREL :: errmsg where "SEGREL = ''segment or relocatability redefined''"
definition UNKNOWN_ESCAPE_SEQUENCE :: errmsg where "UNKNOWN_ESCAPE_SEQUENCE = ''unknown escape sequence''"
definition JUNK_AFTER_OPERANDS :: errmsg where "JUNK_AFTER_OPERANDS = ''junk after operands''"
definition ALREADY :: errmsg where "ALREADY = ''already defined''"
definition UNSTABLE_LABEL :: errmsg where "UNSTABLE_LABEL = ''label moved in last pass add -O?''"
definition SHORTB :: errmsg where "SHORTB = ''short branch would do''"

section \<open>The error buffer\<close>

text \<open>Only the current value of the warning switch is read by the routines here.\<close>

record errs = scan +
  errbuf :: "(errmsg \<times> byte) list"
  errcount :: nat
  erroverflow :: bool
  toterr :: u32
  totwarn :: u32
  as_warn :: bool

abbreviation MAXERR :: nat where "MAXERR \<equiv> 6"

text \<open>
  The loop of \<^verbatim>\<open>error\<close> from slot \<open>i\<close> downwards.  Its test reads the slot it is
  about to fill, which at the first step is the one above the last report.
\<close>

fun err_insert :: "errmsg \<Rightarrow> byte \<Rightarrow> nat \<Rightarrow> (errmsg \<times> byte) list \<Rightarrow> (errmsg \<times> byte) list" where
  "err_insert msg p 0 buf = buf[0 := (msg, p)]"
| "err_insert msg p (Suc i) buf =
     (if p < snd (buf ! Suc i) then err_insert msg p i (buf[Suc i := buf ! i])
      else buf[Suc i := (msg, p)])"

definition error :: "errmsg \<Rightarrow> 'a errs_scheme \<Rightarrow> 'a errs_scheme" where
  "error msg s =
     (if MAXERR \<le> errcount s then s\<lparr>erroverflow := True\<rparr>
      else s\<lparr>errbuf := err_insert msg (of_int (int (symname s) - int (linebuf s))) (errcount s) (errbuf s),
             errcount := errcount s + 1,
             toterr := toterr s + 1\<rparr>)"

definition warning :: "errmsg \<Rightarrow> 'a errs_scheme \<Rightarrow> 'a errs_scheme" where
  "warning msg s =
     (if \<not> as_warn s then s
      else error msg (s\<lparr>totwarn := totwarn s + 1, toterr := toterr s - 1\<rparr>))"

text \<open>What the buffer must look like for the routine's array accesses to be in bounds.\<close>

definition errs_ok :: "'a errs_scheme \<Rightarrow> bool" where
  "errs_ok s \<longleftrightarrow> length (errbuf s) = MAXERR \<and> errcount s \<le> MAXERR"

definition reports :: "'a errs_scheme \<Rightarrow> (errmsg \<times> byte) multiset" where
  "reports s = mset (take (errcount s) (errbuf s))"

lemma length_err_insert [simp]: "length (err_insert msg p i buf) = length buf"
  by (induction msg p i buf rule: err_insert.induct) auto

lemma err_insert_above:
  "i < j \<Longrightarrow> err_insert msg p i buf ! j = buf ! j"
  by (induction msg p i buf rule: err_insert.induct) auto

lemma err_insert_mset:
  "i < length buf \<Longrightarrow>
   mset (take (Suc i) (err_insert msg p i buf)) = add_mset (msg, p) (mset (take i buf))"
proof (induction msg p i buf rule: err_insert.induct)
  case (1 msg p buf)
  then show ?case by (cases buf) simp_all
next
  case (2 msg p i buf)
  show ?case
  proof (cases "p < snd (buf ! Suc i)")
    case True
    let ?b = "buf[Suc i := buf ! i]"
    have "mset (take (Suc (Suc i)) (err_insert msg p i ?b)) =
        add_mset (buf ! i) (mset (take (Suc i) (err_insert msg p i ?b)))"
      using 2(2) by (simp add: take_Suc_conv_app_nth [of "Suc i"] err_insert_above)
    also have "\<dots> = add_mset (buf ! i) (add_mset (msg, p) (mset (take i buf)))"
      using 2 True by simp
    also have "\<dots> = add_mset (msg, p) (mset (take (Suc i) buf))"
      using 2(2) by (simp add: take_Suc_conv_app_nth [of i])
    finally show ?thesis using True by simp
  next
    case False
    then show ?thesis using 2(2) by (simp add: take_Suc_conv_app_nth [of "Suc i"])
  qed
qed

lemma error_frame [simp]:
  "syms (error msg s) = syms s"
  "spt (error msg s) = spt s"
  "ifflag (error msg s) = ifflag s"
  "inidata (error msg s) = inidata s"
  "srcbuf (error msg s) = srcbuf s"
  "linebuf (error msg s) = linebuf s"
  "lineptr (error msg s) = lineptr s"
  "symname (error msg s) = symname s"
  "sym (error msg s) = sym s"
  "number (error msg s) = number s"
  "gsymptr (error msg s) = gsymptr s"
  "errs.more (error msg s) = errs.more s"
  by (simp_all add: error_def)

lemma warning_frame [simp]:
  "syms (warning msg s) = syms s"
  "srcbuf (warning msg s) = srcbuf s"
  "lineptr (warning msg s) = lineptr s"
  "sym (warning msg s) = sym s"
  "errs.more (warning msg s) = errs.more s"
  by (simp_all add: warning_def)

lemma error_ok: "errs_ok s \<Longrightarrow> errs_ok (error msg s)"
  by (simp add: errs_ok_def error_def)

text \<open>
  C6: a report is never lost or altered and never overruns the buffer: while
  there is room, \<^verbatim>\<open>error\<close> adds exactly its message and column to the recorded
  reports and counts it, and afterwards it only raises the overflow flag.
\<close>

theorem error_records:
  assumes "errs_ok s"
  shows "errs_ok (error msg s) \<and>
    (if errcount s < MAXERR then
       reports (error msg s) =
         add_mset (msg, of_int (int (symname s) - int (linebuf s))) (reports s) \<and>
       toterr (error msg s) = toterr s + 1 \<and> erroverflow (error msg s) = erroverflow s
     else error msg s = s\<lparr>erroverflow := True\<rparr>)"
  using assms error_ok [OF assms, of msg]
  by (simp add: error_def errs_ok_def reports_def err_insert_mset)

abbreviation errs_at :: "string \<Rightarrow> errs" where
  "errs_at line \<equiv> \<lparr>syms = [], spt = (\<lambda>_. []), ifflag = True, inidata = 0x90,
     srcbuf = bytes_of line, linebuf = 0, lineptr = 0, symname = 5, sym = EOLSYM,
     number = 0, numbase = 16, gsymptr = None,
     errbuf = replicate 6 ([], 0), errcount = 0, erroverflow = False, toterr = 0,
     totwarn = 0, as_warn = True\<rparr>"

theorem error_records_witness:
  "reports (error FACEXP (errs_at ''X EQU'')) = {#(FACEXP, 5)#}"
  using error_records [of "errs_at ''X EQU''" FACEXP] by (simp add: errs_ok_def reports_def)

text \<open>
  The buffer is not kept in column order: on a fresh buffer a report for
  column 2 made after one for column 5 stays behind it, because the loop
  compares with the unused slot.
\<close>

lemma error_not_sorted:
  "map snd (take 2 (errbuf (error UNBLAB ((error RELBAD (errs_at []))\<lparr>symname := 2\<rparr>)))) = [5, 2]"
  by (simp add: error_def numeral_eq_Suc)

section \<open>Numbers in listings\<close>

definition hexdigit :: "byte list" where
  "hexdigit = bytes_of ''0123456789ABCDEF''"

definition build_1hex_number :: "u32 \<Rightarrow> byte list" where
  "build_1hex_number num =
     [hexdigit ! unat (num mod 256 div 16), hexdigit ! unat (num mod 16)]"

definition build_2hex_number :: "u32 \<Rightarrow> byte list" where
  "build_2hex_number num = build_1hex_number (num div 256) @ build_1hex_number num"

text \<open>The digit loop of \<^verbatim>\<open>build_number\<close>: repeated subtraction, the digit a byte.\<close>

function count_digit :: "u32 \<Rightarrow> u32 \<Rightarrow> byte \<Rightarrow> byte \<times> u32" where
  "count_digit p num digit =
     (if 0 < p \<and> p \<le> num then count_digit p (num - p) (digit + 1) else (digit, num))"
  by pat_completeness auto
termination
  by (relation "measure (\<lambda>(p, num, digit). unat num)")
     (auto simp: unat_sub word_le_nat_alt word_less_nat_alt)

declare count_digit.simps [simp del]

fun build_digits :: "u32 list \<Rightarrow> u32 \<Rightarrow> nat \<Rightarrow> byte list" where
  "build_digits [] num width = []"
| "build_digits (p # ps) num width =
     (case count_digit p num 0x30 of (digit, num') \<Rightarrow>
        (if Suc (length ps) \<le> width then [digit] else []) @ build_digits ps num' width)"

definition build_number :: "u32 \<Rightarrow> nat \<Rightarrow> byte list" where
  "build_number num width = build_digits [10000, 1000, 100, 10, 1] num width"


lemma hexdigit_digit:
  "n < 16 \<Longrightarrow> digit_of 16 (hexdigit ! n) = Some (of_nat n)"
proof -
  assume "n < 16"
  then have "n \<in> set [0..<16]" by simp
  moreover have "\<forall>n\<in>set [0..<16]. digit_of 16 (hexdigit ! n) = Some (of_nat n)"
    by (simp add: hexdigit_def digit_of_def upt_rec)
  ultimately show ?thesis by blast
qed

lemma build_1hex_digits:
  fixes num :: u32
  shows "map (digit_of 16) (build_1hex_number num) =
    [Some (of_nat (unat num mod 256 div 16)), Some (of_nat (unat num mod 16))]"
  by (simp add: build_1hex_number_def hexdigit_digit unat_div unat_mod)

lemma split_hex:
  fixes n :: nat
  shows "16 * (16 * (16 * (n div 256 mod 256 div 16) + n div 256 mod 16) + n mod 256 div 16) + n mod 16
    = n mod 65536"
proof -
  have a: "16 * (n mod 256 div 16) + n mod 16 = n mod 256" for n :: nat
    using mult_div_mod_eq [of 16 "n mod 256"] by (simp add: mod_mod_cancel)
  have "256 * (n div 256 mod 256) + n mod 256 = n mod 65536"
    using mod_mult2_eq [of n 256 256] by simp
  with a [of n] a [of "n div 256"] show ?thesis by (simp add: algebra_simps)
qed

text \<open>
  C7: the four hexadecimal digits a listing or a diagnostic prints for a number
  are read back by the assembler's own number scanner as the number modulo
  \<^term>\<open>2 ^ 16\<close>.
\<close>

theorem build_2hex_roundtrip:
  "int_loop 16 (build_2hex_number num) 0 0 = (4, of_nat (unat num mod 65536))"
proof -
  let ?cs = "build_2hex_number num"
  have digits: "map (digit_of 16) ?cs =
      [Some (of_nat (unat num div 256 mod 256 div 16)), Some (of_nat (unat num div 256 mod 16)),
       Some (of_nat (unat num mod 256 div 16)), Some (of_nat (unat num mod 16))]"
    by (simp add: build_2hex_number_def build_1hex_digits unat_div)
  have "foldl (\<lambda>m c. 16 * m + the (digit_of 16 c)) 0 ?cs =
      foldl (\<lambda>m d. 16 * m + the d) 0 (map (digit_of 16) ?cs)"
    by (simp add: foldl_map)
  also have "\<dots> = of_nat (unat num mod 65536)"
    unfolding digits by (simp flip: split_hex)
  finally have "foldl (\<lambda>m c. 16 * m + the (digit_of 16 c)) 0 ?cs = of_nat (unat num mod 65536)" .
  moreover have "\<forall>c\<in>set ?cs. digit_of 16 c \<noteq> None"
    using digits by (simp add: build_2hex_number_def build_1hex_number_def)
  moreover have "length ?cs = 4"
    by (simp add: build_2hex_number_def build_1hex_number_def)
  ultimately show ?thesis
    using int_loop_digits [of 0 ?cs ?cs "[]" 16 0] by simp
qed

lemma count_digit_divmod:
  "0 < p \<Longrightarrow> count_digit p num d = (d + of_nat (unat num div unat p), num mod p)"
proof (induction p num d rule: count_digit.induct)
  case (1 p num d)
  show ?case
  proof (cases "p \<le> num")
    case True
    have p: "0 < unat p" using "1.prems" by (simp add: word_less_nat_alt)
    have le: "unat p \<le> unat num" using True by (simp add: word_le_nat_alt)
    have sub: "unat (num - p) = unat num - unat p" using True by (rule unat_sub)
    have "count_digit p num d = (d + 1 + of_nat (unat (num - p) div unat p), (num - p) mod p)"
      using 1 True by (simp add: count_digit.simps [of p num d])
    moreover have "Suc ((unat num - unat p) div unat p) = unat num div unat p"
      using p le by (simp add: le_div_geq)
    moreover have "(num - p) mod p = num mod p"
      using le by (simp add: word_unat_eq_iff unat_mod sub le_mod_geq)
    ultimately show ?thesis using sub by (metis add.assoc of_nat_Suc)
  next
    case False
    then have "unat num < unat p" by (simp add: word_le_nat_alt)
    then show ?thesis
      using False by (simp add: count_digit.simps [of p num d] word_unat_eq_iff unat_mod)
  qed
qed


lemma div_power_mod:
  fixes n :: nat
  assumes "i < k"
  shows "n mod 10 ^ k div 10 ^ i mod 10 = n div 10 ^ i mod 10"
proof -
  obtain m where k: "k = i + Suc m"
    using assms less_iff_Suc_add by auto
  have "n mod (10 ^ i * 10 ^ Suc m) = 10 ^ i * (n div 10 ^ i mod 10 ^ Suc m) + n mod 10 ^ i"
    by (rule mod_mult2_eq)
  then have "n mod 10 ^ k div 10 ^ i = n div 10 ^ i mod 10 ^ Suc m"
    by (simp only: k power_add) simp
  then show ?thesis
    by (simp add: mod_mod_cancel)
qed

lemma build_digits_decimal:
  assumes "k \<le> 9" and "unat num < 10 ^ k"
  shows "build_digits (map (\<lambda>i. 10 ^ i) (rev [0..<k])) num width =
    map (\<lambda>i. 0x30 + of_nat (unat num div 10 ^ i mod 10)) (rev [0..<min k width])"
  using assms
proof (induction k arbitrary: num)
  case 0
  then show ?case by simp
next
  case (Suc k)
  have "(10 :: nat) ^ k \<le> 10 ^ 9" using Suc.prems(1) by (intro power_increasing) simp_all
  then have p: "unat ((10 :: u32) ^ k) = 10 ^ k"
    using unat_of_nat [where 'a = 32, of "10 ^ k"] by simp
  have pos: "0 < (10 :: u32) ^ k" by (simp add: word_less_nat_alt p)
  have rest: "unat (num mod 10 ^ k) = unat num mod 10 ^ k"
    by (simp add: unat_mod p)
  have top: "unat num div 10 ^ k < 10"
    using Suc.prems(2) by (simp add: less_mult_imp_div_less mult.commute)
  have "build_digits (map (\<lambda>i. 10 ^ i) (rev [0..<Suc k])) num width =
      (if Suc k \<le> width then [0x30 + of_nat (unat num div 10 ^ k mod 10)] else []) @
      map (\<lambda>i. 0x30 + of_nat (unat (num mod 10 ^ k) div 10 ^ i mod 10)) (rev [0..<min k width])"
    using Suc.IH [of "num mod 10 ^ k"] Suc.prems(1) top
    by (simp add: count_digit_divmod [OF pos] p rest)
  also have "map (\<lambda>i. 0x30 + of_nat (unat (num mod 10 ^ k) div 10 ^ i mod 10)) (rev [0..<min k width]) =
      map (\<lambda>i. (0x30 :: byte) + of_nat (unat num div 10 ^ i mod 10)) (rev [0..<min k width])"
    by (simp add: rest div_power_mod)
  finally show ?case
    by (cases "Suc k \<le> width") (simp_all add: not_less_eq_eq min_absorb1 min_absorb2)
qed

text \<open>
  C8: \<^verbatim>\<open>build_number\<close>, which divides by repeated subtraction, prints the last
  \<open>width\<close> decimal digits of every number below 100000, most significant first.
\<close>

theorem build_number_decimal:
  assumes "unat num < 100000"
  shows "build_number num width =
    map (\<lambda>i. 0x30 + of_nat (unat num div 10 ^ i mod 10)) (rev [0..<min 5 width])"
  using build_digits_decimal [of 5 num width] assms
  by (simp add: build_number_def upt_rec)

theorem build_number_decimal_witness:
  "build_number 742 5 = bytes_of ''00742''"
  using build_number_decimal [of 742 5] by (simp add: upt_rec)

end
