(* ===== verification/Express.thy ===== *)
theory Express
  imports Errors
begin

text \<open>
  The expression handler of the assembler, \<^verbatim>\<open>as/express.c\<close>: a recursive
  descent over the symbols of the current line that leaves value, relocation
  flags and imported symbol in \<^verbatim>\<open>lastexp\<close>.  The mutual recursion carries fuel;
  the routines without a suffix run it with one unit per symbol and nesting
  level left on the line, which is shown to be enough, and satisfy the
  equations of the source.
\<close>

section \<open>State\<close>

record address_s =
  a_offset :: u64
  a_data :: byte
  a_sym :: "nat option"

text \<open>\<^verbatim>\<open>pass\<close> and \<^verbatim>\<open>last_pass\<close> count the passes of the assembler, from 0.\<close>

record expr = errs +
  lastexp :: address_s
  lc :: u64
  lcdata :: byte
  pass :: nat
  last_pass :: nat

abbreviation loff :: "'a expr_scheme \<Rightarrow> u64" where "loff s \<equiv> a_offset (lastexp s)"
abbreviation ldata :: "'a expr_scheme \<Rightarrow> byte" where "ldata s \<equiv> a_data (lastexp s)"

definition set_off :: "u64 \<Rightarrow> 'a expr_scheme \<Rightarrow> 'a expr_scheme" where
  "set_off v s = s\<lparr>lastexp := (lastexp s)\<lparr>a_offset := v\<rparr>\<rparr>"

definition set_data :: "byte \<Rightarrow> 'a expr_scheme \<Rightarrow> 'a expr_scheme" where
  "set_data d s = s\<lparr>lastexp := (lastexp s)\<lparr>a_data := d\<rparr>\<rparr>"

definition set_sym :: "nat option \<Rightarrow> 'a expr_scheme \<Rightarrow> 'a expr_scheme" where
  "set_sym r s = s\<lparr>lastexp := (lastexp s)\<lparr>a_sym := r\<rparr>\<rparr>"

section \<open>Checks\<close>

definition expundefined :: "'a expr_scheme \<Rightarrow> 'a expr_scheme" where
  "expundefined s = set_data (if last_pass s = 1 then FORBIT OR UNDBIT else UNDBIT) s"

definition chkabs :: "'a expr_scheme \<Rightarrow> 'a expr_scheme" where
  "chkabs s =
     (if has (ldata s) RELBIT
      then expundefined (if pass s = last_pass s then error ABSREQ s else s) else s)"

definition experror :: "errmsg \<Rightarrow> 'a expr_scheme \<Rightarrow> 'a expr_scheme" where
  "experror err_str s = expundefined (error err_str s)"

definition showrelbad :: "'a expr_scheme \<Rightarrow> 'a expr_scheme" where
  "showrelbad s = expundefined (if pass s = last_pass s then error RELBAD s else s)"

section \<open>Operators\<close>

text \<open>What each operator does with the left operand, saved, and the right one, in \<^verbatim>\<open>lastexp\<close>.\<close>

definition simple2_data :: "byte \<Rightarrow> 'a expr_scheme \<Rightarrow> 'a expr_scheme" where
  "simple2_data leftdata s =
     (if has (leftdata OR ldata s) IMPBIT \<or> has (leftdata XOR ldata s) (RELBIT OR SEGM)
      then showrelbad s
      else set_data ((leftdata AND ldata s) AND NOT (RELBIT OR SEGM)) s)"

definition add_op :: "u64 \<Rightarrow> byte \<Rightarrow> 'a expr_scheme \<Rightarrow> 'a expr_scheme" where
  "add_op leftoffset leftdata s =
     (let s1 = (if has (leftdata AND ldata s) RELBIT then showrelbad s
                else set_data (ldata s OR leftdata) s)
      in set_off (loff s1 + leftoffset) s1)"

definition sub_op :: "u64 \<Rightarrow> byte \<Rightarrow> 'a expr_scheme \<Rightarrow> 'a expr_scheme" where
  "sub_op leftoffset leftdata s =
     (let s1 = (if has (ldata s) RELBIT \<and>
                   (\<not> has leftdata RELBIT \<or> has (leftdata OR ldata s) IMPBIT \<or>
                    has (leftdata XOR ldata s) (RELBIT OR SEGM))
                then showrelbad s
                else set_data (((leftdata OR ldata s) AND NOT (RELBIT OR SEGM)) OR
                               ((leftdata XOR ldata s) AND (RELBIT OR SEGM))) s)
      in set_off (leftoffset - loff s1) s1)"

definition or_op :: "u64 \<Rightarrow> byte \<Rightarrow> 'a expr_scheme \<Rightarrow> 'a expr_scheme" where
  "or_op leftoffset leftdata s =
     (let s1 = chkabs (set_data (ldata s OR leftdata) s)
      in set_off (loff s1 OR leftoffset) s1)"

definition term_op :: "symcode \<Rightarrow> u64 \<Rightarrow> 'a expr_scheme \<Rightarrow> stop + 'a expr_scheme" where
  "term_op op leftoffset s =
     (if op = STAR then Inr (set_off (loff s * leftoffset) s)
      else if op = SLASH then
        (if loff s = 0 then Inl DivideByZero else Inr (set_off (leftoffset div loff s) s))
      else if op = ANDOP then Inr (set_off (loff s AND leftoffset) s)
      else if op = SLOP then
        (if 64 \<le> loff s then Inl ShiftTooFar
         else Inr (set_off (push_bit (unat (loff s)) leftoffset) s))
      else
        (if 64 \<le> loff s then Inl ShiftTooFar
         else Inr (set_off (drop_bit (unat (loff s)) leftoffset) s)))"

section \<open>The descent\<close>

text \<open>
  The identifier case of \<^verbatim>\<open>factor\<close>.  While a false branch of a conditional is
  skipped, \<^verbatim>\<open>gsymptr\<close> is null for a name that is not in the table, and the
  routine follows it.
\<close>

definition ident_factor :: "'a expr_scheme \<Rightarrow> stop + 'a expr_scheme" where
  "ident_factor s =
     (case gsymptr s of
        None \<Rightarrow> Inl NullPointer
      | Some symptr \<Rightarrow>
          let y = syms s ! symptr in
          if has (sy_type y) (MNREGBIT OR MACBIT) then
            Inr (experror (if has (sy_type y) MACBIT then MACUID
                           else if has (sy_data y) REGBIT then REGUID else MNUID) s)
          else
            let s1 = (if \<not> has (sy_type y) (LABIT OR VARBIT) then
                        set_sym (Some symptr)
                          (if last_pass s = 1
                           then upd_sym symptr (\<lambda>y. y\<lparr>sy_data := sy_data y OR FORBIT\<rparr>) s
                           else s)
                      else s);
                y1 = syms s1 ! symptr
            in if pass s \<noteq> last_pass s then
                 Inr (set_off (sy_value y1)
                   (set_data (sy_data y1 AND
                      (if last_pass s = 1 then FORBIT OR RELBIT OR UNDBIT OR SEGM
                       else RELBIT OR UNDBIT OR SEGM)) s1))
               else if has (sy_data y1) IMPBIT then Inr (set_off 0 (set_data (sy_data y1) s1))
               else
                 let s2 = set_off (sy_value y1) (set_data (sy_data y1) s1)
                 in Inr (if has (sy_data y1) UNDBIT then experror UNBLAB s2 else s2))"

fun expres_f :: "nat \<Rightarrow> 'a expr_scheme \<Rightarrow> stop + 'a expr_scheme"
  and simple2_f :: "nat \<Rightarrow> 'a expr_scheme \<Rightarrow> stop + 'a expr_scheme"
  and simple_f :: "nat \<Rightarrow> 'a expr_scheme \<Rightarrow> stop + 'a expr_scheme"
  and simple_loop_f :: "nat \<Rightarrow> 'a expr_scheme \<Rightarrow> stop + 'a expr_scheme"
  and term_f :: "nat \<Rightarrow> 'a expr_scheme \<Rightarrow> stop + 'a expr_scheme"
  and term_loop_f :: "nat \<Rightarrow> 'a expr_scheme \<Rightarrow> stop + 'a expr_scheme"
  and factor2_f :: "nat \<Rightarrow> 'a expr_scheme \<Rightarrow> stop + 'a expr_scheme"
  and factor_f :: "nat \<Rightarrow> 'a expr_scheme \<Rightarrow> stop + 'a expr_scheme"
where
  "expres_f 0 s = Inl NoFuel"
| "expres_f (Suc n) s =
     bindE (simple_f n s) (\<lambda>s1.
       if sym s1 = EQOP then
         bindE (simple2_f n s1) (\<lambda>s2. Inr (set_off (if loff s1 = loff s2 then -1 else 0) s2))
       else if sym s1 = LESSTHAN then
         bindE (simple2_f n s1) (\<lambda>s2. Inr (set_off (if loff s1 < loff s2 then -1 else 0) s2))
       else if sym s1 = GREATERTHAN then
         bindE (simple2_f n s1) (\<lambda>s2. Inr (set_off (if loff s2 < loff s1 then -1 else 0) s2))
       else Inr s1)"
| "simple2_f 0 s = Inl NoFuel"
| "simple2_f (Suc n) s =
     bindE (simple_f n (getsym s)) (\<lambda>s1. Inr (simple2_data (ldata s) s1))"
| "simple_f 0 s = Inl NoFuel"
| "simple_f (Suc n) s =
     bindE (if sym s = ADDOP \<or> sym s = SUBOP then Inr (set_data 0 (set_off 0 s)) else term_f n s)
       (simple_loop_f n)"
| "simple_loop_f 0 s = Inl NoFuel"
| "simple_loop_f (Suc n) s =
     (if sym s = ADDOP then
        bindE (term_f n (getsym s)) (\<lambda>s1. simple_loop_f n (add_op (loff s) (ldata s) s1))
      else if sym s = SUBOP then
        bindE (term_f n (getsym s)) (\<lambda>s1. simple_loop_f n (sub_op (loff s) (ldata s) s1))
      else if sym s = OROP then
        bindE (term_f n (getsym s)) (\<lambda>s1. simple_loop_f n (or_op (loff s) (ldata s) s1))
      else Inr s)"
| "term_f 0 s = Inl NoFuel"
| "term_f (Suc n) s = bindE (factor_f n s) (term_loop_f n)"
| "term_loop_f 0 s = Inl NoFuel"
| "term_loop_f (Suc n) s =
     (if sym s \<in> {STAR, SLASH, ANDOP, SLOP, SROP} then
        bindE (factor2_f n s) (\<lambda>s1. bindE (term_op (sym s) (loff s) s1) (term_loop_f n))
      else Inr s)"
| "factor2_f 0 s = Inl NoFuel"
| "factor2_f (Suc n) s =
     bindE (factor_f n (getsym s)) (\<lambda>s1. Inr (chkabs (set_data (ldata s1 OR ldata s) s1)))"
| "factor_f 0 s = Inl NoFuel"
| "factor_f (Suc n) s =
     (if sym s = SLASH then
        let s1 = context_hexconst s
        in Inr (getsym (set_off (number s1) (set_data 0 s1)))
      else if sym s = INTCONST then Inr (getsym (set_off (number s) (set_data 0 s)))
      else if sym s = IDENT then bindE (ident_factor s) (\<lambda>s1. Inr (getsym s1))
      else if sym s = LPAREN then
        bindE (expres_f n (getsym s)) (\<lambda>s1.
          Inr (if sym s1 \<noteq> RPAREN then error RPEXP s1 else getsym s1))
      else if sym s = NOTOP then
        bindE (factor_f n (getsym s)) (\<lambda>s1.
          let s2 = chkabs s1 in Inr (set_off (NOT (loff s2)) s2))
      else if sym s = ADDOP then factor_f n (getsym s)
      else if sym s = SUBOP then
        bindE (factor_f n (getsym s)) (\<lambda>s1.
          let s2 = chkabs s1 in Inr (set_off (- loff s2) s2))
      else if sym s = STAR then
        let s1 = set_data (lcdata s) (set_off (lc s) s);
            s2 = (if has (lcdata s) UNDBIT \<and> pass s = last_pass s then experror UNBLAB s1 else s1)
        in Inr (getsym s2)
      else Inr (experror FACEXP s))"


section \<open>What an expression leaves alone\<close>

lemma exp_simps [simp]:
  "lastexp (set_off v s) = (lastexp s)\<lparr>a_offset := v\<rparr>"
  "lastexp (set_data d s) = (lastexp s)\<lparr>a_data := d\<rparr>"
  "lastexp (set_sym r s) = (lastexp s)\<lparr>a_sym := r\<rparr>"
  by (simp_all add: set_off_def set_data_def set_sym_def)

text \<open>The part of an entry that using the symbol in an expression does not change.\<close>

definition sy_core :: "sym_s \<Rightarrow> byte \<times> byte \<times> u64 \<times> byte \<times> byte list" where
  "sy_core y = (sy_type y, sy_data y AND NOT FORBIT, sy_value y, sy_length y, sy_name y)"

definition syms_grow :: "sym_s list \<Rightarrow> sym_s list \<Rightarrow> bool" where
  "syms_grow ys zs \<longleftrightarrow>
     length ys \<le> length zs \<and> (\<forall>r<length ys. sy_core (zs ! r) = sy_core (ys ! r))"

lemma syms_grow_refl [simp]: "syms_grow ys ys"
  by (simp add: syms_grow_def)

lemma syms_grow_trans: "\<lbrakk>syms_grow ys zs; syms_grow zs us\<rbrakk> \<Longrightarrow> syms_grow ys us"
  by (auto simp: syms_grow_def)

lemma syms_grow_lookup: "syms_grow (syms s) (syms (snd (lookup name s)))"
  by (auto simp: lookup_def add_sym_def syms_grow_def Let_def nth_append split: option.split)

lemma syms_grow_getsym: "syms_grow (syms s) (syms (getsym s))"
proof -
  have l: "syms_grow (syms t) (syms (lookup_cur t))" for t :: "'a scan_scheme"
    by (simp add: lookup_cur_def case_prod_beta syms_grow_lookup)
  have "syms_grow (syms s) (syms (lookup_cur (s\<lparr>symname := p, sym := c, lineptr := e\<rparr>)))" for p c e
    using l [of "s\<lparr>symname := p, sym := c, lineptr := e\<rparr>"] by simp
  then show ?thesis
    by (cases "symofchar (rdch (srcbuf s) (advance (srcbuf s) (lineptr s)))")
       (simp_all add: getsym_def Let_def)
qed

lemma syms_grow_forward:
  "syms_grow (syms s) (syms (upd_sym r (\<lambda>y. y\<lparr>sy_data := sy_data y OR FORBIT\<rparr>) s))"
proof -
  have "(d OR FORBIT) AND NOT FORBIT = d AND NOT FORBIT" for d :: byte
    by (simp add: bit.conj_disj_distrib2)
  then show ?thesis
    by (cases "r < length (syms s)")
       (auto simp: syms_grow_def upd_sym_def sy_core_def nth_list_update list_update_beyond)
qed

definition expr_step :: "'a expr_scheme \<Rightarrow> 'a expr_scheme \<Rightarrow> bool" where
  "expr_step s t \<longleftrightarrow>
     srcbuf t = srcbuf s \<and> linebuf t = linebuf s \<and> ifflag t = ifflag s \<and> inidata t = inidata s \<and>
     lc t = lc s \<and> lcdata t = lcdata s \<and> pass t = pass s \<and> last_pass t = last_pass s \<and>
     expr.more t = expr.more s \<and> syms_grow (syms s) (syms t) \<and>
     scanner.budget t \<le> scanner.budget s"

lemma expr_step_refl [simp]: "expr_step s s"
  by (simp add: expr_step_def)

lemma expr_step_trans: "\<lbrakk>expr_step s t; expr_step t u\<rbrakk> \<Longrightarrow> expr_step s u"
  unfolding expr_step_def using syms_grow_trans by auto

text \<open>A routine of the layer above the scanner that keeps the scanner's position.\<close>

lemma expr_of_more:
  fixes s t :: "'a expr_scheme"
  assumes "errs.more t = errs.more s"
  shows "lastexp t = lastexp s" "lc t = lc s" "lcdata t = lcdata s"
    "pass t = pass s" "last_pass t = last_pass s" "expr.more t = expr.more s"
  using assms by (cases s; cases t; simp)+

lemma scan_of_more:
  fixes s t :: "'a errs_scheme"
  assumes "scan.more t = scan.more s"
  shows "errbuf t = errbuf s" "errcount t = errcount s" "erroverflow t = erroverflow s"
    "toterr t = toterr s" "totwarn t = totwarn s" "as_warn t = as_warn s"
    "errs.more t = errs.more s"
  using assms by (cases s; cases t; simp)+

lemmas error_expr [simp] = expr_of_more [OF error_frame(12)]
lemmas getsym_errs [simp] = scan_of_more [OF getsym_frame(5)]
lemmas getsym_expr [simp] = expr_of_more [OF getsym_errs(7)]
lemmas context_hexconst_errs [simp] = scan_of_more [OF context_hexconst_frame(7)]
lemmas context_hexconst_expr [simp] = expr_of_more [OF context_hexconst_errs(7)]

lemma expr_step_getsym: "sym s \<noteq> EOLSYM \<Longrightarrow> expr_step s (getsym s)"
  using scanner.budget_next [of s] by (simp add: expr_step_def syms_grow_getsym)

lemma expr_step_set [simp]:
  "expr_step s (set_off v t) \<longleftrightarrow> expr_step s t"
  "expr_step s (set_data d t) \<longleftrightarrow> expr_step s t"
  "expr_step s (set_sym r t) \<longleftrightarrow> expr_step s t"
  by (simp_all add: expr_step_def set_off_def set_data_def set_sym_def scanner.budget_def)

lemma expr_step_set_left [simp]:
  "expr_step (set_off v s) t \<longleftrightarrow> expr_step s t"
  "expr_step (set_data d s) t \<longleftrightarrow> expr_step s t"
  "expr_step (set_sym r s) t \<longleftrightarrow> expr_step s t"
  by (simp_all add: expr_step_def set_off_def set_data_def set_sym_def scanner.budget_def)

lemma expr_step_error_right [simp]: "expr_step s (error m t) \<longleftrightarrow> expr_step s t"
  by (simp add: expr_step_def scanner.budget_def)

lemma sym_set [simp]:
  "sym (set_off v s) = sym s" "sym (set_data d s) = sym s" "sym (set_sym r s) = sym s"
  by (simp_all add: set_off_def set_data_def set_sym_def)

lemma expr_step_ops [simp]:
  "expr_step s (expundefined t) \<longleftrightarrow> expr_step s t"
  "expr_step s (chkabs t) \<longleftrightarrow> expr_step s t"
  "expr_step s (experror m t) \<longleftrightarrow> expr_step s t"
  "expr_step s (showrelbad t) \<longleftrightarrow> expr_step s t"
  "expr_step s (simple2_data d t) \<longleftrightarrow> expr_step s t"
  "expr_step s (add_op v d t) \<longleftrightarrow> expr_step s t"
  "expr_step s (sub_op v d t) \<longleftrightarrow> expr_step s t"
  "expr_step s (or_op v d t) \<longleftrightarrow> expr_step s t"
  by (simp_all add: expundefined_def chkabs_def experror_def showrelbad_def simple2_data_def
      add_op_def sub_op_def or_op_def Let_def)

lemma expr_step_term_op: "\<lbrakk>term_op op v s = Inr t; expr_step r s\<rbrakk> \<Longrightarrow> expr_step r t"
  by (auto simp: term_op_def split: if_splits)

lemma expr_step_forward [simp]:
  "expr_step s (upd_sym r (\<lambda>y. y\<lparr>sy_data := sy_data y OR FORBIT\<rparr>) s)"
  using syms_grow_forward [of s r]
  by (simp add: expr_step_def upd_sym_def scanner.budget_def)

lemma sym_upd_sym [simp]: "sym (upd_sym r f s) = sym s"
  by (simp add: upd_sym_def)

lemma sym_ops [simp]:
  "sym (expundefined t) = sym t"
  "sym (chkabs t) = sym t"
  "sym (experror m t) = sym t"
  "sym (showrelbad t) = sym t"
  "sym (simple2_data d t) = sym t"
  "sym (add_op v d t) = sym t"
  "sym (sub_op v d t) = sym t"
  "sym (or_op v d t) = sym t"
  by (simp_all add: expundefined_def chkabs_def experror_def showrelbad_def simple2_data_def
      add_op_def sub_op_def or_op_def Let_def)

lemma sym_term_op: "term_op op v s = Inr t \<Longrightarrow> sym t = sym s"
  by (auto simp: term_op_def split: if_splits)

lemma expr_step_ident: "ident_factor s = Inr t \<Longrightarrow> expr_step s t \<and> sym t = sym s"
  by (auto simp: ident_factor_def Let_def split: option.splits if_splits)


lemma expr_step_getsym_trans: "\<lbrakk>sym s \<noteq> EOLSYM; expr_step (getsym s) t\<rbrakk> \<Longrightarrow> expr_step s t"
  using expr_step_getsym expr_step_trans by blast

lemma expr_step_hexconst: "sym s \<noteq> EOLSYM \<Longrightarrow> expr_step s (context_hexconst s)"
  using context_hexconst_ge [of s]
  by (auto simp: expr_step_def scanner.budget_def diff_le_mono2)

lemma sym_hexconst [simp]: "sym (context_hexconst s) = INTCONST"
  by (simp add: context_hexconst_def)

section \<open>The fuel is enough\<close>

text \<open>A run from \<open>s\<close> that does not run out of fuel, and what its result keeps of \<open>s\<close>.\<close>

definition good :: "'a expr_scheme \<Rightarrow> stop + 'a expr_scheme \<Rightarrow> bool" where
  "good s m \<longleftrightarrow> (case m of Inl e \<Rightarrow> e \<in> {DivideByZero, ShiftTooFar, NullPointer} | Inr t \<Rightarrow> expr_step s t)"

lemma good_simps [simp]:
  "good s (Inl e) \<longleftrightarrow> e \<in> {DivideByZero, ShiftTooFar, NullPointer}"
  "good s (Inr t) \<longleftrightarrow> expr_step s t"
  by (simp_all add: good_def)

lemma good_bind:
  "\<lbrakk>good s m; \<And>t. \<lbrakk>m = Inr t; expr_step s t\<rbrakk> \<Longrightarrow> good s (f t)\<rbrakk> \<Longrightarrow> good s (bindE m f)"
  by (cases m) simp_all

lemma good_trans: "\<lbrakk>expr_step s r; good r m\<rbrakk> \<Longrightarrow> good s m"
  using expr_step_trans by (cases m) auto

lemma good_getsym: "\<lbrakk>sym s \<noteq> EOLSYM; good (getsym s) m\<rbrakk> \<Longrightarrow> good s m"
  using good_trans expr_step_getsym by blast

lemma good_term_op: "expr_step s t \<Longrightarrow> good s (term_op op v t)"
  by (auto simp: term_op_def)

lemma good_ident: "good s (ident_factor s)"
  by (cases "ident_factor s") (auto simp: expr_step_ident ident_factor_def Let_def
      split: option.splits if_splits)

abbreviation left :: "'a expr_scheme \<Rightarrow> nat" where "left s \<equiv> 8 * scanner.budget s"

lemma left_step: "expr_step s t \<Longrightarrow> left t \<le> left s"
  by (simp add: expr_step_def)

lemma left_getsym: "sym s \<noteq> EOLSYM \<Longrightarrow> left (getsym s) + 8 \<le> left s"
  using scanner.budget_next [of s] by simp

text \<open>One level of the recursion, for each routine.\<close>

lemma good_simple_loop:
  fixes s :: "'a expr_scheme"
  assumes loop: "\<And>t :: 'a expr_scheme. left t + 4 \<le> n \<Longrightarrow> good t (simple_loop_f n t)"
    and trm: "\<And>t :: 'a expr_scheme. left t + 3 \<le> n \<Longrightarrow> good t (term_f n t)"
    and fuel: "left s + 4 \<le> Suc n"
  shows "good s (simple_loop_f (Suc n) s)"
proof (cases "sym s = ADDOP \<or> sym s = SUBOP \<or> sym s = OROP")
  case True
  then have eol: "sym s \<noteq> EOLSYM" by auto
  have *: "good s (bindE (term_f n (getsym s)) (\<lambda>s1. simple_loop_f n (g s1)))"
    if g: "\<And>r t. expr_step r (g t) \<longleftrightarrow> expr_step r t" for g
  proof (rule good_getsym [OF eol], rule good_bind)
    show "good (getsym s) (term_f n (getsym s))"
      using trm left_getsym [OF eol] fuel by simp
  next
    fix t
    assume "expr_step (getsym s) t"
    then have "expr_step (getsym s) (g t)" by (simp add: g)
    then show "good (getsym s) (simple_loop_f n (g t))"
      using loop [of "g t"] left_step left_getsym [OF eol] fuel good_trans by fastforce
  qed
  show ?thesis using True by (auto intro!: *)
qed simp

lemma good_term_loop:
  fixes s :: "'a expr_scheme"
  assumes loop: "\<And>t :: 'a expr_scheme. left t + 2 \<le> n \<Longrightarrow> good t (term_loop_f n t)"
    and fac: "\<And>t :: 'a expr_scheme. \<lbrakk>sym t \<noteq> EOLSYM; left t + 1 \<le> n\<rbrakk> \<Longrightarrow> good (getsym t) (factor2_f n t)"
    and fuel: "left s + 2 \<le> Suc n"
  shows "good s (term_loop_f (Suc n) s)"
proof (cases "sym s \<in> {STAR, SLASH, ANDOP, SLOP, SROP}")
  case True
  then have eol: "sym s \<noteq> EOLSYM" by auto
  have "good (getsym s)
      (bindE (factor2_f n s) (\<lambda>s1. bindE (term_op (sym s) (loff s) s1) (term_loop_f n)))"
  proof (rule good_bind, use fac eol fuel in simp)
    fix t
    assume t: "expr_step (getsym s) t"
    show "good (getsym s) (bindE (term_op (sym s) (loff s) t) (term_loop_f n))"
    proof (rule good_bind, rule good_term_op [OF t])
      fix u
      assume "expr_step (getsym s) u"
      then show "good (getsym s) (term_loop_f n u)"
        using loop [of u] left_step left_getsym [OF eol] fuel good_trans by fastforce
    qed
  qed
  with True show ?thesis using good_getsym [OF eol] by auto
qed simp

lemma good_factor:
  fixes s :: "'a expr_scheme"
  assumes fac: "\<And>t :: 'a expr_scheme. left t + 1 \<le> n \<Longrightarrow> good t (factor_f n t)"
    and ex: "\<And>t :: 'a expr_scheme. left t + 6 \<le> n \<Longrightarrow> good t (expres_f n t)"
    and fuel: "left s + 1 \<le> Suc n"
  shows "good s (factor_f (Suc n) s)"
proof -
  have get: "expr_step s (getsym r)" if "expr_step s r" "sym r \<noteq> EOLSYM" for r
    using that expr_step_getsym expr_step_trans by blast
  have fac': "good s (factor_f n (getsym s))" if "sym s \<noteq> EOLSYM"
    using that fac [of "getsym s"] left_getsym [of s] fuel good_getsym by simp
  have ex': "good s (expres_f n (getsym s))" if "sym s \<noteq> EOLSYM"
    using that ex [of "getsym s"] left_getsym [of s] fuel good_getsym by simp
  have id': "good s (bindE (ident_factor s) (\<lambda>s1. Inr (getsym s1)))" if "sym s = IDENT"
  proof (rule good_bind [OF good_ident])
    fix t
    assume "ident_factor s = Inr t"
    then have "expr_step s t \<and> sym t = sym s" by (rule expr_step_ident)
    with that get show "good s (Inr (getsym t))" by simp
  qed
  show ?thesis
    using expr_step_hexconst [of s]
    by (cases "sym s")
       (auto simp: Let_def get id' intro!: good_bind [OF fac'] good_bind [OF ex'] fac')
qed

lemma good_simple:
  fixes s :: "'a expr_scheme"
  assumes "\<And>t :: 'a expr_scheme. left t + 4 \<le> n \<Longrightarrow> good t (simple_loop_f n t)"
    and "\<And>t :: 'a expr_scheme. left t + 3 \<le> n \<Longrightarrow> good t (term_f n t)"
    and "left s + 5 \<le> Suc n"
  shows "good s (simple_f (Suc n) s)"
  unfolding simple_f.simps
proof (rule good_bind)
  show "good s (if sym s = ADDOP \<or> sym s = SUBOP then Inr (set_data 0 (set_off 0 s)) else term_f n s)"
    using assms(2) [of s] assms(3) by simp
  show "good s (simple_loop_f n t)" if "expr_step s t" for t
    using assms(1) [of t] assms(3) left_step [OF that] good_trans [OF that] by simp
qed

lemma good_term:
  fixes s :: "'a expr_scheme"
  assumes "\<And>t :: 'a expr_scheme. left t + 2 \<le> n \<Longrightarrow> good t (term_loop_f n t)"
    and "\<And>t :: 'a expr_scheme. left t + 1 \<le> n \<Longrightarrow> good t (factor_f n t)"
    and "left s + 3 \<le> Suc n"
  shows "good s (term_f (Suc n) s)"
  unfolding term_f.simps
proof (rule good_bind)
  show "good s (factor_f n s)"
    using assms(2) [of s] assms(3) by simp
  show "good s (term_loop_f n t)" if "expr_step s t" for t
    using assms(1) [of t] assms(3) left_step [OF that] good_trans [OF that] by simp
qed

lemma good_expres:
  fixes s :: "'a expr_scheme"
  assumes "\<And>t :: 'a expr_scheme. left t + 5 \<le> n \<Longrightarrow> good t (simple_f n t)"
    and "\<And>t :: 'a expr_scheme. \<lbrakk>sym t \<noteq> EOLSYM; left t \<le> n\<rbrakk> \<Longrightarrow> good (getsym t) (simple2_f n t)"
    and "left s + 6 \<le> Suc n"
  shows "good s (expres_f (Suc n) s)"
  unfolding expres_f.simps
proof (rule good_bind)
  show "good s (simple_f n s)"
    using assms(1) [of s] assms(3) by simp
  fix t
  assume t: "expr_step s t"
  have "good s (simple2_f n t)" if "sym t \<noteq> EOLSYM"
    using that assms(2) [of t] assms(3) left_step [OF t] good_trans [OF t] good_getsym [of t] by simp
  then show "good s
      (if sym t = EQOP then bindE (simple2_f n t) (\<lambda>s2. Inr (set_off (if loff t = loff s2 then -1 else 0) s2))
       else if sym t = LESSTHAN then bindE (simple2_f n t) (\<lambda>s2. Inr (set_off (if loff t < loff s2 then -1 else 0) s2))
       else if sym t = GREATERTHAN then bindE (simple2_f n t) (\<lambda>s2. Inr (set_off (if loff s2 < loff t then -1 else 0) s2))
       else Inr t)"
    using t by (auto intro!: good_bind)
qed

lemma good_second:
  fixes s :: "'a expr_scheme"
  assumes "\<And>t :: 'a expr_scheme. left t + 5 \<le> n \<Longrightarrow> good t (simple_f n t)"
    and "\<And>t :: 'a expr_scheme. left t + 1 \<le> n \<Longrightarrow> good t (factor_f n t)"
    and "sym s \<noteq> EOLSYM"
  shows "left s \<le> Suc n \<Longrightarrow> good (getsym s) (simple2_f (Suc n) s)"
    and "left s + 1 \<le> Suc n \<Longrightarrow> good (getsym s) (factor2_f (Suc n) s)"
  using assms(1) [of "getsym s"] assms(2) [of "getsym s"] left_getsym [OF assms(3)]
  by (auto intro!: good_bind)

lemma enough_fuel:
  fixes s :: "'a expr_scheme"
  shows "(\<forall>s :: 'a expr_scheme. left s + 6 \<le> n \<longrightarrow> good s (expres_f n s)) \<and>
    (\<forall>s :: 'a expr_scheme. sym s \<noteq> EOLSYM \<longrightarrow> left s \<le> n \<longrightarrow> good (getsym s) (simple2_f n s)) \<and>
    (\<forall>s :: 'a expr_scheme. left s + 5 \<le> n \<longrightarrow> good s (simple_f n s)) \<and>
    (\<forall>s :: 'a expr_scheme. left s + 4 \<le> n \<longrightarrow> good s (simple_loop_f n s)) \<and>
    (\<forall>s :: 'a expr_scheme. left s + 3 \<le> n \<longrightarrow> good s (term_f n s)) \<and>
    (\<forall>s :: 'a expr_scheme. left s + 2 \<le> n \<longrightarrow> good s (term_loop_f n s)) \<and>
    (\<forall>s :: 'a expr_scheme. sym s \<noteq> EOLSYM \<longrightarrow> left s + 1 \<le> n \<longrightarrow> good (getsym s) (factor2_f n s)) \<and>
    (\<forall>s :: 'a expr_scheme. left s + 1 \<le> n \<longrightarrow> good s (factor_f n s))"
proof (induction n)
  case 0
  show ?case using left_getsym by fastforce
next
  case (Suc n)
  show ?case
    using Suc.IH
    by (intro conjI allI impI)
       (rule good_expres good_second good_simple good_simple_loop good_term good_term_loop
          good_factor; blast)+
qed


section \<open>The routines and their equations\<close>

text \<open>More fuel never changes a result.\<close>

definition refines :: "stop + 'b \<Rightarrow> stop + 'b \<Rightarrow> bool" where
  "refines m m' \<longleftrightarrow> m = Inl NoFuel \<or> m' = m"

lemma refines_refl [simp]: "refines m m"
  by (simp add: refines_def)

lemma refines_NoFuel [simp]: "refines (Inl NoFuel) m"
  by (simp add: refines_def)

lemma refines_bind:
  "\<lbrakk>refines m m'; \<And>x. refines (f x) (f' x)\<rbrakk> \<Longrightarrow> refines (bindE m f) (bindE m' f')"
  by (cases m) (auto simp: refines_def)

lemma more_fuel:
  fixes s :: "'a expr_scheme"
  assumes "n \<le> m"
  shows "(\<forall>s :: 'a expr_scheme. refines (expres_f n s) (expres_f m s)) \<and>
    (\<forall>s :: 'a expr_scheme. refines (simple2_f n s) (simple2_f m s)) \<and>
    (\<forall>s :: 'a expr_scheme. refines (simple_f n s) (simple_f m s)) \<and>
    (\<forall>s :: 'a expr_scheme. refines (simple_loop_f n s) (simple_loop_f m s)) \<and>
    (\<forall>s :: 'a expr_scheme. refines (term_f n s) (term_f m s)) \<and>
    (\<forall>s :: 'a expr_scheme. refines (term_loop_f n s) (term_loop_f m s)) \<and>
    (\<forall>s :: 'a expr_scheme. refines (factor2_f n s) (factor2_f m s)) \<and>
    (\<forall>s :: 'a expr_scheme. refines (factor_f n s) (factor_f m s))"
  using assms
proof (induction n arbitrary: m)
  case 0
  show ?case by simp
next
  case (Suc n)
  then obtain k where k: "m = Suc k" "n \<le> k" by (cases m) auto
  show ?case
    using Suc.IH [OF k(2)] unfolding k(1)
    by (intro conjI allI)
       (simp add: refines_bind Let_def, (auto intro!: refines_bind simp: Let_def)?)+
qed

text \<open>The routines, with fuel for the symbols left.\<close>

definition expres :: "'a expr_scheme \<Rightarrow> stop + 'a expr_scheme" where
  "expres s = expres_f (left s + 6) s"

definition simple :: "'a expr_scheme \<Rightarrow> stop + 'a expr_scheme" where
  "simple s = simple_f (left s + 5) s"

definition simple_loop :: "'a expr_scheme \<Rightarrow> stop + 'a expr_scheme" where
  "simple_loop s = simple_loop_f (left s + 4) s"

definition term_expr :: "'a expr_scheme \<Rightarrow> stop + 'a expr_scheme" where
  "term_expr s = term_f (left s + 3) s"

definition term_loop :: "'a expr_scheme \<Rightarrow> stop + 'a expr_scheme" where
  "term_loop s = term_loop_f (left s + 2) s"

definition factor :: "'a expr_scheme \<Rightarrow> stop + 'a expr_scheme" where
  "factor s = factor_f (left s + 1) s"

lemma good_run:
  fixes s :: "'a expr_scheme"
  shows "good s (expres s)" "good s (simple s)" "good s (simple_loop s)" "good s (term_expr s)"
    "good s (term_loop s)" "good s (factor s)"
  unfolding expres_def simple_def simple_loop_def term_expr_def term_loop_def factor_def
  using enough_fuel by blast+

lemma refines_good: "\<lbrakk>refines m m'; good s m\<rbrakk> \<Longrightarrow> m' = m"
  by (auto simp: refines_def)

lemma fuel_irrelevant:
  fixes s :: "'a expr_scheme"
  shows "left s + 6 \<le> n \<Longrightarrow> expres_f n s = expres s"
    and "left s + 5 \<le> n \<Longrightarrow> simple_f n s = simple s"
    and "left s + 4 \<le> n \<Longrightarrow> simple_loop_f n s = simple_loop s"
    and "left s + 3 \<le> n \<Longrightarrow> term_f n s = term_expr s"
    and "left s + 2 \<le> n \<Longrightarrow> term_loop_f n s = term_loop s"
    and "left s + 1 \<le> n \<Longrightarrow> factor_f n s = factor s"
proof -
  have "refines (expres_f k s) (expres_f n s)" "refines (simple_f k s) (simple_f n s)"
    "refines (simple_loop_f k s) (simple_loop_f n s)" "refines (term_f k s) (term_f n s)"
    "refines (term_loop_f k s) (term_loop_f n s)" "refines (factor_f k s) (factor_f n s)"
    if "k \<le> n" for k
    using more_fuel [OF that] by blast+
  note r = this [THEN refines_good]
  show "left s + 6 \<le> n \<Longrightarrow> expres_f n s = expres s"
    "left s + 5 \<le> n \<Longrightarrow> simple_f n s = simple s"
    "left s + 4 \<le> n \<Longrightarrow> simple_loop_f n s = simple_loop s"
    "left s + 3 \<le> n \<Longrightarrow> term_f n s = term_expr s"
    "left s + 2 \<le> n \<Longrightarrow> term_loop_f n s = term_loop s"
    "left s + 1 \<le> n \<Longrightarrow> factor_f n s = factor s"
    using r(1) r(2) r(3) r(4) r(5) r(6)
      good_run [of s, unfolded expres_def simple_def simple_loop_def term_expr_def term_loop_def factor_def]
    unfolding expres_def simple_def simple_loop_def term_expr_def term_loop_def factor_def by blast+
qed


text \<open>The second operand of a comparison, and a second or later factor.\<close>

definition simple2 :: "'a expr_scheme \<Rightarrow> stop + 'a expr_scheme" where
  "simple2 s = bindE (simple (getsym s)) (\<lambda>s1. Inr (simple2_data (ldata s) s1))"

definition factor2 :: "'a expr_scheme \<Rightarrow> stop + 'a expr_scheme" where
  "factor2 s =
     bindE (factor (getsym s)) (\<lambda>s1. Inr (chkabs (set_data (ldata s1 OR ldata s) s1)))"

lemma bindE_eqI:
  "\<lbrakk>m = m'; \<And>x. m' = Inr x \<Longrightarrow> f x = g x\<rbrakk> \<Longrightarrow> bindE m f = bindE m' g"
  by (rule bindE_cong)

lemma simple2_fuel:
  assumes "sym s \<noteq> EOLSYM" "left s \<le> n" "1 < n"
  shows "simple2_f n s = simple2 s"
proof -
  obtain k where k: "n = Suc k" using assms(3) by (cases n) auto
  have "simple_f k (getsym s) = simple (getsym s)"
    using fuel_irrelevant(2) [of "getsym s" k] left_getsym [OF assms(1)] assms(2) k by simp
  then show ?thesis by (simp add: k simple2_def)
qed

lemma factor2_fuel:
  assumes "sym s \<noteq> EOLSYM" "left s + 1 \<le> n"
  shows "factor2_f n s = factor2 s"
proof -
  obtain k where k: "n = Suc k" using assms(2) by (cases n) auto
  have "factor_f k (getsym s) = factor (getsym s)"
    using fuel_irrelevant(6) [of "getsym s" k] left_getsym [OF assms(1)] assms(2) k by simp
  then show ?thesis by (simp add: k factor2_def)
qed

lemma run_step:
  fixes s t :: "'a expr_scheme"
  shows "expres s = Inr t \<Longrightarrow> expr_step s t" "simple s = Inr t \<Longrightarrow> expr_step s t"
    "simple_loop s = Inr t \<Longrightarrow> expr_step s t" "term_expr s = Inr t \<Longrightarrow> expr_step s t"
    "term_loop s = Inr t \<Longrightarrow> expr_step s t" "factor s = Inr t \<Longrightarrow> expr_step s t"
  using good_run [of s] by simp_all

text \<open>The equations of the source.\<close>

lemma expres_eq:
  "expres s =
     bindE (simple s) (\<lambda>s1.
       if sym s1 = EQOP then
         bindE (simple2 s1) (\<lambda>s2. Inr (set_off (if loff s1 = loff s2 then -1 else 0) s2))
       else if sym s1 = LESSTHAN then
         bindE (simple2 s1) (\<lambda>s2. Inr (set_off (if loff s1 < loff s2 then -1 else 0) s2))
       else if sym s1 = GREATERTHAN then
         bindE (simple2 s1) (\<lambda>s2. Inr (set_off (if loff s2 < loff s1 then -1 else 0) s2))
       else Inr s1)"
proof -
  define n where "n = left s + 5"
  have "expres s = expres_f (Suc n) s"
    by (simp add: expres_def n_def numeral_eq_Suc)
  moreover have "simple2_f n t = simple2 t" if "simple s = Inr t" "sym t \<noteq> EOLSYM" for t
    using that simple2_fuel [of t n] left_step [OF run_step(2) [OF that(1)]] by (simp add: n_def)
  moreover have "simple_f n s = simple s" using fuel_irrelevant(2) [of s n] by (simp add: n_def)
  ultimately show ?thesis
    by (auto intro!: bindE_eqI)
qed

lemma simple_eq:
  "simple s =
     bindE (if sym s = ADDOP \<or> sym s = SUBOP then Inr (set_data 0 (set_off 0 s)) else term_expr s)
       simple_loop"
proof -
  define n where "n = left s + 4"
  have "simple s = simple_f (Suc n) s"
    by (simp add: simple_def n_def numeral_eq_Suc)
  moreover have "simple_loop_f n t = simple_loop t" if "expr_step s t" for t
    using fuel_irrelevant(3) [of t n] left_step [OF that] by (simp add: n_def)
  moreover have "term_f n s = term_expr s" using fuel_irrelevant(4) [of s n] by (simp add: n_def)
  ultimately show ?thesis
    using run_step(4) [of s] by (auto intro!: bindE_eqI)
qed

lemma simple_loop_eq:
  "simple_loop s =
     (if sym s = ADDOP then
        bindE (term_expr (getsym s)) (\<lambda>s1. simple_loop (add_op (loff s) (ldata s) s1))
      else if sym s = SUBOP then
        bindE (term_expr (getsym s)) (\<lambda>s1. simple_loop (sub_op (loff s) (ldata s) s1))
      else if sym s = OROP then
        bindE (term_expr (getsym s)) (\<lambda>s1. simple_loop (or_op (loff s) (ldata s) s1))
      else Inr s)"
proof -
  define n where "n = left s + 3"
  have "simple_loop s = simple_loop_f (Suc n) s"
    by (simp add: simple_loop_def n_def numeral_eq_Suc)
  moreover have "term_f n (getsym s) = term_expr (getsym s)" if "sym s \<noteq> EOLSYM"
    using fuel_irrelevant(4) [of "getsym s" n] left_getsym [OF that] by (simp add: n_def)
  moreover have "simple_loop_f n (g t) = simple_loop (g t)"
    if "sym s \<noteq> EOLSYM" "term_expr (getsym s) = Inr t"
       "\<And>r t. expr_step r (g t) \<longleftrightarrow> expr_step r t" for g t
  proof -
    have "expr_step (getsym s) (g t)" using that(2,3) run_step(4) by blast
    then show ?thesis
      using fuel_irrelevant(3) [of "g t" n] left_step left_getsym [OF that(1)] by (fastforce simp: n_def)
  qed
  ultimately show ?thesis
    by (auto intro!: bindE_eqI)
qed

lemma term_expr_eq: "term_expr s = bindE (factor s) term_loop"
proof -
  define n where "n = left s + 2"
  have "term_expr s = term_f (Suc n) s"
    by (simp add: term_expr_def n_def numeral_eq_Suc)
  moreover have "term_loop_f n t = term_loop t" if "factor s = Inr t" for t
    using fuel_irrelevant(5) [of t n] left_step [OF run_step(6) [OF that]] by (simp add: n_def)
  moreover have "factor_f n s = factor s" using fuel_irrelevant(6) [of s n] by (simp add: n_def)
  ultimately show ?thesis
    by (auto intro!: bindE_eqI)
qed

lemma term_loop_eq:
  "term_loop s =
     (if sym s \<in> {STAR, SLASH, ANDOP, SLOP, SROP} then
        bindE (factor2 s) (\<lambda>s1. bindE (term_op (sym s) (loff s) s1) term_loop)
      else Inr s)"
proof (cases "sym s \<in> {STAR, SLASH, ANDOP, SLOP, SROP}")
  case True
  then have eol: "sym s \<noteq> EOLSYM" by auto
  define n where "n = left s + 1"
  have "term_loop s = term_loop_f (Suc n) s"
    by (simp add: term_loop_def n_def numeral_eq_Suc)
  moreover have "term_loop_f n u = term_loop u"
    if "factor2 s = Inr t" "term_op op v t = Inr u" for t u op v
  proof -
    have "expr_step (getsym s) t"
      using that(1) run_step(6) [of "getsym s"] by (auto simp: factor2_def bindE_Inr_iff)
    then have "left u + 8 \<le> left s"
      using left_step [OF expr_step_term_op [OF that(2)]] left_getsym [OF eol] by (fastforce simp: n_def)
    then show ?thesis using fuel_irrelevant(5) [of u n] by (simp add: n_def)
  qed
  moreover have "factor2_f n s = factor2 s" using factor2_fuel [OF eol, of n] by (simp add: n_def)
  ultimately show ?thesis
    using True by (auto intro!: bindE_eqI)
qed (simp add: term_loop_def numeral_eq_Suc)

lemma factor_eq:
  "factor s =
     (if sym s = SLASH then
        let s1 = context_hexconst s
        in Inr (getsym (set_off (number s1) (set_data 0 s1)))
      else if sym s = INTCONST then Inr (getsym (set_off (number s) (set_data 0 s)))
      else if sym s = IDENT then bindE (ident_factor s) (\<lambda>s1. Inr (getsym s1))
      else if sym s = LPAREN then
        bindE (expres (getsym s)) (\<lambda>s1.
          Inr (if sym s1 \<noteq> RPAREN then error RPEXP s1 else getsym s1))
      else if sym s = NOTOP then
        bindE (factor (getsym s)) (\<lambda>s1.
          let s2 = chkabs s1 in Inr (set_off (NOT (loff s2)) s2))
      else if sym s = ADDOP then factor (getsym s)
      else if sym s = SUBOP then
        bindE (factor (getsym s)) (\<lambda>s1.
          let s2 = chkabs s1 in Inr (set_off (- loff s2) s2))
      else if sym s = STAR then
        let s1 = set_data (lcdata s) (set_off (lc s) s);
            s2 = (if has (lcdata s) UNDBIT \<and> pass s = last_pass s then experror UNBLAB s1 else s1)
        in Inr (getsym s2)
      else Inr (experror FACEXP s))"
proof -
  have "factor s = factor_f (Suc (left s)) s"
    by (simp add: factor_def)
  moreover have "factor_f (left s) (getsym s) = factor (getsym s)"
    "expres_f (left s) (getsym s) = expres (getsym s)" if "sym s \<noteq> EOLSYM"
    using fuel_irrelevant(1,6) [of "getsym s" "left s"] left_getsym [OF that] by simp_all
  ultimately show ?thesis by simp
qed

section \<open>The routines the operand parsers call\<close>

definition absexpres :: "'a expr_scheme \<Rightarrow> stop + 'a expr_scheme" where
  "absexpres s = bindE (expres s) (\<lambda>s1. Inr (chkabs s1))"

definition nonimpexpres :: "'a expr_scheme \<Rightarrow> stop + 'a expr_scheme" where
  "nonimpexpres s =
     bindE (expres s) (\<lambda>s1. Inr (if has (ldata s1) IMPBIT then experror NONIMPREQ s1 else s1))"

definition symabsexpres :: "'a expr_scheme \<Rightarrow> stop + 'a expr_scheme" where
  "symabsexpres s = absexpres (getsym s)"

definition symexpres :: "'a expr_scheme \<Rightarrow> stop + 'a expr_scheme" where
  "symexpres s = expres (getsym s)"

text \<open>
  The string comparison of \<^verbatim>\<open>IFC\<close> and \<^verbatim>\<open>ELSEIFC\<close>.  The first loop looks for the
  comma; the second compares from both ends of it; the third, after a mismatch,
  looks for the right parenthesis and, lacking a return after its error, runs
  on past the end of the line (and of the text, if there is no parenthesis).
\<close>

function find_comma :: "byte list \<Rightarrow> nat \<Rightarrow> bool \<times> nat" where
  "find_comma buf i =
     (if rdch buf i = 0x2C then (True, i)
      else if rdch buf i = 0 \<or> rdch buf i = 0x29 then (False, i)
      else find_comma buf (Suc i))"
  by pat_completeness auto
termination
proof (relation "measure (\<lambda>(buf, i). length buf - i)")
  fix buf i
  assume "\<not> (rdch buf i = 0 \<or> rdch buf i = 0x29)"
  then have "i < length buf" by (cases "i < length buf") simp_all
  then show "((buf, Suc i), (buf, i)) \<in> measure (\<lambda>(buf, i). length buf - i)" by simp
qed simp

function match_strings :: "byte list \<Rightarrow> nat \<Rightarrow> nat \<Rightarrow> stop + nat \<times> nat" where
  "match_strings buf i j =
     (if rdch buf i \<noteq> rdch buf j then Inr (Suc i, Suc j)
      else if length buf \<le> j then Inl OutOfBounds
      else match_strings buf (Suc i) (Suc j))"
  by pat_completeness auto
termination
  by (relation "measure (\<lambda>(buf, i, j). length buf - j)") auto

function find_rparen :: "nat \<Rightarrow> 'a expr_scheme \<Rightarrow> stop + nat \<times> 'a expr_scheme" where
  "find_rparen j s =
     (if rdch (srcbuf s) j = 0x29 then Inr (j, s)
      else let s1 = (if rdch (srcbuf s) j = 0 \<or> rdch (srcbuf s) j = 0x2C
                     then experror RPEXP (s\<lparr>symname := j\<rparr>) else s)
           in if length (srcbuf s) \<le> j then Inl OutOfBounds else find_rparen (Suc j) s1)"
  by pat_completeness auto
termination
  by (relation "measure (\<lambda>(j, s). length (srcbuf s) - j)")
     (auto simp: experror_def expundefined_def set_data_def)

declare find_comma.simps [simp del] match_strings.simps [simp del] find_rparen.simps [simp del]

definition scompare :: "'a expr_scheme \<Rightarrow> stop + 'a expr_scheme" where
  "scompare s0 =
     (let s = set_data 0 (set_off 0 s0)
      in if sym s \<noteq> LPAREN then Inr (experror LPEXP s)
         else case find_comma (srcbuf s) (lineptr s) of
           (False, i) \<Rightarrow> Inr (experror COMEXP (s\<lparr>symname := i\<rparr>))
         | (True, c) \<Rightarrow>
             bindE (match_strings (srcbuf s) (lineptr s) (Suc c)) (\<lambda>(i, j).
               if rdch (srcbuf s) (j - 1) = 0x29 then
                 let s1 = (if rdch (srcbuf s) (i - 1) = 0x2C then set_off 1 s else s)
                 in Inr (getsym (s1\<lparr>lineptr := j\<rparr>))
               else
                 bindE (find_rparen j s) (\<lambda>(k, s1). Inr (getsym (s1\<lparr>lineptr := Suc k\<rparr>)))))"

text \<open>For evaluation the number of symbols left is spelt out.\<close>

lemma expres_code [code]:
  "expres s =
     expres_f ((if sym s = EOLSYM then 0 else 8 * Suc (length (srcbuf s) - lineptr s)) + 6) s"
  by (simp add: expres_def scanner.budget_def)

text \<open>
  C9: the expression parser is total up to the machine's traps.  From every
  state \<^verbatim>\<open>expres\<close> returns, or stops at a division by zero, a shift by 64 or more
  bits or a name looked up while skipping; no amount of further fuel changes
  the outcome.  A run that returns has consumed symbols of the line only, kept
  location counter, passes and conditional state, and has not moved, redefined
  or retyped a symbol table entry.
\<close>

theorem expres_total:
  fixes s :: "'a expr_scheme"
  shows "expres_f (8 * scanner.budget s + 6 + k) s = expres s \<and>
    (case expres s of
       Inl e \<Rightarrow> e \<in> {DivideByZero, ShiftTooFar, NullPointer}
     | Inr t \<Rightarrow> expr_step s t)"
  using good_run(1) [of s] fuel_irrelevant(1) [of s "8 * scanner.budget s + 6 + k"]
  by (simp add: good_def)

end
