(* ===== verification/Express_Spec.thy ===== *)
theory Express_Spec
  imports Express
begin

text \<open>
  A specification of expressions and its refinement by \<^verbatim>\<open>expres\<close>: syntax trees
  with relocatable values, their rendering as symbols by operator precedence,
  and the theorem that parsing the rendering computes the value.  A value is
  an offset that is absolute or relative to the base of a segment; evaluation
  commutes with the choice of the bases.
\<close>

section \<open>The scanner does not see the expression state\<close>

lemma lookup_more: "lookup name (scan.more_update f s) =
    (fst (lookup name s), scan.more_update f (snd (lookup name s)))"
  by (auto simp: lookup_def find_sym_def add_sym_def Let_def split: option.split)

lemma lookup_cur_more:
  "lookup_cur (scan.more_update f s) = scan.more_update f (lookup_cur s)"
  by (simp add: lookup_cur_def cur_name_def lookup_more case_prod_beta)

lemma intconst_more: "intconst (scan.more_update f s) = scan.more_update f (intconst s)"
  by (simp add: intconst_def case_prod_beta)

lemma more_outermost:
  "(scan.more_update f s)\<lparr>symname := a\<rparr> = scan.more_update f (s\<lparr>symname := a\<rparr>)"
  "(scan.more_update f s)\<lparr>lineptr := a\<rparr> = scan.more_update f (s\<lparr>lineptr := a\<rparr>)"
  "(scan.more_update f s)\<lparr>sym := c\<rparr> = scan.more_update f (s\<lparr>sym := c\<rparr>)"
  "(scan.more_update f s)\<lparr>numbase := v\<rparr> = scan.more_update f (s\<lparr>numbase := v\<rparr>)"
  "(scan.more_update f s)\<lparr>number := v\<rparr> = scan.more_update f (s\<lparr>number := v\<rparr>)"
  by (cases s; simp)+

lemma getsym_more: "getsym (scan.more_update f s) = scan.more_update f (getsym s)"
  by (cases "symofchar (rdch (srcbuf s) (advance (srcbuf s) (lineptr s)))")
     (simp_all add: getsym_def Let_def more_outermost intconst_more lookup_cur_more)

section \<open>Symbols ahead\<close>

datatype tok = T symcode | TNum u64 | TId nat

fun tok_is :: "tok \<Rightarrow> 'a scan_scheme \<Rightarrow> bool" where
  "tok_is (T c) s \<longleftrightarrow> sym s = c"
| "tok_is (TNum n) s \<longleftrightarrow> sym s = INTCONST \<and> number s = n"
| "tok_is (TId r) s \<longleftrightarrow> sym s = IDENT \<and> gsymptr s = Some r"

text \<open>The current symbol and the following ones are the given tokens.\<close>

fun at_toks :: "tok list \<Rightarrow> 'a scan_scheme \<Rightarrow> bool" where
  "at_toks [] s \<longleftrightarrow> True"
| "at_toks (t # ts) s \<longleftrightarrow> tok_is t s \<and> at_toks ts (getsym s)"

lemma tok_is_more [simp]: "tok_is t (scan.more_update f s) = tok_is t s"
  by (cases t) simp_all

lemma at_toks_more [simp]: "at_toks ts (scan.more_update f s) = at_toks ts s"
  by (induction ts arbitrary: s) (simp_all add: getsym_more)

lemma at_toks_set [simp]:
  fixes s :: "'a expr_scheme"
  shows "at_toks ts (set_off v s) = at_toks ts s" "at_toks ts (set_data d s) = at_toks ts s"
proof -
  have "set_off v s = scan.more_update (\<lambda>_. scan.more (set_off v s)) s"
    "set_data d s = scan.more_update (\<lambda>_. scan.more (set_data d s)) s"
    by (cases s; simp add: set_off_def set_data_def)+
  then show "at_toks ts (set_off v s) = at_toks ts s" "at_toks ts (set_data d s) = at_toks ts s"
    using at_toks_more by metis+
qed

lemma at_toks_getsym_set [simp]:
  fixes s :: "'a expr_scheme"
  shows "at_toks ts (getsym (set_off v s)) = at_toks ts (getsym s)"
    "at_toks ts (getsym (set_data d s)) = at_toks ts (getsym s)"
proof -
  have "set_off v s = scan.more_update (\<lambda>_. scan.more (set_off v s)) s"
    "set_data d s = scan.more_update (\<lambda>_. scan.more (set_data d s)) s"
    by (cases s; simp add: set_off_def set_data_def)+
  then show "at_toks ts (getsym (set_off v s)) = at_toks ts (getsym s)"
    "at_toks ts (getsym (set_data d s)) = at_toks ts (getsym s)"
    using at_toks_more getsym_more by metis+
qed

section \<open>Expressions and their values\<close>

datatype binop = Mul | Div | And | Shl | Shr | Add | Sub | Or | Eq | Lt | Gt

datatype ex = Num u64 | Lab nat | Loc | Not ex | Neg ex | Bin binop ex ex

text \<open>Where a value lives: absolute, or relative to a segment.\<close>

datatype place = Abs | Rel byte

fun truth :: "bool \<Rightarrow> u64" where
  "truth b = (if b then -1 else 0)"

definition bin_val :: "binop \<Rightarrow> u64 \<times> place \<Rightarrow> u64 \<times> place \<Rightarrow> (u64 \<times> place) option" where
  "bin_val op x y =
     (case x of (v, p) \<Rightarrow> case y of (w, q) \<Rightarrow>
        if op = Add then
          (if p = Abs then Some (v + w, q) else if q = Abs then Some (v + w, p) else None)
        else if op = Sub then
          (if q = Abs then Some (v - w, p) else if p = q then Some (v - w, Abs) else None)
        else if op = Eq then (if p = q then Some (truth (v = w), Abs) else None)
        else if p \<noteq> Abs \<or> q \<noteq> Abs then None
        else if op = Mul then Some (v * w, Abs)
        else if op = Div then (if w = 0 then None else Some (v div w, Abs))
        else if op = And then Some (v AND w, Abs)
        else if op = Shl then (if w < 64 then Some (push_bit (unat w) v, Abs) else None)
        else if op = Shr then (if w < 64 then Some (drop_bit (unat w) v, Abs) else None)
        else if op = Or then Some (v OR w, Abs)
        else if op = Lt then Some (truth (v < w), Abs)
        else Some (truth (w < v), Abs))"

fun un_val :: "(u64 \<Rightarrow> u64) \<Rightarrow> u64 \<times> place \<Rightarrow> (u64 \<times> place) option" where
  "un_val f (v, Abs) = Some (f v, Abs)"
| "un_val f _ = None"

text \<open>The value of an expression, given labels and location counter.\<close>

fun eval :: "(nat \<rightharpoonup> u64 \<times> place) \<Rightarrow> u64 \<times> place \<Rightarrow> ex \<Rightarrow> (u64 \<times> place) option" where
  "eval rho here (Num n) = Some (n, Abs)"
| "eval rho here (Lab r) = rho r"
| "eval rho here Loc = Some here"
| "eval rho here (Not e) = Option.bind (eval rho here e) (un_val (\<lambda>v. NOT v))"
| "eval rho here (Neg e) = Option.bind (eval rho here e) (un_val uminus)"
| "eval rho here (Bin op a b) =
     Option.bind (eval rho here a) (\<lambda>x. Option.bind (eval rho here b) (bin_val op x))"

section \<open>Flags of a value\<close>

fun place_code :: "place \<Rightarrow> byte" where
  "place_code Abs = 0"
| "place_code (Rel g) = RELBIT OR (g AND SEGM)"

text \<open>The flags say where the value lives, and nothing is imported or undefined.\<close>

definition kind :: "byte \<Rightarrow> place \<Rightarrow> bool" where
  "kind d p \<longleftrightarrow> d AND NOT FORBIT = place_code p \<and> (\<forall>g. p = Rel g \<longrightarrow> g AND SEGM = g)"

lemma kind_Abs:
  "kind d Abs \<longleftrightarrow> \<not> bit d 0 \<and> \<not> bit d 1 \<and> \<not> bit d 2 \<and> \<not> bit d 3 \<and> \<not> bit d 4 \<and> \<not> bit d 6 \<and> \<not> bit d 7"
  by (simp add: kind_def byte_bits)

lemma kind_Rel:
  "kind d (Rel g) \<longleftrightarrow>
     bit d 0 = bit g 0 \<and> bit d 1 = bit g 1 \<and> bit d 2 = bit g 2 \<and> bit d 3 = bit g 3 \<and>
     bit d 4 \<and> \<not> bit d 6 \<and> \<not> bit d 7 \<and> \<not> bit g 4 \<and> \<not> bit g 5 \<and> \<not> bit g 6 \<and> \<not> bit g 7"
  by (auto simp add: kind_def byte_bits)

lemmas kind_bits = kind_Abs kind_Rel

lemma has_flags:
  "has (d :: byte) RELBIT \<longleftrightarrow> bit d 4" "has d IMPBIT \<longleftrightarrow> bit d 6" "has d UNDBIT \<longleftrightarrow> bit d 7"
  "has d 0x1F \<longleftrightarrow> bit d 0 \<or> bit d 1 \<or> bit d 2 \<or> bit d 3 \<or> bit d 4"
  by (auto simp: byte_bits)

lemma kind_or: "\<lbrakk>kind d Abs; kind e q\<rbrakk> \<Longrightarrow> kind (e OR d) q \<and> \<not> has (d AND e) RELBIT"
  by (cases q) (simp_all add: kind_bits has_flags bit_or_iff bit_and_iff)

lemma kind_or': "\<lbrakk>kind d p; kind e Abs\<rbrakk> \<Longrightarrow> kind (e OR d) p \<and> \<not> has (d AND e) RELBIT"
  by (cases p) (simp_all add: kind_bits has_flags bit_or_iff bit_and_iff)

lemma kind_sub:
  "\<lbrakk>kind d p; kind e Abs\<rbrakk> \<Longrightarrow>
     kind (((d OR e) AND NOT (RELBIT OR SEGM)) OR ((d XOR e) AND (RELBIT OR SEGM))) p"
  by (cases p) (simp_all add: kind_bits bit_or_iff bit_and_iff bit_xor_iff bit_not_iff)

lemma kind_cancel:
  "\<lbrakk>kind d p; kind e p\<rbrakk> \<Longrightarrow>
     kind (((d OR e) AND NOT (RELBIT OR SEGM)) OR ((d XOR e) AND (RELBIT OR SEGM))) Abs \<and>
     kind (d AND e AND NOT (RELBIT OR SEGM)) Abs \<and>
     \<not> has (d XOR e) (RELBIT OR SEGM) \<and> \<not> has (d OR e) IMPBIT"
  by (cases p)
     (simp_all add: kind_bits has_flags bit_or_iff bit_and_iff bit_xor_iff bit_not_iff)

lemma kind_flags:
  "kind d Abs \<Longrightarrow> \<not> has d RELBIT"
  "kind d (Rel g) \<Longrightarrow> has d RELBIT"
  "kind d p \<Longrightarrow> \<not> has d IMPBIT"
  "kind d p \<Longrightarrow> \<not> has d UNDBIT"
  by (cases p; simp add: kind_bits has_flags)+

section \<open>Operators on values\<close>

text \<open>The only effect is the value left in \<^verbatim>\<open>lastexp\<close>.\<close>

definition assigns :: "'a expr_scheme \<Rightarrow> u64 \<times> place \<Rightarrow> 'a expr_scheme \<Rightarrow> bool" where
  "assigns s x t \<longleftrightarrow> (\<exists>d. t = set_off (fst x) (set_data d s) \<and> kind d (snd x))"

definition val_is :: "'a expr_scheme \<Rightarrow> u64 \<times> place \<Rightarrow> bool" where
  "val_is s x \<longleftrightarrow> loff s = fst x \<and> kind (ldata s) (snd x)"

lemma set_set [simp]:
  "set_off v (set_off w s) = set_off v s"
  "set_data d (set_data e s) = set_data d s"
  "set_data d (set_off v s) = set_off v (set_data d s)"
  by (cases s; simp add: set_off_def set_data_def)+

lemma set_data_id: "ldata s = d \<Longrightarrow> set_data d s = s"
  by (cases s) (auto simp: set_data_def)

lemma assigns_val_is: "assigns s x t \<Longrightarrow> val_is t x"
  by (auto simp: assigns_def val_is_def)

lemma add_op_assigns:
  assumes "bin_val Add (v, p) y = Some z" "kind d p" "val_is s y"
  shows "assigns s z (add_op v d s)"
proof -
  obtain w q where y: "y = (w, q)" by (cases y)
  with assms(3) have s: "loff s = w" "kind (ldata s) q" by (simp_all add: val_is_def)
  consider "p = Abs" "z = (v + w, q)" | "q = Abs" "z = (v + w, p)"
    using assms(1) y by (auto simp: bin_val_def split: if_splits)
  then show ?thesis
  proof cases
    case 1
    with assms(2) s kind_or [of d "ldata s" q] show ?thesis
      by (auto simp: assigns_def add_op_def Let_def add.commute)
  next
    case 2
    with assms(2) s kind_or' [of d p "ldata s"] show ?thesis
      by (auto simp: assigns_def add_op_def Let_def add.commute)
  qed
qed

lemma sub_op_assigns:
  assumes "bin_val Sub (v, p) y = Some z" "kind d p" "val_is s y"
  shows "assigns s z (sub_op v d s)"
proof -
  obtain w q where y: "y = (w, q)" by (cases y)
  with assms(3) have s: "loff s = w" "kind (ldata s) q" by (simp_all add: val_is_def)
  consider "q = Abs" "z = (v - w, p)" | "p = q" "q \<noteq> Abs" "z = (v - w, Abs)"
    using assms(1) y by (auto simp: bin_val_def split: if_splits)
  then show ?thesis
  proof cases
    case 1
    with assms(2) s kind_sub [of d p "ldata s"] kind_flags(1) [of "ldata s"] show ?thesis
      by (auto simp: assigns_def sub_op_def Let_def)
  next
    case 2
    then obtain g where "q = Rel g" by (cases q) auto
    with 2 assms(2) s kind_cancel [of d p "ldata s"] kind_flags(2) show ?thesis
      by (auto simp: assigns_def sub_op_def Let_def)
  qed
qed

lemma or_op_assigns:
  assumes "bin_val Or (v, p) y = Some z" "kind d p" "val_is s y"
  shows "assigns s z (or_op v d s)"
proof -
  obtain w where y: "y = (w, Abs)" "p = Abs" "z = (v OR w, Abs)"
    using assms(1) by (cases y) (auto simp: bin_val_def split: if_splits)
  with assms(2,3) have s: "loff s = w" "kind (ldata s OR d) Abs"
    using kind_or [of d "ldata s" Abs] by (simp_all add: val_is_def)
  then show ?thesis
    using y kind_flags(1) [OF s(2)]
    by (auto simp: assigns_def or_op_def chkabs_def Let_def or.commute)
qed

lemma simple2_data_kind:
  assumes "kind d p" "val_is s (w, p)"
  obtains e where "simple2_data d s = set_data e s" "kind e Abs"
  using that assms kind_cancel [of d p "ldata s"]
  by (auto simp: simple2_data_def val_is_def and.assoc)

lemma factor2_kind:
  assumes "kind d Abs" "val_is s (w, Abs)"
  shows "chkabs (set_data (ldata s OR d) s) = set_data (ldata s OR d) s \<and> kind (ldata s OR d) Abs"
  using assms kind_or [of d "ldata s" Abs] kind_flags(1) [of "ldata s OR d"]
  by (auto simp: val_is_def chkabs_def)

section \<open>Reading a phrase\<close>

text \<open>
  Labels and location counter as the parser finds them in the last pass, where
  an imported or undefined symbol would be an error or a relocation of its own.
\<close>

definition env_ok :: "(nat \<rightharpoonup> u64 \<times> place) \<Rightarrow> u64 \<times> place \<Rightarrow> 'a expr_scheme \<Rightarrow> bool" where
  "env_ok rho here s \<longleftrightarrow>
     pass s = last_pass s \<and> lc s = fst here \<and> kind (lcdata s) (snd here) \<and>
     (\<forall>r v p. rho r = Some (v, p) \<longrightarrow>
        r < length (syms s) \<and> sy_value (syms s ! r) = v \<and> kind (sy_data (syms s ! r)) p \<and>
        has (sy_type (syms s ! r)) (LABIT OR VARBIT) \<and>
        \<not> has (sy_type (syms s ! r)) (MNREGBIT OR MACBIT))"

definition same_errs :: "'a expr_scheme \<Rightarrow> 'a expr_scheme \<Rightarrow> bool" where
  "same_errs s t \<longleftrightarrow> errbuf t = errbuf s \<and> errcount t = errcount s \<and>
     erroverflow t = erroverflow s \<and> toterr t = toterr s \<and> totwarn t = totwarn s"

text \<open>From \<open>s\<close> a phrase was read: \<open>t\<close> is at what follows and holds its value.\<close>

definition read_to :: "'a expr_scheme \<Rightarrow> tok list \<Rightarrow> u64 \<times> place \<Rightarrow> 'a expr_scheme \<Rightarrow> bool" where
  "read_to s ts x t \<longleftrightarrow> expr_step s t \<and> same_errs s t \<and> val_is t x \<and> at_toks ts t"

lemma kind_forbit: "d AND NOT FORBIT = e AND NOT FORBIT \<Longrightarrow> kind d p = kind e p"
  by (simp add: kind_def)

lemma env_ok_step:
  assumes "env_ok rho here s" "expr_step s t"
  shows "env_ok rho here t"
proof -
  have core: "r < length (syms t) \<and> sy_core (syms t ! r) = sy_core (syms s ! r)"
    if "r < length (syms s)" for r
    using assms(2) that by (auto simp: expr_step_def syms_grow_def)
  have "r < length (syms t) \<and> sy_value (syms t ! r) = v \<and> kind (sy_data (syms t ! r)) p \<and>
        has (sy_type (syms t ! r)) (LABIT OR VARBIT) \<and>
        \<not> has (sy_type (syms t ! r)) (MNREGBIT OR MACBIT)" if "rho r = Some (v, p)" for r v p
  proof -
    have s: "r < length (syms s)" "sy_value (syms s ! r) = v" "kind (sy_data (syms s ! r)) p"
      "has (sy_type (syms s ! r)) (LABIT OR VARBIT)"
      "\<not> has (sy_type (syms s ! r)) (MNREGBIT OR MACBIT)"
      using assms(1) that by (simp_all add: env_ok_def)
    with core [OF s(1)] kind_forbit [of "sy_data (syms t ! r)" "sy_data (syms s ! r)" p]
    show ?thesis by (simp add: sy_core_def)
  qed
  then show ?thesis
    using assms by (simp add: env_ok_def expr_step_def)
qed

lemma same_errs_trans: "\<lbrakk>same_errs s t; same_errs t u\<rbrakk> \<Longrightarrow> same_errs s u"
  by (simp add: same_errs_def)

lemma same_errs_simps [simp]:
  "same_errs s s"
  "same_errs s (set_off v t) = same_errs s t"
  "same_errs s (set_data d t) = same_errs s t"
  "same_errs (set_off v s) t = same_errs s t"
  "same_errs (set_data d s) t = same_errs s t"
  "same_errs s (getsym t) = same_errs s t"
  "same_errs (getsym s) t = same_errs s t"
  by (simp_all add: same_errs_def set_off_def set_data_def)

lemma read_to_trans:
  "\<lbrakk>read_to s us y t; read_to t ts x u\<rbrakk> \<Longrightarrow> read_to s ts x u"
  using expr_step_trans same_errs_trans by (auto simp: read_to_def)

lemma read_to_assigns: "\<lbrakk>read_to s ts y t; assigns t x u\<rbrakk> \<Longrightarrow> read_to s ts x u"
  by (auto simp: read_to_def assigns_def val_is_def)

lemma read_to_getsym: "\<lbrakk>read_to (getsym s) ts x t; sym s \<noteq> EOLSYM\<rbrakk> \<Longrightarrow> read_to s ts x t"
  using expr_step_getsym_trans by (auto simp: read_to_def)

lemma at_toks_sym: "at_toks (T c # ts) s \<Longrightarrow> sym s = c \<and> at_toks ts (getsym s)"
  by simp

definition reads_factor :: "'a expr_scheme \<Rightarrow> tok list \<Rightarrow> u64 \<times> place \<Rightarrow> bool" where
  "reads_factor s X x \<longleftrightarrow>
     (\<forall>ts. at_toks (X @ ts) s \<longrightarrow> (\<exists>t. factor s = Inr t \<and> read_to s ts x t))"

definition reads_term :: "'a expr_scheme \<Rightarrow> tok list \<Rightarrow> u64 \<times> place \<Rightarrow> bool" where
  "reads_term s X x \<longleftrightarrow>
     (\<forall>ts. at_toks (X @ ts) s \<longrightarrow> (\<exists>t. term_expr s = term_loop t \<and> read_to s ts x t))"

text \<open>Symbols that may follow a term, and a whole expression.\<close>

definition ends_term :: "tok list \<Rightarrow> bool" where
  "ends_term ts \<longleftrightarrow> (\<exists>c us. ts = T c # us \<and> c \<notin> {STAR, SLASH, ANDOP, SLOP, SROP})"

definition ends_simple :: "tok list \<Rightarrow> bool" where
  "ends_simple ts \<longleftrightarrow>
     (\<exists>c us. ts = T c # us \<and> c \<notin> {STAR, SLASH, ANDOP, SLOP, SROP, ADDOP, SUBOP, OROP})"

definition ends_expres :: "tok list \<Rightarrow> bool" where
  "ends_expres ts \<longleftrightarrow>
     (\<exists>c us. ts = T c # us \<and> c \<notin> {STAR, SLASH, ANDOP, SLOP, SROP, ADDOP, SUBOP, OROP,
        EQOP, LESSTHAN, GREATERTHAN})"

definition reads_simple :: "'a expr_scheme \<Rightarrow> tok list \<Rightarrow> u64 \<times> place \<Rightarrow> bool" where
  "reads_simple s X x \<longleftrightarrow>
     (\<forall>ts. at_toks (X @ ts) s \<longrightarrow> ends_term ts \<longrightarrow>
        (\<exists>t. simple s = simple_loop t \<and> read_to s ts x t))"

definition reads_expres :: "'a expr_scheme \<Rightarrow> tok list \<Rightarrow> u64 \<times> place \<Rightarrow> bool" where
  "reads_expres s X x \<longleftrightarrow>
     (\<forall>ts. at_toks (X @ ts) s \<longrightarrow> ends_expres ts \<longrightarrow>
        (\<exists>t. expres s = Inr t \<and> read_to s ts x t))"

lemma ends_weaken: "ends_expres ts \<Longrightarrow> ends_simple ts" "ends_simple ts \<Longrightarrow> ends_term ts"
  by (auto simp: ends_expres_def ends_simple_def ends_term_def)

lemma term_loop_stop: "\<lbrakk>at_toks ts s; ends_term ts\<rbrakk> \<Longrightarrow> term_loop s = Inr s"
  by (auto simp: ends_term_def term_loop_eq)

lemma simple_loop_stop: "\<lbrakk>at_toks ts s; ends_simple ts\<rbrakk> \<Longrightarrow> simple_loop s = Inr s"
  by (auto simp: ends_simple_def simple_loop_eq)

lemma reads_term_done:
  assumes "reads_term s X x" "at_toks (X @ ts) s" "ends_term ts"
  obtains t where "term_expr s = Inr t" "read_to s ts x t"
proof -
  obtain t where "term_expr s = term_loop t" "read_to s ts x t"
    using assms by (auto simp: reads_term_def)
  then show ?thesis
    using that term_loop_stop [OF _ assms(3), of t] by (auto simp: read_to_def)
qed

lemma reads_simple_done:
  assumes "reads_simple s X x" "at_toks (X @ ts) s" "ends_simple ts"
  obtains t where "simple s = Inr t" "read_to s ts x t"
proof -
  obtain t where "simple s = simple_loop t" "read_to s ts x t"
    using assms ends_weaken by (auto simp: reads_simple_def)
  then show ?thesis
    using that simple_loop_stop [OF _ assms(3), of t] by (auto simp: read_to_def)
qed

section \<open>From one level of precedence to the next\<close>

lemma reads_factor_term: "reads_factor s X x \<Longrightarrow> reads_term s X x"
  by (fastforce simp: reads_factor_def reads_term_def term_expr_eq)

lemma reads_term_simple:
  assumes "reads_term s X x" and "\<And>ts. at_toks (X @ ts) s \<Longrightarrow> sym s \<noteq> ADDOP \<and> sym s \<noteq> SUBOP"
  shows "reads_simple s X x"
  unfolding reads_simple_def
proof (intro allI impI)
  fix ts
  assume ts: "at_toks (X @ ts) s" "ends_term ts"
  then obtain t where "term_expr s = Inr t" "read_to s ts x t"
    using reads_term_done [OF assms(1)] by blast
  then show "\<exists>t. simple s = simple_loop t \<and> read_to s ts x t"
    using assms(2) [OF ts(1)] by (auto simp: simple_eq)
qed

lemma reads_simple_expres: "reads_simple s X x \<Longrightarrow> reads_expres s X x"
  unfolding reads_expres_def
proof (intro allI impI)
  fix ts
  assume r: "reads_simple s X x" and ts: "at_toks (X @ ts) s" "ends_expres ts"
  then obtain t where t: "simple s = Inr t" "read_to s ts x t"
    using reads_simple_done [OF r ts(1)] ends_weaken by blast
  then have "sym t \<notin> {EQOP, LESSTHAN, GREATERTHAN}"
    using ts(2) by (auto simp: read_to_def ends_expres_def)
  with t show "\<exists>t. expres s = Inr t \<and> read_to s ts x t"
    by (auto simp: expres_eq)
qed

section \<open>Atoms, prefixes and parentheses\<close>

lemma read_to_getsym_set:
  assumes "sym s \<noteq> EOLSYM" "at_toks ts (getsym s)" "kind d (snd x)"
  shows "read_to s ts x (getsym (set_off (fst x) (set_data d s)))"
proof -
  have "expr_step (set_off (fst x) (set_data d s)) (getsym (set_off (fst x) (set_data d s)))"
    using assms(1) by (intro expr_step_getsym) simp
  then show ?thesis using assms by (simp add: read_to_def val_is_def)
qed

lemma reads_num: "reads_factor s [TNum n] (n, Abs)"
  unfolding reads_factor_def
proof (intro allI impI)
  fix ts
  assume "at_toks ([TNum n] @ ts) s"
  then have "sym s = INTCONST" "number s = n" "at_toks ts (getsym s)" by simp_all
  then show "\<exists>t. factor s = Inr t \<and> read_to s ts (n, Abs) t"
    using read_to_getsym_set [of s ts 0 "(n, Abs)"]
    by (simp add: factor_eq kind_def)
qed

lemma reads_loc:
  assumes "env_ok rho here s"
  shows "reads_factor s [T STAR] here"
  unfolding reads_factor_def
proof (intro allI impI)
  fix ts
  assume "at_toks ([T STAR] @ ts) s"
  then have "sym s = STAR" "at_toks ts (getsym s)" by simp_all
  moreover have "kind (lcdata s) (snd here)" "lc s = fst here"
    using assms by (simp_all add: env_ok_def)
  ultimately show "\<exists>t. factor s = Inr t \<and> read_to s ts here t"
    using read_to_getsym_set [of s ts "lcdata s" here] kind_flags(4) [of "lcdata s" "snd here"]
    by (simp add: factor_eq Let_def)
qed

lemma reads_lab:
  assumes "env_ok rho here s" "rho r = Some x"
  shows "reads_factor s [TId r] x"
  unfolding reads_factor_def
proof (intro allI impI)
  fix ts
  assume "at_toks ([TId r] @ ts) s"
  then have s: "sym s = IDENT" "gsymptr s = Some r" "at_toks ts (getsym s)" by simp_all
  have y: "sy_value (syms s ! r) = fst x" "kind (sy_data (syms s ! r)) (snd x)"
    "has (sy_type (syms s ! r)) (LABIT OR VARBIT)" "pass s = last_pass s"
    "\<not> has (sy_type (syms s ! r)) (MNREGBIT OR MACBIT)"
    using assms by (cases x; simp add: env_ok_def)+
  have "ident_factor s = Inr (set_off (fst x) (set_data (sy_data (syms s ! r)) s))"
    using s(2) y kind_flags(3,4) [OF y(2)] by (simp add: ident_factor_def Let_def)
  then show "\<exists>t. factor s = Inr t \<and> read_to s ts x t"
    using s read_to_getsym_set [OF _ s(3) y(2)] by (simp add: factor_eq)
qed

lemma reads_not:
  assumes "reads_factor (getsym s) X (v, Abs)"
  shows "reads_factor s (T NOTOP # X) (NOT v, Abs)"
  unfolding reads_factor_def
proof (intro allI impI)
  fix ts
  assume "at_toks ((T NOTOP # X) @ ts) s"
  then have s: "sym s = NOTOP" "at_toks (X @ ts) (getsym s)" by simp_all
  then obtain t where t: "factor (getsym s) = Inr t" "read_to (getsym s) ts (v, Abs) t"
    using assms by (auto simp: reads_factor_def)
  then have "kind (ldata t) Abs" "loff t = v" by (simp_all add: read_to_def val_is_def)
  then have "chkabs t = t" "assigns t (NOT v, Abs) (set_off (NOT v) t)"
    using kind_flags(1) [of "ldata t"]
    by (auto simp: chkabs_def assigns_def intro!: exI [of _ "ldata t"] simp: set_data_id)
  then show "\<exists>t. factor s = Inr t \<and> read_to s ts (NOT v, Abs) t"
    using t s(1) read_to_getsym [OF read_to_assigns [OF t(2)], of "(NOT v, Abs)"] \<open>loff t = v\<close>
    by (simp add: factor_eq Let_def)
qed

lemma reads_paren:
  assumes "reads_expres (getsym s) X x"
  shows "reads_factor s (T LPAREN # X @ [T RPAREN]) x"
  unfolding reads_factor_def
proof (intro allI impI)
  fix ts
  assume "at_toks ((T LPAREN # X @ [T RPAREN]) @ ts) s"
  then have s: "sym s = LPAREN" "at_toks (X @ T RPAREN # ts) (getsym s)" by simp_all
  moreover have "ends_expres (T RPAREN # ts)" by (simp add: ends_expres_def)
  ultimately obtain t where t: "expres (getsym s) = Inr t" "read_to (getsym s) (T RPAREN # ts) x t"
    using assms by (auto simp: reads_expres_def)
  then have "sym t = RPAREN" "read_to (getsym s) ts x (getsym t)"
    using expr_step_getsym [of t] expr_step_trans by (auto simp: read_to_def val_is_def)
  then show "\<exists>t. factor s = Inr t \<and> read_to s ts x t"
    using t(1) s(1) read_to_getsym [of s ts x "getsym t"] by (simp add: factor_eq)
qed

section \<open>Operators\<close>

fun opsym :: "binop \<Rightarrow> symcode" where
  "opsym Mul = STAR"
| "opsym Div = SLASH"
| "opsym And = ANDOP"
| "opsym Shl = SLOP"
| "opsym Shr = SROP"
| "opsym Add = ADDOP"
| "opsym Sub = SUBOP"
| "opsym Or = OROP"
| "opsym Eq = EQOP"
| "opsym Lt = LESSTHAN"
| "opsym Gt = GREATERTHAN"

text \<open>Precedence: comparisons, sums, products.\<close>

definition prec :: "binop \<Rightarrow> nat" where
  "prec op = (if op \<in> {Eq, Lt, Gt} then 0 else if op \<in> {Add, Sub, Or} then 1 else 2)"

lemma opsym_eol [simp]: "opsym op \<noteq> EOLSYM"
  by (cases op) simp_all

lemma term_op_assigns:
  assumes "bin_val op (v, p) y = Some z" "prec op = 2" "kind d p" "val_is s y"
  shows "\<exists>t. term_op (opsym op) v (chkabs (set_data (ldata s OR d) s)) = Inr t \<and> assigns s z t"
proof -
  have op: "op \<in> {Mul, Div, And, Shl, Shr}"
    using assms(2) by (cases op) (simp_all add: prec_def)
  then obtain w where y: "y = (w, Abs)" "p = Abs"
    using assms(1) by (cases y) (auto simp: bin_val_def split: if_splits)
  then have s: "loff s = w" "kind (ldata s OR d) Abs"
      "chkabs (set_data (ldata s OR d) s) = set_data (ldata s OR d) s"
    using assms(3,4) factor2_kind [of d s w] by (simp_all add: val_is_def)
  show ?thesis
    using op assms(1) y s
    by (auto simp: term_op_def bin_val_def assigns_def mult.commute and.commute not_le
        split: if_splits)
qed

lemma reads_mul:
  fixes s :: "'a expr_scheme"
  assumes X: "reads_term s X x" and Y: "\<And>t :: 'a expr_scheme. env_ok rho here t \<Longrightarrow> reads_factor t Y y"
    and env: "env_ok rho here s" and z: "bin_val op x y = Some z" and op: "prec op = 2"
  shows "reads_term s (X @ T (opsym op) # Y) z"
  unfolding reads_term_def
proof (intro allI impI)
  fix ts
  assume "at_toks ((X @ T (opsym op) # Y) @ ts) s"
  then obtain t where t: "term_expr s = term_loop t" "read_to s (T (opsym op) # Y @ ts) x t"
    using X by (auto simp: reads_term_def)
  then have sym: "sym t = opsym op" "at_toks (Y @ ts) (getsym t)" "expr_step s t"
    and x: "loff t = fst x" "kind (ldata t) (snd x)"
    by (simp_all add: read_to_def val_is_def)
  have "env_ok rho here (getsym t)"
    using env_ok_step [OF env] expr_step_trans [OF sym(3) expr_step_getsym] sym(1) by simp
  then obtain u where u: "factor (getsym t) = Inr u" "read_to (getsym t) ts y u"
    using Y sym(2) by (auto simp: reads_factor_def)
  then obtain r where r: "term_op (opsym op) (fst x) (chkabs (set_data (ldata u OR ldata t) u)) = Inr r"
      "assigns u z r"
    using term_op_assigns [of op "fst x" "snd x" y z "ldata t" u] z op x by (auto simp: read_to_def)
  have "opsym op \<in> {STAR, SLASH, ANDOP, SLOP, SROP}"
    using op by (cases op) (simp_all add: prec_def)
  then have "term_loop t = term_loop r"
    using sym(1) u(1) r(1) x(1) by (simp add: term_loop_eq [of t] factor2_def)
  moreover have "read_to s ts z r"
    using read_to_trans [OF t(2)] read_to_getsym [OF read_to_assigns [OF u(2) r(2)]] sym(1) by simp
  ultimately show "\<exists>t. term_expr s = term_loop t \<and> read_to s ts z t"
    using t(1) by auto
qed

lemma simple_op_assigns:
  assumes "bin_val op (v, p) y = Some z" "prec op = 1" "kind d p" "val_is s y"
  shows "assigns s z
    ((if op = Add then add_op else if op = Sub then sub_op else or_op) v d s)"
  using assms add_op_assigns [of v p y z d s] sub_op_assigns [of v p y z d s]
    or_op_assigns [of v p y z d s]
  by (cases op) (simp_all add: prec_def)

lemma simple_loop_op:
  assumes "prec op = 1" "sym t = opsym op"
  shows "simple_loop t =
    bindE (term_expr (getsym t)) (\<lambda>u. simple_loop
      ((if op = Add then add_op else if op = Sub then sub_op else or_op) (loff t) (ldata t) u))"
  using assms by (cases op) (simp_all add: prec_def simple_loop_eq [of t])

text \<open>One step of the sum loop, from a state that holds the left operand.\<close>

lemma simple_loop_read:
  fixes t :: "'a expr_scheme"
  assumes Y: "\<And>t :: 'a expr_scheme. env_ok rho here t \<Longrightarrow> reads_term t Y y"
    and env: "env_ok rho here t" and z: "bin_val op x y = Some z" and op: "prec op = 1"
    and t: "val_is t x" "at_toks (T (opsym op) # Y @ ts) t" and ts: "ends_term ts"
  obtains r where "simple_loop t = simple_loop r" "read_to t ts z r"
proof -
  have sym: "sym t = opsym op" "at_toks (Y @ ts) (getsym t)"
    and x: "loff t = fst x" "kind (ldata t) (snd x)"
    using t by (simp_all add: val_is_def)
  have "env_ok rho here (getsym t)"
    using env_ok_step [OF env expr_step_getsym] sym(1) by simp
  then obtain u where u: "term_expr (getsym t) = Inr u" "read_to (getsym t) ts y u"
    using reads_term_done [OF Y sym(2) ts] by blast
  define r where
    "r = (if op = Add then add_op else if op = Sub then sub_op else or_op) (loff t) (ldata t) u"
  have "assigns u z r"
    using simple_op_assigns [of op "fst x" "snd x" y z "ldata t" u] z op x u(2)
    by (simp add: r_def read_to_def)
  then have "read_to t ts z r"
    using read_to_getsym [OF read_to_assigns [OF u(2)]] sym(1) by simp
  moreover have "simple_loop t = simple_loop r"
    using simple_loop_op [OF op sym(1)] u(1) by (simp add: r_def)
  ultimately show ?thesis using that by blast
qed

lemma reads_add:
  fixes s :: "'a expr_scheme"
  assumes X: "reads_simple s X x" and Y: "\<And>t :: 'a expr_scheme. env_ok rho here t \<Longrightarrow> reads_term t Y y"
    and env: "env_ok rho here s" and z: "bin_val op x y = Some z" and op: "prec op = 1"
  shows "reads_simple s (X @ T (opsym op) # Y) z"
  unfolding reads_simple_def
proof (intro allI impI)
  fix ts
  assume "at_toks ((X @ T (opsym op) # Y) @ ts) s" and ts: "ends_term ts"
  moreover have "ends_term (T (opsym op) # Y @ ts)"
    using op by (cases op) (simp_all add: ends_term_def prec_def)
  ultimately obtain t where t: "simple s = simple_loop t" "read_to s (T (opsym op) # Y @ ts) x t"
    using X by (auto simp: reads_simple_def)
  then obtain r where r: "simple_loop t = simple_loop r" "read_to t ts z r"
    using simple_loop_read [OF Y env_ok_step [OF env] z op _ _ ts, of t] by (auto simp: read_to_def)
  show "\<exists>t. simple s = simple_loop t \<and> read_to s ts z t"
    using t(1) r(1) read_to_trans [OF t(2) r(2)] by (intro exI [of _ r]) simp
qed

lemma reads_neg:
  fixes s :: "'a expr_scheme"
  assumes Y: "\<And>t :: 'a expr_scheme. env_ok rho here t \<Longrightarrow> reads_term t Y (v, Abs)"
    and env: "env_ok rho here s"
  shows "reads_simple s (T SUBOP # Y) (- v, Abs)"
  unfolding reads_simple_def
proof (intro allI impI)
  fix ts
  assume s: "at_toks ((T SUBOP # Y) @ ts) s" and ts: "ends_term ts"
  let ?t = "set_data 0 (set_off 0 s)"
  have z: "bin_val Sub (0, Abs) (v, Abs) = Some (- v, Abs)" by (simp add: bin_val_def)
  have "env_ok rho here ?t" using env_ok_step [OF env] by simp
  moreover have "val_is ?t (0, Abs)" by (simp add: val_is_def kind_def)
  moreover have "at_toks (T (opsym Sub) # Y @ ts) ?t" using s by simp
  moreover have "prec Sub = 1" by (simp add: prec_def)
  ultimately have "\<exists>r. simple_loop ?t = simple_loop r \<and> read_to ?t ts (- v, Abs) r"
    using simple_loop_read [OF Y _ z _ _ _ ts] by metis
  moreover have "simple s = simple_loop ?t"
    using s by (simp add: simple_eq)
  ultimately show "\<exists>t. simple s = simple_loop t \<and> read_to s ts (- v, Abs) t"
    by (auto simp: read_to_def)
qed

lemma reads_cmp:
  fixes s :: "'a expr_scheme"
  assumes X: "reads_simple s X x" and Y: "\<And>t :: 'a expr_scheme. env_ok rho here t \<Longrightarrow> reads_simple t Y y"
    and env: "env_ok rho here s" and z: "bin_val op x y = Some z" and op: "prec op = 0"
  shows "reads_expres s (X @ T (opsym op) # Y) z"
  unfolding reads_expres_def
proof (intro allI impI)
  fix ts
  assume "at_toks ((X @ T (opsym op) # Y) @ ts) s" and ts: "ends_expres ts"
  moreover have "ends_simple (T (opsym op) # Y @ ts)"
    using op by (cases op) (simp_all add: ends_simple_def prec_def)
  ultimately obtain t where t: "simple s = Inr t" "read_to s (T (opsym op) # Y @ ts) x t"
    using reads_simple_done [OF X] by auto
  then have sym: "sym t = opsym op" "at_toks (Y @ ts) (getsym t)" "expr_step s t"
    and x: "loff t = fst x" "kind (ldata t) (snd x)"
    by (simp_all add: read_to_def val_is_def)
  have "env_ok rho here (getsym t)"
    using env_ok_step [OF env] expr_step_trans [OF sym(3) expr_step_getsym] sym(1) by simp
  then obtain u where u: "simple (getsym t) = Inr u" "read_to (getsym t) ts y u"
    using reads_simple_done [OF Y sym(2)] ends_weaken(1) [OF ts] by blast
  have ops: "op \<in> {Eq, Lt, Gt}" using op by (cases op) (simp_all add: prec_def)
  have y: "snd y = snd x" and zz: "snd z = Abs"
    "fst z = truth (if op = Eq then fst x = fst y else if op = Lt then fst x < fst y else fst y < fst x)"
    using ops z by (cases x; cases y; auto simp: bin_val_def split: if_splits)+
  have uy: "loff u = fst y" "val_is u (fst y, snd x)"
    using u(2) y by (simp_all add: read_to_def val_is_def)
  obtain e where e: "simple2_data (ldata t) u = set_data e u" "kind e Abs"
    using simple2_data_kind [OF x(2) uy(2)] .
  then have "expres s = Inr (set_off (fst z) (set_data e u))"
    using ops t(1) u(1) uy(1) x(1) sym(1) zz by (auto simp: expres_eq simple2_def)
  moreover have "assigns u z (set_off (fst z) (set_data e u))"
    using e(2) zz(1) by (auto simp: assigns_def)
  ultimately show "\<exists>t. expres s = Inr t \<and> read_to s ts z t"
    using read_to_trans [OF t(2)] read_to_getsym [OF read_to_assigns [OF u(2)]] sym(1) by auto
qed

section \<open>Rendering by precedence\<close>

definition paren :: "tok list \<Rightarrow> tok list" where
  "paren X = T LPAREN # X @ [T RPAREN]"

text \<open>
  The symbols of an expression where level 0 is an expression, 1 a sum, 2 a
  term and 3 a factor; operators of a level associate to the left.
\<close>

fun render :: "nat \<Rightarrow> ex \<Rightarrow> tok list" where
  "render l (Num n) = [TNum n]"
| "render l (Lab r) = [TId r]"
| "render l Loc = [T STAR]"
| "render l (Not e) = T NOTOP # render 3 e"
| "render l (Neg e) = paren (T SUBOP # render 2 e)"
| "render l (Bin op a b) =
     (let X = render (if prec op = 0 then 1 else prec op) a @ T (opsym op) # render (Suc (prec op)) b
      in if prec op < l then paren X else X)"

definition plain :: "tok list \<Rightarrow> bool" where
  "plain X \<longleftrightarrow> X \<noteq> [] \<and> hd X \<noteq> T ADDOP \<and> hd X \<noteq> T SUBOP"

lemma plain_append: "plain X \<Longrightarrow> plain (X @ Y)"
  by (simp add: plain_def)

lemma plain_paren [simp]: "plain (paren X)"
  by (simp add: plain_def paren_def)

lemma plain_render: "plain (render l e)"
proof (induction e arbitrary: l)
  case (Bin op a b)
  then show ?case using plain_append by (auto simp: Let_def)
qed (simp_all add: plain_def [of "[_]"] plain_def [of "_ # _"])

lemma plain_sym: "\<lbrakk>plain X; at_toks (X @ ts) s\<rbrakk> \<Longrightarrow> sym s \<noteq> ADDOP \<and> sym s \<noteq> SUBOP"
  by (cases X; cases "hd X") (auto simp: plain_def)

definition reads_all :: "'a expr_scheme \<Rightarrow> (nat \<Rightarrow> tok list) \<Rightarrow> u64 \<times> place \<Rightarrow> bool" where
  "reads_all s R x \<longleftrightarrow>
     reads_factor s (R 3) x \<and> reads_term s (R 2) x \<and> reads_simple s (R 1) x \<and> reads_expres s (R 0) x"

lemma reads_up:
  assumes "plain X"
  shows "reads_factor s X x \<Longrightarrow> reads_term s X x"
    and "reads_term s X x \<Longrightarrow> reads_simple s X x"
    and "reads_simple s X x \<Longrightarrow> reads_expres s X x"
  using assms reads_factor_term reads_term_simple plain_sym reads_simple_expres by blast+

lemma reads_parened:
  fixes s :: "'a expr_scheme"
  assumes "env_ok rho here s" and "\<And>t :: 'a expr_scheme. env_ok rho here t \<Longrightarrow> reads_expres t X x"
  shows "reads_factor s (paren X) x"
proof (cases "sym s = LPAREN")
  case True
  then have "env_ok rho here (getsym s)"
    using env_ok_step [OF assms(1) expr_step_getsym] by simp
  then show ?thesis
    using assms(2) reads_paren [of s X x] by (simp add: paren_def)
qed (simp add: reads_factor_def paren_def)

lemma reads_bin:
  fixes s :: "'a expr_scheme"
  assumes a: "\<And>t :: 'a expr_scheme. env_ok rho here t \<Longrightarrow> reads_all t (\<lambda>l. render l a) x"
    and b: "\<And>t :: 'a expr_scheme. env_ok rho here t \<Longrightarrow> reads_all t (\<lambda>l. render l b) y"
    and z: "bin_val op x y = Some z" and env: "env_ok rho here s"
  shows "reads_all s (\<lambda>l. render l (Bin op a b)) z"
proof -
  let ?X = "render (if prec op = 0 then 1 else prec op) a @ T (opsym op) # render (Suc (prec op)) b"
  have plain: "plain ?X" using plain_render plain_append by blast
  have ra: "reads_term t (render 2 a) x" "reads_simple t (render 1 a) x"
    and rb: "reads_factor t (render 3 b) y" "reads_term t (render 2 b) y" "reads_simple t (render 1 b) y"
    if "env_ok rho here t" for t :: "'a expr_scheme"
    using a [OF that] b [OF that] by (simp_all add: reads_all_def)
  have 2: "reads_term t ?X z" if "prec op = 2" "env_ok rho here t" for t :: "'a expr_scheme"
    using reads_mul [OF ra(1) rb(1) that(2) z that(1)] that by simp
  have 1: "reads_simple t ?X z" if "prec op = 1" "env_ok rho here t" for t :: "'a expr_scheme"
    using reads_add [OF ra(2) rb(2) that(2) z that(1)] that by (simp add: numeral_2_eq_2)
  have 0: "reads_expres t ?X z" if "prec op = 0" "env_ok rho here t" for t :: "'a expr_scheme"
    using reads_cmp [OF ra(2) rb(3) that(2) z that(1)] that by simp
  consider "prec op = 2" | "prec op = 1" | "prec op = 0" by (cases op) (simp_all add: prec_def)
  then show ?thesis
  proof cases
    case 1
    then have "reads_simple t ?X z" "reads_expres t ?X z" if "env_ok rho here t" for t :: "'a expr_scheme"
      using 2 [OF 1 that] reads_up [OF plain] by blast+
    then show ?thesis
      using 1 2 [OF 1 env] env reads_parened [OF env] by (simp add: reads_all_def)
  next
    case 2
    then have e: "reads_expres t ?X z" if "env_ok rho here t" for t :: "'a expr_scheme"
      using 1 [OF 2 that] reads_up [OF plain] by blast
    then have "reads_factor s (paren ?X) z" by (rule reads_parened [OF env])
    then show ?thesis
      using 2 1 [OF 2 env] e [OF env] reads_up(1) [OF plain_paren [of ?X]] by (simp add: reads_all_def)
  next
    case 3
    then have "reads_factor s (paren ?X) z" using 0 by (intro reads_parened [OF env]) blast
    then show ?thesis
      using 3 0 [OF 3 env] reads_up [OF plain_paren [of ?X], of s z] by (simp add: reads_all_def)
  qed
qed

lemma render_reads:
  fixes s :: "'a expr_scheme"
  assumes "env_ok rho here s" and "eval rho here e = Some x"
  shows "reads_all s (\<lambda>l. render l e) x"
  using assms
proof (induction e arbitrary: s x)
  case (Not e)
  then obtain v where v: "eval rho here e = Some (v, Abs)" "x = (NOT v, Abs)"
    by (auto simp: bind_eq_Some_conv elim!: un_val.elims)
  have "reads_factor s (T NOTOP # render 3 e) x" if "sym s = NOTOP"
    using Not.IH [OF env_ok_step [OF Not.prems(1) expr_step_getsym] v(1)] that v(2)
    by (simp add: reads_all_def reads_not)
  then have "reads_factor s (T NOTOP # render 3 e) x"
    by (auto simp: reads_factor_def)
  then show ?case
    using reads_up [of "T NOTOP # render 3 e" s x] by (simp add: reads_all_def plain_def)
next
  case (Neg e)
  then obtain v where v: "eval rho here e = Some (v, Abs)" "x = (- v, Abs)"
    by (auto simp: bind_eq_Some_conv elim!: un_val.elims)
  have "reads_simple t (T SUBOP # render 2 e) x" if "env_ok rho here t" for t :: "'a expr_scheme"
    using Neg.IH [OF _ v(1)] reads_neg [OF _ that, of "render 2 e" v] v(2) by (simp add: reads_all_def)
  then have "reads_factor s (paren (T SUBOP # render 2 e)) x"
    by (intro reads_parened [OF Neg.prems(1)] reads_simple_expres) blast
  then show ?case
    using reads_up [OF plain_paren [of "T SUBOP # render 2 e"], of s x] by (simp add: reads_all_def)
next
  case (Bin op a b)
  then obtain y z where "eval rho here a = Some y" "eval rho here b = Some z" "bin_val op y z = Some x"
    by (auto simp: bind_eq_Some_conv)
  then show ?case
    using Bin.IH Bin.prems(1) by (intro reads_bin [of rho here a y b z op x s]) blast+
next
  case (Num n)
  then show ?case
    using reads_num reads_up [of "[TNum n]" s x] by (auto simp: reads_all_def plain_def)
next
  case (Lab r)
  then show ?case
    using reads_lab [of rho here s r x] reads_up [of "[TId r]" s x] by (auto simp: reads_all_def plain_def)
next
  case Loc
  then show ?case
    using reads_loc [of rho here s] reads_up [of "[T STAR]" s x] by (auto simp: reads_all_def plain_def)
qed

section \<open>Relocation\<close>

text \<open>The value of an expression once the segments have got their bases.\<close>

fun base :: "(byte \<Rightarrow> u64) \<Rightarrow> place \<Rightarrow> u64" where
  "base bs Abs = 0"
| "base bs (Rel g) = bs g"

definition bin_word :: "binop \<Rightarrow> u64 \<Rightarrow> u64 \<Rightarrow> u64" where
  "bin_word op v w =
     (case op of
        Add \<Rightarrow> v + w | Sub \<Rightarrow> v - w | Or \<Rightarrow> v OR w
      | Mul \<Rightarrow> v * w | Div \<Rightarrow> v div w | And \<Rightarrow> v AND w
      | Shl \<Rightarrow> push_bit (unat w) v | Shr \<Rightarrow> drop_bit (unat w) v
      | Eq \<Rightarrow> truth (v = w) | Lt \<Rightarrow> truth (v < w) | Gt \<Rightarrow> truth (w < v))"

fun relocated :: "(byte \<Rightarrow> u64) \<Rightarrow> (nat \<rightharpoonup> u64 \<times> place) \<Rightarrow> u64 \<times> place \<Rightarrow> ex \<Rightarrow> u64" where
  "relocated bs rho here (Num n) = n"
| "relocated bs rho here (Lab r) = (case rho r of Some (v, p) \<Rightarrow> v + base bs p | None \<Rightarrow> 0)"
| "relocated bs rho here Loc = fst here + base bs (snd here)"
| "relocated bs rho here (Not e) = NOT (relocated bs rho here e)"
| "relocated bs rho here (Neg e) = - relocated bs rho here e"
| "relocated bs rho here (Bin op a b) =
     bin_word op (relocated bs rho here a) (relocated bs rho here b)"

lemma eval_relocated:
  "eval rho here e = Some (v, p) \<Longrightarrow> relocated bs rho here e = v + base bs p"
proof (induction e arbitrary: v p)
  case (Bin op a b)
  then obtain v1 p1 v2 p2 where
    "eval rho here a = Some (v1, p1)" "eval rho here b = Some (v2, p2)"
    "bin_val op (v1, p1) (v2, p2) = Some (v, p)"
    by (auto simp: bind_eq_Some_conv)
  then show ?case
    using Bin.IH by (cases op) (auto simp: bin_val_def bin_word_def split: if_splits)
qed (auto simp: bind_eq_Some_conv elim!: un_val.elims)

text \<open>
  C10: the parser refines the specification of expressions.  In the last pass,
  whenever the symbols of a well-typed expression over numbers, labels and the
  location counter lie ahead, in the rendering that follows operator precedence
  and left association, \<^verbatim>\<open>expres\<close> returns with exactly these symbols consumed
  and no error reported, and leaves the expression's value and relocation in
  \<^verbatim>\<open>lastexp\<close>; adding the base of the segment to that value gives, for every
  placement of the segments, what evaluating the expression on the relocated
  labels gives.
\<close>

theorem expres_correct:
  assumes "env_ok rho here s" and "eval rho here e = Some (v, p)"
    and "at_toks (render 0 e @ ts) s" and "ends_expres ts"
  shows "\<exists>t. expres s = Inr t \<and> loff t = v \<and> kind (ldata t) p \<and> same_errs s t \<and> at_toks ts t \<and>
    (\<forall>bs. relocated bs rho here e = loff t + base bs p)"
proof -
  have "reads_expres s (render 0 e) (v, p)"
    using render_reads [OF assms(1,2)] by (simp add: reads_all_def)
  then obtain t where "expres s = Inr t" "read_to s ts (v, p) t"
    using assms(3,4) by (auto simp: reads_expres_def)
  then show ?thesis
    using eval_relocated [OF assms(2)] by (auto simp: read_to_def val_is_def)
qed

text \<open>A line in a text segment at \<^verbatim>\<open>0x100\<close>, in the last pass.\<close>

abbreviation expr_at :: "string \<Rightarrow> expr" where
  "expr_at line \<equiv> \<lparr>syms = [], spt = (\<lambda>_. []), ifflag = True, inidata = 0x90,
     srcbuf = bytes_of line, linebuf = 0, lineptr = 0, symname = 0, sym = EOLSYM,
     number = 0, numbase = 10, gsymptr = None,
     errbuf = replicate 6 ([], 0), errcount = 0, erroverflow = False, toterr = 0,
     totwarn = 0, as_warn = True,
     lastexp = \<lparr>a_offset = 0, a_data = 0, a_sym = None\<rparr>, lc = 0x100, lcdata = RELBIT,
     pass = 1, last_pass = 1\<rparr>"

theorem expres_correct_witness:
  "\<exists>t. expres (getsym (expr_at ''*+2*3'')) = Inr t \<and> loff t = 0x106 \<and> kind (ldata t) (Rel 0)"
proof -
  have "env_ok (\<lambda>_. None) (0x100, Rel 0) (getsym (expr_at ''*+2*3''))"
    by (simp add: env_ok_def kind_def)
  moreover have "eval (\<lambda>_. None) (0x100, Rel 0) (Bin Add Loc (Bin Mul (Num 2) (Num 3))) =
      Some (0x106, Rel 0)"
    by (simp add: bin_val_def)
  moreover have "at_toks (render 0 (Bin Add Loc (Bin Mul (Num 2) (Num 3))) @ [T EOLSYM])
      (getsym (expr_at ''*+2*3''))"
    by code_simp
  moreover have "ends_expres [T EOLSYM]"
    by (simp add: ends_expres_def)
  ultimately show ?thesis
    using expres_correct by blast
qed

end
