(* ===== verification/Typeconv.thy ===== *)
theory Typeconv
  imports Prelude
begin

text \<open>
  Byte-order conversion, \<^verbatim>\<open>as/typeconv.c\<close> and its copy \<^verbatim>\<open>ld/typeconv.c\<close>.
  The two static index tables are the state; \<^verbatim>\<open>typeconv_init\<close> permutes them
  for the target's byte order, and the conversion routines store and load
  integers through them.  The interface the object writer and the object
  reader rely on is the locale \<open>sized_codec\<close>: an encoder of fixed width and a
  decoder that undoes it.
\<close>

section \<open>Model\<close>

record conv =
  long_off :: "nat list"
  int_off :: "nat list"

definition typeconv_init :: "bool \<Rightarrow> bool \<Rightarrow> conv" where
  "typeconv_init big_endian long_big_endian =
     (let lo0 = [0, 1, 2, 3];
          io0 = [0, 1];
          lo1 = (if long_big_endian then swap 1 3 (swap 0 2 lo0) else lo0);
          lo2 = (if big_endian then swap 0 1 (swap 2 3 lo1) else lo1);
          io1 = (if big_endian then swap 0 1 io0 else io0)
      in \<lparr>long_off = lo2, int_off = io1\<rparr>)"

text \<open>Store the low two bytes of a \<^verbatim>\<open>u2_pt\<close>.\<close>

definition u2c2 :: "conv \<Rightarrow> byte list \<Rightarrow> u32 \<Rightarrow> byte list" where
  "u2c2 cv buf offset =
     buf[int_off cv ! 0 := ucast offset, int_off cv ! 1 := ucast (drop_bit 8 offset)]"

text \<open>Store the low four bytes of a \<^verbatim>\<open>u4_t\<close>, the loop over \<^verbatim>\<open>long_off\<close>.\<close>

fun u4c4_loop :: "nat list \<Rightarrow> byte list \<Rightarrow> u64 \<Rightarrow> byte list" where
  "u4c4_loop [] buf offset = buf"
| "u4c4_loop (i # is) buf offset = u4c4_loop is (buf[i := ucast offset]) (drop_bit 8 offset)"

definition u4c4 :: "conv \<Rightarrow> byte list \<Rightarrow> u64 \<Rightarrow> byte list" where
  "u4c4 cv buf offset = u4c4_loop (long_off cv) buf offset"

text \<open>
  Sized stores.  The default branch only prints a warning and leaves the
  buffer as it was.
\<close>

definition u4cn :: "conv \<Rightarrow> byte list \<Rightarrow> u64 \<Rightarrow> nat \<Rightarrow> byte list" where
  "u4cn cv buf offset count =
     (if count = 1 then buf[0 := ucast offset]
      else if count = 2 then u2c2 cv buf (ucast offset)
      else if count = 4 then u4c4 cv buf offset
      else buf)"

definition u2cn :: "conv \<Rightarrow> byte list \<Rightarrow> u32 \<Rightarrow> nat \<Rightarrow> byte list" where
  "u2cn cv buf offset count =
     (if count = 1 then buf[0 := ucast offset]
      else if count = 2 then u2c2 cv buf offset
      else if count = 4 then u4c4 cv buf (ucast offset)
      else buf)"

definition c2u2 :: "conv \<Rightarrow> byte list \<Rightarrow> u32" where
  "c2u2 cv buf = ucast (buf ! (int_off cv ! 0)) + push_bit 8 (ucast (buf ! (int_off cv ! 1)))"

fun c4u4_loop :: "nat list \<Rightarrow> byte list \<Rightarrow> u64 \<Rightarrow> u64" where
  "c4u4_loop [] buf res = res"
| "c4u4_loop (i # is) buf res = c4u4_loop is buf (push_bit 8 res + ucast (buf ! i))"

text \<open>The loop counts \<^verbatim>\<open>i\<close> down from 3.\<close>

definition c4u4 :: "conv \<Rightarrow> byte list \<Rightarrow> u64" where
  "c4u4 cv buf = c4u4_loop (rev (long_off cv)) buf 0"

definition cnu4 :: "conv \<Rightarrow> byte list \<Rightarrow> nat \<Rightarrow> u64" where
  "cnu4 cv buf count =
     (if count = 0 then 0
      else if count = 1 then ucast (buf ! 0)
      else if count = 2 then ucast (c2u2 cv buf)
      else if count = 4 then c4u4 cv buf
      else 0)"

definition cnu2 :: "conv \<Rightarrow> byte list \<Rightarrow> nat \<Rightarrow> u32" where
  "cnu2 cv buf count =
     (if count = 0 then 0
      else if count = 1 then ucast (buf ! 0)
      else if count = 2 then c2u2 cv buf
      else if count = 4 then ucast (c4u4 cv buf)
      else 0)"

section \<open>The interface: fixed-width codecs\<close>

text \<open>
  \<open>norm\<close> is what a value keeps of itself when it is stored in \<open>width\<close> bytes.
\<close>

locale sized_codec =
  fixes width :: nat
    and enc :: "'v \<Rightarrow> byte list"
    and dec :: "byte list \<Rightarrow> 'v"
    and norm :: "'v \<Rightarrow> 'v"
  assumes enc_length: "length (enc v) = width"
    and dec_enc: "dec (enc v) = norm v"
    and norm_idem: "norm (norm v) = norm v"
begin

lemma dec_take_enc: "dec (take width (enc v @ rest)) = norm v"
  by (simp add: enc_length dec_enc)

lemma drop_enc: "drop width (enc v @ rest) = rest"
  by (simp add: enc_length)

lemma enc_norm_inj: "enc v = enc w \<Longrightarrow> norm v = norm w"
  by (metis dec_enc)

text \<open>A table of values written one after the other is read back value by value.\<close>

lemma dec_nth_concat:
  assumes "i < length vs"
  shows "dec (take width (drop (i * width) (concat (map enc vs)))) = norm (vs ! i)"
  using assms
proof (induction vs arbitrary: i)
  case Nil
  then show ?case by simp
next
  case (Cons v vs)
  show ?case
  proof (cases i)
    case 0
    then show ?thesis by (simp add: enc_length dec_enc)
  next
    case (Suc j)
    with Cons.prems have "j < length vs" by simp
    then have "dec (take width (drop (j * width) (concat (map enc vs)))) = norm (vs ! j)"
      by (rule Cons.IH)
    with Suc show ?thesis by (simp add: enc_length)
  qed
qed

end

section \<open>Round trips\<close>

lemma typeconv_tables:
  "int_off (typeconv_init be lbe) = (if be then [1, 0] else [0, 1])"
  "long_off (typeconv_init be lbe) =
     (if lbe then (if be then [3, 2, 1, 0] else [2, 3, 0, 1])
      else (if be then [1, 0, 3, 2] else [0, 1, 2, 3]))"
  by (simp_all add: typeconv_init_def swap_def Let_def eval_nat_numeral)

lemma c2u2_u2c2_bytes:
  "(ucast (ucast v :: byte) :: u32) + push_bit 8 (ucast (ucast (drop_bit 8 v) :: byte))
     = take_bit 16 v"
  by (rule bit_word_eqI)
     (auto simp: disjunctive_add bit_simps less_Suc_eq)

lemma c4u4_u4c4_bytes:
  "push_bit 8 (push_bit 8 (push_bit 8 (push_bit 8 0 +
       ucast (ucast (drop_bit 8 (drop_bit 8 (drop_bit 8 v))) :: byte)) +
       ucast (ucast (drop_bit 8 (drop_bit 8 v)) :: byte)) +
       ucast (ucast (drop_bit 8 v) :: byte)) +
     (ucast (ucast v :: byte) :: u64) = take_bit 32 v"
proof -
  have add: "push_bit 8 a + ucast (b :: byte) = push_bit 8 a OR ucast b" for a :: u64 and b
    by (rule disjunctive_add) (auto simp: bit_simps dest: bit_imp_le_length)
  have split: "n < 8 \<or> 8 \<le> n \<and> n < 16 \<or> 16 \<le> n \<and> n < 24 \<or> 24 \<le> n" for n :: nat
    by arith
  show ?thesis
    by (simp only: add, rule bit_word_eqI)
       (use split in \<open>fastforce simp: bit_simps\<close>)
qed

text \<open>
  The loads undo the stores whatever the byte order, so the copies of this file
  in the assembler and in the linker agree as long as both are initialised
  alike.
\<close>

lemma c2u2_u2c2:
  "2 \<le> length buf \<Longrightarrow>
   c2u2 (typeconv_init be lbe) (u2c2 (typeconv_init be lbe) buf v) = take_bit 16 v"
  using c2u2_u2c2_bytes [of v]
  by (auto simp: c2u2_def u2c2_def typeconv_tables length_ge2_iff)

lemma c4u4_u4c4:
  "4 \<le> length buf \<Longrightarrow>
   c4u4 (typeconv_init be lbe) (u4c4 (typeconv_init be lbe) buf v) = take_bit 32 v"
  using c4u4_u4c4_bytes [of v]
  by (auto simp: c4u4_def u4c4_def typeconv_tables length_ge4_iff)

text \<open>
  C1: a value stored by \<^verbatim>\<open>u2cn\<close> in one, two or four bytes is read back by
  \<^verbatim>\<open>cnu2\<close> as its low 8, 16 or 32 bits, for every setting of the two byte-order
  flags and any buffer large enough.
\<close>

theorem cnu2_u2cn:
  assumes "n \<in> {1, 2, 4}" and "n \<le> length buf"
  shows "cnu2 (typeconv_init be lbe) (u2cn (typeconv_init be lbe) buf v n) n = take_bit (8 * n) v"
proof -
  have one: "ucast (ucast v :: byte) = take_bit 8 v"
    by (rule bit_word_eqI) (auto simp: bit_simps)
  have four: "(ucast (take_bit 32 (ucast v :: u64)) :: u32) = take_bit 32 v"
    by (rule bit_word_eqI) (auto simp: bit_simps)
  from assms show ?thesis
    by (cases buf) (auto simp: cnu2_def u2cn_def one four c2u2_u2c2 c4u4_u4c4)
qed

theorem cnu2_u2cn_witness:
  "cnu2 (typeconv_init True True) (u2cn (typeconv_init True True) [9, 9, 9] 0x12345 2) 2 = 0x2345"
  using cnu2_u2cn [of 2 "[9, 9, 9]" True True "0x12345"] by simp

section \<open>The target's byte order\<close>

text \<open>Both programs initialise the tables for a big-endian target.\<close>

abbreviation target :: conv
  where "target \<equiv> typeconv_init True True"

abbreviation word_bytes :: "u32 \<Rightarrow> byte list"
  where "word_bytes v \<equiv> u2c2 target [0, 0] v"

abbreviation long_bytes :: "u64 \<Rightarrow> byte list"
  where "long_bytes v \<equiv> u4c4 target [0, 0, 0, 0] v"

lemma u2c2_target: "u2c2 target [x, y] v = [ucast (drop_bit 8 v), ucast v]"
  by (simp add: u2c2_def typeconv_init_def swap_def)

lemma u4c4_target:
  "u4c4 target [w, x, y, z] v =
     [ucast (drop_bit 24 v), ucast (drop_bit 16 v), ucast (drop_bit 8 v), ucast v]"
  by (simp add: u4c4_def typeconv_init_def swap_def)

lemma c2u2_target: "c2u2 target (h # l # rest) = ucast l + push_bit 8 (ucast h)"
  by (simp add: c2u2_def typeconv_init_def swap_def)

interpretation word_codec: sized_codec 2 word_bytes "c2u2 target" "take_bit 16"
  by unfold_locales (simp add: u2c2_target, simp_all add: c2u2_u2c2)

interpretation long_codec: sized_codec 4 long_bytes "c4u4 target" "take_bit 32"
  by unfold_locales (simp add: u4c4_target, simp_all add: c4u4_u4c4)

end
