(* ===== verification/Objformat.thy ===== *)
theory Objformat
  imports Typeconv
begin

text \<open>
  The text of an object module, the contract between the assembler, which
  writes it (\<^verbatim>\<open>as/genobj.c\<close>), and the linker, which executes it
  (\<^verbatim>\<open>ld/writex86.c\<close>): a sequence of commands, each a byte with two command bits
  and a six-bit modifier, followed by its operands.  The constants are those of
  \<^verbatim>\<open>as/const.h\<close> and \<^verbatim>\<open>ld/writex86.c\<close>.
\<close>

section \<open>Commands\<close>

datatype cmd =
    CEnd
  | CSize nat
  | CSkip u32
  | CSeg byte
  | CBytes "byte list"
  | COff byte u32
  | CSym byte u32 u32

text \<open>The table \<^verbatim>\<open>convertsize\<close> of \<^verbatim>\<open>ld/readobj.c\<close>.\<close>

definition convertsize :: "byte \<Rightarrow> nat" where
  "convertsize i = [0, 1, 2, 4] ! unat i"

section \<open>Reading from the front of a buffer\<close>

text \<open>
  Readers that take a value off the front of a buffer.  A well-behaved one
  never gives back more than it got, and what follows does not change what it
  reads.
\<close>

definition reader :: "(byte list \<Rightarrow> ('v \<times> byte list) option) \<Rightarrow> bool" where
  "reader p \<longleftrightarrow>
     (\<forall>bs v r. p bs = Some (v, r) \<longrightarrow>
        length r \<le> length bs \<and> (\<forall>us. p (bs @ us) = Some (v, r @ us)))"

definition take_bytes :: "nat \<Rightarrow> byte list \<Rightarrow> (byte list \<times> byte list) option" where
  "take_bytes n bs = (if length bs < n then None else Some (take n bs, drop n bs))"

definition map_reader :: "('v \<Rightarrow> 'w) \<Rightarrow> (byte list \<Rightarrow> ('v \<times> byte list) option) \<Rightarrow>
    byte list \<Rightarrow> ('w \<times> byte list) option" where
  "map_reader f p bs = map_option (\<lambda>(v, r). (f v, r)) (p bs)"

definition then_reader :: "(byte list \<Rightarrow> ('v \<times> byte list) option) \<Rightarrow>
    ('v \<Rightarrow> byte list \<Rightarrow> ('w \<times> byte list) option) \<Rightarrow> byte list \<Rightarrow> ('w \<times> byte list) option" where
  "then_reader p q bs = (case p bs of None \<Rightarrow> None | Some (v, r) \<Rightarrow> q v r)"

text \<open>A sized big-endian number.\<close>

definition take_num :: "nat \<Rightarrow> byte list \<Rightarrow> (u32 \<times> byte list) option" where
  "take_num n = map_reader (\<lambda>bs. cnu2 target bs n) (take_bytes n)"

lemma reader_none: "reader (\<lambda>bs. None)"
  by (simp add: reader_def)

lemma reader_return: "reader (\<lambda>bs. Some (v, bs))"
  by (simp add: reader_def)

lemma reader_take_bytes: "reader (take_bytes n)"
  by (auto simp: reader_def take_bytes_def split: if_splits)

lemma reader_map: "reader p \<Longrightarrow> reader (map_reader f p)"
  by (fastforce simp: reader_def map_reader_def)

lemma reader_then: "\<lbrakk>reader p; \<And>v. reader (q v)\<rbrakk> \<Longrightarrow> reader (then_reader p q)"
  unfolding reader_def then_reader_def
  by (fastforce split: option.splits intro: order_trans)

lemma reader_if: "\<lbrakk>reader p; reader q\<rbrakk> \<Longrightarrow> reader (if b then p else q)"
  by simp

lemma reader_take_num: "reader (take_num n)"
  unfolding take_num_def by (intro reader_map reader_take_bytes)

lemmas reader_intros =
  reader_none reader_return reader_take_bytes reader_take_num reader_map reader_then reader_if

text \<open>
  The operands of a command, by its first byte and the current relocation
  size.  The offset of an offset relocation has that size, the modifier of a
  symbol relocation says how long the symbol number and the offset are.
\<close>

definition special_args :: "byte \<Rightarrow> byte list \<Rightarrow> (cmd \<times> byte list) option" where
  "special_args modify =
     (if modify = 0 then (\<lambda>bs. Some (CEnd, bs))
      else if modify = 1 then (\<lambda>bs. Some (CSize 1, bs))
      else if modify = 2 then (\<lambda>bs. Some (CSize 2, bs))
      else if modify = 0x11 then map_reader CSkip (take_num 1)
      else if modify = 0x12 then map_reader CSkip (take_num 2)
      else if modify = 0x13 then map_reader CSkip (take_num 4)
      else if 0x20 \<le> modify \<and> modify \<le> 0x2F then (\<lambda>bs. Some (CSeg (modify - 0x20), bs))
      else (\<lambda>bs. None))"

definition cmd_args :: "nat \<Rightarrow> byte \<Rightarrow> byte list \<Rightarrow> (cmd \<times> byte list) option" where
  "cmd_args rs c =
     (let modify = c AND 0x3F in
      if c AND 0xC0 = 0x00 then special_args modify
      else if c AND 0xC0 = 0x40 then
        map_reader CBytes (take_bytes (if modify = 0 then 64 else unat modify))
      else if c AND 0xC0 = 0x80 then map_reader (COff modify) (take_num rs)
      else
        then_reader (take_num (if has modify 0x04 then 2 else 1))
          (\<lambda>symnum. map_reader (CSym (modify AND 0x20) symnum)
             (take_num (convertsize (modify AND 0x03)))))"

lemma reader_cmd_args: "reader (cmd_args rs c)"
  unfolding cmd_args_def special_args_def Let_def by (intro reader_intros)

definition next_cmd :: "nat \<Rightarrow> byte list \<Rightarrow> (cmd \<times> byte list) option" where
  "next_cmd rs bs = (case bs of [] \<Rightarrow> None | c # bs1 \<Rightarrow> cmd_args rs c bs1)"

definition next_size :: "nat \<Rightarrow> cmd \<Rightarrow> nat" where
  "next_size rs c = (case c of CSize n \<Rightarrow> n | _ \<Rightarrow> rs)"

lemma next_cmd_shorter: "next_cmd rs bs = Some (c, bs') \<Longrightarrow> length bs' < length bs"
  using reader_cmd_args by (fastforce simp: next_cmd_def reader_def split: list.splits)

text \<open>A text cut into commands, with the relocation size after them.\<close>

function decode :: "nat \<Rightarrow> byte list \<Rightarrow> (cmd list \<times> nat) option" where
  "decode rs bs =
     (if bs = [] then Some ([], rs)
      else case next_cmd rs bs of
             None \<Rightarrow> None
           | Some (c, bs') \<Rightarrow>
               map_option (\<lambda>(cs, rs'). (c # cs, rs')) (decode (next_size rs c) bs'))"
  by pat_completeness auto
termination
  by (relation "measure (\<lambda>(rs, bs). length bs)") (auto dest: next_cmd_shorter)

declare decode.simps [simp del]

lemma decode_Nil [simp]: "decode rs [] = Some ([], rs)"
  by (simp add: decode.simps)

text \<open>Commands are self-delimiting: more text does not change how a prefix is cut.\<close>

lemma next_cmd_append:
  "next_cmd rs bs = Some (c, bs') \<Longrightarrow> next_cmd rs (bs @ us) = Some (c, bs' @ us)"
  using reader_cmd_args by (fastforce simp: next_cmd_def reader_def split: list.splits)

lemma decode_append:
  "decode rs bs = Some (cs, rs') \<Longrightarrow>
   decode rs (bs @ us) = map_option (\<lambda>(ds, r). (cs @ ds, r)) (decode rs' us)"
proof (induction rs bs arbitrary: cs rule: decode.induct)
  case (1 rs bs)
  show ?case
  proof (cases "bs = []")
    case True
    with "1.prems" show ?thesis by (cases "decode rs' us") auto
  next
    case False
    then obtain c bs' ds where c: "next_cmd rs bs = Some (c, bs')"
      "decode (next_size rs c) bs' = Some (ds, rs')" "cs = c # ds"
      using "1.prems" by (auto simp: decode.simps [of rs bs] split: option.splits)
    have "decode (next_size rs c) (bs' @ us) = map_option (\<lambda>(es, r). (ds @ es, r)) (decode rs' us)"
      using "1.IH" [OF False c(1) refl c(2)] .
    then show ?thesis
      using False next_cmd_append [OF c(1), of us] c(3)
      by (cases "decode rs' us") (auto simp: decode.simps [of rs "bs @ us"])
  qed
qed

section \<open>What a text denotes\<close>

text \<open>
  The effect of a text on a module: bytes and relocated fields at addresses of
  its segments.  Addresses are those of the target, 16 bits.
\<close>

datatype atom =
    AByte byte
  | AOff nat byte u32
  | ASym nat byte u32 u32

record image =
  im_seg :: byte
  im_pos :: "byte \<Rightarrow> u16"
  im_data :: "(byte \<times> u16 \<times> atom) list"

definition atom_size :: "atom \<Rightarrow> nat" where
  "atom_size a = (case a of AByte b \<Rightarrow> 1 | AOff n m v \<Rightarrow> n | ASym n m y v \<Rightarrow> n)"

definition move :: "u16 \<Rightarrow> image \<Rightarrow> image" where
  "move n im = im\<lparr>im_pos := (im_pos im)(im_seg im := im_pos im (im_seg im) + n)\<rparr>"

definition place :: "atom \<Rightarrow> image \<Rightarrow> image" where
  "place a im =
     move (of_nat (atom_size a))
       (im\<lparr>im_data := im_data im @ [(im_seg im, im_pos im (im_seg im), a)]\<rparr>)"

text \<open>One command, with the relocation size before it.\<close>

definition exec_cmd :: "cmd \<Rightarrow> nat \<times> image \<Rightarrow> nat \<times> image" where
  "exec_cmd c x =
     (case x of (rs, im) \<Rightarrow>
        (next_size rs c,
         case c of
           CEnd \<Rightarrow> im
         | CSize n \<Rightarrow> im
         | CSkip n \<Rightarrow> move (ucast n) im
         | CSeg g \<Rightarrow> im\<lparr>im_seg := g\<rparr>
         | CBytes bs \<Rightarrow> fold (\<lambda>b. place (AByte b)) bs im
         | COff m v \<Rightarrow> place (AOff rs m v) im
         | CSym m y v \<Rightarrow> place (ASym rs m y v) im))"

text \<open>A linker starts a module with two-byte relocation.\<close>

definition denotes :: "byte list \<Rightarrow> image \<Rightarrow> image option" where
  "denotes bs im =
     map_option (\<lambda>(cs, rs). snd (fold exec_cmd cs (2, im))) (decode 2 bs)"

lemma move_move: "move m (move n im) = move (n + m) im"
  by (simp add: move_def fun_upd_def [symmetric] add.assoc)

lemma move_0 [simp]: "move 0 im = im"
  by (simp add: move_def)

lemma fst_exec_cmd [simp]: "fst (exec_cmd c x) = next_size (fst x) c"
  by (cases x) (simp add: exec_cmd_def)

lemma fold_exec_size:
  "decode rs bs = Some (cs, rs') \<Longrightarrow> fst (fold exec_cmd cs (rs, im)) = rs'"
proof (induction rs bs arbitrary: cs im rule: decode.induct)
  case (1 rs bs)
  show ?case
  proof (cases "bs = []")
    case True
    with "1.prems" show ?thesis by simp
  next
    case False
    then obtain c bs' ds where c: "next_cmd rs bs = Some (c, bs')"
      "decode (next_size rs c) bs' = Some (ds, rs')" "cs = c # ds"
      using "1.prems" by (auto simp: decode.simps [of rs bs] split: option.splits)
    have "exec_cmd c (rs, im) = (next_size rs c, snd (exec_cmd c (rs, im)))"
      by (metis fst_exec_cmd fst_conv prod.collapse)
    then show ?thesis
      using "1.IH" [OF False c(1) refl c(2), of "snd (exec_cmd c (rs, im))"] c(3) by simp
  qed
qed

text \<open>A text read so far, without its end, the relocation size and the image it has led to.\<close>

definition reaches :: "byte list \<Rightarrow> image \<Rightarrow> nat \<Rightarrow> image \<Rightarrow> bool" where
  "reaches bs im rs i \<longleftrightarrow>
     (\<exists>cs. decode 2 bs = Some (cs, rs) \<and> CEnd \<notin> set cs \<and> fold exec_cmd cs (2, im) = (rs, i))"

lemma reaches_Nil: "reaches [] im 2 im"
  by (simp add: reaches_def)

lemma reaches_denotes: "reaches bs im rs i \<Longrightarrow> denotes bs im = Some i"
  by (auto simp: reaches_def denotes_def)

lemma reaches_append:
  assumes "reaches bs im rs i" and "decode rs us = Some (ds, rs')" and "CEnd \<notin> set ds"
    and "fold exec_cmd ds (rs, i) = (rs', i')"
  shows "reaches (bs @ us) im rs' i'"
  using assms decode_append by (fastforce simp: reaches_def)

lemma reaches_command:
  assumes "reaches bs im rs i" and "next_cmd rs us = Some (c, [])" and "c \<noteq> CEnd"
  shows "reaches (bs @ us) im (next_size rs c) (snd (exec_cmd c (rs, i)))"
proof -
  have "us \<noteq> []" using assms(2) by (auto simp: next_cmd_def)
  then have "decode rs us = Some ([c], next_size rs c)"
    using assms(2) by (simp add: decode.simps [of rs us])
  moreover have "fold exec_cmd [c] (rs, i) = (next_size rs c, snd (exec_cmd c (rs, i)))"
    using fst_exec_cmd [of c "(rs, i)"] by (simp add: prod_eq_iff)
  ultimately show ?thesis using assms(3) by (auto intro: reaches_append [OF assms(1)])
qed

text \<open>The whole text: the end command once, at the end.\<close>

lemma reaches_end:
  assumes "reaches bs im rs i"
  shows "\<exists>cs. decode 2 (bs @ [0]) = Some (cs @ [CEnd], rs) \<and> CEnd \<notin> set cs \<and>
    fold exec_cmd cs (2, im) = (rs, i)"
proof -
  have "next_cmd rs [0] = Some (CEnd, [])"
    by (simp add: next_cmd_def cmd_args_def special_args_def)
  then have "decode rs [0] = Some ([CEnd], rs)"
    by (simp add: decode.simps [of rs "[0]"] next_size_def)
  then show ?thesis using assms decode_append by (fastforce simp: reaches_def)
qed

section \<open>Encodings\<close>

text \<open>The commands an assembler writes for bytes and for space.\<close>

definition abs_cmd :: "byte list \<Rightarrow> byte list" where
  "abs_cmd bs = (if bs = [] then [] else (of_nat (length bs) OR 0x40) # bs)"

definition num_bytes :: "u32 \<Rightarrow> nat \<Rightarrow> byte list" where
  "num_bytes v n = (if n = 1 then [ucast v] else if n = 2 then word_bytes v else [])"

definition skip_cmd :: "u64 \<Rightarrow> byte list" where
  "skip_cmd n =
     (if n = 0 then []
      else if 0x100 \<le> n then 0x12 # num_bytes (ucast n) 2
      else 0x11 # num_bytes (ucast n) 1)"

lemma take_num_bytes:
  assumes "n \<in> {1, 2}"
  shows "take_num n (num_bytes v n @ us) = Some (take_bit (8 * n) v, us)"
proof -
  have "(ucast (ucast v :: byte) :: u32) = take_bit 8 v"
    by (rule bit_word_eqI) (auto simp: bit_simps)
  then show ?thesis
    using assms c2u2_u2c2 [of "[0, 0]" True True v]
    by (auto simp: take_num_def map_reader_def take_bytes_def num_bytes_def cnu2_def
        word_codec.enc_length)
qed

lemma abs_len_bits:
  assumes "0 < n" "n \<le> 64"
  shows "(of_nat n OR 0x40 :: byte) AND 0xC0 = 0x40 \<and>
    (let m = (of_nat n OR 0x40 :: byte) AND 0x3F in if m = 0 then n = 64 else unat m = n)"
proof -
  have "n \<in> set [1..<65]" using assms by simp
  moreover have "\<forall>n\<in>set [1..<65]. (of_nat n OR 0x40 :: byte) AND 0xC0 = 0x40 \<and>
    (let m = (of_nat n OR 0x40 :: byte) AND 0x3F in if m = 0 then n = 64 else unat m = n)"
    by code_simp
  ultimately show ?thesis by blast
qed

lemma next_abs_cmd:
  assumes "bs \<noteq> []" "length bs \<le> 64"
  shows "next_cmd rs (abs_cmd bs) = Some (CBytes bs, [])"
  using assms abs_len_bits [of "length bs"]
  by (auto simp: next_cmd_def abs_cmd_def cmd_args_def Let_def map_reader_def take_bytes_def
      split: if_splits)

lemma next_skip_cmd:
  assumes "n \<noteq> 0"
  shows "next_cmd rs (skip_cmd n) = Some (CSkip (take_bit 16 (ucast n)), [])"
proof -
  have "take_bit 8 (ucast n :: u32) = take_bit 16 (ucast n)" if "\<not> 0x100 \<le> n"
    using that take_bit_small_u32 [of n] by (simp add: word_le_nat_alt)
  then show ?thesis
    using assms take_num_bytes [of 2 "ucast n" "[]"] take_num_bytes [of 1 "ucast n" "[]"]
    by (simp add: next_cmd_def skip_cmd_def cmd_args_def special_args_def Let_def map_reader_def)
qed

end
