(* ===== verification/Genobj.thy ===== *)
theory Genobj
  imports Express Objformat
begin

text \<open>
  Object code generation of the assembler, \<^verbatim>\<open>as/genobj.c\<close>.  Absolute bytes are
  collected in a buffer of 64, space requests in a counter, and both are turned
  into commands of the object format only when something else has to follow.
  The output file is the list of bytes written to it; a failing write is not
  modelled.
\<close>

section \<open>State\<close>

record lc_s =
  lc_data :: byte
  lc_lc :: u64

record gen = expr +
  objectc :: bool
  objectg :: bool
  absbuf :: "byte list"
  objbuf :: "byte list"
  objfil :: "byte list"
  rmbcount :: u64
  relsize :: nat
  arrext :: "nat list"
  pcrflag :: byte
  lcjump :: u64
  popflags :: byte
  fcflag :: bool
  fdflag :: bool
  fcbuf :: "byte list"
  fdbuf :: "address_s list"
  page :: byte
  opcode :: byte
  postb :: byte
  lctab :: "lc_s list"
  textseg :: int
  globals_only_in_obj :: bool

text \<open>Without \<^verbatim>\<open>LOW_BYTE\<close> the machine code count is the whole of \<^verbatim>\<open>lcjump\<close>.\<close>

abbreviation mcount :: "'a gen_scheme \<Rightarrow> u64" where "mcount s \<equiv> lcjump s"

abbreviation OBJBUFSIZE :: nat where "OBJBUFSIZE \<equiv> 512"
abbreviation OBJ_MAX_ABS_LEN :: nat where "OBJ_MAX_ABS_LEN \<equiv> 64"
abbreviation OBJ_ABS :: byte where "OBJ_ABS \<equiv> 0x40"
abbreviation OBJ_OFFSET_REL :: byte where "OBJ_OFFSET_REL \<equiv> 0x80"
abbreviation OBJ_SYMBOL_REL :: byte where "OBJ_SYMBOL_REL \<equiv> 0xC0"
abbreviation OBJ_SET_SEG :: byte where "OBJ_SET_SEG \<equiv> 0x20"
abbreviation OBJ_SKIP_1 :: byte where "OBJ_SKIP_1 \<equiv> 0x11"
abbreviation OBJ_SKIP_2 :: byte where "OBJ_SKIP_2 \<equiv> 0x12"
abbreviation OBJ_S_MASK :: byte where "OBJ_S_MASK \<equiv> 0x04"
abbreviation OBJ_R_MASK :: byte where "OBJ_R_MASK \<equiv> 0x20"

definition isge2byteoffset :: "u64 \<Rightarrow> bool" where
  "isge2byteoffset offset \<longleftrightarrow> 0x100 \<le> offset"

section \<open>The buffers\<close>

definition flushobj :: "'a gen_scheme \<Rightarrow> 'a gen_scheme" where
  "flushobj s = s\<lparr>objfil := objfil s @ objbuf s, objbuf := []\<rparr>"

definition putobj1 :: "byte \<Rightarrow> 'a gen_scheme \<Rightarrow> 'a gen_scheme" where
  "putobj1 ch s =
     (let s1 = (if OBJBUFSIZE \<le> length (objbuf s) then flushobj s else s)
      in s1\<lparr>objbuf := objbuf s1 @ [ch]\<rparr>)"

definition writeobj :: "byte list \<Rightarrow> 'a gen_scheme \<Rightarrow> 'a gen_scheme" where
  "writeobj buf s = fold putobj1 buf s"

definition flushabs :: "'a gen_scheme \<Rightarrow> 'a gen_scheme" where
  "flushabs s =
     (if absbuf s \<noteq> [] then
        let s1 = putobj1 (of_nat (length (absbuf s)) OR OBJ_ABS) s
        in (fold putobj1 (absbuf s) s1)\<lparr>absbuf := []\<rparr>
      else s)"

definition putobjoffset :: "u64 \<Rightarrow> nat \<Rightarrow> 'a gen_scheme \<Rightarrow> 'a gen_scheme" where
  "putobjoffset offset sz s =
     (let buf = u2cn target (replicate 8 0) (ucast offset) sz;
          s1 = putobj1 (buf ! 0) s;
          s2 = (if 1 < sz then putobj1 (buf ! 1) s1 else s1)
      in if 2 < sz then putobj1 (buf ! 3) (putobj1 (buf ! 2) s2) else s2)"

definition putobjword :: "u32 \<Rightarrow> 'a gen_scheme \<Rightarrow> 'a gen_scheme" where
  "putobjword word s =
     (let buf = u2c2 target (replicate 4 0) word in putobj1 (buf ! 1) (putobj1 (buf ! 0) s))"

definition putobj4 :: "u32 \<Rightarrow> 'a gen_scheme \<Rightarrow> 'a gen_scheme" where
  "putobj4 offset s = writeobj (take 4 (u4c4 target (replicate 8 0) (ucast offset))) s"

definition flushrmb :: "'a gen_scheme \<Rightarrow> 'a gen_scheme" where
  "flushrmb s =
     (if rmbcount s \<noteq> 0 then
        let (s1, sz) = (if isge2byteoffset (rmbcount s) then (putobj1 OBJ_SKIP_2 s, 2)
                          else (putobj1 OBJ_SKIP_1 s, 1))
        in (putobjoffset (rmbcount s1) sz s1)\<lparr>rmbcount := 0\<rparr>
      else s)"

definition accumulate_rmb :: "u64 \<Rightarrow> 'a gen_scheme \<Rightarrow> 'a gen_scheme" where
  "accumulate_rmb offset s =
     (if objectc s then
        let s1 = flushabs s in s1\<lparr>rmbcount := rmbcount s1 + offset\<rparr>
      else s)"

definition putabs :: "byte \<Rightarrow> 'a gen_scheme \<Rightarrow> 'a gen_scheme" where
  "putabs ch s =
     (if objectc s then
        let s1 = (if rmbcount s \<noteq> 0 then flushrmb s else s);
            s2 = (if OBJ_MAX_ABS_LEN \<le> length (absbuf s1) then flushabs s1 else s1)
        in s2\<lparr>absbuf := absbuf s2 @ [ch]\<rparr>
      else s)"

definition putobj :: "byte \<Rightarrow> 'a gen_scheme \<Rightarrow> 'a gen_scheme" where
  "putobj ch s = (if objectc s then putobj1 ch (flushrmb (flushabs s)) else s)"

section \<open>Addresses and instructions\<close>

text \<open>The number of an external symbol: its place in the array, or the array's length.\<close>

fun symnum_of :: "nat option \<Rightarrow> nat list \<Rightarrow> nat" where
  "symnum_of r [] = 0"
| "symnum_of r (x # xs) = (if Some x = r then 0 else Suc (symnum_of r xs))"

definition genobjadr :: "address_s \<Rightarrow> nat \<Rightarrow> 'a gen_scheme \<Rightarrow> 'a gen_scheme" where
  "genobjadr adr sz s =
     (if \<not> has (a_data adr) RELBIT then
        let buf = u2cn target (replicate 8 0) (ucast (a_offset adr)) sz;
            s1 = putabs (buf ! 0) s;
            s2 = (if 1 < sz then putabs (buf ! 1) s1 else s1)
        in if 2 < sz then putabs (buf ! 3) (putabs (buf ! 2) s2) else s2
      else
        let s1 = (if sz \<noteq> relsize s
                  then putobj (if sz = 4 then 0x03 else of_nat sz) (s\<lparr>relsize := sz\<rparr>)
                  else s)
        in if \<not> has (a_data adr) IMPBIT then
             putobjoffset (a_offset adr) sz
               (putobj ((a_data adr AND SEGM) OR OBJ_OFFSET_REL OR pcrflag s1) s1)
           else
             let symnum = symnum_of (a_sym adr) (arrext s1);
                 long = isge2byteoffset (of_nat symnum);
                 b0 = (if long then OBJ_SYMBOL_REL OR OBJ_S_MASK else OBJ_SYMBOL_REL);
                 (b1, sz1) =
                   (if isge2byteoffset (a_offset adr) then (b0 OR 0x02, 2)
                    else if a_offset adr \<noteq> 0 then (b0 OR 0x01, 1)
                    else (b0, 0));
                 s2 = putobj (b1 OR pcrflag s1) s1;
                 s3 = (if long then putobjword (of_nat symnum) s2 else putobj1 (of_nat symnum) s2)
             in if a_offset adr \<noteq> 0 then putobjoffset (a_offset adr) sz1 s3 else s3)"

text \<open>
  The loops count down an \<^verbatim>\<open>unsigned char\<close> copy of \<^verbatim>\<open>mcount\<close>, so a count that
  is a multiple of 256 runs 256 steps.
\<close>

definition fc_count :: "u64 \<Rightarrow> nat" where
  "fc_count m = (let r = unat (ucast m :: byte) in if r = 0 then 256 else r)"

definition fd_count :: "u64 \<Rightarrow> nat" where
  "fd_count m = (let r = unat (ucast m :: byte) in if r = 0 then 128 else r div 2)"

definition gen_instr :: "'a gen_scheme \<Rightarrow> 'a gen_scheme" where
  "gen_instr s =
     (let remaining = (ucast (mcount s) :: byte) - 1;
          (s1, rem1) = (if page s \<noteq> 0 then (putabs (page s) s, remaining - 1) else (s, remaining));
          s2 = putabs (opcode s) s1
      in if rem1 \<noteq> 0 then
           let (s3, rem2) = (if postb s \<noteq> 0 then (putabs (postb s) s2, rem1 - 1) else (s2, rem1))
           in if rem2 \<noteq> 0 then genobjadr (lastexp s3) (unat rem2) s3 else s3
         else s2)"

definition genobj :: "'a gen_scheme \<Rightarrow> 'a gen_scheme" where
  "genobj s =
     (if objectc s \<and> mcount s \<noteq> 0 then
        (if popflags s \<noteq> 0 then
           let s1 = (if fcflag s then fold putabs (take (fc_count (mcount s)) (fcbuf s)) s else s)
           in if fdflag s1
              then fold (\<lambda>adr. genobjadr adr 2) (take (fd_count (mcount s1)) (fdbuf s1)) s1
              else s1
         else gen_instr s)
      else s)"

definition initobj :: "'a gen_scheme \<Rightarrow> 'a gen_scheme" where
  "initobj s = s\<lparr>absbuf := [], objbuf := []\<rparr>"

definition objtrailer :: "'a gen_scheme \<Rightarrow> 'a gen_scheme" where
  "objtrailer s = (if objectc s then flushobj (putobj 0 s) else s)"

section \<open>Frames\<close>

definition out :: "'a gen_scheme \<Rightarrow> byte list" where
  "out s = objfil s @ objbuf s"

text \<open>Two states that differ in the output buffer and file only.\<close>

definition same_but_out :: "'a gen_scheme \<Rightarrow> 'a gen_scheme \<Rightarrow> bool" where
  "same_but_out s t \<longleftrightarrow> t = s\<lparr>objbuf := objbuf t, objfil := objfil t\<rparr>"

lemma same_but_out_simps:
  assumes "same_but_out s t"
  shows "absbuf t = absbuf s" "rmbcount t = rmbcount s" "relsize t = relsize s"
    "objectc t = objectc s" "arrext t = arrext s" "pcrflag t = pcrflag s"
  by (subst assms [unfolded same_but_out_def], simp)+

lemma same_but_out_trans: "\<lbrakk>same_but_out s t; same_but_out t u\<rbrakk> \<Longrightarrow> same_but_out s u"
  unfolding same_but_out_def by (cases s; cases t; cases u) simp

lemma putobj1_out: "out (putobj1 ch s) = out s @ [ch] \<and> same_but_out s (putobj1 ch s)"
  by (simp add: out_def putobj1_def flushobj_def same_but_out_def Let_def)

lemmas putobj1_frame [simp] = same_but_out_simps [OF putobj1_out [THEN conjunct2]]

lemma fold_putobj1_out:
  "out (fold putobj1 bs s) = out s @ bs \<and> same_but_out s (fold putobj1 bs s)"
proof (induction bs arbitrary: s)
  case Nil
  show ?case by (simp add: same_but_out_def)
next
  case (Cons b bs)
  then show ?case
    using putobj1_out [of b s] same_but_out_trans by fastforce
qed

lemma writeobj_out: "out (writeobj bs s) = out s @ bs \<and> same_but_out s (writeobj bs s)"
  using fold_putobj1_out by (simp add: writeobj_def)

lemma putobjword_out:
  "out (putobjword w s) = out s @ word_bytes w \<and> same_but_out s (putobjword w s)"
proof -
  have "u2c2 target (replicate 4 0) w = word_bytes w @ [0, 0]"
    by (simp add: u2c2_def typeconv_init_def swap_def numeral_eq_Suc)
  then have p: "putobjword w s = fold putobj1 (word_bytes w) s"
    by (simp add: putobjword_def Let_def u2c2_target)
  show ?thesis
    using fold_putobj1_out [of "word_bytes w" s] by (simp add: p)
qed

lemma u2cn_num_bytes:
  "n \<in> {1, 2} \<Longrightarrow> take n (u2cn target (replicate 8 0) v n) = num_bytes v n"
  by (auto simp: u2cn_def num_bytes_def u2c2_def typeconv_init_def swap_def numeral_eq_Suc)

lemma putobjoffset_out:
  assumes "n \<in> {1, 2}"
  shows "out (putobjoffset v n s) = out s @ num_bytes (ucast v) n \<and>
    same_but_out s (putobjoffset v n s)"
proof -
  have l: "length (u2cn target (replicate 8 0) (ucast v) n) = 8"
    by (simp add: u2cn_def u2c2_def u4c4_def typeconv_init_def swap_def)
  have "putobjoffset v n s = fold putobj1 (take n (u2cn target (replicate 8 0) (ucast v) n)) s"
    using assms l by (auto simp: putobjoffset_def Let_def take_Suc_conv_app_nth numeral_2_eq_2)
  then have p: "putobjoffset v n s = fold putobj1 (num_bytes (ucast v) n) s"
    using u2cn_num_bytes [OF assms] by simp
  show ?thesis
    using fold_putobj1_out [of "num_bytes (ucast v) n" s] by (simp add: p)
qed

lemma flushabs_out:
  "out (flushabs s) = out s @ abs_cmd (absbuf s)"
  "same_but_out (s\<lparr>absbuf := []\<rparr>) (flushabs s)"
proof -
  let ?t = "fold putobj1 (absbuf s) (putobj1 (of_nat (length (absbuf s)) OR OBJ_ABS) s)"
  have t: "out ?t = out s @ (of_nat (length (absbuf s)) OR OBJ_ABS) # absbuf s" "same_but_out s ?t"
    using fold_putobj1_out [of "absbuf s" "putobj1 (of_nat (length (absbuf s)) OR OBJ_ABS) s"]
      putobj1_out [of "of_nat (length (absbuf s)) OR OBJ_ABS" s] same_but_out_trans by auto
  then show "out (flushabs s) = out s @ abs_cmd (absbuf s)"
    by (simp add: flushabs_def abs_cmd_def Let_def out_def)
  show "same_but_out (s\<lparr>absbuf := []\<rparr>) (flushabs s)"
    using t(2) by (cases s; cases ?t) (auto simp: flushabs_def Let_def same_but_out_def)
qed

lemma same_but_out_rmb:
  "same_but_out s t \<Longrightarrow> same_but_out (s\<lparr>rmbcount := 0\<rparr>) (t\<lparr>rmbcount := 0\<rparr>)"
  by (cases s; cases t) (simp add: same_but_out_def)

lemma same_but_out_no_rmb: "rmbcount s = 0 \<Longrightarrow> same_but_out (s\<lparr>rmbcount := 0\<rparr>) s"
  by (cases s) (simp add: same_but_out_def)

lemma flushrmb_out:
  "out (flushrmb s) = out s @ skip_cmd (rmbcount s)"
  "same_but_out (s\<lparr>rmbcount := 0\<rparr>) (flushrmb s)"
proof -
  define n where "n = (if isge2byteoffset (rmbcount s) then 2 else 1 :: nat)"
  let ?c = "if n = 2 then OBJ_SKIP_2 else OBJ_SKIP_1"
  let ?t = "putobjoffset (rmbcount s) n (putobj1 ?c s)"
  have n: "n \<in> {1, 2}" by (simp add: n_def)
  have t: "out ?t = out s @ ?c # num_bytes (ucast (rmbcount s)) n" "same_but_out s ?t"
    using putobj1_out [of ?c s] putobjoffset_out [OF n, of "rmbcount s" "putobj1 ?c s"]
      same_but_out_trans by auto
  have f: "flushrmb s = (if rmbcount s \<noteq> 0 then ?t\<lparr>rmbcount := 0\<rparr> else s)"
    by (simp add: flushrmb_def n_def Let_def)
  show "out (flushrmb s) = out s @ skip_cmd (rmbcount s)"
    using t(1) by (simp add: f skip_cmd_def n_def isge2byteoffset_def out_def)
  show "same_but_out (s\<lparr>rmbcount := 0\<rparr>) (flushrmb s)"
    using same_but_out_rmb [OF t(2)] same_but_out_no_rmb [of s] by (simp add: f)
qed

lemmas flushabs_frame [simp] = same_but_out_simps [OF flushabs_out(2), simplified]
lemmas flushrmb_frame [simp] = same_but_out_simps [OF flushrmb_out(2), simplified]

section \<open>Refinement of an image\<close>

text \<open>
  The state represents an image of the module: the text written after the
  header of \<open>h\<close> bytes denotes all but what the two buffers still hold, and the
  relocation size known to the assembler is the one in force there.
\<close>

definition gen_rel :: "nat \<Rightarrow> image \<Rightarrow> 'a gen_scheme \<Rightarrow> image \<Rightarrow> bool" where
  "gen_rel h im s i \<longleftrightarrow>
     objectc s \<and> h \<le> length (out s) \<and> length (absbuf s) \<le> OBJ_MAX_ABS_LEN \<and>
     (absbuf s = [] \<or> rmbcount s = 0) \<and>
     (\<exists>rs j. reaches (drop h (out s)) im rs j \<and> (relsize s \<noteq> 0 \<longrightarrow> rs = relsize s) \<and>
        i = move (ucast (rmbcount s)) (fold (\<lambda>b. place (AByte b)) (absbuf s) j))"

lemma reaches_abs_cmd:
  assumes "reaches bs im rs j" "length us \<le> 64"
  shows "reaches (bs @ abs_cmd us) im rs (fold (\<lambda>b. place (AByte b)) us j)"
proof (cases "us = []")
  case True
  then show ?thesis using assms(1) by (simp add: abs_cmd_def)
next
  case False
  then show ?thesis
    using reaches_command [OF assms(1) next_abs_cmd [OF False assms(2)]]
    by (simp add: next_size_def exec_cmd_def)
qed

lemma ucast_take_16: "(ucast (take_bit 16 (ucast (n :: u64) :: u32)) :: u16) = ucast n"
  by (rule bit_word_eqI) (auto simp: bit_simps)

lemma reaches_skip_cmd:
  assumes "reaches bs im rs j"
  shows "reaches (bs @ skip_cmd n) im rs (move (ucast n) j)"
proof (cases "n = 0")
  case True
  then show ?thesis using assms by (simp add: skip_cmd_def)
next
  case False
  then show ?thesis
    using reaches_command [OF assms next_skip_cmd [OF False]]
    by (simp add: next_size_def exec_cmd_def ucast_take_16)
qed

text \<open>What has been written once the buffers are flushed.\<close>

definition flushed :: "'a gen_scheme \<Rightarrow> byte list" where
  "flushed s = out s @ abs_cmd (absbuf s) @ skip_cmd (rmbcount s)"

lemma putobj_out:
  "objectc s \<Longrightarrow> out (putobj ch s) = flushed s @ [ch]"
  by (simp add: putobj_def putobj1_out flushrmb_out flushabs_out flushed_def)

lemma putobj_frame:
  assumes "objectc s"
  shows "objectc (putobj ch s)" "absbuf (putobj ch s) = []" "rmbcount (putobj ch s) = 0"
    "relsize (putobj ch s) = relsize s" "arrext (putobj ch s) = arrext s"
    "pcrflag (putobj ch s) = pcrflag s"
  using assms by (simp_all add: putobj_def)

text \<open>Flushing does not change what the state represents.\<close>

lemma gen_rel_flushed:
  assumes "gen_rel h im s i"
  obtains rs where "reaches (drop h (flushed s)) im rs i"
    "relsize s \<noteq> 0 \<longrightarrow> rs = relsize s" "h \<le> length (flushed s)"
proof -
  obtain rs j where j: "reaches (drop h (out s)) im rs j" "relsize s \<noteq> 0 \<longrightarrow> rs = relsize s"
    "i = move (ucast (rmbcount s)) (fold (\<lambda>b. place (AByte b)) (absbuf s) j)"
    and h: "h \<le> length (out s)" "length (absbuf s) \<le> 64"
    using assms by (auto simp: gen_rel_def)
  have "reaches (drop h (out s) @ abs_cmd (absbuf s) @ skip_cmd (rmbcount s)) im rs i"
    using reaches_skip_cmd [OF reaches_abs_cmd [OF j(1) h(2)], of "rmbcount s"] j(3) by simp
  then show ?thesis
    using that [of rs] h(1) j(2) by (simp add: flushed_def)
qed

text \<open>A whole command written behind the flushed buffers.\<close>

lemma gen_rel_command:
  assumes rel: "gen_rel h im s i" and out: "out t = flushed s @ us"
    and cmd: "\<And>rs. (relsize s \<noteq> 0 \<Longrightarrow> rs = relsize s) \<Longrightarrow>
      next_cmd rs us = Some (c, []) \<and> snd (exec_cmd c (rs, i)) = i' \<and>
      (relsize t \<noteq> 0 \<longrightarrow> next_size rs c = relsize t)"
    and t: "objectc t" "absbuf t = []" "rmbcount t = 0"
    and cend: "c \<noteq> CEnd"
  shows "gen_rel h im t i'"
proof -
  obtain rs where rs: "reaches (drop h (flushed s)) im rs i"
    "relsize s \<noteq> 0 \<longrightarrow> rs = relsize s" "h \<le> length (flushed s)"
    using gen_rel_flushed [OF rel] .
  have c: "next_cmd rs us = Some (c, [])" "snd (exec_cmd c (rs, i)) = i'"
    "relsize t \<noteq> 0 \<longrightarrow> next_size rs c = relsize t"
    using cmd [of rs] rs(2) by simp_all
  have "reaches (drop h (out t)) im (next_size rs c) i'"
    using reaches_command [OF rs(1) c(1) cend] c(2) rs(3) by (simp add: out)
  then show ?thesis
    using t rs(3) out c(3) by (auto simp: gen_rel_def)
qed

lemma gen_rel_putabs:
  assumes "gen_rel h im s i"
  shows "gen_rel h im (putabs ch s) (place (AByte ch) i)"
proof -
  obtain rs j where j: "reaches (drop h (out s)) im rs j" "relsize s \<noteq> 0 \<longrightarrow> rs = relsize s"
    "i = move (ucast (rmbcount s)) (fold (\<lambda>b. place (AByte b)) (absbuf s) j)"
    and h: "objectc s" "h \<le> length (out s)" "length (absbuf s) \<le> 64" "absbuf s = [] \<or> rmbcount s = 0"
    using assms by (auto simp: gen_rel_def)
  define s1 where "s1 = (if rmbcount s \<noteq> 0 then flushrmb s else s)"
  define s2 where "s2 = (if OBJ_MAX_ABS_LEN \<le> length (absbuf s1) then flushabs s1 else s1)"
  have p: "putabs ch s = s2\<lparr>absbuf := absbuf s2 @ [ch]\<rparr>"
    using h(1) by (simp add: putabs_def Let_def s1_def s2_def)
  define j1 where "j1 = move (ucast (rmbcount s)) j"
  have s1: "reaches (drop h (out s1)) im rs j1" "i = fold (\<lambda>b. place (AByte b)) (absbuf s1) j1"
    "objectc s1" "h \<le> length (out s1)" "length (absbuf s1) \<le> 64" "rmbcount s1 = 0"
    "relsize s1 = relsize s"
    using j(1,3) h reaches_skip_cmd [OF j(1), of "rmbcount s"]
    by (auto simp: s1_def j1_def flushrmb_out)
  define j2 where "j2 = (if OBJ_MAX_ABS_LEN \<le> length (absbuf s1) then i else j1)"
  have s2: "reaches (drop h (out s2)) im rs j2" "i = fold (\<lambda>b. place (AByte b)) (absbuf s2) j2"
    "objectc s2" "h \<le> length (out s2)" "length (absbuf s2) < 64" "rmbcount s2 = 0"
    "relsize s2 = relsize s"
    using s1 reaches_abs_cmd [OF s1(1) s1(5)]
    by (auto simp: s2_def j2_def flushabs_out)
  have "out (putabs ch s) = out s2" by (simp add: p out_def)
  then show ?thesis
    using s2 j(2) unfolding gen_rel_def p
    by (auto intro!: exI [of _ rs] exI [of _ j2])
qed

lemma gen_rel_accumulate_rmb:
  assumes "gen_rel h im s i"
  shows "gen_rel h im (accumulate_rmb n s) (move (ucast n) i)"
proof -
  obtain rs j where j: "reaches (drop h (out s)) im rs j" "relsize s \<noteq> 0 \<longrightarrow> rs = relsize s"
    "i = move (ucast (rmbcount s)) (fold (\<lambda>b. place (AByte b)) (absbuf s) j)"
    and h: "objectc s" "h \<le> length (out s)" "length (absbuf s) \<le> 64"
    using assms by (auto simp: gen_rel_def)
  have p: "accumulate_rmb n s = (flushabs s)\<lparr>rmbcount := rmbcount s + n\<rparr>"
    using h(1) by (simp add: accumulate_rmb_def Let_def)
  then have "out (accumulate_rmb n s) = out (flushabs s)" by (simp add: out_def)
  moreover have "move (ucast n) i =
      move (ucast (rmbcount s + n)) (fold (\<lambda>b. place (AByte b)) (absbuf s) j)"
    by (simp add: j(3) move_move ucast_add_16)
  ultimately show ?thesis
    using reaches_abs_cmd [OF j(1) h(3)] j(2) h unfolding gen_rel_def p
    by (auto simp: flushabs_out intro!: exI [of _ rs])
qed

section \<open>Relocated fields\<close>

lemma next_size_cmd:
  "n \<in> {1, 2} \<Longrightarrow> next_cmd rs [of_nat n] = Some (CSize n, [])"
  by (auto simp: next_cmd_def cmd_args_def special_args_def)

lemma gen_rel_resize:
  assumes "gen_rel h im s i" and "n \<in> {1, 2}"
    and t: "t = (if n \<noteq> relsize s then putobj (if n = 4 then 0x03 else of_nat n) (s\<lparr>relsize := n\<rparr>) else s)"
  shows "gen_rel h im t i \<and> relsize t = n \<and> objectc t \<and> arrext t = arrext s \<and> pcrflag t = pcrflag s"
proof (cases "n = relsize s")
  case True
  then show ?thesis using assms(1) by (simp add: t gen_rel_def)
next
  case False
  then have p: "t = putobj (of_nat n) (s\<lparr>relsize := n\<rparr>)" using assms(2) by (auto simp: t)
  have o: "objectc (s\<lparr>relsize := n\<rparr>)" using assms(1) by (simp add: gen_rel_def)
  have f: "objectc t" "absbuf t = []" "rmbcount t = 0" "relsize t = n" "arrext t = arrext s"
    "pcrflag t = pcrflag s"
    using putobj_frame [OF o, of "of_nat n"] by (simp_all add: p)
  have "out t = flushed s @ [of_nat n]"
    using putobj_out [OF o] by (simp add: p flushed_def out_def)
  moreover have "next_cmd rs [of_nat n] = Some (CSize n, []) \<and>
      snd (exec_cmd (CSize n) (rs, i)) = i \<and> (relsize t \<noteq> 0 \<longrightarrow> next_size rs (CSize n) = relsize t)" for rs
    using next_size_cmd [OF assms(2)] f(4) by (simp add: exec_cmd_def next_size_def)
  ultimately have "gen_rel h im t i"
    using gen_rel_command [OF assms(1), of t "[of_nat n]" "CSize n" i] f cmd.distinct by blast
  then show ?thesis using f by simp
qed

lemma off_byte_bits:
  assumes "r \<in> {0, OBJ_R_MASK}"
  shows "((d AND SEGM) OR OBJ_OFFSET_REL OR r) AND 0xC0 = 0x80"
    and "((d AND SEGM) OR OBJ_OFFSET_REL OR r) AND 0x3F = (d AND SEGM) OR r"
  using assms by (auto simp: byte_bits)

lemma next_off_cmd:
  assumes "r \<in> {0, OBJ_R_MASK}" "rs \<in> {1, 2}"
  shows "next_cmd rs (((d AND SEGM) OR OBJ_OFFSET_REL OR r) # num_bytes v rs) =
    Some (COff ((d AND SEGM) OR r) (take_bit (8 * rs) v), [])"
  using off_byte_bits [OF assms(1), of d] take_num_bytes [OF assms(2), of v "[]"]
  by (simp add: next_cmd_def cmd_args_def Let_def map_reader_def)

text \<open>The bytes of a symbol relocation, for the symbol number and the offset.\<close>

definition sym_cmd :: "byte \<Rightarrow> nat \<Rightarrow> u64 \<Rightarrow> byte list" where
  "sym_cmd r y v =
     (let ny = (if 0x100 \<le> y then 2 else 1);
          nv = (if 0x100 \<le> v then 2 else if v \<noteq> 0 then 1 else 0)
      in (((OBJ_SYMBOL_REL OR (if ny = 2 then OBJ_S_MASK else 0)) OR of_nat nv) OR r)
           # num_bytes (of_nat y) ny @ (if nv = 0 then [] else num_bytes (ucast v) nv))"

lemma next_sym_cmd:
  assumes "r \<in> {0, OBJ_R_MASK}" and "y < 0x10000"
  shows "next_cmd rs (sym_cmd r y v) = Some (CSym r (of_nat y) (take_bit 16 (ucast v)), [])"
proof -
  have y: "take_bit 16 (of_nat y :: u32) = of_nat y" "\<not> 0x100 \<le> y \<Longrightarrow> take_bit 8 (of_nat y :: u32) = of_nat y"
    using assms(2) by (simp_all add: take_bit_of_nat take_bit_nat_eq_self)
  have v: "\<not> 0x100 \<le> v \<Longrightarrow> take_bit 8 (ucast v :: u32) = take_bit 16 (ucast v)"
    using take_bit_small_u32 [of v] by (simp add: word_le_nat_alt)
  have t2: "take_num 2 (num_bytes w 2 @ us) = Some (take_bit 16 w, us)"
    and t1: "take_num 1 (num_bytes w 1 @ us) = Some (take_bit 8 w, us)" for w us
    using take_num_bytes [of 2 w us] take_num_bytes [of 1 w us] by simp_all
  have t0: "take_num 0 us = Some (0, us)" for us
    by (simp add: take_num_def map_reader_def take_bytes_def cnu2_def)
  show ?thesis
    using assms(1) y v t0 t1 [of "of_nat y"] t2 [of "of_nat y"]
      t1 [of "of_nat y" "[]"] t2 [of "of_nat y" "[]"] t1 [of "ucast v" "[]"] t2 [of "ucast v" "[]"]
    by (cases "0x100 \<le> y"; cases "0x100 \<le> v"; cases "v = 0")
       (auto simp: next_cmd_def sym_cmd_def cmd_args_def Let_def then_reader_def map_reader_def
         convertsize_def)
qed

text \<open>What a field of a line stands for in the image.\<close>

definition adr_image :: "nat list \<Rightarrow> byte \<Rightarrow> address_s \<Rightarrow> nat \<Rightarrow> image \<Rightarrow> image" where
  "adr_image ext pcr adr n i =
     (if \<not> has (a_data adr) RELBIT then
        fold (\<lambda>b. place (AByte b)) (num_bytes (ucast (a_offset adr)) n) i
      else if \<not> has (a_data adr) IMPBIT then
        place (AOff n ((a_data adr AND SEGM) OR pcr) (take_bit (8 * n) (ucast (a_offset adr)))) i
      else
        place (ASym n pcr (of_nat (symnum_of (a_sym adr) ext)) (take_bit 16 (ucast (a_offset adr)))) i)"

lemma putabs_frame:
  "objectc (putabs ch s) = objectc s" "arrext (putabs ch s) = arrext s"
  "pcrflag (putabs ch s) = pcrflag s"
  by (simp_all add: putabs_def Let_def)

lemma gen_rel_fold_putabs:
  "gen_rel h im s i \<Longrightarrow> gen_rel h im (fold putabs bs s) (fold (\<lambda>b. place (AByte b)) bs i)"
  by (induction bs arbitrary: s i) (simp_all add: gen_rel_putabs)

lemma genobjadr_absolute:
  assumes "n \<in> {1, 2}" "\<not> has (a_data adr) RELBIT"
  shows "genobjadr adr n s = fold putabs (num_bytes (ucast (a_offset adr)) n) s"
proof -
  have l: "length (u2cn target (replicate 8 0) (ucast (a_offset adr)) n) = 8"
    by (simp add: u2cn_def u2c2_def u4c4_def typeconv_init_def swap_def)
  have "genobjadr adr n s = fold putabs (take n (u2cn target (replicate 8 0) (ucast (a_offset adr)) n)) s"
    using assms l by (auto simp: genobjadr_def Let_def take_Suc_conv_app_nth numeral_2_eq_2)
  then show ?thesis using u2cn_num_bytes [OF assms(1)] by simp
qed

lemma symnum_le: "symnum_of r xs \<le> length xs"
  by (induction xs) auto

lemma genobjadr_symbol:
  assumes "has (a_data adr) RELBIT" "has (a_data adr) IMPBIT"
    and t: "t = (if n \<noteq> relsize s
       then putobj (if n = 4 then 0x03 else of_nat n) (s\<lparr>relsize := n\<rparr>) else s)"
    and o: "objectc t" and ext: "symnum_of (a_sym adr) (arrext t) < 0x10000"
  shows "out (genobjadr adr n s) =
      flushed t @ sym_cmd (pcrflag t) (symnum_of (a_sym adr) (arrext t)) (a_offset adr)"
    and "\<exists>c. same_but_out (putobj c t) (genobjadr adr n s)"
proof -
  let ?y = "symnum_of (a_sym adr) (arrext t)" and ?v = "a_offset adr"
  let ?ny = "if 0x100 \<le> ?y then 2 else 1 :: nat"
  let ?nv = "if 0x100 \<le> ?v then 2 else if ?v \<noteq> 0 then 1 else 0 :: nat"
  let ?c = "((OBJ_SYMBOL_REL OR (if ?ny = 2 then OBJ_S_MASK else 0)) OR of_nat ?nv) OR pcrflag t"
  define u where "u = (if 0x100 \<le> ?y then putobjword (of_nat ?y) (putobj ?c t) else putobj1 (of_nat ?y) (putobj ?c t))"
  have y: "isge2byteoffset (of_nat ?y) \<longleftrightarrow> 0x100 \<le> ?y"
    using ext by (simp add: isge2byteoffset_def word_le_nat_alt unat_of_nat)
  have b: "(ucast (of_nat ?y :: u32) :: byte) = of_nat ?y"
    by (simp add: word_unat_eq_iff unsigned_ucast_eq take_bit_eq_mod unat_of_nat mod_mod_cancel)
  have u: "out u = flushed t @ ?c # num_bytes (of_nat ?y) ?ny" "same_but_out (putobj ?c t) u"
    by (simp_all add: u_def num_bytes_def putobjword_out putobj1_out putobj_out [OF o] b)
  have g: "genobjadr adr n s = (if ?v \<noteq> 0 then putobjoffset ?v ?nv u else u)"
    using assms(1,2) y by (simp add: genobjadr_def t [symmetric] Let_def u_def isge2byteoffset_def [of ?v])
  show "out (genobjadr adr n s) = flushed t @ sym_cmd (pcrflag t) ?y ?v"
    using u(1) putobjoffset_out [of ?nv ?v u] by (auto simp: g sym_cmd_def Let_def)
  have "same_but_out (putobj ?c t) (genobjadr adr n s)"
    using u(2) putobjoffset_out [of ?nv ?v u] same_but_out_trans by (auto simp: g)
  then show "\<exists>c. same_but_out (putobj c t) (genobjadr adr n s)" by blast
qed

lemma gen_rel_genobjadr:
  assumes rel: "gen_rel h im s i" and n: "n \<in> {1, 2}" and pcr: "pcrflag s \<in> {0, OBJ_R_MASK}"
    and ext: "length (arrext s) < 0x10000"
  shows "gen_rel h im (genobjadr adr n s) (adr_image (arrext s) (pcrflag s) adr n i)"
proof (cases "has (a_data adr) RELBIT")
  case False
  then show ?thesis
    using gen_rel_fold_putabs [OF rel] genobjadr_absolute [OF n False, of s] by (simp add: adr_image_def)
next
  case True
  define t where "t = (if n \<noteq> relsize s
     then putobj (if n = 4 then 0x03 else of_nat n) (s\<lparr>relsize := n\<rparr>) else s)"
  have t: "gen_rel h im t i" "relsize t = n" "objectc t" "arrext t = arrext s" "pcrflag t = pcrflag s"
    using gen_rel_resize [OF rel n t_def] by simp_all
  show ?thesis
  proof (cases "has (a_data adr) IMPBIT")
    case False
    let ?b = "(a_data adr AND SEGM) OR OBJ_OFFSET_REL OR pcrflag s"
    let ?u = "putobjoffset (a_offset adr) n (putobj ?b t)"
    have g: "genobjadr adr n s = ?u"
      using True False t by (simp add: genobjadr_def t_def Let_def)
    have "out ?u = flushed t @ ?b # num_bytes (ucast (a_offset adr)) n"
      "same_but_out (putobj ?b t) ?u"
      by (simp_all add: putobjoffset_out [OF n] putobj_out [OF t(3)])
    moreover from this(2) have "objectc ?u" "absbuf ?u = []" "rmbcount ?u = 0" "relsize ?u = n"
      using putobj_frame [OF t(3), of ?b] t(2) by (simp_all add: same_but_out_simps)
    ultimately show ?thesis
      using gen_rel_command [OF t(1), of ?u "?b # num_bytes (ucast (a_offset adr)) n"]
        next_off_cmd [OF pcr n, of "a_data adr" "ucast (a_offset adr)"] t(2) n True False
      by (auto simp: g adr_image_def exec_cmd_def next_size_def)
  next
    case imp: True
    let ?y = "symnum_of (a_sym adr) (arrext t)"
    have y: "?y < 0x10000" using symnum_le [of "a_sym adr" "arrext t"] ext t(4) by simp
    obtain c where "same_but_out (putobj c t) (genobjadr adr n s)"
      using genobjadr_symbol(2) [OF True imp t_def t(3) y] by blast
    then have "objectc (genobjadr adr n s)" "absbuf (genobjadr adr n s) = []"
      "rmbcount (genobjadr adr n s) = 0" "relsize (genobjadr adr n s) = n"
      using putobj_frame [OF t(3), of c] t(2) by (simp_all add: same_but_out_simps)
    note f = this
    have "gen_rel h im (genobjadr adr n s)
        (place (ASym n (pcrflag t) (of_nat ?y) (take_bit 16 (ucast (a_offset adr)))) i)"
    proof (rule gen_rel_command [OF t(1) genobjadr_symbol(1) [OF True imp t_def t(3) y] _ f(1,2,3)])
      show "CSym (pcrflag t) (of_nat ?y) (take_bit 16 (ucast (a_offset adr))) \<noteq> CEnd" by simp
      fix rs
      assume "relsize t \<noteq> 0 \<Longrightarrow> rs = relsize t"
      then have "rs = n" using t(2) n by auto
      then show "next_cmd rs (sym_cmd (pcrflag t) ?y (a_offset adr)) =
            Some (CSym (pcrflag t) (of_nat ?y) (take_bit 16 (ucast (a_offset adr))), []) \<and>
          snd (exec_cmd (CSym (pcrflag t) (of_nat ?y) (take_bit 16 (ucast (a_offset adr)))) (rs, i)) =
            place (ASym n (pcrflag t) (of_nat ?y) (take_bit 16 (ucast (a_offset adr)))) i \<and>
          (relsize (genobjadr adr n s) \<noteq> 0 \<longrightarrow>
            next_size rs (CSym (pcrflag t) (of_nat ?y) (take_bit 16 (ucast (a_offset adr)))) =
              relsize (genobjadr adr n s))"
        using next_sym_cmd [of "pcrflag t" ?y] pcr y t(5) f(4) by (simp add: exec_cmd_def next_size_def)
    qed
    then show ?thesis
      using t(4,5) True imp by (simp add: adr_image_def)
  qed
qed

section \<open>Whole texts\<close>

lemma gen_rel_setseg:
  assumes "gen_rel h im s i" and "g < 16"
  shows "gen_rel h im (putobj (g OR OBJ_SET_SEG) s) (i\<lparr>im_seg := g\<rparr>)"
proof -
  have o: "objectc s" using assms(1) by (simp add: gen_rel_def)
  have "unat g \<in> set [0..<16]"
    using assms(2) by (simp add: word_less_nat_alt)
  then have "g \<in> of_nat ` set [0..<16]"
    by (intro image_eqI [of _ _ "unat g"]) simp_all
  then have "next_cmd rs [g OR OBJ_SET_SEG] = Some (CSeg g, [])" for rs
    by (auto simp: next_cmd_def cmd_args_def special_args_def upt_rec)
  then show ?thesis
    using gen_rel_command [OF assms(1) putobj_out [OF o], of "g OR OBJ_SET_SEG" "CSeg g"]
      putobj_frame [OF o, of "g OR OBJ_SET_SEG"]
    by (simp add: exec_cmd_def next_size_def)
qed

text \<open>What the pseudo-ops and the instructions ask of the object writer.\<close>

datatype req = RByte byte | RSpace u64 | RAddr address_s nat byte | RSeg byte

fun do_req :: "req \<Rightarrow> 'a gen_scheme \<Rightarrow> 'a gen_scheme" where
  "do_req (RByte b) s = putabs b s"
| "do_req (RSpace n) s = accumulate_rmb n s"
| "do_req (RAddr adr n pcr) s = genobjadr adr n (s\<lparr>pcrflag := pcr\<rparr>)"
| "do_req (RSeg g) s = putobj (g OR OBJ_SET_SEG) s"

fun req_image :: "nat list \<Rightarrow> req \<Rightarrow> image \<Rightarrow> image" where
  "req_image ext (RByte b) i = place (AByte b) i"
| "req_image ext (RSpace n) i = move (ucast n) i"
| "req_image ext (RAddr adr n pcr) i = adr_image ext pcr adr n i"
| "req_image ext (RSeg g) i = i\<lparr>im_seg := g\<rparr>"

fun req_ok :: "req \<Rightarrow> bool" where
  "req_ok (RAddr adr n pcr) \<longleftrightarrow> n \<in> {1, 2} \<and> pcr \<in> {0, OBJ_R_MASK}"
| "req_ok (RSeg g) \<longleftrightarrow> g < 16"
| "req_ok _ \<longleftrightarrow> True"

lemma arrext_genobjadr: "arrext (genobjadr adr n s) = arrext s"
proof -
  have p: "arrext (putobj c s) = arrext s" "arrext (putabs c s) = arrext s" for c and s :: "'b gen_scheme"
    by (simp_all add: putobj_def putabs_def Let_def)
  have o: "arrext (putobjoffset v k s) = arrext s" "arrext (putobjword w s) = arrext s"
    for v k w and s :: "'b gen_scheme"
    by (simp_all add: putobjoffset_def putobjword_def Let_def)
  show ?thesis
    by (simp add: genobjadr_def Let_def p o split: prod.split)
qed

lemma do_req_arrext: "arrext (do_req r s) = arrext s"
  by (cases r) (simp_all add: putabs_frame accumulate_rmb_def putobj_def Let_def arrext_genobjadr)

lemma do_req_rel:
  assumes "gen_rel h im s i" "req_ok r" "length (arrext s) < 0x10000"
  shows "gen_rel h im (do_req r s) (req_image (arrext s) r i)"
proof (cases r)
  case (RAddr adr n pcr)
  have "gen_rel h im (s\<lparr>pcrflag := pcr\<rparr>) i"
    using assms(1) by (simp add: gen_rel_def out_def)
  then show ?thesis
    using gen_rel_genobjadr [of h im "s\<lparr>pcrflag := pcr\<rparr>" i n adr] assms(2,3) RAddr by simp
qed (use assms in \<open>simp_all add: gen_rel_putabs gen_rel_accumulate_rmb gen_rel_setseg\<close>)

lemma do_reqs_rel:
  assumes "gen_rel h im s i" "list_all req_ok rs" "length (arrext s) < 0x10000"
  shows "gen_rel h im (fold do_req rs s) (fold (req_image (arrext s)) rs i)"
  using assms
proof (induction rs arbitrary: s i)
  case (Cons r rs)
  have "gen_rel h im (do_req r s) (req_image (arrext s) r i)"
    using do_req_rel [OF Cons.prems(1) _ Cons.prems(3)] Cons.prems(2) by simp
  then show ?case
    using Cons.IH [of "do_req r s"] Cons.prems by (simp add: do_req_arrext)
qed simp

lemma objtrailer_text:
  assumes "gen_rel h im s i"
  obtains cs rs where "decode 2 (drop h (objfil (objtrailer s))) = Some (cs @ [CEnd], rs)"
    and "CEnd \<notin> set cs" and "snd (fold exec_cmd cs (2, im)) = i"
proof -
  obtain rs where rs: "reaches (drop h (flushed s)) im rs i" "h \<le> length (flushed s)"
    using gen_rel_flushed [OF assms] by blast
  have o: "objectc s" using assms by (simp add: gen_rel_def)
  then have "objfil (objtrailer s) = flushed s @ [0]"
    using putobj_out [OF o, of 0] by (simp add: objtrailer_def flushobj_def out_def)
  then have "drop h (objfil (objtrailer s)) = drop h (flushed s) @ [0]" using rs(2) by simp
  then show ?thesis using reaches_end [OF rs(1)] that by auto
qed

lemma objtrailer_denotes:
  assumes "gen_rel h im s i"
  shows "denotes (drop h (objfil (objtrailer s))) im = Some i"
proof -
  obtain cs rs where "decode 2 (drop h (objfil (objtrailer s))) = Some (cs @ [CEnd], rs)"
      "snd (fold exec_cmd cs (2, im)) = i"
    using assms by (rule objtrailer_text)
  then show ?thesis
    by (simp add: denotes_def) (simp add: exec_cmd_def case_prod_beta)
qed

text \<open>
  C11: the object writer is faithful.  Whatever sequence of bytes, space
  requests, one- or two-byte fields and segment changes is asked of it, with
  any interleaving and any filling of its two buffers, the text it leaves in
  the object file, read by the format's rules from behind the header, denotes
  exactly these requests in order: absolute bytes at consecutive addresses of
  their segment, space as address arithmetic modulo \<^term>\<open>2 ^ 16\<close>, and
  relocatable fields with the right size, segment or symbol, offset and PC flag.
\<close>

theorem object_text_faithful:
  assumes "gen_rel h im s i" and "list_all req_ok rs" and "length (arrext s) < 0x10000"
  shows "denotes (drop h (objfil (objtrailer (fold do_req rs s)))) im =
    Some (fold (req_image (arrext s)) rs i)"
  using objtrailer_denotes [OF do_reqs_rel [OF assms]] .

abbreviation image0 :: image where
  "image0 \<equiv> \<lparr>im_seg = 0, im_pos = (\<lambda>_. 0), im_data = []\<rparr>"

abbreviation gen_start :: gen where
  "gen_start \<equiv> \<lparr>syms = [], spt = (\<lambda>_. []), ifflag = True, inidata = 0x90,
     srcbuf = [], linebuf = 0, lineptr = 0, symname = 0, sym = EOLSYM,
     number = 0, numbase = 10, gsymptr = None,
     errbuf = replicate 6 ([], 0), errcount = 0, erroverflow = False, toterr = 0,
     totwarn = 0, as_warn = True,
     lastexp = \<lparr>a_offset = 0, a_data = 0, a_sym = None\<rparr>, lc = 0, lcdata = RELBIT,
     pass = 1, last_pass = 1,
     objectc = True, objectg = True, absbuf = [], objbuf = [], objfil = [], rmbcount = 0,
     relsize = 0, arrext = [], pcrflag = 0, lcjump = 0, popflags = 0, fcflag = False,
     fdflag = False, fcbuf = [], fdbuf = [], page = 0, opcode = 0, postb = 0,
     lctab = replicate 16 \<lparr>lc_data = RELBIT, lc_lc = 0\<rparr>, textseg = -1,
     globals_only_in_obj = False\<rparr>"

lemma gen_rel_start: "gen_rel 0 im gen_start im"
  using reaches_Nil [of im] by (auto simp: gen_rel_def out_def)

theorem object_text_faithful_witness:
  "denotes (objfil (objtrailer (fold do_req
      [RByte 0xCE, RAddr \<lparr>a_offset = 0x1234, a_data = RELBIT OR 3, a_sym = None\<rparr> 2 0, RSpace 5, RByte 0x39]
      gen_start))) image0 =
   Some (fold (req_image [])
      [RByte 0xCE, RAddr \<lparr>a_offset = 0x1234, a_data = RELBIT OR 3, a_sym = None\<rparr> 2 0, RSpace 5, RByte 0x39]
      image0)"
  using object_text_faithful [OF gen_rel_start, of
      "[RByte 0xCE, RAddr \<lparr>a_offset = 0x1234, a_data = RELBIT OR 3, a_sym = None\<rparr> 2 0, RSpace 5, RByte 0x39]"]
  by simp

section \<open>A line as requests\<close>

definition line_reqs :: "'a gen_scheme \<Rightarrow> req list" where
  "line_reqs s =
     (if mcount s = 0 then []
      else if popflags s \<noteq> 0 then
        (if fcflag s then map RByte (take (fc_count (mcount s)) (fcbuf s)) else []) @
        (if fdflag s then map (\<lambda>adr. RAddr adr 2 (pcrflag s)) (take (fd_count (mcount s)) (fdbuf s))
         else [])
      else
        let remaining = (ucast (mcount s) :: byte) - 1;
            rem1 = (if page s \<noteq> 0 then remaining - 1 else remaining);
            rem2 = (if postb s \<noteq> 0 then rem1 - 1 else rem1)
        in (if page s \<noteq> 0 then [RByte (page s)] else []) @ [RByte (opcode s)] @
           (if rem1 = 0 then []
            else (if postb s \<noteq> 0 then [RByte (postb s)] else []) @
                 (if rem2 = 0 then [] else [RAddr (lastexp s) (unat rem2) (pcrflag s)])))"

text \<open>Fields of the line that writing object code does not touch.\<close>

definition same_line :: "'a gen_scheme \<Rightarrow> 'a gen_scheme \<Rightarrow> bool" where
  "same_line s t \<longleftrightarrow>
     pcrflag t = pcrflag s \<and> fdflag t = fdflag s \<and> fdbuf t = fdbuf s \<and> lcjump t = lcjump s \<and>
     lastexp t = lastexp s \<and> opcode t = opcode s \<and> postb t = postb s"

lemma same_line_refl [simp]: "same_line s s"
  by (simp add: same_line_def)

lemma same_line_trans: "\<lbrakk>same_line s t; same_line t u\<rbrakk> \<Longrightarrow> same_line s u"
  by (simp add: same_line_def)

lemma same_but_out_line:
  assumes "same_but_out s t"
  shows "same_line s t"
  unfolding same_line_def by (intro conjI; subst assms [unfolded same_but_out_def], simp)

lemma same_line_upd [simp]:
  "same_line s (t\<lparr>absbuf := x\<rparr>) = same_line s t"
  "same_line s (t\<lparr>rmbcount := n\<rparr>) = same_line s t"
  "same_line s (t\<lparr>relsize := k\<rparr>) = same_line s t"
  "same_line (s\<lparr>absbuf := x\<rparr>) t = same_line s t"
  "same_line (s\<lparr>rmbcount := n\<rparr>) t = same_line s t"
  "same_line (s\<lparr>relsize := k\<rparr>) t = same_line s t"
  by (simp_all add: same_line_def)

lemma line_flush: "same_line s (flushabs s)" "same_line s (flushrmb s)" "same_line s (putobj1 c s)"
  using same_but_out_line [OF flushabs_out(2)] same_but_out_line [OF flushrmb_out(2)]
    same_but_out_line [OF putobj1_out [THEN conjunct2]] by simp_all

lemma line_putabs: "same_line s (putabs ch s)"
proof -
  define s1 where "s1 = (if rmbcount s \<noteq> 0 then flushrmb s else s)"
  define s2 where "s2 = (if OBJ_MAX_ABS_LEN \<le> length (absbuf s1) then flushabs s1 else s1)"
  have "same_line s s1" "same_line s1 s2"
    by (simp_all add: s1_def s2_def line_flush)
  then have "same_line s s2" by (rule same_line_trans)
  then show ?thesis by (simp add: putabs_def Let_def flip: s1_def s2_def)
qed

lemma line_fold_putabs: "same_line s (fold putabs bs s)"
  by (induction bs arbitrary: s) (auto intro: same_line_trans line_putabs)

lemma set_same_pcrflag: "pcrflag s = p \<Longrightarrow> s\<lparr>pcrflag := p\<rparr> = s"
  by (cases s) simp

lemma pcrflag_genobjadr: "pcrflag (genobjadr adr n s) = pcrflag s"
proof -
  have p: "pcrflag (putobj c s) = pcrflag s" "pcrflag (putabs c s) = pcrflag s" for c and s :: "'b gen_scheme"
    by (simp_all add: putobj_def putabs_def Let_def)
  have o: "pcrflag (putobjoffset v k s) = pcrflag s" "pcrflag (putobjword w s) = pcrflag s"
    for v k w and s :: "'b gen_scheme"
    by (simp_all add: putobjoffset_def putobjword_def Let_def)
  show ?thesis
    by (simp add: genobjadr_def Let_def p o split: prod.split)
qed

lemma fold_genobjadr_reqs:
  "pcrflag s = p \<Longrightarrow>
   fold (\<lambda>adr. genobjadr adr n) xs s = fold do_req (map (\<lambda>adr. RAddr adr n p) xs) s"
  by (induction xs arbitrary: s) (simp_all add: set_same_pcrflag pcrflag_genobjadr)

text \<open>The code generated for a line is the line's requests, one after the other.\<close>

lemma genobj_reqs:
  assumes "objectc s"
  shows "genobj s = fold do_req (line_reqs s) s"
proof -
  have b: "fold do_req (map RByte bs) t = fold putabs bs t" for bs and t :: "'a gen_scheme"
    by (induction bs arbitrary: t) simp_all
  have l: "same_line s (fold putabs bs s)" for bs by (rule line_fold_putabs)
  have i: "gen_instr s = fold do_req (line_reqs s) s" if "popflags s = 0" "mcount s \<noteq> 0"
    using that l [of "[page s, opcode s, postb s]"] l [of "[page s, opcode s]"] l [of "[opcode s, postb s]"]
      l [of "[opcode s]"]
    by (auto simp: gen_instr_def line_reqs_def Let_def same_line_def set_same_pcrflag)
  show ?thesis
  proof (cases "popflags s = 0 \<or> mcount s = 0")
    case True
    then show ?thesis using i assms by (auto simp: genobj_def line_reqs_def)
  next
    case False
    let ?t = "if fcflag s then fold putabs (take (fc_count (mcount s)) (fcbuf s)) s else s"
    have "same_line s ?t" using l by simp
    then show ?thesis
      using False assms fold_genobjadr_reqs [of ?t "pcrflag s" 2]
      by (auto simp: genobj_def line_reqs_def Let_def same_line_def b)
  qed
qed

end
