(* ===== verification/Genbin.thy ===== *)
theory Genbin
  imports Genobj
begin

text \<open>
  Binary file generation of the assembler, \<^verbatim>\<open>as/genbin.c\<close>.  In the first pass
  only the limits of the addresses used are recorded; in the last one every
  byte is written at the file position that its address has above the lowest
  address.  The file is a map from positions to bytes; \<^verbatim>\<open>lseek\<close> fails for a
  negative position, a failing write is not modelled.
\<close>

section \<open>Model\<close>

record bin = gen +
  binaryg :: bool
  binaryc :: bool
  binfil :: bool
  binmbuf :: u64
  binmbuf_set :: bool
  binfbuf :: u64
  binmax :: u64
  binmin :: u64
  binpos :: int
  bindata :: "int \<rightharpoonup> byte"

definition putbin :: "byte \<Rightarrow> 'a bin_scheme \<Rightarrow> 'a bin_scheme" where
  "putbin ch s =
     (if \<not> binfil s then s
      else if \<not> binaryc s then
        let s1 = (if binmbuf s < binmin s then s\<lparr>binmin := binmbuf s\<rparr> else s);
            s2 = s1\<lparr>binmbuf := binmbuf s1 + 1\<rparr>
        in if binmax s2 < binmbuf s2 then s2\<lparr>binmax := binmbuf s2\<rparr> else s2
      else
        let target_pos = binpos s + sint (binmbuf s - binfbuf s);
            s1 = (if binfbuf s \<noteq> binmbuf s then
                    (if target_pos < 0 then error BWRAP s else s\<lparr>binpos := target_pos\<rparr>)
                  else s)
        in s1\<lparr>bindata := (bindata s1)(binpos s1 \<mapsto> ch), binpos := binpos s1 + 1,
              binfbuf := binmbuf s + 1, binmbuf := binmbuf s + 1\<rparr>)"

definition putbinoffset :: "u64 \<Rightarrow> nat \<Rightarrow> 'a bin_scheme \<Rightarrow> 'a bin_scheme" where
  "putbinoffset offset sz s =
     (let buf = u2cn target (replicate 8 0) (ucast offset) sz;
          s1 = putbin (buf ! 0) s;
          s2 = (if 1 < sz then putbin (buf ! 1) s1 else s1)
      in if 2 < sz then putbin (buf ! 3) (putbin (buf ! 2) s2) else s2)"

definition genbin :: "'a bin_scheme \<Rightarrow> 'a bin_scheme" where
  "genbin s =
     (if binaryg s \<and> mcount s \<noteq> 0 then
        (if popflags s \<noteq> 0 then
           let s1 = (if fcflag s then fold putbin (take (fc_count (mcount s)) (fcbuf s)) s else s)
           in if fdflag s1
              then fold (\<lambda>adr. putbinoffset (a_offset adr) 2) (take (fd_count (mcount s1)) (fdbuf s1)) s1
              else s1
         else
           let remaining = (ucast (mcount s) :: byte) - 1;
               (s1, rem1) = (if page s \<noteq> 0 then (putbin (page s) s, remaining - 1) else (s, remaining));
               s2 = putbin (opcode s) s1
           in if rem1 \<noteq> 0 then
                let (s3, rem2) = (if postb s \<noteq> 0 then (putbin (postb s) s2, rem1 - 1) else (s2, rem1))
                in if rem2 \<noteq> 0 then putbinoffset (a_offset (lastexp s3)) (unat rem2) s3 else s3
              else s2)
      else s)"

definition initbin :: "'a bin_scheme \<Rightarrow> 'a bin_scheme" where
  "initbin s = s\<lparr>binmin := - 1\<rparr>"

text \<open>The address from which the file starts; the lines for the symbol file are not modelled.\<close>

definition binheader :: "'a bin_scheme \<Rightarrow> 'a bin_scheme" where
  "binheader s = (if binmbuf_set s \<and> binmin s \<le> binmax s then s\<lparr>binfbuf := binmin s\<rparr> else s)"

section \<open>The image\<close>

text \<open>The file position belongs to the address \<^verbatim>\<open>binfbuf\<close>, counted from \<open>m\<close>.\<close>

definition bin_at :: "u64 \<Rightarrow> 'a bin_scheme \<Rightarrow> bool" where
  "bin_at m s \<longleftrightarrow> binfil s \<and> binaryc s \<and> binpos s = uint (binfbuf s) - uint m"

text \<open>Addresses of the target are 16 bits, so far below the sign bit of a file offset.\<close>

lemma sint_diff_small:
  fixes a b :: u64
  assumes "uint a < 2 ^ 62" "uint b < 2 ^ 62"
  shows "sint (a - b) = uint a - uint b"
proof -
  have "sint (a - b) = signed_take_bit 63 (uint (a - b))"
    by (simp add: sint_uint)
  also have "uint (a - b) = (uint a - uint b) mod 2 ^ 64"
    by (simp add: uint_word_ariths)
  also have "signed_take_bit 63 ((uint a - uint b) mod 2 ^ 64) = signed_take_bit 63 (uint a - uint b)"
    by (simp add: signed_take_bit_eq_iff_take_bit_eq take_bit_eq_mod)
  also have "\<dots> = uint a - uint b"
  proof (rule signed_take_bit_int_eq_self)
    have range: "- (2 ^ 63) \<le> x - y \<and> x - y < 2 ^ 63"
      if "0 \<le> x" "0 \<le> y" "x < 2 ^ 62" "y < 2 ^ 62" for x y :: int
      using that by simp
    from range [OF uint_ge_0 uint_ge_0 assms]
    show "- (2 ^ 63) \<le> uint a - uint b" "uint a - uint b < 2 ^ 63" by simp_all
  qed
  finally show ?thesis .
qed

lemma putbin_at:
  assumes "bin_at m s" and "uint m \<le> uint (binmbuf s)" and "uint (binmbuf s) < 2 ^ 61"
    and "uint (binfbuf s) < 2 ^ 62"
  shows "bin_at m (putbin ch s)" "binmbuf (putbin ch s) = binmbuf s + 1"
    "binfbuf (putbin ch s) = binmbuf s + 1"
    "bindata (putbin ch s) = (bindata s)(uint (binmbuf s) - uint m \<mapsto> ch)"
    "errcount (putbin ch s) = errcount s"
proof -
  have d: "sint (binmbuf s - binfbuf s) = uint (binmbuf s) - uint (binfbuf s)"
    using assms by (intro sint_diff_small) simp_all
  have pos: "binpos s + sint (binmbuf s - binfbuf s) = uint (binmbuf s) - uint m"
    using assms(1) d by (simp add: bin_at_def)
  have "uint (binmbuf s) + 1 < 2 ^ 64" using assms(3) by simp
  then have up: "uint (binmbuf s + 1) = uint (binmbuf s) + 1"
    using uint_add_lem [of "binmbuf s" 1] by simp
  have "putbin ch s = s\<lparr>binpos := uint (binmbuf s) - uint m + 1,
      bindata := (bindata s)(uint (binmbuf s) - uint m \<mapsto> ch),
      binfbuf := binmbuf s + 1, binmbuf := binmbuf s + 1\<rparr>"
    using assms(1,2) pos by (cases s) (auto simp: putbin_def bin_at_def Let_def)
  then show "bin_at m (putbin ch s)" "binmbuf (putbin ch s) = binmbuf s + 1"
    "binfbuf (putbin ch s) = binmbuf s + 1"
    "bindata (putbin ch s) = (bindata s)(uint (binmbuf s) - uint m \<mapsto> ch)"
    "errcount (putbin ch s) = errcount s"
    using assms(1) up by (simp_all add: bin_at_def)
qed

text \<open>
  C12: in the last pass, bytes generated at an address of the program land in
  the binary file at the position of that address above the lowest one, in
  order, whatever was written before and wherever the file was positioned; no
  wrap-around error is reported, bytes elsewhere stay, and the location moves
  by the number of bytes.
\<close>

theorem putbin_image:
  assumes "bin_at m s" and "uint m \<le> uint (binmbuf s)"
    and "uint (binmbuf s) + int (length bs) < 2 ^ 61" and "uint (binfbuf s) < 2 ^ 62"
  shows "bin_at m (fold putbin bs s) \<and>
    binmbuf (fold putbin bs s) = binmbuf s + of_nat (length bs) \<and>
    errcount (fold putbin bs s) = errcount s \<and>
    bindata (fold putbin bs s) =
      (\<lambda>p. let k = p - (uint (binmbuf s) - uint m)
           in if 0 \<le> k \<and> k < int (length bs) then Some (bs ! nat k) else bindata s p)"
  using assms
proof (induction bs arbitrary: s)
  case Nil
  then show ?case by (simp add: fun_eq_iff) linarith
next
  case (Cons b bs)
  let ?t = "putbin b s"
  have lt: "uint (binmbuf s) < 2 ^ 61" using Cons.prems(3) by simp
  note t = putbin_at [OF Cons.prems(1,2) lt Cons.prems(4), of b]
  have up: "uint (binmbuf ?t) = uint (binmbuf s) + 1"
    using lt uint_add_lem [of "binmbuf s" 1] by (simp add: t(2))
  have IH: "bin_at m (fold putbin bs ?t) \<and>
    binmbuf (fold putbin bs ?t) = binmbuf ?t + of_nat (length bs) \<and>
    errcount (fold putbin bs ?t) = errcount ?t \<and>
    bindata (fold putbin bs ?t) =
      (\<lambda>p. let k = p - (uint (binmbuf ?t) - uint m)
           in if 0 \<le> k \<and> k < int (length bs) then Some (bs ! nat k) else bindata ?t p)"
    using Cons.prems up lt t(1,2,3) by (intro Cons.IH) simp_all
  have "(let k = p - (uint (binmbuf ?t) - uint m)
         in if 0 \<le> k \<and> k < int (length bs) then Some (bs ! nat k) else bindata ?t p) =
        (let k = p - (uint (binmbuf s) - uint m)
         in if 0 \<le> k \<and> k < int (length (b # bs)) then Some ((b # bs) ! nat k) else bindata s p)" for p
  proof (cases "p = uint (binmbuf s) - uint m")
    case True
    then show ?thesis by (simp add: up t(4))
  next
    case False
    have "nat (p - (uint (binmbuf s) - uint m)) = Suc (nat (p - (uint (binmbuf s) + 1 - uint m)))"
      if "0 \<le> p - (uint (binmbuf s) + 1 - uint m)"
      using that by simp
    with False show ?thesis by (auto simp: up t(4) Let_def)
  qed
  then show ?case using IH t by (simp add: add.assoc)
qed

definition bin_start :: bin where
  "bin_start = gen.extend gen_start
     \<lparr>binaryg = True, binaryc = True, binfil = True, binmbuf = 0xC003, binmbuf_set = True,
      binfbuf = 0xC000, binmax = 0xC010, binmin = 0xC000, binpos = 0, bindata = Map.empty\<rparr>"

theorem putbin_image_witness:
  "bindata (fold putbin [0x86, 0x12] bin_start) 3 = Some 0x86 \<and>
   bindata (fold putbin [0x86, 0x12] bin_start) 4 = Some 0x12 \<and>
   bindata (fold putbin [0x86, 0x12] bin_start) 5 = None"
proof -
  have s: "bin_at 0xC000 bin_start" "binmbuf bin_start = 0xC003" "binfbuf bin_start = 0xC000"
    "\<And>p. bindata bin_start p = None"
    by (simp_all add: bin_start_def bin_at_def gen.extend_def)
  have "bindata (fold putbin [0x86, 0x12] bin_start) p =
      (if 3 \<le> p \<and> p < 5 then Some ([0x86, 0x12] ! nat (p - 3)) else bindata bin_start p)" for p
    using putbin_image [OF s(1), of "[0x86, 0x12]"] by (simp add: s(2-3))
  then show ?thesis by (simp add: s(4))
qed

end
