(* ===== verification/Mops.thy ===== *)
theory Mops
  imports Genbin Keywords
begin

text \<open>
  The machine instructions, \<^verbatim>\<open>as/mops.c\<close>: operand parsing, choice of the
  addressing mode and of the opcode byte, and the displacement of branches.
  The record adds the globals of the translator (\<^verbatim>\<open>as/globvar.h\<close> and the
  static variables of \<^verbatim>\<open>as/pops.c\<close> and \<^verbatim>\<open>as/assemble.c\<close>) to the state.
\<close>

section \<open>State of the translator\<close>

record flags_s =
  fl_global :: bool
  fl_current :: bool
  fl_semaphore :: "32 word"

record block_s =
  bl_data :: byte
  bl_dp :: byte
  bl_lc :: u64

record if_s =
  if_ifflag :: bool
  if_elseflag :: bool

text \<open>
  The two stacks grow downwards in the source; here their heads are the tops.
  The switch \<^verbatim>\<open>as_warn\<close> is split: its current value belongs to the error
  reports, its two other members are here.
\<close>

record trans = bin +
  label :: "nat option"
  oldlabel :: u64
  dirty_pass :: bool
  pedata :: byte
  progent :: u64
  dirpag :: byte
  mapnum :: byte
  lcptr :: nat
  blockstak :: "block_s list"
  blocklevel :: byte
  ifstak :: "if_s list"
  iflevel :: byte
  elseflag :: bool
  lcommflag :: bool
  listing :: flags_s
  maclist :: flags_s
  warn_global :: bool
  warn_semaphore :: "32 word"
  list_force :: bool
  mnsize :: byte
  immcount :: byte

abbreviation pass2 :: "'a expr_scheme \<Rightarrow> bool" where "pass2 s \<equiv> pass s = last_pass s"

abbreviation INDIRECTBIT :: byte where "INDIRECTBIT \<equiv> 0x10"
abbreviation INDEXBIT :: byte where "INDEXBIT \<equiv> 0x80"
abbreviation MAXINDREG :: byte where "MAXINDREG \<equiv> XREG"
abbreviation JMP_OPCODE :: byte where "JMP_OPCODE \<equiv> 0x7E"
abbreviation JSR_OPCODE :: byte where "JSR_OPCODE \<equiv> 0xBD"

definition is8bitadr :: "u64 \<Rightarrow> bool" where
  "is8bitadr offset \<longleftrightarrow> offset < 0x100"

definition is8bitsignedoffset :: "u64 \<Rightarrow> bool" where
  "is8bitsignedoffset offset \<longleftrightarrow> offset + 0x80 < 0x100"

section \<open>Bounds of data\<close>

definition datatoobig :: "'a errs_scheme \<Rightarrow> 'a errs_scheme" where
  "datatoobig s = error DBOUNDS s"

definition checkdatabounds :: "'a expr_scheme \<Rightarrow> 'a expr_scheme" where
  "checkdatabounds s =
     (if \<not> has (ldata s) UNDBIT \<and> 0x180 \<le> loff s + 0x80 then datatoobig s else s)"

section \<open>Registers and indexing\<close>

definition rrindex :: "byte list" where
  "rrindex = [0x00]"

definition regchk :: "'a expr_scheme \<Rightarrow> stop + byte \<times> 'a expr_scheme" where
  "regchk s =
     (if sym s = IDENT then
        case gsymptr s of
          None \<Rightarrow> Inl NullPointer
        | Some symptr \<Rightarrow>
            let y = syms s ! symptr in
            if has (sy_type y) MNREGBIT then
              Inr (if has (sy_data y) REGBIT then sy_reg y else NOREG, s)
            else if last_pass s = 1 \<and> \<not> has (sy_type y) (LABIT OR MACBIT OR VARBIT) then
              Inr (NOREG, upd_sym symptr (\<lambda>y. y\<lparr>sy_data := sy_data y OR FORBIT\<rparr>) s)
            else Inr (NOREG, s)
      else Inr (NOREG, s))"

definition fixupind :: "'a gen_scheme \<Rightarrow> 'a gen_scheme" where
  "fixupind s =
     (if opcode s AND 0x30 = 0 then
        (if opcode s < 0x80 then s\<lparr>opcode := opcode s OR 0x60\<rparr>
         else s\<lparr>opcode := opcode s OR 0x20\<rparr>)
      else s)"

definition inderror :: "errmsg \<Rightarrow> 'a gen_scheme \<Rightarrow> 'a gen_scheme" where
  "inderror err_str s =
     (let s1 = error err_str s;
          s2 = (if has (postb s1) INDIRECTBIT then s1\<lparr>sym := RBRACKET\<rparr> else s1)
      in fixupind s2)"

definition indreg :: "byte \<Rightarrow> 'a gen_scheme \<Rightarrow> stop + byte \<times> 'a gen_scheme" where
  "indreg maxindex s =
     bindE (regchk s) (\<lambda>(reg, s1).
       if reg = NOREG then Inr (reg, inderror IREGEXP s1)
       else if maxindex < reg then Inr (NOREG, inderror ILLREG s1)
       else Inr (reg, getsym (s1\<lparr>postb := postb s1 OR rrindex ! unat reg\<rparr>)))"

definition getindexnopost :: "'a gen_scheme \<Rightarrow> stop + 'a gen_scheme" where
  "getindexnopost s =
     bindE (indreg MAXINDREG (getsym s)) (\<lambda>(reg, s1).
       Inr (if reg \<noteq> NOREG then fixupind s1 else s1))"

section \<open>Memory operands\<close>

text \<open>
  The tail of \<^verbatim>\<open>doaltind\<close> for an operand without index: direct or extended.
\<close>

definition direct_or_extended :: "bool \<Rightarrow> bool \<Rightarrow> 'a trans_scheme \<Rightarrow> 'a trans_scheme" where
  "direct_or_extended byteflag wordflag s =
     (let mem = opcode s < 0x80;
          s1 = (if mem \<and> byteflag then error ILLMOD s else s);
          byteflag1 = (if mem then False else byteflag);
          wordflag1 = (if mem then True else wordflag)
      in if byteflag1 \<or>
            (\<not> wordflag1 \<and> \<not> has (ldata s1) (FORBIT OR RELBIT) \<and>
             drop_bit 8 (loff s1) = ucast (dirpag s1))
         then (if 0x80 \<le> opcode s1 then s1\<lparr>opcode := opcode s1 OR 0x10\<rparr> else s1)
         else
           let s2 = (if opcode s1 < 0x80 then s1\<lparr>opcode := opcode s1 OR 0x70\<rparr>
                     else s1\<lparr>opcode := opcode s1 OR 0x30\<rparr>);
               s3 = s2\<lparr>lcjump := mcount s2 + 1\<rparr>
           in if pass2 s3 \<and> (opcode s3 = JSR_OPCODE \<or> opcode s3 = JMP_OPCODE) \<and>
                 \<not> has (ldata s3) (IMPBIT OR UNDBIT) \<and>
                 \<not> has (ldata s3 XOR lcdata s3) (RELBIT OR SEGM) \<and>
                 is8bitsignedoffset (loff s3 - (lc s3 + 2))
              then warning SHORTB s3 else s3)"

text \<open>The operand from the optional size prefix on.\<close>

definition altind_expr :: "'a trans_scheme \<Rightarrow> stop + 'a trans_scheme" where
  "altind_expr s =
     (let byteflag = (sym s = LESSTHAN);
          wordflag = (sym s = GREATERTHAN);
          s1 = (if byteflag \<or> wordflag then getsym s else s)
      in bindE (expres s1) (\<lambda>s2.
           if sym s2 = COMMA then
             bindE (indreg MAXINDREG (getsym s2)) (\<lambda>(reg, s3).
               if reg = NOREG then Inr s3
               else
                 let s4 = (if wordflag \<or> \<not> is8bitadr (loff s3) then inderror ILLMOD s3 else s3)
                 in Inr (fixupind s4))
           else if has (postb s2) INDIRECTBIT then
             Inr (fixupind (s2\<lparr>postb := 0x9F, lcjump := mcount s2 + 2\<rparr>))
           else if has (postb s2) INDEXBIT then Inr (inderror ILLMOD s2)
           else Inr (direct_or_extended byteflag wordflag s2)))"

text \<open>The test for \<^verbatim>\<open>--R\<close> that every operand that is not done yet passes.\<close>

definition altind_rest :: "'a trans_scheme \<Rightarrow> stop + 'a trans_scheme" where
  "altind_rest s =
     (if sym s = PREDECOP then getindexnopost (error ILLMOD s) else altind_expr s)"

definition doaltind :: "'a trans_scheme \<Rightarrow> stop + 'a trans_scheme" where
  "doaltind s0 =
     (let s = s0\<lparr>lcjump := mcount s0 + 2\<rparr>
      in if sym s = SUBOP then
           bindE (regchk (getsym s)) (\<lambda>(reg, s1).
             let s2 = s1\<lparr>lineptr := lineptr s, symname := symname s\<rparr>
             in if reg \<noteq> NOREG then getindexnopost (error ILLMOD s2)
                else altind_rest (s2\<lparr>sym := SUBOP\<rparr>))
         else if sym s = COMMA then
           bindE (indreg MAXINDREG (getsym (set_off 0 s))) (\<lambda>(reg, s1).
             if reg \<noteq> NOREG then Inr (fixupind s1) else altind_rest s1)
         else altind_rest s)"

section \<open>The routines of the table\<close>

definition malter :: "'a trans_scheme \<Rightarrow> stop + 'a trans_scheme" where
  "malter s = doaltind (s\<lparr>postb := 0\<rparr>)"

definition mimmed :: "'a gen_scheme \<Rightarrow> stop + 'a gen_scheme" where
  "mimmed s0 =
     (let s = s0\<lparr>lcjump := mcount s0 + 2\<rparr>
      in if sym s \<noteq> IMMEDIATE then Inr (error ILLMOD s)
         else
           let nybble = opcode s AND 0xF;
               s1 = (if 0x80 \<le> opcode s \<and> (nybble = 0x3 \<or> nybble = 0xC \<or> 0xE \<le> nybble)
                     then s\<lparr>lcjump := mcount s + 1\<rparr> else s)
           in bindE (symexpres s1) (\<lambda>s2.
                Inr (if pass2 s2 \<and> mcount s2 \<le> 2 then checkdatabounds (chkabs s2) else s2)))"

definition mall :: "'a trans_scheme \<Rightarrow> stop + 'a trans_scheme" where
  "mall s = (if sym s = IMMEDIATE then mimmed s else malter s)"

definition getcomma :: "'a errs_scheme \<Rightarrow> 'a errs_scheme" where
  "getcomma s = (if sym s \<noteq> COMMA then error COMEXP s else getsym s)"

definition minher :: "'a gen_scheme \<Rightarrow> 'a gen_scheme" where
  "minher s = s\<lparr>lcjump := mcount s + 1\<rparr>"

definition reldata :: "'a gen_scheme \<Rightarrow> 'a gen_scheme" where
  "reldata s =
     (if has (ldata s XOR lcdata s) (IMPBIT OR RELBIT OR SEGM) then
        (if has (ldata s XOR lcdata s) RELBIT then showrelbad s
         else set_data ((lcdata s AND NOT SEGM) OR ldata s OR RELBIT) (s\<lparr>pcrflag := OBJ_R_MASK\<rparr>))
      else set_data ((ldata s OR lcdata s) AND NOT (RELBIT OR SEGM)) s)"

definition mshort2 :: "'a gen_scheme \<Rightarrow> 'a gen_scheme" where
  "mshort2 s0 =
     (let s = s0\<lparr>lcjump := mcount s0 + 2\<rparr>
      in if pass2 s then
           let s1 = reldata s
           in if has (ldata s1) RELBIT then showrelbad s1
              else if \<not> has (ldata s1) UNDBIT then
                let s2 = set_off (loff s1 - lc s1 - mcount s1) s1
                in if \<not> is8bitsignedoffset (loff s2) then error ABOUNDS s2 else s2
              else s1
         else s)"

definition mshort :: "'a gen_scheme \<Rightarrow> stop + 'a gen_scheme" where
  "mshort s = bindE (nonimpexpres s) (\<lambda>s1. Inr (mshort2 s1))"

section \<open>Frames\<close>

text \<open>The layers of the state above the expression handler, field by field.\<close>

lemma gen_of_more:
  fixes s t :: "'a gen_scheme"
  assumes "expr.more t = expr.more s"
  shows "objectc t = objectc s" "absbuf t = absbuf s" "objbuf t = objbuf s" "objfil t = objfil s"
    "rmbcount t = rmbcount s" "relsize t = relsize s" "arrext t = arrext s" "pcrflag t = pcrflag s"
    "lcjump t = lcjump s" "popflags t = popflags s" "fcflag t = fcflag s" "fdflag t = fdflag s"
    "fcbuf t = fcbuf s" "fdbuf t = fdbuf s" "page t = page s" "opcode t = opcode s" "postb t = postb s"
    "lctab t = lctab s" "gen.more t = gen.more s"
  using assms by (cases s; cases t; simp)+

lemma bin_of_more:
  fixes s t :: "'a bin_scheme"
  assumes "gen.more t = gen.more s"
  shows "binaryg t = binaryg s" "binmbuf t = binmbuf s" "binmbuf_set t = binmbuf_set s"
    "bin.more t = bin.more s"
  using assms by (cases s; cases t; simp)+

lemma trans_of_more:
  fixes s t :: "'a trans_scheme"
  assumes "bin.more t = bin.more s"
  shows "label t = label s" "oldlabel t = oldlabel s" "dirpag t = dirpag s" "lcptr t = lcptr s"
    "blockstak t = blockstak s" "blocklevel t = blocklevel s" "ifstak t = ifstak s"
    "iflevel t = iflevel s" "elseflag t = elseflag s" "trans.more t = trans.more s"
  using assms by (cases s; cases t; simp)+

lemmas getsym_gen [simp] = gen_of_more [OF getsym_expr(6)]
lemmas getsym_bin [simp] = bin_of_more [OF getsym_gen(19)]
lemmas getsym_trans [simp] = trans_of_more [OF getsym_bin(4)]
lemmas error_gen [simp] = gen_of_more [OF error_expr(6)]
lemmas error_bin [simp] = bin_of_more [OF error_gen(19)]
lemmas error_trans [simp] = trans_of_more [OF error_bin(4)]
lemmas warning_expr [simp] = expr_of_more [OF warning_frame(5)]
lemmas warning_gen [simp] = gen_of_more [OF warning_expr(6)]
lemmas warning_bin [simp] = bin_of_more [OF warning_gen(19)]
lemmas warning_trans [simp] = trans_of_more [OF warning_bin(4)]

lemma expres_more:
  fixes s :: "'a expr_scheme"
  shows "expres s = Inr t \<Longrightarrow> expr.more t = expr.more s"
  using run_step(1) by (auto simp: expr_step_def)

lemmas expres_gen = gen_of_more [OF expres_more]
lemmas expres_bin = bin_of_more [OF expres_gen(19)]
lemmas expres_trans = trans_of_more [OF expres_bin(4)]

lemma regchk_more:
  fixes s :: "'a expr_scheme"
  shows "regchk s = Inr (r, t) \<Longrightarrow> expr.more t = expr.more s"
  by (auto simp: regchk_def Let_def upd_sym_def split: if_splits option.splits)

lemmas regchk_gen = gen_of_more [OF regchk_more]
lemmas regchk_bin = bin_of_more [OF regchk_gen(19)]
lemmas regchk_trans = trans_of_more [OF regchk_bin(4)]

section \<open>Addressing modes\<close>

datatype amode = Immediate | Direct | Indexed | Extended

text \<open>
  The opcode map of the processor: the instructions on memory have the rows 6
  (indexed) and 7 (extended); those with an accumulator or an index register
  have four rows from 8 or from C on, one per mode.
\<close>

definition mode_opcode :: "byte \<Rightarrow> amode \<Rightarrow> byte" where
  "mode_opcode b m =
     (if b < 0x80 then (b AND 0x0F) + (if m = Extended then 0x70 else 0x60)
      else (b AND 0xCF) + (case m of Immediate \<Rightarrow> 0 | Direct \<Rightarrow> 0x10 | Indexed \<Rightarrow> 0x20 | Extended \<Rightarrow> 0x30))"

definition mode_length :: "amode \<Rightarrow> u64" where
  "mode_length m = (if m = Extended then 3 else 2)"

definition mode_legal :: "byte \<Rightarrow> amode \<Rightarrow> bool" where
  "mode_legal b m \<longleftrightarrow> m \<in> {Indexed, Extended} \<or> (m = Direct \<and> 0x80 \<le> b)"

text \<open>The opcodes in the keyword table for instructions with a memory operand.\<close>

definition base_ok :: "byte \<Rightarrow> bool" where
  "base_ok b \<longleftrightarrow> (if b < 0x80 then b AND 0xF0 \<in> {0, 0x60} else b AND 0x30 = 0)"

lemma ops_base_ok: "list_all (\<lambda>(name, routine, b). routine \<in> {ALL_MODES, ALTER} \<longrightarrow> base_ok b) ops_table"
  by code_simp

lemma byte_lt_80: "(b :: byte) < 0x80 \<longleftrightarrow> \<not> bit b 7"
proof -
  have "unat b < 256" using unsigned_less [of b, where ?'a = nat] by simp
  then have "unat b div 128 = 0 \<or> unat b div 128 = 1" by auto
  moreover have "bit b 7 \<longleftrightarrow> odd (unat b div 128)"
    using bit_unsigned_iff [of b 7, where ?'a = nat] by (simp add: bit_iff_odd)
  ultimately show ?thesis
    by (auto simp: word_less_nat_alt)
qed

text \<open>Setting the mode bits is the addition of the row.\<close>

lemma mode_opcode_or:
  assumes "base_ok b"
  shows "b < 0x80 \<Longrightarrow> mode_opcode b Indexed = (if b AND 0x30 = 0 then b OR 0x60 else b)"
    and "b < 0x80 \<Longrightarrow> mode_opcode b Extended = b OR 0x70"
    and "\<not> b < 0x80 \<Longrightarrow> mode_opcode b Direct = b OR 0x10"
    and "\<not> b < 0x80 \<Longrightarrow> mode_opcode b Indexed = b OR 0x20"
    and "\<not> b < 0x80 \<Longrightarrow> mode_opcode b Extended = b OR 0x30"
proof -
  have a: "x + y = x OR y" if "x AND y = 0" for x y :: byte
  proof (rule disjunctive_add)
    have "\<not> bit (x AND y) n" for n using that by simp
    then show "\<not> bit x n \<or> \<not> bit y n" for n by (simp add: bit_and_iff)
  qed
  have d: "(b AND 0x0F) AND c = 0" if "c \<in> {0x60, 0x70}" for c
    using that by (auto simp: byte_bits)
  have e: "(b AND 0xCF) AND c = 0" if "c \<in> {0x10, 0x20, 0x30}" for c
    using that by (auto simp: byte_bits)
  show "b < 0x80 \<Longrightarrow> mode_opcode b Indexed = (if b AND 0x30 = 0 then b OR 0x60 else b)"
    "b < 0x80 \<Longrightarrow> mode_opcode b Extended = b OR 0x70"
    "\<not> b < 0x80 \<Longrightarrow> mode_opcode b Direct = b OR 0x10"
    "\<not> b < 0x80 \<Longrightarrow> mode_opcode b Indexed = b OR 0x20"
    "\<not> b < 0x80 \<Longrightarrow> mode_opcode b Extended = b OR 0x30"
    using assms d e by (auto simp: mode_opcode_def base_ok_def a byte_lt_80 byte_bits split: if_splits)
qed

section \<open>What the operand parser leaves behind\<close>

text \<open>An instruction in mode \<open>m\<close>, ready for the code generator.\<close>

definition encodes :: "byte \<Rightarrow> amode \<Rightarrow> 'a gen_scheme \<Rightarrow> 'a gen_scheme \<Rightarrow> bool" where
  "encodes b m s t \<longleftrightarrow>
     opcode t = mode_opcode b m \<and> mcount t = mode_length m \<and> postb t = 0 \<and>
     popflags t = popflags s \<and> page t = page s"

definition operand_start :: "byte \<Rightarrow> 'a gen_scheme \<Rightarrow> 'a gen_scheme \<Rightarrow> bool" where
  "operand_start b s t \<longleftrightarrow>
     opcode t = b \<and> mcount t = 2 \<and> postb t = 0 \<and> popflags t = popflags s \<and> page t = page s"

lemma fixupind_frame [simp]:
  "mcount (fixupind s) = mcount s" "postb (fixupind s) = postb s" "popflags (fixupind s) = popflags s"
  "page (fixupind s) = page s" "sym (fixupind s) = sym s" "lastexp (fixupind s) = lastexp s"
  by (simp_all add: fixupind_def)

lemma fixupind_indexed:
  assumes "base_ok b" and "opcode s = b \<or> opcode s = mode_opcode b Indexed"
  shows "opcode (fixupind s) = mode_opcode b Indexed"
proof -
  have "mode_opcode b Indexed AND 0x30 \<noteq> 0"
    using assms(1) mode_opcode_or [of b]
    by (cases "b < 0x80"; simp add: base_ok_def byte_bits byte_lt_80 split: if_splits)
  then show ?thesis
    using assms mode_opcode_or [OF assms(1)]
    by (auto simp: fixupind_def base_ok_def split: if_splits)
qed

lemma encodes_fixupind:
  "\<lbrakk>base_ok b; operand_start b s t\<rbrakk> \<Longrightarrow> encodes b Indexed s (fixupind t)"
  using fixupind_indexed [of b t] by (simp add: encodes_def operand_start_def mode_length_def)

lemma encodes_refixupind:
  "\<lbrakk>base_ok b; encodes b Indexed s t\<rbrakk> \<Longrightarrow> encodes b Indexed s (fixupind t)"
  using fixupind_indexed [of b t] by (simp add: encodes_def)

lemma encodes_inderror:
  "\<lbrakk>base_ok b; operand_start b s t\<rbrakk> \<Longrightarrow> encodes b Indexed s (inderror m t)"
  using fixupind_indexed [of b "error m t"]
  by (simp add: inderror_def encodes_def operand_start_def mode_length_def)

lemma operand_start_getsym [simp]: "operand_start b s (getsym t) = operand_start b s t"
  by (simp add: operand_start_def)

lemma operand_start_error [simp]: "operand_start b s (error m t) = operand_start b s t"
  by (simp add: operand_start_def)

lemma indreg_cases:
  assumes "base_ok b" and "operand_start b s t" and "indreg MAXINDREG t = Inr (reg, u)"
  shows "reg = NOREG \<and> encodes b Indexed s u \<or> reg = XREG \<and> operand_start b s u"
proof -
  obtain r t1 where r: "regchk t = Inr (r, t1)" using assms(3) by (auto simp: indreg_def bindE_Inr_iff)
  have t1: "operand_start b s t1" using assms(2) regchk_gen [OF r] by (simp add: operand_start_def)
  have z: "\<not> XREG < r \<Longrightarrow> r = XREG" by (simp add: word_gt_0)
  have "rrindex ! unat XREG = 0" by (simp add: rrindex_def)
  then show ?thesis
    using assms(1,3) t1 z encodes_inderror [of b s t1]
    by (auto simp: indreg_def r operand_start_def split: if_splits)
qed

lemma getindexnopost_encodes:
  assumes "base_ok b" and "operand_start b s t" and "getindexnopost t = Inr u"
  shows "encodes b Indexed s u"
proof -
  obtain reg v where v: "indreg MAXINDREG (getsym t) = Inr (reg, v)"
      and u: "u = (if reg \<noteq> NOREG then fixupind v else v)"
    using assms(3) by (auto simp: getindexnopost_def bindE_Inr_iff)
  show ?thesis
    using indreg_cases [OF assms(1) _ v, of s] assms(1,2) u encodes_fixupind by auto
qed

text \<open>
  The outcome of an operand: a mode the instruction has; a direct mode that was
  not forced addresses the direct page absolutely.
\<close>

definition operand_done :: "byte \<Rightarrow> bool \<Rightarrow> 'a trans_scheme \<Rightarrow> 'a trans_scheme \<Rightarrow> bool" where
  "operand_done b forced s t \<longleftrightarrow>
     (\<exists>m. mode_legal b m \<and> encodes b m s t \<and>
          (m = Direct \<longrightarrow> forced \<or>
             \<not> has (ldata t) (FORBIT OR RELBIT) \<and> drop_bit 8 (loff t) = ucast (dirpag s)))"

lemma operand_done_indexed: "encodes b Indexed s t \<Longrightarrow> operand_done b f s t"
  by (auto simp: operand_done_def mode_legal_def)

lemma direct_or_extended_done:
  assumes b: "base_ok b" and st: "operand_start b s t" and dp: "dirpag t = dirpag s"
  shows "operand_done b byteflag s (direct_or_extended byteflag wordflag t)"
proof -
  have op: "opcode t = b" using st by (simp add: operand_start_def)
  show ?thesis
  proof (cases "b < 0x80")
    case True
    have "encodes b Extended s (direct_or_extended byteflag wordflag t)"
      using True st mode_opcode_or(2) [OF b True]
      by (simp add: direct_or_extended_def Let_def encodes_def operand_start_def mode_length_def)
    then show ?thesis by (auto simp: operand_done_def mode_legal_def)
  next
    case False
    show ?thesis
    proof (cases "byteflag \<or> \<not> wordflag \<and> \<not> has (ldata t) (FORBIT OR RELBIT) \<and>
          drop_bit 8 (loff t) = ucast (dirpag t)")
      case True
      have "direct_or_extended byteflag wordflag t = t\<lparr>opcode := b OR 0x10\<rparr>"
        using True False op by (auto simp: direct_or_extended_def Let_def)
      then have "encodes b Direct s (direct_or_extended byteflag wordflag t)"
        using st mode_opcode_or(3) [OF b False]
        by (simp add: encodes_def operand_start_def mode_length_def)
      with True False dp op show ?thesis
        by (auto simp: operand_done_def mode_legal_def direct_or_extended_def Let_def)
    next
      case ext: False
      have "encodes b Extended s (direct_or_extended byteflag wordflag t)"
        using False False [unfolded not_less] ext st mode_opcode_or(5) [OF b False]
        by (simp add: direct_or_extended_def Let_def encodes_def operand_start_def mode_length_def)
      then show ?thesis by (auto simp: operand_done_def mode_legal_def)
    qed
  qed
qed

lemma operand_start_expres:
  "\<lbrakk>expres t = Inr u; operand_start b s t\<rbrakk> \<Longrightarrow> operand_start b s u"
  using expres_gen [of t u] by (simp add: operand_start_def)

lemma altind_expr_done:
  assumes b: "base_ok b" and st: "operand_start b s t" and dp: "dirpag t = dirpag s"
    and run: "altind_expr t = Inr u"
  shows "operand_done b (sym t = LESSTHAN) s u"
proof -
  define t1 where "t1 = (if sym t = LESSTHAN \<or> sym t = GREATERTHAN then getsym t else t)"
  obtain t2 where e: "expres t1 = Inr t2" using run by (auto simp: altind_expr_def Let_def bindE_Inr_iff t1_def)
  have t2: "operand_start b s t2" "dirpag t2 = dirpag s"
    using operand_start_expres [OF e, of b s] st dp expres_trans(3) [OF e] by (simp_all add: t1_def)
  then have p: "postb t2 = 0" by (simp add: operand_start_def)
  show ?thesis
  proof (cases "sym t2 = COMMA")
    case False
    then have "u = direct_or_extended (sym t = LESSTHAN) (sym t = GREATERTHAN) t2"
      using run e p by (simp add: altind_expr_def Let_def flip: t1_def)
    then show ?thesis using direct_or_extended_done [OF b t2] by simp
  next
    case True
    then obtain reg t3 where i: "indreg MAXINDREG (getsym t2) = Inr (reg, t3)"
      using run e by (auto simp: altind_expr_def Let_def bindE_Inr_iff simp flip: t1_def)
    have u: "u = (if reg = NOREG then t3 else fixupind
        (if sym t = GREATERTHAN \<or> \<not> is8bitadr (loff t3) then inderror ILLMOD t3 else t3))"
      using run e True i by (auto simp: altind_expr_def Let_def simp flip: t1_def split: if_splits)
    have "encodes b Indexed s u"
      using indreg_cases [OF b _ i, of s] t2(1) b u
      by (auto intro: encodes_inderror encodes_refixupind encodes_fixupind)
    then show ?thesis by (rule operand_done_indexed)
  qed
qed

lemma altind_rest_done:
  assumes "base_ok b" and "operand_start b s t" and "dirpag t = dirpag s"
    and "altind_rest t = Inr u"
  shows "operand_done b (sym t = LESSTHAN) s u"
  using assms altind_expr_done [of b s t u] getindexnopost_encodes [of b s "error ILLMOD t" u]
  by (auto simp: altind_rest_def operand_done_indexed split: if_splits)

lemma malter_done:
  assumes b: "base_ok b" and s: "opcode s = b" "mcount s = 0" and run: "malter s = Inr t"
    and comma: "sym s = COMMA \<Longrightarrow> \<exists>u. regchk (getsym (set_off 0 (s\<lparr>postb := 0, lcjump := 2\<rparr>))) = Inr (XREG, u)"
  shows "operand_done b (sym s = LESSTHAN) s t"
proof -
  define r where "r = s\<lparr>postb := 0, lcjump := 2\<rparr>"
  have r: "operand_start b s r" "dirpag r = dirpag s" "sym r = sym s"
    using s by (simp_all add: operand_start_def r_def)
  have run': "(if sym r = SUBOP then
        bindE (regchk (getsym r)) (\<lambda>(reg, s1).
          let s2 = s1\<lparr>lineptr := lineptr r, symname := symname r\<rparr>
          in if reg \<noteq> NOREG then getindexnopost (error ILLMOD s2) else altind_rest (s2\<lparr>sym := SUBOP\<rparr>))
      else if sym r = COMMA then
        bindE (indreg MAXINDREG (getsym (set_off 0 r))) (\<lambda>(reg, s1).
          if reg \<noteq> NOREG then Inr (fixupind s1) else altind_rest s1)
      else altind_rest r) = Inr t"
    using run s by (auto simp: malter_def doaltind_def Let_def r_def)
  consider "sym r = SUBOP" | "sym r = COMMA" | "sym r \<noteq> SUBOP" "sym r \<noteq> COMMA" by blast
  then show ?thesis
  proof cases
    case 1
    then obtain reg s1 where g: "regchk (getsym r) = Inr (reg, s1)"
      using run' by (auto simp: bindE_Inr_iff)
    define s2 where "s2 = s1\<lparr>lineptr := lineptr r, symname := symname r\<rparr>"
    have s2: "operand_start b s s2" "operand_start b s (s2\<lparr>sym := SUBOP\<rparr>)" "dirpag (s2\<lparr>sym := SUBOP\<rparr>) = dirpag s"
      using r regchk_gen [OF g] regchk_trans(3) [OF g] by (simp_all add: operand_start_def s2_def)
    show ?thesis
      using run' 1 r(3) g getindexnopost_encodes [OF b, of s "error ILLMOD s2" t]
        altind_rest_done [OF b s2(2,3), of t] s2(1)
      by (auto simp: Let_def operand_done_indexed simp flip: s2_def split: if_splits)
  next
    case 2
    have st: "operand_start b s (getsym (set_off 0 r))"
      using r(1) by (simp add: operand_start_def set_off_def)
    obtain reg s1 where i: "indreg MAXINDREG (getsym (set_off 0 r)) = Inr (reg, s1)"
      using run' 2 by (auto simp: bindE_Inr_iff)
    have "reg = XREG"
      using comma 2 r(3) i by (auto simp: indreg_def r_def)
    moreover from this have "operand_start b s s1" using indreg_cases [OF b st i] by simp
    ultimately show ?thesis
      using run' 2 i by (auto intro: operand_done_indexed encodes_fixupind [OF b])
  next
    case 3
    then show ?thesis using run' altind_rest_done [OF b r(1,2)] r(3) by simp
  qed
qed


section \<open>Branches\<close>

lemma is8bitsignedoffset_sint: "is8bitsignedoffset x \<longleftrightarrow> -128 \<le> sint x \<and> sint x \<le> 127"
proof
  assume "is8bitsignedoffset x"
  then have v: "uint (x + 0x80) < 256" by (simp add: is8bitsignedoffset_def word_less_def)
  have "x = word_of_int (uint (x + 0x80) - 128)"
    by (metis add_diff_cancel_right' of_int_diff of_int_numeral word_of_int_uint)
  moreover have "sint (word_of_int k :: u64) = signed_take_bit 63 k" for k
    by (simp add: sint_uint uint_word_of_int_eq signed_take_bit_eq_iff_take_bit_eq)
  ultimately have "sint x = signed_take_bit 63 (uint (x + 0x80) - 128)" by metis
  with v uint_ge_0 [of "x + 0x80"] show "-128 \<le> sint x \<and> sint x \<le> 127"
    by (simp add: signed_take_bit_int_eq_self)
next
  assume "-128 \<le> sint x \<and> sint x \<le> 127"
  moreover have "x + 0x80 = word_of_int (sint x + 128)" by simp
  then have "uint (x + 0x80) = (sint x + 128) mod 2 ^ 64"
    by (simp only: uint_word_of_int_eq take_bit_eq_mod) simp
  ultimately show "is8bitsignedoffset x"
    by (simp add: is8bitsignedoffset_def word_less_def)
qed

lemma scast_low_byte: "is8bitsignedoffset x \<Longrightarrow> scast (ucast x :: byte) = x"
proof -
  assume "is8bitsignedoffset x"
  then have r: "-128 \<le> sint x \<and> sint x \<le> 127" by (simp add: is8bitsignedoffset_sint)
  have "sint (ucast x :: byte) = signed_take_bit 7 (uint x)"
    by (simp add: sint_uint unsigned_ucast_eq signed_take_bit_eq_iff_take_bit_eq)
  also have "\<dots> = signed_take_bit 7 (sint x)"
    by (simp add: sint_uint signed_take_bit_eq_iff_take_bit_eq)
  also have "\<dots> = sint x" using r by (simp add: signed_take_bit_int_eq_self)
  finally have "(word_of_int (sint (ucast x :: byte)) :: u64) = word_of_int (sint x)" by simp
  then show ?thesis by (simp only: of_int_sint) simp
qed

text \<open>
  C14: a branch to a defined place in its own section either reaches it or is
  reported.  If the distance from the end of the two-byte instruction fits in a
  signed byte, no error is added and the one-byte operand, sign-extended by the
  processor and added to the address of the next instruction, is the target;
  otherwise exactly one more error is counted.
\<close>

theorem mshort_reaches:
  assumes "nonimpexpres s = Inr u" and "pass2 u" and "mcount s = 0"
    and "\<not> has (ldata u XOR lcdata u) (IMPBIT OR RELBIT OR SEGM)"
    and "\<not> has (ldata u OR lcdata u) UNDBIT"
    and "errcount u < MAXERR"
  shows "\<exists>t. mshort s = Inr t \<and> mcount t = 2 \<and> opcode t = opcode s \<and>
    \<not> has (ldata t) RELBIT \<and>
    (if -128 \<le> sint (loff u - (lc s + 2)) \<and> sint (loff u - (lc s + 2)) \<le> 127
     then errcount t = errcount u \<and> lc s + 2 + scast (ucast (loff t) :: byte) = loff u
     else toterr t = toterr u + 1)"
proof -
  obtain v where v: "expres s = Inr v" "u = (if has (ldata v) IMPBIT then experror NONIMPREQ v else v)"
    using assms(1) by (auto simp: nonimpexpres_def bindE_Inr_iff)
  have "expr_step s v" using run_step(1) [OF v(1)] .
  then have u: "lc u = lc s" "expr.more u = expr.more s"
    using v(2) by (auto simp: expr_step_def experror_def expundefined_def set_data_def)
  note ug = gen_of_more [OF u(2)]
  define d where "d = (ldata u OR lcdata u) AND NOT (RELBIT OR SEGM)"
  define t0 where "t0 = set_off (loff u - lc u - 2) (set_data d (u\<lparr>lcjump := 2\<rparr>))"
  have d: "\<not> has d RELBIT" "\<not> has d UNDBIT"
    using assms(5) by (auto simp: d_def byte_bits)
  have t: "mshort s = Inr (if is8bitsignedoffset (loff t0) then t0 else error ABOUNDS t0)"
    using assms(1,2,3,4) d ug(9)
    by (simp add: mshort_def mshort2_def Let_def reldata_def t0_def set_off_def set_data_def d_def)
  have t0: "loff t0 = loff u - (lc s + 2)" "mcount t0 = 2" "opcode t0 = opcode s"
    "ldata t0 = d" "errcount t0 = errcount u" "toterr t0 = toterr u"
    using u ug(16) by (simp_all add: t0_def set_off_def set_data_def algebra_simps)
  have "lc s + 2 + scast (ucast (loff t0) :: byte) = loff u" if "is8bitsignedoffset (loff t0)"
    using scast_low_byte [OF that] t0(1) by simp
  moreover have "is8bitsignedoffset (loff t0) \<longleftrightarrow>
      -128 \<le> sint (loff u - (lc s + 2)) \<and> sint (loff u - (lc s + 2)) \<le> 127"
    by (simp only: t0(1) is8bitsignedoffset_sint)
  moreover have "toterr (error ABOUNDS t0) = toterr u + 1" using assms(6) t0(5,6) by (simp add: error_def)
  ultimately show ?thesis
    using t t0(2-5) d(1) by (cases "is8bitsignedoffset (loff t0)") auto
qed

section \<open>Witnesses\<close>

text \<open>A state in the last pass at an operand in column 0 of a line.\<close>

definition operand_at :: "string \<Rightarrow> byte \<Rightarrow> trans" where
  "operand_at line op =
     getsym (bin.extend (bin_start\<lparr>srcbuf := bytes_of line, opcode := op, lc := 0x100, lcdata := 0,
         lcjump := 0\<rparr>)
       \<lparr>label = None, oldlabel = 0, dirty_pass = False, pedata = UNDBIT, progent = 0, dirpag = 0,
        mapnum = 0, lcptr = 0, blockstak = [], blocklevel = 0, ifstak = [], iflevel = 0,
        elseflag = False, lcommflag = False, listing = \<lparr>fl_global = True, fl_current = True, fl_semaphore = 0\<rparr>,
        maclist = \<lparr>fl_global = False, fl_current = False, fl_semaphore = 0\<rparr>, warn_global = True,
        warn_semaphore = 0, list_force = False, mnsize = 0, immcount = 0\<rparr>)"


theorem mshort_reaches_witness:
  "mcount (projr (mshort (operand_at ''$F0'' 0x20))) = 2 \<and>
   (0x100 :: u64) + 2 + scast (ucast (loff (projr (mshort (operand_at ''$F0'' 0x20)))) :: byte) = 0xF0"
proof -
  let ?s = "operand_at ''$F0'' 0x20"
  have "\<not> isl (nonimpexpres ?s)" "pass2 (projr (nonimpexpres ?s))" "mcount ?s = 0"
    "\<not> has (ldata (projr (nonimpexpres ?s)) XOR lcdata (projr (nonimpexpres ?s))) (IMPBIT OR RELBIT OR SEGM)"
    "\<not> has (ldata (projr (nonimpexpres ?s)) OR lcdata (projr (nonimpexpres ?s))) UNDBIT"
    "errcount (projr (nonimpexpres ?s)) < MAXERR" "lc ?s = 0x100" "loff (projr (nonimpexpres ?s)) = 0xF0"
    by code_simp+
  note f = this
  have e: "nonimpexpres ?s = Inr (projr (nonimpexpres ?s))"
    using f(1) by (rule sum.collapse(2) [symmetric])
  have r: "-128 \<le> sint (0xF0 - (0x100 + 2) :: u64) \<and> sint (0xF0 - (0x100 + 2) :: u64) \<le> 127"
    by simp
  obtain t where "mshort ?s = Inr t" "mcount t = 2" "(0x100 :: u64) + 2 + scast (ucast (loff t) :: byte) = 0xF0"
    using mshort_reaches [OF e f(2-6), unfolded f(7,8) if_P [OF r]] by blast
  then show ?thesis by simp
qed

end
