(* ===== verification/Pops.thy ===== *)
theory Pops
  imports Mops
begin

text \<open>
  The pseudo-operations, \<^verbatim>\<open>as/pops.c\<close>: conditionals, location counters,
  blocks, data, symbol declarations and the listing switches.  Each handler is
  called with the scanner at the first symbol of the operand; the symbol it is
  about is the label at the start of the line, \<^verbatim>\<open>label\<close>.
\<close>

abbreviation POPHI :: byte where "POPHI \<equiv> 1"
abbreviation POPLO :: byte where "POPLO \<equiv> 2"
abbreviation POPLC :: byte where "POPLC \<equiv> 4"
abbreviation POPLONG :: byte where "POPLONG \<equiv> 8"

abbreviation NLOC :: nat where "NLOC \<equiv> 16"
abbreviation MAXBLOCK :: byte where "MAXBLOCK \<equiv> 8"
abbreviation MAXIF :: byte where "MAXIF \<equiv> 8"

abbreviation BSSLOC :: u32 where "BSSLOC \<equiv> 3"
abbreviation DATALOC :: u32 where "DATALOC \<equiv> 3"
abbreviation TEXTLOC :: u32 where "TEXTLOC \<equiv> 0"

section \<open>Common routines\<close>

text \<open>
  A switch with a counter.  The sum of the two counts is taken as the machine
  does it; the source relies on the wrap-around to notice an overflow.
\<close>

definition bumpsem :: "flags_s \<Rightarrow> 32 word \<Rightarrow> 'a expr_scheme \<Rightarrow> stop + flags_s \<times> 'a expr_scheme" where
  "bumpsem fl defval s =
     bindE (if sym s = EOLSYM then Inr (set_off (scast defval) s) else absexpres s) (\<lambda>s1.
       if sym s \<noteq> EOLSYM \<and> has (ldata s1) UNDBIT then Inr (fl, s1)
       else if fl_global fl \<and> pass2 s1 then
         let off = (ucast (loff s1) :: 32 word);
             newcount = off + fl_semaphore fl;
             (newcount1, s2) =
               (if 0 \<le> sint off then
                  (if sint newcount < sint (fl_semaphore fl) then (0x7fff, error COUNTOV s1) else (newcount, s1))
                else
                  (if sint (fl_semaphore fl) \<le> sint newcount then (- 0x8000, error COUNTUN s1) else (newcount, s1)))
         in Inr (fl\<lparr>fl_semaphore := newcount1, fl_current := 0 \<le> sint newcount1\<rparr>, s2)
       else Inr (fl, s1))"

definition checksegrel :: "nat \<Rightarrow> 'a expr_scheme \<Rightarrow> bool \<times> 'a expr_scheme" where
  "checksegrel symptr s =
     (let y = syms s ! symptr
      in if (has (sy_type y) LABIT \<or> has (sy_data y) IMPBIT \<and> \<not> has (sy_data y) UNDBIT) \<and>
            has (sy_data y XOR lcdata s) (RELBIT OR SEGM)
         then (False, error SEGREL s) else (True, s))"

definition constdata :: "u64 \<Rightarrow> 'a bin_scheme \<Rightarrow> stop + 'a bin_scheme" where
  "constdata sz s =
     bindE (absexpres s) (\<lambda>s0.
       let s1 = s0\<lparr>lcdata := lcdata s0 OR ldata s0\<rparr>
       in if has (lcdata s1) UNDBIT then Inr s1
          else
            let s2 = s1\<lparr>lcjump := loff s1 * sz, popflags := POPLONG OR POPHI OR POPLO OR POPLC\<rparr>
            in if sz = 1 \<and> sym s2 = COMMA then
                 bindE (symabsexpres s2) (\<lambda>s3.
                   let s4 = checkdatabounds s3;
                       fill = (\<lambda>t. putabs (ucast (loff t)) (putbin (ucast (loff t)) t));
                       s5 = (fill ^^ unat (lcjump s4)) s4
                   in Inr (set_off (lcjump s5) s5))
               else Inr (accumulate_rmb (loff s2 * sz) s2))"

definition showlabel :: "'a trans_scheme \<Rightarrow> stop + 'a trans_scheme" where
  "showlabel s =
     (case label s of
        None \<Rightarrow> Inl NullPointer
      | Some labptr \<Rightarrow>
          let y = syms s ! labptr
          in Inr ((set_off (sy_value y) (set_data (sy_data y) s))
               \<lparr>popflags := POPLONG OR POPHI OR POPLO, label := None\<rparr>))"

definition labelerror :: "errmsg \<Rightarrow> 'a trans_scheme \<Rightarrow> 'a trans_scheme" where
  "labelerror err_str s =
     (error err_str (getsym (s\<lparr>lineptr := linebuf s\<rparr>)))
       \<lparr>gsymptr := gsymptr s, lineptr := lineptr s, sym := sym s, symname := symname s, label := None\<rparr>"

definition showredefinedlabel :: "'a trans_scheme \<Rightarrow> stop + 'a trans_scheme" where
  "showredefinedlabel s =
     (case label s of
        None \<Rightarrow> Inl NullPointer
      | Some labptr \<Rightarrow>
          bindE (showlabel s) (\<lambda>s1.
            if \<not> has (sy_type (syms s1 ! labptr)) REDBIT then
              Inr (labelerror RELAB (upd_sym labptr (\<lambda>y. y\<lparr>sy_type := sy_type y OR REDBIT\<rparr>) s1))
            else Inr s1))"

definition docomm :: "'a trans_scheme \<Rightarrow> stop + 'a trans_scheme" where
  "docomm s =
     bindE (absexpres s) (\<lambda>s1.
       case label s1 of
         None \<Rightarrow> Inl NullPointer
       | Some labptr \<Rightarrow>
           let (ok, s2) = checksegrel labptr s1;
               y = syms s2 ! labptr
           in bindE
                (if ok then
                   (if has (sy_type y) (EXPBIT OR LABIT) then Inr (labelerror ALREADY s2)
                    else
                      let s3 = upd_sym labptr (\<lambda>y. y\<lparr>
                            sy_value := (if \<not> has (sy_type y) COMMBIT \<or> sy_value y < loff s2
                                         then loff s2 else sy_value y),
                            sy_type := sy_type y OR COMMBIT OR (if lcommflag s2 then REDBIT else 0),
                            sy_data := (lcdata s2 AND SEGM) OR
                                       (if last_pass s2 = 1 then FORBIT OR IMPBIT OR RELBIT
                                        else IMPBIT OR RELBIT)\<rparr>) s2
                      in showlabel s3)
                 else Inr s2)
                (\<lambda>s4. Inr (s4\<lparr>lcommflag := False\<rparr>)))"

definition doelseif ::
    "('a trans_scheme \<Rightarrow> stop + 'a trans_scheme) \<Rightarrow> 'a trans_scheme \<Rightarrow> stop + 'a trans_scheme" where
  "doelseif func s =
     (if iflevel s = 0 then Inr (error ELSEBAD s)
      else
        let s1 = s\<lparr>ifflag := False\<rparr>
        in if elseflag s1 then
             bindE (func s1) (\<lambda>s2.
               Inr (if \<not> has (ldata s2) UNDBIT \<and> loff s2 \<noteq> 0
                    then s2\<lparr>ifflag := True, elseflag := False\<rparr> else s2))
           else Inr (skip_to_eol s1))"

definition doif ::
    "('a trans_scheme \<Rightarrow> stop + 'a trans_scheme) \<Rightarrow> 'a trans_scheme \<Rightarrow> stop + 'a trans_scheme" where
  "doif func s =
     (if MAXIF \<le> iflevel s then Inr (error IFOV s)
      else
        let s1 = s\<lparr>iflevel := iflevel s + 1,
                   ifstak := \<lparr>if_ifflag = ifflag s, if_elseflag = elseflag s\<rparr> # ifstak s,
                   elseflag := False\<rparr>
        in if ifflag s1 then
             bindE (func s1) (\<lambda>s2.
               Inr (if \<not> has (ldata s2) UNDBIT \<and> loff s2 = 0
                    then s2\<lparr>ifflag := False, elseflag := True\<rparr> else s2))
           else Inr (skip_to_eol s1))"

definition doequset :: "byte \<Rightarrow> 'a trans_scheme \<Rightarrow> stop + 'a trans_scheme" where
  "doequset labits s =
     (case label s of
        None \<Rightarrow> Inl NullPointer
      | Some labptr \<Rightarrow>
          let oldtype = sy_type (syms s ! labptr);
              olddata = sy_data (syms s ! labptr);
              s1 = upd_sym labptr (\<lambda>y. y\<lparr>sy_type := oldtype OR labits, sy_data := olddata AND NOT IMPBIT\<rparr>) s
          in bindE (nonimpexpres s1) (\<lambda>s2.
               let s3 = set_data (ldata s2 OR (olddata AND FORBIT)) s2
               in if has oldtype LABIT \<and> \<not> has olddata UNDBIT \<and> pass s3 = 0 \<and>
                     (has (olddata XOR ldata s3) (RELBIT OR UNDBIT) \<or>
                      sy_value (syms s3 ! labptr) \<noteq> loff s3)
                  then showredefinedlabel s3
                  else
                    bindE (showlabel (upd_sym labptr (\<lambda>y. y\<lparr>sy_data := ldata s3, sy_value := loff s3\<rparr>) s3))
                      (\<lambda>s4.
                        if pass s4 \<noteq> 0 \<and> \<not> has labits VARBIT \<and> sy_value (syms s4 ! labptr) \<noteq> oldlabel s4
                        then
                          let s5 = s4\<lparr>dirty_pass := True\<rparr>
                          in Inr (if pass2 s5 then error UNSTABLE_LABEL s5 else s5)
                        else Inr s4)))"

definition needlabel :: "'a errs_scheme \<Rightarrow> stop + nat option \<times> 'a errs_scheme" where
  "needlabel s =
     (if sym s \<noteq> IDENT then Inr (None, error LABEXP s)
      else case gsymptr s of
        None \<Rightarrow> Inl NullPointer
      | Some symptr \<Rightarrow>
          if has (sy_type (syms s ! symptr)) (MACBIT OR MNREGBIT OR VARBIT)
          then Inr (None, error LABEXP s) else Inr (Some symptr, s))"

definition setloc :: "u32 \<Rightarrow> 'a trans_scheme \<Rightarrow> stop + 'a trans_scheme" where
  "setloc seg s =
     (let s1 = (if pass2 s \<and> seg \<noteq> ucast (lcdata s AND SEGM)
                then putobj (ucast (seg OR ucast OBJ_SET_SEG)) s else s);
          n = unat (ucast seg :: byte)
      in if length (lctab s1) \<le> n \<or> length (lctab s1) \<le> lcptr s1 then Inl OutOfBounds
         else
           let tab = (lctab s1)[lcptr s1 := \<lparr>lc_data = lcdata s1, lc_lc = lc s1\<rparr>]
           in Inr (s1\<lparr>lctab := tab, lcptr := n,
                      lcdata := (lc_data (tab ! n) AND NOT SEGM) OR ucast seg,
                      lc := lc_lc (tab ! n), binmbuf := lc_lc (tab ! n), popflags := POPLC\<rparr>))"

section \<open>Declarations of symbols\<close>

text \<open>One name of \<^verbatim>\<open>ENTRY\<close>, \<^verbatim>\<open>EXPORT\<close> or \<^verbatim>\<open>.GLOBL\<close>.\<close>

definition entexp_name :: "byte \<Rightarrow> byte \<Rightarrow> nat \<Rightarrow> 'a expr_scheme \<Rightarrow> 'a expr_scheme" where
  "entexp_name entbits impbits symptr s =
     (let y = syms s ! symptr
      in if has (sy_type y) COMMBIT then error ALREADY s
         else if impbits \<noteq> 0 then
           (if pass2 s then s
            else if has (sy_type y) (EXPBIT OR LABIT) then
              upd_sym symptr (\<lambda>y. y\<lparr>sy_type := sy_type y OR EXPBIT\<rparr>) s
            else
              upd_sym symptr (\<lambda>y. y\<lparr>sy_type := sy_type y OR REDBIT,
                sy_data := (if \<not> has (sy_data y) IMPBIT then sy_data y OR IMPBIT OR SEGM else sy_data y)\<rparr>) s)
         else if pass2 s then (if \<not> has (sy_type y) LABIT then error UNLAB s else s)
         else upd_sym symptr (\<lambda>y. y\<lparr>sy_type := sy_type y OR entbits OR EXPBIT,
                                     sy_data := sy_data y AND NOT IMPBIT\<rparr>) s)"

text \<open>One name of \<^verbatim>\<open>IMPORT\<close>.\<close>

definition import_name :: "nat \<Rightarrow> 'a expr_scheme \<Rightarrow> 'a expr_scheme" where
  "import_name symptr s =
     (case checksegrel symptr s of
        (False, s1) \<Rightarrow> s1
      | (True, s1) \<Rightarrow>
          if has (sy_type (syms s1 ! symptr)) (COMMBIT OR EXPBIT OR LABIT) then error ALREADY s1
          else upd_sym symptr (\<lambda>y. y\<lparr>sy_data := lcdata s1 OR
                 (if last_pass s1 = 1 then FORBIT OR IMPBIT OR RELBIT else IMPBIT OR RELBIT)\<rparr>) s1)"

text \<open>The loop over the names of a declaration, shared by the handlers.\<close>

lemma getsym_comma_measure:
  assumes "sym (getsym s) = COMMA"
  shows "length (srcbuf s) - lineptr (getsym (getsym s)) < length (srcbuf s) - lineptr s"
proof -
  have "lineptr s < length (srcbuf s)"
    using assms getsym_at_end [of s] by (cases "length (srcbuf s) \<le> lineptr s") simp_all
  then show ?thesis
    using getsym_progress [of s] getsym_progress [of "getsym s"] by simp
qed

fun name_list ::
    "(nat \<Rightarrow> 'a expr_scheme \<Rightarrow> 'a expr_scheme) \<Rightarrow> nat \<Rightarrow> 'a expr_scheme \<Rightarrow> stop + 'a expr_scheme" where
  "name_list f 0 s = Inl NoFuel"
| "name_list f (Suc n) s =
     bindE (needlabel s) (\<lambda>(r, s1).
       let s2 = (case r of None \<Rightarrow> s1 | Some symptr \<Rightarrow> f symptr s1);
           s3 = getsym s2
       in if sym s3 \<noteq> COMMA then Inr s3 else name_list f n (getsym s3))"

definition doentexp :: "byte \<Rightarrow> byte \<Rightarrow> 'a expr_scheme \<Rightarrow> stop + 'a expr_scheme" where
  "doentexp entbits impbits s =
     name_list (entexp_name entbits impbits) (Suc (length (srcbuf s) - lineptr s)) s"

definition pimport :: "'a bin_scheme \<Rightarrow> stop + 'a bin_scheme" where
  "pimport s =
     (let s1 = (if binaryg s then error NOIMPORT s else s)
      in name_list import_name (Suc (length (srcbuf s1) - lineptr s1)) s1)"

section \<open>Strings\<close>

abbreviation EOLCHAR :: byte where "EOLCHAR \<equiv> 0x0A"

text \<open>The buffers of a data line share 126 addresses of 24 bytes each.\<close>

abbreviation FDBUFLEN :: nat where "FDBUFLEN \<equiv> 126"
abbreviation FCBUFLEN :: nat where "FCBUFLEN \<equiv> 3024"

text \<open>
  The digits of a hexadecimal escape as the source reads them; the result is
  the byte and the position of the last digit.
\<close>

function hex_escape :: "byte list \<Rightarrow> nat \<Rightarrow> byte \<Rightarrow> byte \<times> nat" where
  "hex_escape buf p b =
     (let c = rdch buf (Suc p)
      in if 0x30 \<le> c \<and> c \<le> 0x39 then hex_escape buf (Suc p) (16 * b + c - 0x30)
         else if 0x46 \<le> c \<and> c \<le> 0x46 then hex_escape buf (Suc p) (16 * b + c - 0x41)
         else if 0x61 \<le> c \<and> c \<le> 0x66 then hex_escape buf (Suc p) (16 * b + c - 0x46)
         else (b, p))"
  by pat_completeness auto
termination
proof (relation "measure (\<lambda>(buf, p, b). length buf - p)")
  have *: "Suc p < length buf" if "c \<le> rdch buf (Suc p)" "0 < c" for c buf p
    using that by (cases "Suc p < length buf") simp_all
  show "((buf, Suc p, 16 * b + x - 0x30), buf, p, b) \<in> measure (\<lambda>(buf, p, b). length buf - p)"
    if "x = rdch buf (Suc p)" "0x30 \<le> x \<and> x \<le> 0x39" for buf p b x
    using * [of "0x30" buf p] that by simp
  show "((buf, Suc p, 16 * b + x - 0x41), buf, p, b) \<in> measure (\<lambda>(buf, p, b). length buf - p)"
    if "x = rdch buf (Suc p)" "0x46 \<le> x \<and> x \<le> 0x46" for buf p b x
    using * [of "0x46" buf p] that by simp
  show "((buf, Suc p, 16 * b + x - 0x46), buf, p, b) \<in> measure (\<lambda>(buf, p, b). length buf - p)"
    if "x = rdch buf (Suc p)" "0x61 \<le> x \<and> x \<le> 0x66" for buf p b x
    using * [of "0x61" buf p] that by simp
qed simp

declare hex_escape.simps [simp del]

definition octal_digit :: "byte \<Rightarrow> bool" where
  "octal_digit c \<longleftrightarrow> 0x30 \<le> c \<and> c < 0x38"

text \<open>
  The character after a backslash: the byte it stands for, the position of the
  last character used, and whether the escape is known.
\<close>

definition fcc_escape :: "byte list \<Rightarrow> nat \<Rightarrow> byte \<times> nat \<times> bool" where
  "fcc_escape buf p =
     (let c = rdch buf p;
          c1 = rdch buf (Suc p);
          c2 = rdch buf (Suc (Suc p))
      in if c \<in> {0x22, 0x27, 0x5C, 0x3F} then (c, p, True)
         else if octal_digit c then
           (if octal_digit c1 then
              (if octal_digit c2
               then (8 * (8 * (c - 0x30) + c1 - 0x30) + c2 - 0x30, Suc (Suc p), True)
               else (8 * (c - 0x30) + c1 - 0x30, Suc p, True))
            else (c - 0x30, p, True))
         else if c = 0x61 then (7, p, True)
         else if c = 0x62 then (8, p, True)
         else if c = 0x66 then (12, p, True)
         else if c = 0x6E then (10, p, True)
         else if c = 0x72 then (13, p, True)
         else if c = 0x74 then (9, p, True)
         else if c = 0x76 then (11, p, True)
         else if c = 0x78 then (case hex_escape buf p 0x30 of (b, q) \<Rightarrow> (b, q, True))
         else (c, p, False))"

definition put_fc :: "byte list \<Rightarrow> byte \<Rightarrow> stop + byte list" where
  "put_fc acc b = (if length acc < FCBUFLEN then Inr (acc @ [b]) else Inl OutOfBounds)"

lemma hex_escape_ge: "p \<le> snd (hex_escape buf p b)"
proof (induction buf p b rule: hex_escape.induct)
  case (1 buf p b)
  then show ?case
    by (subst hex_escape.simps) (auto simp: Let_def dest: Suc_leD)
qed

lemma fcc_escape_ge: "fcc_escape buf p = (b, q, k) \<Longrightarrow> p \<le> q"
  using hex_escape_ge [of p buf "0x30"]
  by (auto simp: fcc_escape_def Let_def split: if_splits prod.splits)

text \<open>The loop over the string; a position outside the text is an overrun.\<close>

function fcc_loop :: "byte \<Rightarrow> nat \<Rightarrow> byte list \<Rightarrow> 'a errs_scheme \<Rightarrow> stop + nat \<times> byte list \<times> 'a errs_scheme"
  where
  "fcc_loop delimiter p acc s =
     (let b = rdch (srcbuf s) p
      in if length (srcbuf s) \<le> p then Inl OutOfBounds
         else if b = EOLCHAR then Inr (p, acc, error DELEXP (s\<lparr>symname := p\<rparr>))
         else if b = delimiter then
           (if rdch (srcbuf s) (Suc p) \<noteq> delimiter then Inr (Suc p, acc, s)
            else bindE (put_fc acc delimiter) (\<lambda>acc1. fcc_loop delimiter (Suc (Suc p)) acc1 s))
         else if b = 0x5C then
           (case fcc_escape (srcbuf s) (Suc p) of (c, q, known) \<Rightarrow>
              bindE (put_fc acc c) (\<lambda>acc1.
                fcc_loop delimiter (Suc q) acc1
                  (if known then s else error UNKNOWN_ESCAPE_SEQUENCE (s\<lparr>symname := q\<rparr>))))
         else if 0 \<le> sint b \<and> sint b < 0x20 then
           bindE (put_fc acc 0x20) (\<lambda>acc1. fcc_loop delimiter (Suc p) acc1 (error CTLINS (s\<lparr>symname := p\<rparr>)))
         else bindE (put_fc acc b) (\<lambda>acc1. fcc_loop delimiter (Suc p) acc1 s))"
  by pat_completeness auto
termination
  by (relation "measure (\<lambda>(d, p, acc, s). length (srcbuf s) - p)")
     (auto dest!: fcc_escape_ge [OF sym])

declare fcc_loop.simps [simp del]

definition dofcc :: "'a gen_scheme \<Rightarrow> stop + 'a gen_scheme" where
  "dofcc s =
     (let delimiter = rdch (srcbuf s) (symname s);
          p = (if delimiter \<noteq> EOLCHAR then Suc (symname s) else symname s)
      in bindE (fcc_loop delimiter p [] s) (\<lambda>(q, acc, s1).
           let s2 = getsym (s1\<lparr>lineptr := q, fcbuf := acc @ drop (length acc) (fcbuf s1)\<rparr>)
           in Inr ((set_off (scast (rdch (fcbuf s2) 0)) s2)\<lparr>lcjump := of_nat (length acc)\<rparr>)))"

section \<open>Handlers: conditionals\<close>

definition pelse :: "'a trans_scheme \<Rightarrow> 'a trans_scheme" where
  "pelse s =
     (if iflevel s = 0 then error ELSEBAD s
      else if elseflag s then s\<lparr>ifflag := True, elseflag := False\<rparr>
      else s\<lparr>ifflag := False\<rparr>)"

definition pelseif :: "'a trans_scheme \<Rightarrow> stop + 'a trans_scheme" where
  "pelseif s = doelseif absexpres s"

definition pelsifc :: "'a trans_scheme \<Rightarrow> stop + 'a trans_scheme" where
  "pelsifc s = doelseif scompare s"

definition pif :: "'a trans_scheme \<Rightarrow> stop + 'a trans_scheme" where
  "pif s = doif absexpres s"

definition pifc :: "'a trans_scheme \<Rightarrow> stop + 'a trans_scheme" where
  "pifc s = doif scompare s"

definition pendif :: "'a trans_scheme \<Rightarrow> stop + 'a trans_scheme" where
  "pendif s =
     (if iflevel s = 0 then Inr (error ELSEBAD s)
      else case ifstak s of
        [] \<Rightarrow> Inl OutOfBounds
      | entry # rest \<Rightarrow>
          Inr (s\<lparr>ifflag := if_ifflag entry, elseflag := if_elseflag entry, ifstak := rest,
                 iflevel := iflevel s - 1\<rparr>))"

section \<open>Handlers: locations\<close>

definition illegal_label :: "'a trans_scheme \<Rightarrow> 'a trans_scheme" where
  "illegal_label s = (if label s \<noteq> None then labelerror ILLAB s else s)"

definition porg :: "'a trans_scheme \<Rightarrow> stop + 'a trans_scheme" where
  "porg s =
     bindE (absexpres (illegal_label s)) (\<lambda>s1.
       let s2 = s1\<lparr>lcdata := ldata s1\<rparr>
       in if has (lcdata s2) UNDBIT then Inr s2
          else
            let s3 = accumulate_rmb (loff s2 - lc s2) s2
            in Inr (s3\<lparr>lc := loff s3, binmbuf := loff s3, binmbuf_set := True, popflags := POPLC\<rparr>))"

definition pblock :: "'a trans_scheme \<Rightarrow> stop + 'a trans_scheme" where
  "pblock s =
     (if MAXBLOCK \<le> blocklevel s then Inr (error BLOCKOV s)
      else porg (s\<lparr>blocklevel := blocklevel s + 1,
                   blockstak := \<lparr>bl_data = lcdata s, bl_dp = dirpag s, bl_lc = lc s\<rparr> # blockstak s\<rparr>))"

definition pendb :: "'a trans_scheme \<Rightarrow> stop + 'a trans_scheme" where
  "pendb s0 =
     (let s = illegal_label s0
      in if blocklevel s = 0 then Inr (error ENDBBAD s)
         else case blockstak s of
           [] \<Rightarrow> Inl OutOfBounds
         | entry # rest \<Rightarrow>
             let s1 = s\<lparr>lcdata := bl_data entry, dirpag := bl_dp entry\<rparr>;
                 s2 = accumulate_rmb (bl_lc entry - lc s1) s1
             in Inr (s2\<lparr>lc := bl_lc entry, blocklevel := blocklevel s2 - 1, blockstak := rest\<rparr>))"

definition pbss :: "'a trans_scheme \<Rightarrow> stop + 'a trans_scheme" where
  "pbss s = setloc BSSLOC s"

definition pdata :: "'a trans_scheme \<Rightarrow> stop + 'a trans_scheme" where
  "pdata s = setloc DATALOC s"

definition ptext :: "'a trans_scheme \<Rightarrow> stop + 'a trans_scheme" where
  "ptext s = (if textseg s \<le> 0 then setloc TEXTLOC s else setloc (of_int (textseg s)) s)"

definition ploc :: "'a trans_scheme \<Rightarrow> stop + 'a trans_scheme" where
  "ploc s =
     bindE (absexpres (illegal_label s)) (\<lambda>s1.
       if has (ldata s1) UNDBIT then Inr s1
       else if of_nat NLOC \<le> loff s1 then Inr (datatoobig s1)
       else setloc (ucast (loff s1)) s1)"

text \<open>What \<^verbatim>\<open>.SECT\<close> does with one name.\<close>

definition sect_name :: "nat \<Rightarrow> 'a trans_scheme \<Rightarrow> stop + 'a trans_scheme" where
  "sect_name symptr s =
     (let y = syms s ! symptr
      in if \<not> has (sy_type y) MNREGBIT then Inr (error ILL_SECTION s)
         else if sy_routine y = BSSOP then pbss s
         else if sy_routine y = DATAOP then pdata s
         else if sy_routine y = TEXTOP then ptext s
         else Inr (error ILL_SECTION s))"

fun sect_loop :: "nat \<Rightarrow> 'a trans_scheme \<Rightarrow> stop + 'a trans_scheme" where
  "sect_loop 0 s = Inl NoFuel"
| "sect_loop (Suc n) s =
     (if sym s = IDENT then
        case gsymptr s of
          None \<Rightarrow> Inl NullPointer
        | Some symptr \<Rightarrow>
            bindE (sect_name symptr s) (\<lambda>s1.
              let s2 = getsym s1;
                  s3 = (if sym s2 = COMMA then getsym s2 else s2)
              in sect_loop n s3)
      else Inr s)"

definition psect :: "'a trans_scheme \<Rightarrow> stop + 'a trans_scheme" where
  "psect s = (let s1 = illegal_label s in sect_loop (length (srcbuf s1) - lineptr s1 + 2) s1)"

definition palign :: "'a gen_scheme \<Rightarrow> stop + 'a gen_scheme" where
  "palign s =
     bindE (absexpres s) (\<lambda>s0.
       let s1 = s0\<lparr>lcdata := lcdata s0 OR ldata s0\<rparr>
       in if has (lcdata s1) UNDBIT then Inr s1
          else
            let s2 = s1\<lparr>popflags := POPLONG OR POPHI OR POPLO OR POPLC\<rparr>
            in if loff s2 = 0 then Inr s2
               else
                 let s3 = s2\<lparr>lcjump := lc s2 mod loff s2\<rparr>
                 in if lcjump s3 = 0 then Inr s3
                    else
                      let jump = loff s3 - lcjump s3
                      in Inr (accumulate_rmb jump (s3\<lparr>lcjump := jump\<rparr>)))"

definition peven :: "'a gen_scheme \<Rightarrow> 'a gen_scheme" where
  "peven s =
     (let odd_byte = lc s AND 1;
          s1 = set_data (ucast odd_byte) (s\<lparr>popflags := POPLONG OR POPHI OR POPLO OR POPLC\<rparr>);
          s2 = s1\<lparr>lcjump := ucast (ucast odd_byte :: byte)\<rparr>
      in accumulate_rmb (lcjump s2) s2)"

definition pblkw :: "'a bin_scheme \<Rightarrow> stop + 'a bin_scheme" where
  "pblkw s = constdata 2 s"

definition prmb :: "'a bin_scheme \<Rightarrow> stop + 'a bin_scheme" where
  "prmb s = constdata 1 s"

section \<open>Handlers: data\<close>

definition pfcc :: "'a gen_scheme \<Rightarrow> stop + 'a gen_scheme" where
  "pfcc s =
     bindE (dofcc s) (\<lambda>s1.
       Inr (if mcount s1 \<noteq> 0 then s1\<lparr>fcflag := True, popflags := POPLO OR POPLC\<rparr> else s1))"

definition pasciz :: "'a gen_scheme \<Rightarrow> stop + 'a gen_scheme" where
  "pasciz s =
     bindE (dofcc s) (\<lambda>s1.
       bindE (put_fc (take (unat (mcount s1)) (fcbuf s1)) 0) (\<lambda>acc.
         Inr (s1\<lparr>fcbuf := acc @ drop (length acc) (fcbuf s1), lcjump := mcount s1 + 1,
                 fcflag := True, popflags := POPLO OR POPLC\<rparr>)))"

text \<open>The loops over the operands; each round uses up a comma.\<close>

fun fcb_loop :: "nat \<Rightarrow> byte list \<Rightarrow> 'a gen_scheme \<Rightarrow> stop + byte list \<times> 'a gen_scheme" where
  "fcb_loop 0 acc s = Inl NoFuel"
| "fcb_loop (Suc n) acc s =
     (let s1 = checkdatabounds s
      in bindE (put_fc acc (ucast (loff s1))) (\<lambda>acc1.
           let s2 = s1\<lparr>lcjump := mcount s1 + 1\<rparr>
           in if sym s2 \<noteq> COMMA then Inr (acc1, s2)
              else bindE (symabsexpres s2) (fcb_loop n acc1)))"

definition pfcb :: "'a gen_scheme \<Rightarrow> stop + 'a gen_scheme" where
  "pfcb s =
     bindE (absexpres s) (\<lambda>s1.
       bindE (fcb_loop (length (srcbuf s1) - lineptr s1 + 2) [] s1) (\<lambda>(acc, s2).
         Inr ((set_off (loff s1) s2)\<lparr>fcbuf := acc @ drop (length acc) (fcbuf s2),
                popflags := POPLO OR POPLC, fcflag := True\<rparr>)))"

fun fdb_loop :: "nat \<Rightarrow> address_s list \<Rightarrow> 'a gen_scheme \<Rightarrow> stop + address_s list \<times> 'a gen_scheme" where
  "fdb_loop 0 acc s = Inl NoFuel"
| "fdb_loop (Suc n) acc s =
     (if FDBUFLEN \<le> length acc then Inl OutOfBounds
      else
        let acc1 = acc @ [lastexp s];
            s1 = s\<lparr>lcjump := mcount s + 2\<rparr>
        in if sym s1 \<noteq> COMMA then Inr (acc1, s1)
           else bindE (symexpres s1) (fdb_loop n acc1))"

definition pfdb :: "'a gen_scheme \<Rightarrow> stop + 'a gen_scheme" where
  "pfdb s =
     bindE (expres s) (\<lambda>s1.
       bindE (fdb_loop (length (srcbuf s1) - lineptr s1 + 2) [] s1) (\<lambda>(acc, s2).
         Inr ((set_data (ldata s1) (set_off (loff s1) s2))
                \<lparr>fdbuf := acc @ drop (length acc) (fdbuf s2),
                 popflags := POPHI OR POPLO OR POPLC, fdflag := True\<rparr>)))"

section \<open>Handlers: symbols\<close>

definition pcomm :: "'a trans_scheme \<Rightarrow> stop + 'a trans_scheme" where
  "pcomm s =
     (case label s of
        None \<Rightarrow> Inr (labelerror MISLAB s)
      | Some labptr \<Rightarrow>
          if has (sy_type (syms s ! labptr)) VARBIT then Inr (labelerror VARLAB s) else docomm s)"

text \<open>
  \<^verbatim>\<open>.COMM\<close> works in the segment of uninitialised data and comes back.
\<close>

definition comm1_body :: "'a trans_scheme \<Rightarrow> stop + 'a trans_scheme" where
  "comm1_body s =
     bindE (needlabel s) (\<lambda>(r, s1).
       let s2 = s1\<lparr>label := r\<rparr>
       in case r of
            None \<Rightarrow> Inr s2
          | Some labptr \<Rightarrow>
              (case checksegrel labptr s2 of
                 (False, s3) \<Rightarrow> Inr s3
               | (True, s3) \<Rightarrow>
                   let defined = has (sy_type (syms s3 ! labptr)) (EXPBIT OR LABIT);
                       s4 = (if defined then error ALREADY s3
                             else upd_sym labptr (\<lambda>y. y\<lparr>sy_data := lcdata s3 OR
                               (if last_pass s3 = 1 then FORBIT OR IMPBIT OR RELBIT
                                else IMPBIT OR RELBIT)\<rparr>) s3);
                       s5 = getcomma (getsym s4)
                   in if has (sy_type (syms s5 ! labptr)) (EXPBIT OR LABIT) then absexpres s5
                      else docomm s5))"

definition pcomm1 :: "'a trans_scheme \<Rightarrow> stop + 'a trans_scheme" where
  "pcomm1 s0 =
     (let s = illegal_label s0;
          oldseg = (ucast (lcdata s AND SEGM) :: u32)
      in bindE (setloc BSSLOC s) (\<lambda>s1. bindE (comm1_body s1) (setloc oldseg)))"

definition plcomm :: "'a trans_scheme \<Rightarrow> stop + 'a trans_scheme" where
  "plcomm s = pcomm (s\<lparr>lcommflag := True\<rparr>)"

definition plcomm1 :: "'a trans_scheme \<Rightarrow> stop + 'a trans_scheme" where
  "plcomm1 s = pcomm1 (s\<lparr>lcommflag := True\<rparr>)"

definition penter :: "'a trans_scheme \<Rightarrow> 'a trans_scheme" where
  "penter s =
     (if \<not> has (pedata s) UNDBIT then error REENTER s
      else
        let s1 = s\<lparr>pedata := (pedata s AND NOT UNDBIT) OR lcdata s\<rparr>
        in if \<not> has (pedata s1) UNDBIT then s1\<lparr>progent := lc s1, popflags := POPLC\<rparr> else s1)"

definition pentry :: "'a expr_scheme \<Rightarrow> stop + 'a expr_scheme" where
  "pentry s = doentexp ENTBIT 0 s"

definition pexport :: "'a expr_scheme \<Rightarrow> stop + 'a expr_scheme" where
  "pexport s = doentexp 0 0 s"

definition pglobl :: "'a bin_scheme \<Rightarrow> stop + 'a bin_scheme" where
  "pglobl s = doentexp 0 IMPBIT (if binaryg s then error NOIMPORT s else s)"

definition pequ :: "'a trans_scheme \<Rightarrow> stop + 'a trans_scheme" where
  "pequ s =
     (case label s of
        None \<Rightarrow> Inr (labelerror MISLAB s)
      | Some labptr \<Rightarrow>
          if has (sy_type (syms s ! labptr)) COMMBIT then showredefinedlabel s
          else if has (sy_type (syms s ! labptr)) VARBIT then Inr (labelerror VARLAB s)
          else doequset LABIT s)"

definition pset :: "'a trans_scheme \<Rightarrow> stop + 'a trans_scheme" where
  "pset s =
     (case label s of
        None \<Rightarrow> Inr (labelerror MISLAB s)
      | Some labptr \<Rightarrow>
          if has (sy_type (syms s ! labptr)) COMMBIT then Inr (labelerror RELAB s)
          else doequset (if has (sy_type (syms s ! labptr)) LABIT then 0 else VARBIT) s)"

section \<open>Handlers: switches\<close>

definition pfail :: "'a expr_scheme \<Rightarrow> 'a expr_scheme" where
  "pfail s = (if pass2 s then error FAILERR s else s)"

definition pident :: "'a errs_scheme \<Rightarrow> 'a errs_scheme" where
  "pident s = (if sym s \<noteq> IDENT then error LABEXP s else getsym_nolookup s)"

definition plist :: "'a trans_scheme \<Rightarrow> stop + 'a trans_scheme" where
  "plist s = bindE (bumpsem (listing s) 1 s) (\<lambda>(fl, s1). Inr (s1\<lparr>listing := fl\<rparr>))"

definition pnolist :: "'a trans_scheme \<Rightarrow> stop + 'a trans_scheme" where
  "pnolist s = bindE (bumpsem (listing s) (- 1) s) (\<lambda>(fl, s1). Inr (s1\<lparr>listing := fl\<rparr>))"

definition pmaclist :: "'a trans_scheme \<Rightarrow> stop + 'a trans_scheme" where
  "pmaclist s = bindE (bumpsem (maclist s) 1 s) (\<lambda>(fl, s1). Inr (s1\<lparr>maclist := fl\<rparr>))"

definition pwarn :: "'a trans_scheme \<Rightarrow> stop + 'a trans_scheme" where
  "pwarn s =
     bindE (bumpsem \<lparr>fl_global = warn_global s, fl_current = as_warn s, fl_semaphore = warn_semaphore s\<rparr>
              (- 1) s)
       (\<lambda>(fl, s1). Inr (s1\<lparr>warn_global := fl_global fl, as_warn := fl_current fl,
                              warn_semaphore := fl_semaphore fl\<rparr>))"

definition pmap :: "'a trans_scheme \<Rightarrow> stop + 'a trans_scheme" where
  "pmap s =
     bindE (absexpres s) (\<lambda>s1.
       if has (ldata s1) UNDBIT then Inr s1
       else
         let s2 = s1\<lparr>mapnum := ucast (loff s1), popflags := POPLO\<rparr>
         in Inr (if 0x100 \<le> loff s2 then datatoobig s2 else s2))"

end
