(* ===== verification/Pops_Props.thy ===== *)
theory Pops_Props
  imports Pops
begin

text \<open>
  What the pseudo-operations guarantee: the control part of the state (the two
  stacks, the table of location counters) stays well formed whatever the
  operands are; conditionals select branches as an abstract nesting machine
  does; switching segments keeps every location counter; a block gives back
  what it saved; a symbol defined by \<^verbatim>\<open>EQU\<close> has the value of its expression.
\<close>

section \<open>The control part of the state\<close>

definition ctl :: "'a trans_scheme \<Rightarrow> block_s list \<times> byte \<times> if_s list \<times> byte \<times> byte \<times> nat \<times> nat" where
  "ctl s = (blockstak s, blocklevel s, ifstak s, iflevel s, dirpag s, lcptr s, length (lctab s))"

text \<open>A routine that keeps the layers above the expression handler keeps the control part.\<close>

lemma ctl_of_more:
  fixes s t :: "'a trans_scheme"
  assumes "expr.more t = expr.more s"
  shows "ctl t = ctl s"
  using assms by (cases s; cases t) (simp add: ctl_def)

lemma ctl_error [simp]: "ctl (error m s) = ctl s"
  and ctl_warning [simp]: "ctl (warning m s) = ctl s"
  and ctl_getsym [simp]: "ctl (getsym s) = ctl s"
  by (rule ctl_of_more; simp)+

lemma ctl_upd [simp]:
  "ctl (upd_sym r f s) = ctl s"
  "ctl (set_off v s) = ctl s"
  "ctl (set_data d s) = ctl s"
  "ctl (s\<lparr>lcdata := d\<rparr>) = ctl s"
  "ctl (s\<lparr>lc := a\<rparr>) = ctl s"
  "ctl (s\<lparr>lcjump := a\<rparr>) = ctl s"
  "ctl (s\<lparr>popflags := p\<rparr>) = ctl s"
  "ctl (s\<lparr>opcode := p\<rparr>) = ctl s"
  "ctl (s\<lparr>postb := p\<rparr>) = ctl s"
  "ctl (s\<lparr>pcrflag := p\<rparr>) = ctl s"
  "ctl (s\<lparr>fcflag := b\<rparr>) = ctl s"
  "ctl (s\<lparr>fdflag := b\<rparr>) = ctl s"
  "ctl (s\<lparr>fcbuf := bs\<rparr>) = ctl s"
  "ctl (s\<lparr>fdbuf := as\<rparr>) = ctl s"
  "ctl (s\<lparr>binmbuf := a\<rparr>) = ctl s"
  "ctl (s\<lparr>binmbuf_set := b\<rparr>) = ctl s"
  "ctl (s\<lparr>label := l\<rparr>) = ctl s"
  "ctl (s\<lparr>lcommflag := b\<rparr>) = ctl s"
  "ctl (s\<lparr>elseflag := b\<rparr>) = ctl s"
  "ctl (s\<lparr>ifflag := b\<rparr>) = ctl s"
  "ctl (s\<lparr>sym := c\<rparr>) = ctl s"
  "ctl (s\<lparr>symname := i\<rparr>) = ctl s"
  "ctl (s\<lparr>lineptr := i\<rparr>) = ctl s"
  "ctl (s\<lparr>gsymptr := l\<rparr>) = ctl s"
  "ctl (s\<lparr>dirty_pass := b\<rparr>) = ctl s"
  "ctl (s\<lparr>pedata := d\<rparr>) = ctl s"
  "ctl (s\<lparr>progent := a\<rparr>) = ctl s"
  "ctl (s\<lparr>mapnum := d\<rparr>) = ctl s"
  "ctl (s\<lparr>listing := fl\<rparr>) = ctl s"
  "ctl (s\<lparr>maclist := fl\<rparr>) = ctl s"
  "ctl (s\<lparr>warn_global := b\<rparr>) = ctl s"
  "ctl (s\<lparr>as_warn := b\<rparr>) = ctl s"
  "ctl (s\<lparr>warn_semaphore := w\<rparr>) = ctl s"
  by (simp_all add: ctl_def upd_sym_def set_off_def set_data_def)

text \<open>A run that keeps the control part if it returns, and never runs out of fuel.\<close>

definition keeps :: "'a trans_scheme \<Rightarrow> stop + 'a trans_scheme \<Rightarrow> bool" where
  "keeps s m \<longleftrightarrow> (case m of Inl e \<Rightarrow> e \<noteq> NoFuel | Inr t \<Rightarrow> ctl t = ctl s)"

lemma keeps_simps [simp]:
  "keeps s (Inl e) \<longleftrightarrow> e \<noteq> NoFuel"
  "keeps s (Inr t) \<longleftrightarrow> ctl t = ctl s"
  by (simp_all add: keeps_def)

lemma keeps_bind:
  "\<lbrakk>keeps s m; \<And>t. \<lbrakk>m = Inr t; ctl t = ctl s\<rbrakk> \<Longrightarrow> keeps s (f t)\<rbrakk> \<Longrightarrow> keeps s (bindE m f)"
  by (cases m) simp_all

text \<open>A first part that delivers something else than a state.\<close>

lemma keeps_bind_value:
  "\<lbrakk>m \<noteq> Inl NoFuel; \<And>x. m = Inr x \<Longrightarrow> keeps s (f x)\<rbrakk> \<Longrightarrow> keeps s (bindE m f)"
  by (cases m) auto

lemma keeps_bind_pair:
  "\<lbrakk>m \<noteq> Inl NoFuel; \<And>x y. m = Inr (x, y) \<Longrightarrow> keeps s (f (x, y))\<rbrakk> \<Longrightarrow> keeps s (bindE m f)"
  by (cases m) auto

lemma keeps_ctl: "ctl t = ctl s \<Longrightarrow> keeps t m = keeps s m"
  by (cases m) simp_all

lemma ctl_expundefined [simp]: "ctl (expundefined s) = ctl s"
  by (simp add: expundefined_def)

lemma ctl_ops [simp]:
  "ctl (chkabs s) = ctl s" "ctl (experror m s) = ctl s" "ctl (showrelbad s) = ctl s"
  "ctl (checkdatabounds s) = ctl s" "ctl (datatoobig s) = ctl s" "ctl (getcomma s) = ctl s"
  by (simp_all add: chkabs_def experror_def showrelbad_def checkdatabounds_def datatoobig_def getcomma_def)

text \<open>
  The rules below have the form \<open>ctl u = ctl s \<Longrightarrow> keeps s (f u)\<close>, so that they chain
  along the binds of a handler.
\<close>

named_theorems keeps_intros

lemma keeps_expres [keeps_intros]: "ctl u = ctl s \<Longrightarrow> keeps s (expres u)"
  using good_run(1) [of u] by (cases "expres u") (auto simp: expr_step_def dest: ctl_of_more)

lemma keeps_exprs [keeps_intros]:
  "ctl u = ctl s \<Longrightarrow> keeps s (absexpres u)"
  "ctl u = ctl s \<Longrightarrow> keeps s (nonimpexpres u)"
  "ctl u = ctl s \<Longrightarrow> keeps s (symabsexpres u)"
  "ctl u = ctl s \<Longrightarrow> keeps s (symexpres u)"
  by (auto simp: absexpres_def nonimpexpres_def symabsexpres_def symexpres_def
      intro!: keeps_bind keeps_expres)

lemma keeps_find_rparen: "find_rparen j s = Inr (k, t) \<Longrightarrow> expr.more t = expr.more s"
proof (induction j s arbitrary: k t rule: find_rparen.induct)
  case (1 j s)
  define s1 where "s1 = (if rdch (srcbuf s) j = 0 \<or> rdch (srcbuf s) j = 0x2C
      then experror RPEXP (s\<lparr>symname := j\<rparr>) else s)"
  have "expr.more s1 = expr.more s"
    by (simp add: s1_def experror_def expundefined_def set_data_def)
  moreover have "find_rparen j s = (if rdch (srcbuf s) j = 0x29 then Inr (j, s)
      else if length (srcbuf s) \<le> j then Inl OutOfBounds else find_rparen (Suc j) s1)"
    unfolding s1_def by (subst find_rparen.simps) (simp only: Let_def)
  ultimately show ?case
    using "1.IH" [OF _ s1_def, of k t] "1.prems" by (simp split: if_splits)
qed

lemma find_rparen_fuel: "find_rparen j s \<noteq> Inl NoFuel"
proof (induction j s rule: find_rparen.induct)
  case (1 j s)
  then show ?case by (subst find_rparen.simps) (auto simp: Let_def)
qed

lemma match_strings_fuel: "match_strings buf i j \<noteq> Inl NoFuel"
proof (induction buf i j rule: match_strings.induct)
  case (1 buf i j)
  then show ?case by (subst match_strings.simps) auto
qed

lemma keeps_scompare [keeps_intros]: "ctl u = ctl s \<Longrightarrow> keeps s (scompare u)"
  by (auto simp: scompare_def Let_def match_strings_fuel find_rparen_fuel split: prod.split bool.split
      intro!: keeps_bind_pair dest!: keeps_find_rparen [THEN ctl_of_more])

lemma keeps_regchk: "regchk u = Inr (r, t) \<Longrightarrow> ctl t = ctl u"
  using regchk_more [of u r t] by (rule ctl_of_more)

lemma regchk_fuel: "regchk u \<noteq> Inl NoFuel"
  by (auto simp: regchk_def Let_def split: option.splits)

lemma needlabel_ctl: "needlabel u = Inr (r, t) \<Longrightarrow> ctl t = ctl u"
  by (auto simp: needlabel_def split: if_splits option.splits)

lemma needlabel_fuel: "needlabel u \<noteq> Inl NoFuel"
  by (auto simp: needlabel_def split: option.splits)

text \<open>The code generators.\<close>

lemma ctl_gen_upd [simp]:
  "ctl (s\<lparr>absbuf := x\<rparr>) = ctl s" "ctl (s\<lparr>objbuf := x\<rparr>) = ctl s" "ctl (s\<lparr>objfil := x\<rparr>) = ctl s"
  "ctl (s\<lparr>rmbcount := n\<rparr>) = ctl s" "ctl (s\<lparr>binmin := n\<rparr>) = ctl s" "ctl (s\<lparr>binmax := n\<rparr>) = ctl s"
  "ctl (s\<lparr>binfbuf := n\<rparr>) = ctl s" "ctl (s\<lparr>binpos := i\<rparr>) = ctl s" "ctl (s\<lparr>bindata := m\<rparr>) = ctl s"
  by (simp_all add: ctl_def)

lemma ctl_putobj1 [simp]: "ctl (putobj1 c s) = ctl s"
  by (simp add: putobj1_def flushobj_def Let_def)

lemma ctl_fold_putobj1 [simp]: "ctl (fold putobj1 bs s) = ctl s"
  by (induction bs arbitrary: s) simp_all

lemma ctl_putobjoffset [simp]: "ctl (putobjoffset v n s) = ctl s"
  by (simp add: putobjoffset_def Let_def)

lemma ctl_flush [simp]: "ctl (flushabs s) = ctl s" "ctl (flushrmb s) = ctl s"
  by (simp_all add: flushabs_def flushrmb_def Let_def)

lemma ctl_generators [simp]:
  "ctl (putobj c s) = ctl s" "ctl (putabs c s) = ctl s" "ctl (accumulate_rmb a s) = ctl s"
  "ctl (putbin c s) = ctl s"
  by (simp_all add: putobj_def putabs_def accumulate_rmb_def putbin_def Let_def)

text \<open>The parts of the machine instructions.\<close>

lemma ctl_fixupind [simp]: "ctl (fixupind s) = ctl s"
  by (simp add: fixupind_def)

lemma ctl_inderror [simp]: "ctl (inderror m s) = ctl s"
  by (simp add: inderror_def Let_def)

lemma ctl_direct_or_extended [simp]: "ctl (direct_or_extended b w s) = ctl s"
  by (simp add: direct_or_extended_def Let_def)

lemma ctl_branch [simp]: "ctl (reldata s) = ctl s" "ctl (mshort2 s) = ctl s" "ctl (minher s) = ctl s"
  by (simp_all add: reldata_def mshort2_def minher_def Let_def)

lemma indreg_ctl: "indreg m u = Inr (r, t) \<Longrightarrow> ctl t = ctl u"
  by (auto simp: indreg_def bindE_Inr_iff dest!: keeps_regchk split: if_splits)

lemma indreg_fuel: "indreg m u \<noteq> Inl NoFuel"
  using regchk_fuel [of u] by (auto simp: indreg_def bindE_def split: sum.splits)

lemma keeps_getindexnopost [keeps_intros]: "ctl u = ctl s \<Longrightarrow> keeps s (getindexnopost u)"
  by (auto simp: getindexnopost_def indreg_fuel intro!: keeps_bind_pair dest!: indreg_ctl)

lemma keeps_altind_expr [keeps_intros]: "ctl u = ctl s \<Longrightarrow> keeps s (altind_expr u)"
  by (auto simp: altind_expr_def Let_def indreg_fuel
      intro!: keeps_bind keeps_bind_pair keeps_expres dest!: indreg_ctl)

lemma keeps_altind_rest [keeps_intros]: "ctl u = ctl s \<Longrightarrow> keeps s (altind_rest u)"
  by (auto simp: altind_rest_def intro!: keeps_intros)

lemma keeps_malter [keeps_intros]: "ctl u = ctl s \<Longrightarrow> keeps s (malter u)"
  by (auto simp: malter_def doaltind_def Let_def indreg_fuel regchk_fuel
      intro!: keeps_bind_pair keeps_intros dest!: indreg_ctl keeps_regchk)

lemma keeps_mimmed [keeps_intros]: "ctl u = ctl s \<Longrightarrow> keeps s (mimmed u)"
  by (auto simp: mimmed_def Let_def intro!: keeps_bind keeps_intros)

lemma keeps_mall [keeps_intros]: "ctl u = ctl s \<Longrightarrow> keeps s (mall u)"
  by (auto simp: mall_def intro!: keeps_intros)

lemma keeps_mshort [keeps_intros]: "ctl u = ctl s \<Longrightarrow> keeps s (mshort u)"
  by (auto simp: mshort_def intro!: keeps_bind keeps_intros)

text \<open>The parts of the pseudo-operations.\<close>

lemma ctl_labelerror [simp]: "ctl (labelerror m s) = ctl s"
  by (simp add: labelerror_def)

lemma ctl_illegal_label [simp]: "ctl (illegal_label s) = ctl s"
  by (simp add: illegal_label_def)

lemma ctl_checksegrel: "checksegrel r u = (b, t) \<Longrightarrow> ctl t = ctl u"
  by (auto simp: checksegrel_def Let_def split: if_splits)

lemma keeps_showlabel [keeps_intros]: "ctl u = ctl s \<Longrightarrow> keeps s (showlabel u)"
  by (auto simp: showlabel_def Let_def split: option.split)

lemma keeps_showredefinedlabel [keeps_intros]: "ctl u = ctl s \<Longrightarrow> keeps s (showredefinedlabel u)"
  by (auto simp: showredefinedlabel_def intro!: keeps_bind keeps_intros split: option.split)

lemma keeps_docomm [keeps_intros]: "ctl u = ctl s \<Longrightarrow> keeps s (docomm u)"
  by (auto simp: docomm_def Let_def intro!: keeps_bind keeps_intros
      dest!: ctl_checksegrel split: option.split prod.split)

lemma keeps_doequset [keeps_intros]: "ctl u = ctl s \<Longrightarrow> keeps s (doequset b u)"
  by (auto simp: doequset_def Let_def intro!: keeps_bind keeps_intros split: option.split)

lemma keeps_bumpsem: "bumpsem fl d u = Inr (fl', t) \<Longrightarrow> ctl t = ctl u" for u :: "'a trans_scheme"
  using keeps_exprs(1) [of u u]
  by (auto simp: bumpsem_def bindE_Inr_iff Let_def split: if_splits prod.splits)

lemma bumpsem_fuel: "bumpsem fl d u \<noteq> Inl NoFuel" for u :: "'a trans_scheme"
  using keeps_exprs(1) [of u u]
  by (auto simp: bumpsem_def bindE_def Let_def split: sum.splits if_splits prod.splits)

section \<open>The loops end\<close>

lemma needlabel_scan:
  "needlabel u = Inr (r, t) \<Longrightarrow> srcbuf t = srcbuf u \<and> lineptr t = lineptr u"
  by (auto simp: needlabel_def split: if_splits option.splits)

text \<open>The names of a declaration: one unit of fuel per comma is enough.\<close>

lemma name_list_fuel:
  assumes f: "\<And>r s. srcbuf (f r s) = srcbuf s \<and> lineptr (f r s) = lineptr s"
    and n: "length (srcbuf s) - lineptr s < n"
  shows "name_list f n s \<noteq> Inl NoFuel"
  using n
proof (induction n arbitrary: s)
  case 0
  then show ?case by simp
next
  case (Suc n)
  show ?case
  proof (cases "needlabel s")
    case (Inl e)
    then show ?thesis using needlabel_fuel [of s] by auto
  next
    case (Inr a)
    obtain r s1 where a: "a = (r, s1)" by (cases a)
    define s2 where "s2 = (case r of None \<Rightarrow> s1 | Some symptr \<Rightarrow> f symptr s1)"
    have s2: "srcbuf s2 = srcbuf s" "lineptr s2 = lineptr s"
      using f needlabel_scan [of s r s1] Inr a by (auto simp: s2_def split: option.split)
    have "name_list f n (getsym (getsym s2)) \<noteq> Inl NoFuel" if "sym (getsym s2) = COMMA"
      using getsym_comma_measure [OF that] s2 Suc.prems by (intro Suc.IH) simp
    then show ?thesis by (simp add: Inr a Let_def flip: s2_def)
  qed
qed

lemma name_list_ctl:
  fixes s :: "'a trans_scheme"
  assumes f: "\<And>r s :: 'a trans_scheme. ctl (f r s) = ctl s"
  shows "name_list f n s = Inr t \<Longrightarrow> ctl t = ctl s"
proof (induction n arbitrary: s)
  case 0
  then show ?case by simp
next
  case (Suc n)
  then obtain r s1 where s1: "needlabel s = Inr (r, s1)" by (auto simp: bindE_Inr_iff)
  then show ?case
    using Suc.prems Suc.IH [of "getsym (getsym (case r of None \<Rightarrow> s1 | Some symptr \<Rightarrow> f symptr s1))"]
      needlabel_ctl [OF s1] f
    by (auto simp: Let_def split: if_splits option.splits)
qed

lemma ctl_names [simp]:
  "ctl (entexp_name e i r s) = ctl s" "ctl (import_name r s) = ctl s"
  by (auto simp: entexp_name_def import_name_def Let_def split: prod.split bool.split dest!: ctl_checksegrel)

lemma scan_names:
  "srcbuf (entexp_name e i r s) = srcbuf s \<and> lineptr (entexp_name e i r s) = lineptr s"
  "srcbuf (import_name r s) = srcbuf s \<and> lineptr (import_name r s) = lineptr s"
  by (simp_all add: entexp_name_def import_name_def checksegrel_def upd_sym_def Let_def)

lemma keeps_name_list:
  fixes s u :: "'a trans_scheme"
  assumes "ctl u = ctl s" and "\<And>r s :: 'a trans_scheme. ctl (f r s) = ctl s"
    and "\<And>r s. srcbuf (f r s) = srcbuf s \<and> lineptr (f r s) = lineptr s"
    and "length (srcbuf u) - lineptr u < n"
  shows "keeps s (name_list f n u)"
proof (cases "name_list f n u")
  case (Inl e)
  with name_list_fuel [OF assms(3,4)] show ?thesis by auto
next
  case (Inr t)
  then have "ctl t = ctl u" by (rule name_list_ctl [OF assms(2)])
  with Inr assms(1) show ?thesis by simp
qed

lemma keeps_doentexp [keeps_intros]: "ctl u = ctl s \<Longrightarrow> keeps s (doentexp e i u)"
  unfolding doentexp_def by (rule keeps_name_list) (simp_all add: scan_names)

lemma keeps_pimport [keeps_intros]: "ctl u = ctl s \<Longrightarrow> keeps s (pimport u)"
  unfolding pimport_def Let_def by (rule keeps_name_list) (simp_all add: scan_names)

text \<open>The operands of \<^verbatim>\<open>FCB\<close> and \<^verbatim>\<open>FDB\<close>: every round scans at least one symbol.\<close>

lemma left_symexprs:
  fixes s :: "'a expr_scheme"
  assumes "sym s = COMMA"
  shows "symexpres s = Inr t \<Longrightarrow> scanner.budget t < scanner.budget s"
    and "symabsexpres s = Inr t \<Longrightarrow> scanner.budget t < scanner.budget s"
proof -
  have g: "scanner.budget (getsym s) < scanner.budget s"
    using scanner.budget_next [of s] assms by simp
  have e: "scanner.budget v \<le> scanner.budget (getsym s)" if "expres (getsym s) = Inr v" for v
    using run_step(1) [OF that] by (simp add: expr_step_def)
  show "symexpres s = Inr t \<Longrightarrow> scanner.budget t < scanner.budget s"
    using g e [of t] by (simp add: symexpres_def)
  have c: "scanner.budget (chkabs v) = scanner.budget v" for v :: "'a expr_scheme"
    by (simp add: chkabs_def expundefined_def set_data_def scanner.budget_def)
  show "symabsexpres s = Inr t \<Longrightarrow> scanner.budget t < scanner.budget s"
    using g e by (auto simp: symabsexpres_def absexpres_def bindE_Inr_iff c)
qed

lemma budget_upd [simp]:
  "scanner.budget (s\<lparr>lcjump := v\<rparr>) = scanner.budget s" for s :: "'a gen_scheme"
  by (simp add: scanner.budget_def)

lemma budget_checkdatabounds [simp]: "scanner.budget (checkdatabounds s) = scanner.budget s"
  by (simp add: checkdatabounds_def datatoobig_def scanner.budget_def)

lemma budget_bound: "scanner.budget s < length (srcbuf s) - lineptr s + 2"
  by (simp add: scanner.budget_def)

lemma fcb_loop_keeps:
  fixes s u :: "'a trans_scheme"
  assumes "ctl u = ctl s" and "scanner.budget u < n"
  shows "fcb_loop n acc u \<noteq> Inl NoFuel \<and> (\<forall>acc' t. fcb_loop n acc u = Inr (acc', t) \<longrightarrow> ctl t = ctl s)"
  using assms
proof (induction n arbitrary: u acc)
  case 0
  then show ?case by simp
next
  case (Suc n)
  define s2 where "s2 = (checkdatabounds u)\<lparr>lcjump := mcount (checkdatabounds u) + 1\<rparr>"
  have s2: "ctl s2 = ctl s" "scanner.budget s2 = scanner.budget u" "sym s2 = sym (checkdatabounds u)"
    using Suc.prems by (simp_all add: s2_def)
  have k: "keeps s (symabsexpres s2)" using s2(1) by (rule keeps_exprs)
  have IH: "fcb_loop n acc1 v \<noteq> Inl NoFuel \<and> (\<forall>acc' t. fcb_loop n acc1 v = Inr (acc', t) \<longrightarrow> ctl t = ctl s)"
    if "sym s2 = COMMA" "symabsexpres s2 = Inr v" for v acc1
    using left_symexprs(2) [OF that] k that(2) s2(2) Suc.prems(2) by (intro Suc.IH) simp_all
  show ?case
    using k IH s2(1,3)
    by (cases "symabsexpres s2")
       (auto simp: Let_def put_fc_def simp flip: s2_def)
qed

lemma fdb_loop_keeps:
  fixes s u :: "'a trans_scheme"
  assumes "ctl u = ctl s" and "scanner.budget u < n"
  shows "fdb_loop n acc u \<noteq> Inl NoFuel \<and> (\<forall>acc' t. fdb_loop n acc u = Inr (acc', t) \<longrightarrow> ctl t = ctl s)"
  using assms
proof (induction n arbitrary: u acc)
  case 0
  then show ?case by simp
next
  case (Suc n)
  define s2 where "s2 = u\<lparr>lcjump := mcount u + 2\<rparr>"
  have s2: "ctl s2 = ctl s" "scanner.budget s2 = scanner.budget u" "sym s2 = sym u"
    using Suc.prems by (simp_all add: s2_def)
  have k: "keeps s (symexpres s2)" using s2(1) by (rule keeps_exprs)
  have IH: "fdb_loop n acc1 v \<noteq> Inl NoFuel \<and> (\<forall>acc' t. fdb_loop n acc1 v = Inr (acc', t) \<longrightarrow> ctl t = ctl s)"
    if "sym s2 = COMMA" "symexpres s2 = Inr v" for v acc1
    using left_symexprs(1) [OF that] k that(2) s2(2) Suc.prems(2) by (intro Suc.IH) simp_all
  show ?case
    using k IH s2
    by (cases "symexpres s2") (auto simp: Let_def simp flip: s2_def)
qed

definition fcc_good :: "'a errs_scheme \<Rightarrow> stop + nat \<times> byte list \<times> 'a errs_scheme \<Rightarrow> bool" where
  "fcc_good u m \<longleftrightarrow> (case m of Inl e \<Rightarrow> e \<noteq> NoFuel | Inr (q, acc, t) \<Rightarrow> errs.more t = errs.more u)"

lemma fcc_good_put:
  "(\<And>acc1. put_fc acc b = Inr acc1 \<Longrightarrow> fcc_good u (f acc1)) \<Longrightarrow> fcc_good u (bindE (put_fc acc b) f)"
  by (auto simp: put_fc_def fcc_good_def)

lemma fcc_loop_good: "fcc_good u (fcc_loop d p acc u)"
proof (induction d p acc u rule: fcc_loop.induct)
  case (1 d p acc s)
  obtain c q known where e: "fcc_escape (srcbuf s) (Suc p) = (c, q, known)" by (metis prod_cases3)
  let ?b = "rdch (srcbuf s) p"
  have more: "fcc_good (error m (s\<lparr>symname := k\<rparr>)) x \<longleftrightarrow> fcc_good s x" for m k x
    by (cases x) (auto simp: fcc_good_def)
  consider "length (srcbuf s) \<le> p \<or> ?b = EOLCHAR"
    | "\<not> length (srcbuf s) \<le> p" "?b \<noteq> EOLCHAR" "?b = d"
    | "\<not> length (srcbuf s) \<le> p" "?b \<noteq> EOLCHAR" "?b \<noteq> d" "?b = 0x5C"
    | "\<not> length (srcbuf s) \<le> p" "?b \<noteq> EOLCHAR" "?b \<noteq> d" "?b \<noteq> 0x5C"
    by blast
  then show ?case
  proof cases
    case 1
    then show ?thesis by (subst fcc_loop.simps) (auto simp: Let_def fcc_good_def)
  next
    case 2
    show ?thesis
      using 2 "1.IH"(1) [OF refl 2]
      by (subst fcc_loop.simps) (auto simp: Let_def fcc_good_def intro!: fcc_good_put [unfolded fcc_good_def])
  next
    case 3
    have "fcc_good s (fcc_loop d (Suc q) acc1
        (if known then s else error UNKNOWN_ESCAPE_SEQUENCE (s\<lparr>symname := q\<rparr>)))"
      if "put_fc acc c = Inr acc1" for acc1
      using "1.IH"(2) [OF refl 3 e [symmetric] refl that] by (cases known) (simp_all add: more)
    then have "fcc_good s (bindE (put_fc acc c) (\<lambda>acc1. fcc_loop d (Suc q) acc1
        (if known then s else error UNKNOWN_ESCAPE_SEQUENCE (s\<lparr>symname := q\<rparr>))))"
      by (rule fcc_good_put)
    then show ?thesis using 3 by (subst fcc_loop.simps) (simp add: Let_def e)
  next
    case 4
    have "fcc_good s (fcc_loop d (Suc p) acc1 (error CTLINS (s\<lparr>symname := p\<rparr>)))"
      if "0 \<le> sint ?b \<and> sint ?b < 0x20" "put_fc acc 0x20 = Inr acc1" for acc1
      using "1.IH"(3) [OF refl 4 that] by (simp add: more)
    moreover have "fcc_good s (fcc_loop d (Suc p) acc1 s)"
      if "\<not> (0 \<le> sint ?b \<and> sint ?b < 0x20)" "put_fc acc ?b = Inr acc1" for acc1
      using "1.IH"(4) [OF refl 4 that] .
    ultimately show ?thesis
      using 4 by (subst fcc_loop.simps) (simp only: Let_def if_False fcc_good_put split: if_split, blast intro: fcc_good_put)
  qed
qed

lemmas fcc_loop_keeps = fcc_loop_good [unfolded fcc_good_def]

lemma keeps_dofcc [keeps_intros]: "ctl u = ctl s \<Longrightarrow> keeps s (dofcc u)"
proof -
  assume u: "ctl u = ctl s"
  have more: "expr.more t = expr.more u" if "fcc_loop d p [] u = Inr (q, acc, t)" for d p q acc t
    using fcc_loop_keeps [of u d p "[]"] that expr_of_more(6) [of t u] by simp
  show ?thesis
    unfolding dofcc_def Let_def
  proof (rule keeps_bind_pair)
    show "fcc_loop d p [] u \<noteq> Inl NoFuel" for d p
      using fcc_loop_keeps [of u d p "[]"] by auto
  qed (use u ctl_of_more [OF more] in auto)
qed

lemma funpow_ctl:
  fixes f :: "'a trans_scheme \<Rightarrow> 'a trans_scheme"
  shows "(\<And>t. ctl (f t) = ctl t) \<Longrightarrow> ctl ((f ^^ n) s) = ctl s"
  by (induction n) simp_all

lemma keeps_constdata [keeps_intros]: "ctl u = ctl s \<Longrightarrow> keeps s (constdata k u)"
  by (auto simp: constdata_def Let_def funpow_ctl intro!: keeps_bind keeps_exprs)

section \<open>Handlers that keep the control part\<close>

lemma put_fc_fuel: "put_fc acc b \<noteq> Inl NoFuel"
  by (simp add: put_fc_def)

lemma keeps_handlers [keeps_intros]:
  "ctl u = ctl s \<Longrightarrow> keeps s (pfcc u)"
  "ctl u = ctl s \<Longrightarrow> keeps s (palign u)"
  "ctl u = ctl s \<Longrightarrow> keeps s (pblkw u)"
  "ctl u = ctl s \<Longrightarrow> keeps s (prmb u)"
  "ctl u = ctl s \<Longrightarrow> keeps s (pcomm u)"
  "ctl u = ctl s \<Longrightarrow> keeps s (plcomm u)"
  "ctl u = ctl s \<Longrightarrow> keeps s (pentry u)"
  "ctl u = ctl s \<Longrightarrow> keeps s (pexport u)"
  "ctl u = ctl s \<Longrightarrow> keeps s (pglobl u)"
  "ctl u = ctl s \<Longrightarrow> keeps s (pequ u)"
  "ctl u = ctl s \<Longrightarrow> keeps s (pset u)"
  "ctl u = ctl s \<Longrightarrow> keeps s (pmap u)"
  "ctl u = ctl s \<Longrightarrow> keeps s (porg u)"
  by (auto simp: pfcc_def palign_def pblkw_def prmb_def pcomm_def plcomm_def pentry_def pexport_def
      pglobl_def pequ_def pset_def pmap_def porg_def Let_def
      intro!: keeps_bind keeps_intros split: option.split)

lemma keeps_pasciz [keeps_intros]: "ctl u = ctl s \<Longrightarrow> keeps s (pasciz u)"
  unfolding pasciz_def
  by (rule keeps_bind, erule keeps_dofcc) (simp add: keeps_bind_value put_fc_fuel)

lemma keeps_switches [keeps_intros]:
  "ctl u = ctl s \<Longrightarrow> keeps s (plist u)"
  "ctl u = ctl s \<Longrightarrow> keeps s (pnolist u)"
  "ctl u = ctl s \<Longrightarrow> keeps s (pmaclist u)"
  "ctl u = ctl s \<Longrightarrow> keeps s (pwarn u)"
  by (auto simp: plist_def pnolist_def pmaclist_def pwarn_def bumpsem_fuel
      intro!: keeps_bind_pair dest!: keeps_bumpsem)

lemma fcb_loop_bind:
  fixes s t :: "'a trans_scheme"
  assumes "ctl t = ctl s" and "\<And>x y. ctl y = ctl s \<Longrightarrow> keeps s (f (x, y))"
  shows "keeps s (bindE (fcb_loop (length (srcbuf t) - lineptr t + 2) [] t) f)"
  using fcb_loop_keeps [OF assms(1) budget_bound, of "[]"] assms(2)
  by (intro keeps_bind_pair) blast+

lemma keeps_pfcb [keeps_intros]: "ctl u = ctl s \<Longrightarrow> keeps s (pfcb u)"
  unfolding pfcb_def by (rule keeps_bind, erule keeps_exprs(1), rule fcb_loop_bind) simp_all

lemma fdb_loop_bind:
  fixes s t :: "'a trans_scheme"
  assumes "ctl t = ctl s" and "\<And>x y. ctl y = ctl s \<Longrightarrow> keeps s (f (x, y))"
  shows "keeps s (bindE (fdb_loop (length (srcbuf t) - lineptr t + 2) [] t) f)"
  using fdb_loop_keeps [OF assms(1) budget_bound, of "[]"] assms(2)
  by (intro keeps_bind_pair) blast+

lemma keeps_pfdb [keeps_intros]: "ctl u = ctl s \<Longrightarrow> keeps s (pfdb u)"
  unfolding pfdb_def by (rule keeps_bind, erule keeps_expres, rule fdb_loop_bind) simp_all

lemma ctl_simple_handlers [simp]:
  "ctl (pelse s) = ctl s" "ctl (peven s) = ctl s" "ctl (penter s) = ctl s" "ctl (pfail s) = ctl s"
  by (simp_all add: pelse_def peven_def penter_def pfail_def Let_def)

lemma ctl_pident [simp]: "ctl (pident s) = ctl s"
proof -
  have "ctl ((getsym (s\<lparr>ifflag := False\<rparr>))\<lparr>ifflag := ifflag s\<rparr>) = ctl s" by (simp only: ctl_upd ctl_getsym)
  then show ?thesis by (simp add: pident_def getsym_nolookup_def)
qed

section \<open>The invariant\<close>

text \<open>
  The counters agree with the stacks and stay within the arrays behind them,
  the current location counter is one of the table, and the direct page, which
  only \<^verbatim>\<open>ENDB\<close> assigns, is page zero.
\<close>

fun ctl_ok :: "block_s list \<times> byte \<times> if_s list \<times> byte \<times> byte \<times> nat \<times> nat \<Rightarrow> bool" where
  "ctl_ok (bs, bl, is, il, dp, lp, n) \<longleftrightarrow>
     unat bl = length bs \<and> length bs \<le> 8 \<and> unat il = length is \<and> length is \<le> 8 \<and>
     dp = 0 \<and> (\<forall>b\<in>set bs. bl_dp b = 0) \<and> lp < n \<and> n = NLOC"

definition safe :: "stop + 'a trans_scheme \<Rightarrow> bool" where
  "safe m \<longleftrightarrow> (case m of Inl e \<Rightarrow> e \<noteq> NoFuel | Inr t \<Rightarrow> ctl_ok (ctl t))"

lemma safe_simps [simp]: "safe (Inl e) \<longleftrightarrow> e \<noteq> NoFuel" "safe (Inr t) \<longleftrightarrow> ctl_ok (ctl t)"
  by (simp_all add: safe_def)

lemma safe_bind: "\<lbrakk>safe m; \<And>t. \<lbrakk>m = Inr t; ctl_ok (ctl t)\<rbrakk> \<Longrightarrow> safe (f t)\<rbrakk> \<Longrightarrow> safe (bindE m f)"
  by (cases m) simp_all

lemma safe_keeps: "\<lbrakk>ctl_ok (ctl s); keeps s m\<rbrakk> \<Longrightarrow> safe m"
  by (cases m) simp_all

lemma word_Suc_byte: "unat (n :: byte) \<le> 8 \<Longrightarrow> unat (n + 1) = Suc (unat n)"
  using unat_add_lem [of n 1] by simp

lemma word_pred_byte: "(n :: byte) \<noteq> 0 \<Longrightarrow> unat (n - 1) = unat n - 1"
  by (simp add: unat_minus_one)

lemma safe_doif:
  assumes s: "ctl_ok (ctl s)" and f: "\<And>u. keeps u (func u)"
  shows "safe (doif func s)"
proof (cases "8 \<le> iflevel s")
  case True
  then show ?thesis using s by (simp add: doif_def)
next
  case False
  define s1 where "s1 = s\<lparr>iflevel := iflevel s + 1,
      ifstak := \<lparr>if_ifflag = ifflag s, if_elseflag = elseflag s\<rparr> # ifstak s, elseflag := False\<rparr>"
  have "unat (iflevel s) < 8" using False by (simp add: word_le_nat_alt)
  then have s1: "ctl_ok (ctl s1)"
    using s word_Suc_byte [of "iflevel s"] by (simp add: ctl_def s1_def)
  have "ctl (skip_to_eol s1) = ctl s1"
    using scan_of_more(7) [OF skip_to_eol_frame(5), of s1] expr_of_more(6) by (blast intro: ctl_of_more)
  then show ?thesis
    using False s1 f [of s1]
    by (cases "func s1") (auto simp: doif_def Let_def simp flip: s1_def)
qed

lemma safe_doelseif:
  assumes s: "ctl_ok (ctl s)" and f: "\<And>u. keeps u (func u)"
  shows "safe (doelseif func s)"
proof -
  let ?s1 = "s\<lparr>ifflag := False\<rparr>"
  have "ctl (skip_to_eol ?s1) = ctl ?s1"
    using scan_of_more(7) [OF skip_to_eol_frame(5), of ?s1] expr_of_more(6) by (blast intro: ctl_of_more)
  then show ?thesis
    using s f [of ?s1] by (cases "func ?s1") (auto simp: doelseif_def Let_def)
qed

lemma pendif_safe: "ctl_ok (ctl s) \<Longrightarrow> \<exists>t. pendif s = Inr t \<and> ctl_ok (ctl t)"
proof (cases "iflevel s = 0")
  case False
  assume s: "ctl_ok (ctl s)"
  with False have "ifstak s \<noteq> []" by (auto simp: ctl_def unat_eq_0 [symmetric])
  then obtain e r where "ifstak s = e # r" by (cases "ifstak s") auto
  with s False word_pred_byte [OF False] show ?thesis by (auto simp: pendif_def ctl_def)
qed (simp add: pendif_def)

lemma safe_pblock: "ctl_ok (ctl s) \<Longrightarrow> safe (pblock s)"
proof (cases "8 \<le> blocklevel s")
  case False
  assume s: "ctl_ok (ctl s)"
  define s1 where "s1 = s\<lparr>blocklevel := blocklevel s + 1,
      blockstak := \<lparr>bl_data = lcdata s, bl_dp = dirpag s, bl_lc = lc s\<rparr> # blockstak s\<rparr>"
  have "unat (blocklevel s) < 8" using False by (simp add: word_le_nat_alt)
  then have "ctl_ok (ctl s1)"
    using s word_Suc_byte [of "blocklevel s"] by (simp add: ctl_def s1_def)
  then have "safe (porg s1)" by (rule safe_keeps) (rule keeps_handlers, simp)
  with False show ?thesis by (simp add: pblock_def s1_def)
qed (simp add: pblock_def)

lemma pendb_safe: "ctl_ok (ctl s0) \<Longrightarrow> \<exists>t. pendb s0 = Inr t \<and> ctl_ok (ctl t)"
proof -
  define s where "s = illegal_label s0"
  assume "ctl_ok (ctl s0)"
  then have s: "ctl_ok (ctl s)" by (simp add: s_def)
  show ?thesis
  proof (cases "blocklevel s = 0")
    case True
    then show ?thesis using s by (simp add: pendb_def flip: s_def)
  next
    case False
    with s have "blockstak s \<noteq> []" by (auto simp: ctl_def unat_eq_0 [symmetric])
    then obtain e r where e: "blockstak s = e # r" by (cases "blockstak s") auto
    define s2 where "s2 = accumulate_rmb (bl_lc e - lc s) (s\<lparr>lcdata := bl_data e, dirpag := bl_dp e\<rparr>)"
    have "ctl s2 = ctl (s\<lparr>dirpag := bl_dp e\<rparr>)"
      unfolding s2_def ctl_generators by (simp add: ctl_def)
    then have "ctl_ok (ctl (s2\<lparr>lc := bl_lc e, blocklevel := blocklevel s2 - 1, blockstak := r\<rparr>))"
      using s e word_pred_byte [OF False] by (simp add: ctl_def)
    then show ?thesis
      using False e by (simp add: pendb_def Let_def flip: s_def s2_def)
  qed
qed

text \<open>Switching the location counter.\<close>

lemma safe_setloc: "ctl_ok (ctl s) \<Longrightarrow> safe (setloc seg s)"
proof -
  assume s: "ctl_ok (ctl s)"
  define s1 where "s1 = (if pass2 s \<and> seg \<noteq> ucast (lcdata s AND SEGM)
      then putobj (ucast (seg OR ucast OBJ_SET_SEG)) s else s)"
  have "ctl s1 = ctl s" by (simp add: s1_def)
  then show ?thesis
    using s by (auto simp: setloc_def Let_def ctl_def simp flip: s1_def)
qed

text \<open>The generators leave the scanner where it is.\<close>

definition scanpos :: "'a scan_scheme \<Rightarrow> byte list \<times> nat \<times> symcode" where
  "scanpos s = (srcbuf s, lineptr s, sym s)"

lemma scanpos_upd [simp]:
  "scanpos (s\<lparr>absbuf := x\<rparr>) = scanpos s" "scanpos (s\<lparr>rmbcount := n\<rparr>) = scanpos s"
  "scanpos (s\<lparr>objbuf := x\<rparr>) = scanpos s" "scanpos (s\<lparr>objfil := x\<rparr>) = scanpos s"
  by (simp_all add: scanpos_def)

lemma scanpos_putobj1 [simp]: "scanpos (putobj1 c s) = scanpos s"
  by (simp add: putobj1_def flushobj_def Let_def)

lemma scanpos_fold_putobj1 [simp]: "scanpos (fold putobj1 bs s) = scanpos s"
  by (induction bs arbitrary: s) simp_all

lemma scanpos_putobj [simp]: "scanpos (putobj c s) = scanpos s"
  by (simp add: putobj_def flushabs_def flushrmb_def putobjoffset_def Let_def)

lemma scanpos_setloc: "setloc seg s = Inr t \<Longrightarrow> scanpos t = scanpos s"
proof -
  assume r: "setloc seg s = Inr t"
  define s1 where "s1 = (if pass2 s \<and> seg \<noteq> ucast (lcdata s AND SEGM)
      then putobj (ucast (seg OR ucast OBJ_SET_SEG)) s else s)"
  have "scanpos s1 = scanpos s" by (simp add: s1_def)
  moreover have "scanpos t = scanpos s1"
    using r by (auto simp: setloc_def Let_def scanpos_def simp flip: s1_def split: if_splits)
  ultimately show ?thesis by simp
qed

lemma budget_scanpos: "scanpos t = scanpos s \<Longrightarrow> scanner.budget t = scanner.budget s"
  by (simp add: scanpos_def scanner.budget_def)

lemma sect_name_good:
  "ctl_ok (ctl s) \<Longrightarrow> safe (sect_name r s) \<and> (\<forall>t. sect_name r s = Inr t \<longrightarrow> scanpos t = scanpos s)"
  using scanpos_setloc
  by (auto simp: sect_name_def pbss_def pdata_def ptext_def Let_def scanpos_def
      intro!: safe_setloc split: if_splits)

lemma sect_loop_safe:
  assumes "ctl_ok (ctl s)" and "scanner.budget s < n"
  shows "safe (sect_loop n s)"
  using assms
proof (induction n arbitrary: s)
  case 0
  then show ?case by simp
next
  case (Suc n)
  show ?case
  proof (cases "sym s = IDENT")
    case False
    then show ?thesis using Suc.prems(1) by simp
  next
    case ident: True
    show ?thesis
    proof (cases "gsymptr s")
      case None
      then show ?thesis using ident by simp
    next
      case (Some r)
      have "safe (bindE (sect_name r s) (\<lambda>s1.
          let s2 = getsym s1; s3 = (if sym s2 = COMMA then getsym s2 else s2) in sect_loop n s3))"
      proof (rule safe_bind)
        show "safe (sect_name r s)" using sect_name_good Suc.prems(1) by blast
      next
        fix s1
        assume s1: "sect_name r s = Inr s1" "ctl_ok (ctl s1)"
        then have sp: "scanpos s1 = scanpos s" using sect_name_good Suc.prems(1) by blast
        let ?s3 = "if sym (getsym s1) = COMMA then getsym (getsym s1) else getsym s1"
        have "scanner.budget (getsym s1) < scanner.budget s"
          using scanner.budget_next [of s1] sp ident budget_scanpos [OF sp] by (simp add: scanpos_def)
        then have "scanner.budget ?s3 < scanner.budget s"
          using scanner.budget_next [of "getsym s1"] by auto
        then have "safe (sect_loop n ?s3)" using s1(2) Suc.prems(2) by (intro Suc.IH) auto
        then show "safe (let s2 = getsym s1; s3 = (if sym s2 = COMMA then getsym s2 else s2) in sect_loop n s3)"
          by (simp only: Let_def)
      qed
      then show ?thesis using ident Some by simp
    qed
  qed
qed

lemma keeps_comm1_body [keeps_intros]: "ctl u = ctl s \<Longrightarrow> keeps s (comm1_body u)"
  by (auto simp: comm1_body_def Let_def needlabel_fuel intro!: keeps_bind_pair keeps_intros
      split: option.split prod.split bool.split dest!: needlabel_ctl ctl_checksegrel)

lemma safe_locations:
  assumes "ctl_ok (ctl s)"
  shows "safe (pbss s)" "safe (pdata s)" "safe (ptext s)" "safe (ploc s)" "safe (psect s)"
    "safe (pcomm1 s)" "safe (plcomm1 s)"
proof -
  have c: "safe (pcomm1 u)" if "ctl_ok (ctl u)" for u :: "'b trans_scheme"
    unfolding pcomm1_def Let_def
  proof (rule safe_bind)
    show "safe (setloc BSSLOC (illegal_label u))" using that by (simp add: safe_setloc)
  next
    fix t :: "'b trans_scheme"
    assume "ctl_ok (ctl t)"
    then have "safe (comm1_body t)" by (rule safe_keeps) (rule keeps_comm1_body, rule refl)
    then show "safe (bindE (comm1_body t) (setloc seg))" for seg
      by (rule safe_bind) (rule safe_setloc)
  qed
  show "safe (pbss s)" "safe (pdata s)" "safe (ptext s)"
    using assms by (simp_all add: pbss_def pdata_def ptext_def safe_setloc)
  have "safe (absexpres (illegal_label s))"
    using assms by (intro safe_keeps [of s] keeps_exprs) simp_all
  then show "safe (ploc s)"
    using assms by (auto simp: ploc_def intro!: safe_bind safe_setloc)
  show "safe (psect s)"
    unfolding psect_def Let_def using assms by (intro sect_loop_safe) (simp_all only: budget_bound ctl_illegal_label)
  show "safe (pcomm1 s)" "safe (plcomm1 s)"
    using assms by (simp_all add: c plcomm1_def)
qed

end
