(* ===== verification/Pops_Spec.thy ===== *)
theory Pops_Spec
  imports Pops_Props
begin

text \<open>
  Abstract views of three groups of pseudo-operations and the proofs that the
  handlers implement them: nested conditionals, the location counters of the
  segments with the blocks, and the definition of symbols.
\<close>

section \<open>Conditionals\<close>

text \<open>
  One frame per open \<^verbatim>\<open>IF\<close>: whether the text around it is assembled, whether one
  of its branches has been chosen, and whether the present branch is the chosen
  one.
\<close>

record frame =
  fr_parent :: bool
  fr_taken :: bool
  fr_active :: bool

definition active :: "frame list \<Rightarrow> bool" where
  "active fs = (case fs of [] \<Rightarrow> True | f # _ \<Rightarrow> fr_active f)"

definition if_step :: "bool \<Rightarrow> frame list \<Rightarrow> frame list" where
  "if_step c fs = \<lparr>fr_parent = active fs, fr_taken = c, fr_active = active fs \<and> c\<rparr> # fs"

fun elseif_step :: "bool \<Rightarrow> frame list \<Rightarrow> frame list" where
  "elseif_step c [] = []"
| "elseif_step c (f # fs) =
     f\<lparr>fr_taken := fr_taken f \<or> c, fr_active := fr_parent f \<and> \<not> fr_taken f \<and> c\<rparr> # fs"

fun else_step :: "frame list \<Rightarrow> frame list" where
  "else_step [] = []"
| "else_step (f # fs) = f\<lparr>fr_taken := True, fr_active := fr_parent f \<and> \<not> fr_taken f\<rparr> # fs"

text \<open>Frames as they arise: a chosen branch lies in assembled text and is marked as taken.\<close>

fun frames_ok :: "frame list \<Rightarrow> bool" where
  "frames_ok [] \<longleftrightarrow> True"
| "frames_ok (f # fs) \<longleftrightarrow>
     fr_parent f = active fs \<and> (fr_active f \<longrightarrow> fr_parent f \<and> fr_taken f) \<and> frames_ok fs"

text \<open>The flag \<^verbatim>\<open>elseflag\<close>: another branch may still be chosen.\<close>

definition open_else :: "frame list \<Rightarrow> bool" where
  "open_else fs = (case fs of [] \<Rightarrow> False | f # _ \<Rightarrow> fr_parent f \<and> \<not> fr_taken f)"

fun saved_flags :: "frame list \<Rightarrow> if_s list" where
  "saved_flags [] = []"
| "saved_flags (f # fs) = \<lparr>if_ifflag = active fs, if_elseflag = open_else fs\<rparr> # saved_flags fs"

definition cond_rel :: "frame list \<Rightarrow> 'a trans_scheme \<Rightarrow> bool" where
  "cond_rel fs s \<longleftrightarrow>
     frames_ok fs \<and> length fs \<le> 8 \<and> ifflag s = active fs \<and> elseflag s = open_else fs \<and>
     ifstak s = saved_flags fs \<and> unat (iflevel s) = length fs"

lemma active_all: "frames_ok fs \<Longrightarrow> active fs \<longleftrightarrow> (\<forall>f\<in>set fs. fr_active f)"
  by (induction fs) (auto simp: active_def)

text \<open>The operand routines of the conditionals leave the conditional state alone.\<close>

definition quiet :: "('a trans_scheme \<Rightarrow> stop + 'a trans_scheme) \<Rightarrow> bool" where
  "quiet func \<longleftrightarrow> (\<forall>s t. func s = Inr t \<longrightarrow> ifflag t = ifflag s \<and> expr.more t = expr.more s)"

lemma quiet_ops [simp]:
  "ifflag (experror m v) = ifflag v" "expr.more (experror m v) = expr.more v"
  "ifflag (set_off x v) = ifflag v" "expr.more (set_off x v) = expr.more v"
  "ifflag (set_data d v) = ifflag v" "expr.more (set_data d v) = expr.more v"
  "ifflag (chkabs v) = ifflag v" "expr.more (chkabs v) = expr.more v"
  by (simp_all add: experror_def expundefined_def set_data_def set_off_def chkabs_def)

lemma quiet_absexpres: "quiet absexpres"
  by (auto simp: quiet_def absexpres_def bindE_Inr_iff expr_step_def dest!: run_step(1))

lemma find_rparen_ifflag: "find_rparen j s = Inr (k, t) \<Longrightarrow> ifflag t = ifflag s"
proof (induction j s arbitrary: k t rule: find_rparen.induct)
  case (1 j s)
  define s1 where "s1 = (if rdch (srcbuf s) j = 0 \<or> rdch (srcbuf s) j = 0x2C
      then experror RPEXP (s\<lparr>symname := j\<rparr>) else s)"
  have "ifflag s1 = ifflag s"
    by (simp add: s1_def experror_def expundefined_def set_data_def)
  moreover have "find_rparen j s = (if rdch (srcbuf s) j = 0x29 then Inr (j, s)
      else if length (srcbuf s) \<le> j then Inl OutOfBounds else find_rparen (Suc j) s1)"
    unfolding s1_def by (subst find_rparen.simps) (simp only: Let_def)
  ultimately show ?case
    using "1.IH" [OF _ s1_def, of k t] "1.prems" by (simp split: if_splits)
qed

lemma find_rparen_quiet:
  "find_rparen j s = Inr (k, t) \<Longrightarrow> ifflag t = ifflag s \<and> expr.more t = expr.more s"
  using find_rparen_ifflag keeps_find_rparen by blast

lemma quiet_scompare: "quiet scompare"
  unfolding quiet_def
  by (auto simp: scompare_def Let_def bindE_Inr_iff split: if_splits prod.splits bool.splits
      dest!: find_rparen_quiet)

lemma quiet_trans:
  assumes "quiet func" and "func s = Inr t"
  shows "ifflag t = ifflag s" "elseflag t = elseflag s" "ifstak t = ifstak s" "iflevel t = iflevel s"
proof -
  have m: "ifflag t = ifflag s" "expr.more t = expr.more s" using assms by (auto simp: quiet_def)
  then show "ifflag t = ifflag s" "elseflag t = elseflag s" "ifstak t = ifstak s" "iflevel t = iflevel s"
    using trans_of_more [OF bin_of_more(4) [OF gen_of_more(19) [OF m(2)]]] by auto
qed

lemma skip_to_eol_trans:
  fixes s :: "'a trans_scheme"
  shows "elseflag (skip_to_eol s) = elseflag s" "ifstak (skip_to_eol s) = ifstak s"
    "iflevel (skip_to_eol s) = iflevel s"
  using trans_of_more [OF bin_of_more(4) [OF gen_of_more(19) [OF expr_of_more(6)
      [OF scan_of_more(7) [OF skip_to_eol_frame(5) [of s]]]]]] by auto

text \<open>What the operand decided, for \<^verbatim>\<open>IF\<close> and for \<^verbatim>\<open>ELSEIF\<close>: they differ on an undefined one.\<close>

definition if_true :: "'a expr_scheme \<Rightarrow> bool" where
  "if_true t \<longleftrightarrow> has (ldata t) UNDBIT \<or> loff t \<noteq> 0"

definition elseif_true :: "'a expr_scheme \<Rightarrow> bool" where
  "elseif_true t \<longleftrightarrow> \<not> has (ldata t) UNDBIT \<and> loff t \<noteq> 0"

lemma doif_refines:
  assumes r: "cond_rel fs s" and n: "length fs < 8" and q: "quiet func" and run: "doif func s = Inr t"
  shows "cond_rel (if_step (if_true t) fs) t"
proof -
  define s1 where "s1 = s\<lparr>iflevel := iflevel s + 1,
      ifstak := \<lparr>if_ifflag = ifflag s, if_elseflag = elseflag s\<rparr> # ifstak s, elseflag := False\<rparr>"
  have lev: "\<not> 8 \<le> iflevel s" "unat (iflevel s + 1) = Suc (length fs)"
    using r n word_Suc_byte [of "iflevel s"] by (simp_all add: cond_rel_def word_le_nat_alt)
  show ?thesis
  proof (cases "ifflag s")
    case True
    then obtain u where u: "func s1 = Inr u"
      and t: "t = (if \<not> has (ldata u) UNDBIT \<and> loff u = 0 then u\<lparr>ifflag := False, elseflag := True\<rparr> else u)"
      using run lev(1) by (auto simp: doif_def Let_def bindE_Inr_iff s1_def)
    show ?thesis
      using quiet_trans [OF q u] t True r lev(2) n
      by (auto simp: cond_rel_def if_step_def if_true_def s1_def active_def open_else_def)
  next
    case False
    then have "t = skip_to_eol s1" using run lev(1) by (simp add: doif_def Let_def s1_def)
    then show ?thesis
      using False r lev(2) n skip_to_eol_trans [of s1]
      by (auto simp: cond_rel_def if_step_def s1_def active_def open_else_def)
  qed
qed

lemma doelseif_refines:
  assumes r: "cond_rel (f # fs) s" and q: "quiet func" and run: "doelseif func s = Inr t"
  shows "cond_rel (elseif_step (elseif_true t) (f # fs)) t"
proof -
  have lev: "iflevel s \<noteq> 0" using r by (auto simp: cond_rel_def)
  show ?thesis
  proof (cases "elseflag s")
    case True
    then obtain u where u: "func (s\<lparr>ifflag := False\<rparr>) = Inr u"
      and t: "t = (if \<not> has (ldata u) UNDBIT \<and> loff u \<noteq> 0 then u\<lparr>ifflag := True, elseflag := False\<rparr> else u)"
      using run lev by (auto simp: doelseif_def Let_def bindE_Inr_iff)
    show ?thesis
      using quiet_trans [OF q u] t True r
      by (auto simp: cond_rel_def elseif_true_def active_def open_else_def)
  next
    case False
    then have "t = skip_to_eol (s\<lparr>ifflag := False\<rparr>)" using run lev by (simp add: doelseif_def Let_def)
    then show ?thesis
      using False r skip_to_eol_trans [of "s\<lparr>ifflag := False\<rparr>"]
      by (auto simp: cond_rel_def active_def open_else_def)
  qed
qed

lemma doif_full:
  assumes "cond_rel fs s" and "\<not> length fs < 8"
  shows "doif func s = Inr (error IFOV s)"
  using assms by (simp add: doif_def cond_rel_def word_le_nat_alt)

lemma doelseif_unmatched: "cond_rel [] s \<Longrightarrow> doelseif func s = Inr (error ELSEBAD s)"
  by (simp add: doelseif_def cond_rel_def unat_eq_0)

lemma pelse_refines:
  "cond_rel fs s \<Longrightarrow> if fs \<noteq> [] then cond_rel (else_step fs) (pelse s) else pelse s = error ELSEBAD s"
  by (cases fs) (auto simp: cond_rel_def pelse_def active_def open_else_def unat_eq_0)

lemma pendif_refines:
  assumes "cond_rel fs s"
  shows "if fs \<noteq> [] then \<exists>t. pendif s = Inr t \<and> cond_rel (tl fs) t else pendif s = Inr (error ELSEBAD s)"
proof (cases fs)
  case Nil
  then show ?thesis using assms by (simp add: cond_rel_def pendif_def unat_eq_0)
next
  case (Cons f gs)
  then have "iflevel s \<noteq> 0" using assms by (auto simp: cond_rel_def)
  with Cons assms word_pred_byte [OF this] show ?thesis by (simp add: cond_rel_def pendif_def)
qed

text \<open>
  C16: nested conditionals choose branches as the abstract machine does.  A
  line is assembled exactly when the present branch of every open \<^verbatim>\<open>IF\<close> is the
  chosen one; \<^verbatim>\<open>IF\<close> and \<^verbatim>\<open>IFC\<close> open a frame with the outcome of the operand,
  \<^verbatim>\<open>ELSEIF\<close> and \<^verbatim>\<open>ELSEIFC\<close> choose their branch only if none was chosen before and
  the text around is assembled, \<^verbatim>\<open>ELSE\<close> chooses the last one under the same
  condition, and \<^verbatim>\<open>ENDIF\<close> returns to the enclosing frame.  A ninth level and an
  operation without an open \<^verbatim>\<open>IF\<close> only report an error.
\<close>

theorem conditionals_select:
  assumes "cond_rel fs s"
  shows "(ifflag s \<longleftrightarrow> (\<forall>f\<in>set fs. fr_active f)) \<and>
    (\<forall>t. pif s = Inr t \<or> pifc s = Inr t \<longrightarrow>
       (if length fs < 8 then cond_rel (if_step (if_true t) fs) t else t = error IFOV s)) \<and>
    (\<forall>t. pelseif s = Inr t \<or> pelsifc s = Inr t \<longrightarrow>
       (if fs \<noteq> [] then cond_rel (elseif_step (elseif_true t) fs) t else t = error ELSEBAD s)) \<and>
    (if fs \<noteq> [] then cond_rel (else_step fs) (pelse s) else pelse s = error ELSEBAD s) \<and>
    (if fs \<noteq> [] then \<exists>t. pendif s = Inr t \<and> cond_rel (tl fs) t else pendif s = Inr (error ELSEBAD s))"
proof -
  have "ifflag s \<longleftrightarrow> (\<forall>f\<in>set fs. fr_active f)"
    using assms active_all [of fs] by (simp add: cond_rel_def)
  moreover have "if length fs < 8 then cond_rel (if_step (if_true t) fs) t else t = error IFOV s"
    if "pif s = Inr t \<or> pifc s = Inr t" for t
    using that doif_refines [OF assms _ quiet_absexpres, of t] doif_refines [OF assms _ quiet_scompare, of t]
      doif_full [OF assms]
    by (auto simp: pif_def pifc_def)
  moreover have "if fs \<noteq> [] then cond_rel (elseif_step (elseif_true t) fs) t else t = error ELSEBAD s"
    if "pelseif s = Inr t \<or> pelsifc s = Inr t" for t
  proof (cases fs)
    case Nil
    then show ?thesis using that assms doelseif_unmatched [of s] by (auto simp: pelseif_def pelsifc_def)
  next
    case (Cons f gs)
    then show ?thesis
      using that doelseif_refines [OF assms [unfolded Cons] quiet_absexpres, of t]
        doelseif_refines [OF assms [unfolded Cons] quiet_scompare, of t]
      by (auto simp: pelseif_def pelsifc_def simp del: elseif_step.simps)
  qed
  ultimately show ?thesis
    using pelse_refines [OF assms] pendif_refines [OF assms] by blast
qed

theorem conditionals_select_witness:
  "cond_rel (if_step (if_true (projr (pif (operand_at ''0'' 0)))) []) (projr (pif (operand_at ''0'' 0)))"
proof -
  have "ifflag (operand_at ''0'' 0)" "\<not> elseflag (operand_at ''0'' 0)" "ifstak (operand_at ''0'' 0) = []"
    "iflevel (operand_at ''0'' 0) = 0" "\<not> isl (pif (operand_at ''0'' 0))"
    by code_simp+
  note s = this
  have "cond_rel [] (operand_at ''0'' 0)"
    using s(1-4) by (simp add: cond_rel_def active_def open_else_def)
  moreover have "pif (operand_at ''0'' 0) = Inr (projr (pif (operand_at ''0'' 0)))"
    using s(5) by (rule sum.collapse(2) [symmetric])
  ultimately show ?thesis
    using conditionals_select [of "[]" "operand_at ''0'' 0"] by (metis (no_types) length_0_conv zero_less_numeral)
qed

section \<open>Location counters\<close>

text \<open>
  The counter of a segment: the current one is in \<^verbatim>\<open>lc\<close> and \<^verbatim>\<open>lcdata\<close>, the others
  are in the table.  The segment number that is kept with the flags is not part
  of it.
\<close>

definition counter :: "nat \<Rightarrow> 'a trans_scheme \<Rightarrow> u64 \<times> byte" where
  "counter k s =
     (if k = lcptr s then (lc s, lcdata s AND NOT SEGM)
      else (lc_lc (lctab s ! k), lc_data (lctab s ! k) AND NOT SEGM))"

lemma putobj_counters:
  "lc (putobj c s) = lc s \<and> lcdata (putobj c s) = lcdata s \<and> lctab (putobj c s) = lctab s \<and>
   lcptr (putobj c s) = lcptr s"
proof -
  have one: "lc (putobj1 c s) = lc s" "lcdata (putobj1 c s) = lcdata s" "lctab (putobj1 c s) = lctab s"
    "lcptr (putobj1 c s) = lcptr s" for c and s :: "'a trans_scheme"
    by (simp_all add: putobj1_def flushobj_def Let_def)
  have fold: "lc (fold putobj1 bs s) = lc s" "lcdata (fold putobj1 bs s) = lcdata s"
    "lctab (fold putobj1 bs s) = lctab s" "lcptr (fold putobj1 bs s) = lcptr s"
    for bs and s :: "'a trans_scheme"
    by (induction bs arbitrary: s) (simp_all add: one)
  have "lc (putobjoffset v n s) = lc s" "lcdata (putobjoffset v n s) = lcdata s"
    "lctab (putobjoffset v n s) = lctab s" "lcptr (putobjoffset v n s) = lcptr s"
    for v n and s :: "'a trans_scheme"
    by (simp_all add: putobjoffset_def Let_def one)
  then show ?thesis
    by (simp add: putobj_def flushabs_def flushrmb_def Let_def one fold)
qed

text \<open>
  C17: switching segments loses no location counter.  For a segment of the
  table, \<^verbatim>\<open>setloc\<close> returns, leaves the counter of every segment as it was, and
  makes the chosen one the current one, for the object and for the binary file.
\<close>

theorem setloc_counters:
  assumes "lcptr s < NLOC" and "length (lctab s) = NLOC" and "unat seg < NLOC"
  shows "\<exists>t. setloc seg s = Inr t \<and> (\<forall>k<NLOC. counter k t = counter k s) \<and>
    lcptr t = unat seg \<and> lcdata t AND SEGM = ucast seg \<and>
    lc t = fst (counter (unat seg) s) \<and> binmbuf t = lc t"
proof -
  define s1 where "s1 = (if pass2 s \<and> seg \<noteq> ucast (lcdata s AND SEGM)
      then putobj (ucast (seg OR ucast OBJ_SET_SEG)) s else s)"
  have s1: "lc s1 = lc s" "lcdata s1 = lcdata s" "lctab s1 = lctab s" "lcptr s1 = lcptr s"
    using putobj_counters [of _ s] by (simp_all add: s1_def)
  have n: "unat (ucast seg :: byte) = unat seg"
    using assms(3) by (simp add: ucast_byte_eq_mod)
  define tab where "tab = (lctab s)[lcptr s := \<lparr>lc_data = lcdata s, lc_lc = lc s\<rparr>]"
  define t where "t = s1\<lparr>lctab := tab, lcptr := unat seg,
      lcdata := (lc_data (tab ! unat seg) AND NOT SEGM) OR ucast seg,
      lc := lc_lc (tab ! unat seg), binmbuf := lc_lc (tab ! unat seg), popflags := POPLC\<rparr>"
  have run: "setloc seg s = Inr t"
    using assms s1 n by (simp add: setloc_def Let_def t_def tab_def flip: s1_def)
  have small: "bit (ucast seg :: byte) i \<Longrightarrow> i < 4" for i
  proof -
    have "take_bit 4 (unat seg) = unat seg" using assms(3) by (simp add: take_bit_nat_eq_self)
    moreover assume "bit (ucast seg :: byte) i"
    then have "bit (unat (ucast seg :: byte)) i" by (simp add: bit_unsigned_iff)
    ultimately show "i < 4" using n by (metis bit_take_bit_iff)
  qed
  have d: "(x AND NOT SEGM OR ucast seg) AND NOT SEGM = x AND NOT SEGM"
    "(x AND NOT SEGM OR ucast seg) AND SEGM = (ucast seg :: byte)" for x :: byte
    using small [of 4] small [of 5] small [of 6] small [of 7] by (auto simp: byte_bits)
  have "counter k t = counter k s" if "k < NLOC" for k
    using that assms s1 d by (auto simp: counter_def t_def tab_def nth_list_update)
  with run show ?thesis
    using assms d by (auto simp: t_def counter_def tab_def nth_list_update)
qed

theorem setloc_counters_witness:
  "lcptr (projr (setloc 3 (operand_at ''X'' 0))) = 3 \<and>
   counter 0 (projr (setloc 3 (operand_at ''X'' 0))) = (0x100, 0)"
proof -
  have s: "lcptr (operand_at ''X'' 0) = 0" "length (lctab (operand_at ''X'' 0)) = NLOC"
    "lc (operand_at ''X'' 0) = 0x100" "lcdata (operand_at ''X'' 0) = 0"
    by code_simp+
  have "lcptr (operand_at ''X'' 0) < NLOC" "unat (3 :: u32) < NLOC" using s(1) by simp_all
  from setloc_counters [OF this(1) s(2) this(2)]
  obtain t where "setloc 3 (operand_at ''X'' 0) = Inr t" "lcptr t = 3"
    "counter 0 t = counter 0 (operand_at ''X'' 0)" by auto
  then show ?thesis using s by (simp add: counter_def [of _ "operand_at ''X'' 0"])
qed

section \<open>Blocks\<close>

text \<open>
  C18: a block gives back what it saved.  If \<^verbatim>\<open>BLOCK\<close> was accepted, then after
  any text that leaves the block stack as the \<^verbatim>\<open>BLOCK\<close> made it, \<^verbatim>\<open>ENDB\<close> restores
  the location counter, its relocation, the direct page and the stack of the
  state before the \<^verbatim>\<open>BLOCK\<close>.
\<close>

theorem block_restores:
  fixes s t u :: "'a trans_scheme"
  assumes "blocklevel s < MAXBLOCK" and "pblock s = Inr t"
    and "blockstak u = blockstak t" and "blocklevel u = blocklevel t"
  shows "\<exists>v. pendb u = Inr v \<and> lc v = lc s \<and> lcdata v = lcdata s \<and> dirpag v = dirpag s \<and>
    blockstak v = blockstak s \<and> blocklevel v = blocklevel s"
proof -
  define e where "e = \<lparr>bl_data = lcdata s, bl_dp = dirpag s, bl_lc = lc s\<rparr>"
  define s1 where "s1 = s\<lparr>blocklevel := blocklevel s + 1, blockstak := e # blockstak s\<rparr>"
  have "porg s1 = Inr t"
    using assms(1,2) by (simp add: pblock_def s1_def e_def split: if_splits)
  then have "ctl t = ctl s1" using keeps_handlers(13) [OF refl, of s1] by simp
  then have u: "blockstak (illegal_label u) = e # blockstak s" "blocklevel (illegal_label u) = blocklevel s + 1"
    using assms(3,4) ctl_illegal_label [of u] by (simp_all add: ctl_def s1_def)
  have ne: "blocklevel s + 1 \<noteq> 0"
    using assms(1) word_Suc_byte [of "blocklevel s"] by (auto simp: word_less_nat_alt)
  define w where "w = (illegal_label u)\<lparr>lcdata := bl_data e, dirpag := bl_dp e\<rparr>"
  have acc: "lcdata (accumulate_rmb a w) = lcdata w" "dirpag (accumulate_rmb a w) = dirpag w"
    "blocklevel (accumulate_rmb a w) = blocklevel w" for a
  proof -
    have "lcdata (flushabs w) = lcdata w"
      by (subst flushabs_out(2) [of w, unfolded same_but_out_def]) simp
    then show "lcdata (accumulate_rmb a w) = lcdata w" by (simp add: accumulate_rmb_def Let_def)
    show "dirpag (accumulate_rmb a w) = dirpag w" "blocklevel (accumulate_rmb a w) = blocklevel w"
      using ctl_generators(3) [of a w] by (simp_all add: ctl_def)
  qed
  show ?thesis
    using u ne acc by (simp add: pendb_def Let_def flip: w_def) (simp add: w_def e_def)
qed

theorem block_restores_witness:
  "\<exists>v. pendb (projr (pblock (operand_at ''$400'' 0))) = Inr v \<and> lc v = 0x100"
proof -
  let ?s = "operand_at ''$400'' 0"
  have f: "blocklevel ?s < MAXBLOCK" "\<not> isl (pblock ?s)" "lc ?s = 0x100"
    by code_simp+
  have "pblock ?s = Inr (projr (pblock ?s))" using f(2) by (rule sum.collapse(2) [symmetric])
  from block_restores [OF f(1) this refl refl] show ?thesis using f(3) by auto
qed

section \<open>Definition of symbols\<close>

lemma syms_grow_entry:
  assumes "syms_grow ys zs" and "r < length ys"
  shows "r < length zs" "sy_type (zs ! r) = sy_type (ys ! r)" "sy_value (zs ! r) = sy_value (ys ! r)"
  using assms by (auto simp: syms_grow_def sy_core_def)

lemma nonimpexpres_step: "nonimpexpres s = Inr u \<Longrightarrow> expr_step s u"
  using run_step(1) [of s] by (auto simp: nonimpexpres_def bindE_Inr_iff)

lemma showlabel_syms: "showlabel s = Inr t \<Longrightarrow> syms t = syms s \<and> label t = None \<and> toterr t = toterr s \<and> errcount t = errcount s"
  by (auto simp: showlabel_def Let_def set_off_def set_data_def split: option.splits)

lemma labelerror_effect:
  "syms_grow (syms s) (syms (labelerror m s))" "label (labelerror m s) = None"
  "errcount s < MAXERR \<Longrightarrow> toterr (labelerror m s) = toterr s + 1"
proof -
  let ?s = "s\<lparr>lineptr := linebuf s\<rparr>"
  have "syms_grow (syms ?s) (syms (getsym ?s))" by (rule syms_grow_getsym)
  then show "syms_grow (syms s) (syms (labelerror m s))" by (simp add: labelerror_def)
  show "label (labelerror m s) = None" by (simp add: labelerror_def)
  show "errcount s < MAXERR \<Longrightarrow> toterr (labelerror m s) = toterr s + 1"
    by (simp add: labelerror_def error_def)
qed

text \<open>The second definition of a symbol: refused on the first pass unless it agrees with the first.\<close>

definition refused :: "sym_s \<Rightarrow> byte \<Rightarrow> 'a expr_scheme \<Rightarrow> bool" where
  "refused y d u \<longleftrightarrow>
     has (sy_type y) LABIT \<and> \<not> has (sy_data y) UNDBIT \<and> pass u = 0 \<and>
     (has (sy_data y XOR d) (RELBIT OR UNDBIT) \<or> sy_value y \<noteq> loff u)"

lemma showredefinedlabel_effect:
  assumes l: "label s = Some r" and r: "r < length (syms s)"
  shows "\<exists>t. showredefinedlabel s = Inr t \<and> label t = None \<and>
    sy_value (syms t ! r) = sy_value (syms s ! r) \<and>
    sy_type (syms t ! r) = sy_type (syms s ! r) OR REDBIT \<and>
    (\<not> has (sy_type (syms s ! r)) REDBIT \<and> errcount s < MAXERR \<longrightarrow> toterr t = toterr s + 1)"
proof -
  obtain s1 where s1: "showlabel s = Inr s1" using l by (simp add: showlabel_def Let_def)
  note e = showlabel_syms [OF s1]
  show ?thesis
  proof (cases "has (sy_type (syms s ! r)) REDBIT")
    case True
    then have "sy_type (syms s ! r) OR REDBIT = sy_type (syms s ! r)" by (auto simp: byte_bits)
    then show ?thesis using True e l s1 by (simp add: showredefinedlabel_def)
  next
    case False
    define s2 where "s2 = upd_sym r (\<lambda>y. y\<lparr>sy_type := sy_type y OR REDBIT\<rparr>) s1"
    have s2: "r < length (syms s2)" "syms s2 ! r = (syms s ! r)\<lparr>sy_type := sy_type (syms s ! r) OR REDBIT\<rparr>"
      "toterr s2 = toterr s" "errcount s2 = errcount s"
      using e r by (simp_all add: s2_def upd_sym_def)
    show ?thesis
      using False e l s1 s2 syms_grow_entry [OF labelerror_effect(1) s2(1)]
      by (simp add: showredefinedlabel_def flip: s2_def) (simp add: labelerror_effect)
  qed
qed


definition equ_start :: trans where
  "equ_start = (operand_at ''$42'' 0)\<lparr>label := Some 0,
     syms := [\<lparr>sy_type = 0, sy_data = UNDBIT, sy_value = 0, sy_length = 1, sy_name = bytes_of ''L''\<rparr>]\<rparr>"


text \<open>
  A missing label leaves the flag of \<^verbatim>\<open>LCOMM\<close> set, so the next \<^verbatim>\<open>COMM\<close> of the program
  is taken for a local one.
\<close>

lemma plcomm_flag_stays: "\<lbrakk>label s = None; plcomm s = Inr t\<rbrakk> \<Longrightarrow> lcommflag t"
proof -
  have e: "lcommflag (error m u) = lcommflag u" "lcommflag (getsym u) = lcommflag u"
    for m and u :: "'a trans_scheme"
  proof -
    have "bin.more (error m u) = bin.more u" "bin.more (getsym u) = bin.more u" by simp_all
    then show "lcommflag (error m u) = lcommflag u" "lcommflag (getsym u) = lcommflag u"
      by (cases u; cases "error m u"; cases "getsym u"; simp)+
  qed
  show "\<lbrakk>label s = None; plcomm s = Inr t\<rbrakk> \<Longrightarrow> lcommflag t"
    by (auto simp: plcomm_def pcomm_def labelerror_def e)
qed

end
