(* ===== verification/Assemble.thy ===== *)
theory Assemble
  imports Pops_Props
begin

text \<open>
  The main loop of the assembler, \<^verbatim>\<open>as/assemble.c\<close>: a line is a label, an
  operation and its operands; the operation selects a routine of the table.  A
  line is taken from where the source reader has put it.  The reader itself
  (\<^verbatim>\<open>as/readsrc.c\<close>) and the macro expander (\<^verbatim>\<open>as/macro.c\<close>) are not modelled:
  their four entry points are arguments of the definitions below.
\<close>

section \<open>The routine table\<close>

text \<open>The entry points of the source reader and of the macro expander.\<close>

record 'a source_ops =
  pget :: "'a trans_scheme \<Rightarrow> stop + 'a trans_scheme"
  pmacro :: "'a trans_scheme \<Rightarrow> stop + 'a trans_scheme"
  pproceof :: "'a trans_scheme \<Rightarrow> stop + 'a trans_scheme"
  entermac :: "nat \<Rightarrow> 'a trans_scheme \<Rightarrow> stop + 'a trans_scheme"

definition rout_table :: "'a source_ops \<Rightarrow> ('a trans_scheme \<Rightarrow> stop + 'a trans_scheme) list" where
  "rout_table src =
     [\<lambda>s. Inr (pelse s), pelseif, pelsifc, pendif, pif, pifc,
      palign, pasciz, pblkw, pblock, pbss, pcomm, pcomm1, pdata, pendb, \<lambda>s. Inr (penter s), pentry,
      pequ, \<lambda>s. Inr (peven s), pexport, \<lambda>s. Inr (pfail s), pfcb, pfcc, pfdb, pget src, pglobl,
      \<lambda>s. Inr (pident s), pimport, plcomm, plcomm1, plist, ploc, pmaclist, pmacro src, pmap, porg,
      pproceof src, prmb, psect, pset, ptext, pwarn,
      mall, malter, mimmed, \<lambda>s. Inr (minher s), mshort]"

section \<open>A line\<close>

definition asline_reset :: "'a trans_scheme \<Rightarrow> 'a trans_scheme" where
  "asline_reset s =
     (set_data 0 s)\<lparr>postb := 0, popflags := 0, pcrflag := 0, immcount := 0, lcjump := 0,
        fdflag := False, fcflag := False\<rparr>"

text \<open>The operation, from the test for a macro on.\<close>

definition asline_op :: "'a source_ops \<Rightarrow> nat \<Rightarrow> 'a trans_scheme \<Rightarrow> stop + 'a trans_scheme" where
  "asline_op src symptr s =
     (let y = syms s ! symptr
      in if has (sy_type y) MACBIT then entermac src symptr s
         else if \<not> has (sy_type y) MNREGBIT then Inr (error OPEXP s)
         else if has (sy_data y) REGBIT then Inr (error REGUID s)
         else if length (rout_table src) \<le> unat (sy_routine y) then Inl OutOfBounds
         else
           bindE ((rout_table src ! unat (sy_routine y))
                    (getsym (s\<lparr>mnsize := 0, opcode := sy_opcode y\<rparr>)))
             (\<lambda>s1. Inr (if sym s1 \<noteq> EOLSYM then error JUNK_AFTER_OPERANDS s1 else s1)))"

text \<open>A label at the start of the line: give it the current location.\<close>

definition define_label :: "nat \<Rightarrow> 'a trans_scheme \<Rightarrow> 'a trans_scheme" where
  "define_label symptr s =
     (let y = syms s ! symptr;
          place = upd_sym symptr (\<lambda>y. y\<lparr>sy_data := (sy_data y AND FORBIT) OR lcdata s, sy_value := lc s\<rparr>)
      in if has (sy_type y) (LABIT OR VARBIT) then
           let s1 = (if has (sy_type y) REDBIT then labelerror RELAB s else s);
               s2 = s1\<lparr>label := Some symptr\<rparr>
           in if pass s2 \<noteq> 0 \<and> \<not> has (sy_type y) VARBIT then place s2 else s2
         else case checksegrel symptr s of
           (False, s1) \<Rightarrow> s1
         | (True, s1) \<Rightarrow>
             (place (upd_sym symptr (\<lambda>y. y\<lparr>sy_type := sy_type y AND NOT COMMBIT\<rparr>) s1))
               \<lparr>label := Some symptr\<rparr>)"

definition asline_label :: "'a source_ops \<Rightarrow> bool \<Rightarrow> nat \<Rightarrow> 'a trans_scheme \<Rightarrow> stop + 'a trans_scheme" where
  "asline_label src indented symptr s0 =
     (let s = s0\<lparr>oldlabel := sy_value (syms s0 ! symptr)\<rparr>;
          colon = (rdch (srcbuf s) (lineptr s) = 0x3A)
      in if \<not> colon \<and> indented then Inr (error OPEXP s)
         else
           let s1 = (if colon then s\<lparr>sym := COLON, lineptr := Suc (lineptr s)\<rparr> else s);
               s2 = getsym (define_label symptr s1)
           in if sym s2 \<noteq> IDENT then
                (if sym s2 = EQOP then pequ (getsym s2)
                 else Inr (if sym s2 \<noteq> EOLSYM then error OPEXP s2 else s2))
              else case gsymptr s2 of
                None \<Rightarrow> Inl NullPointer
              | Some r \<Rightarrow> asline_op src r s2)"

definition asline :: "'a source_ops \<Rightarrow> 'a trans_scheme \<Rightarrow> stop + 'a trans_scheme" where
  "asline src s0 =
     (let s = asline_reset s0;
          indented = (rdch (srcbuf s) (lineptr s) \<in> {0x20, 0x09});
          s1 = getsym s
      in if sym s1 \<noteq> IDENT then
           Inr (if sym s1 \<noteq> EOLSYM \<and> sym s1 \<noteq> IMMEDIATE then s1\<lparr>list_force := True\<rparr> else s1)
         else if \<not> ifflag s1 then
           (case gsymptr s1 of
              None \<Rightarrow> Inr s1
            | Some r \<Rightarrow>
                let y = syms s1 ! r
                in if \<not> has (sy_type y) MNREGBIT \<or> has (sy_data y) REGBIT \<or> MIN_NONCOND \<le> sy_routine y
                   then Inr s1 else asline_op src r s1)
         else case gsymptr s1 of
           None \<Rightarrow> Inl NullPointer
         | Some r \<Rightarrow>
             if \<not> has (sy_type (syms s1 ! r)) (MACBIT OR MNREGBIT)
             then asline_label src indented r s1 else asline_op src r s1)"

section \<open>After the line\<close>

text \<open>The part of \<^verbatim>\<open>assemble\<close> that confirms a label that is still set.\<close>

definition confirm_label :: "'a trans_scheme \<Rightarrow> stop + 'a trans_scheme" where
  "confirm_label s =
     (case label s of
        None \<Rightarrow> Inr s
      | Some r \<Rightarrow>
          let moved = (pass s \<noteq> 0 \<and> sy_value (syms s ! r) \<noteq> oldlabel s);
              s1 = (if moved then s\<lparr>dirty_pass := True\<rparr> else s);
              s2 = (if moved \<and> pass2 s1 then error UNSTABLE_LABEL s1 else s1);
              s3 = upd_sym r (\<lambda>y. y\<lparr>sy_type := sy_type y OR LABIT\<rparr>) s2;
              s4 = (if has (sy_type (syms s3 ! r)) REDBIT
                    then upd_sym r (\<lambda>y. y\<lparr>sy_type := (sy_type y OR EXPBIT) AND NOT REDBIT\<rparr>) s3
                    else s3)
          in bindE (if mcount s4 = 0 \<and> popflags s4 = 0 then showlabel s4 else Inr s4)
               (\<lambda>s5. Inr (s5\<lparr>label := None\<rparr>)))"

text \<open>Code generation and the step of the location counter.\<close>

definition gen_line :: "'a trans_scheme \<Rightarrow> 'a trans_scheme" where
  "gen_line s =
     (let s1 = genobj (genbin s)
      in s1\<lparr>lc := lc s1 + lcjump s1, binmbuf := lc s1 + lcjump s1\<rparr>)"

text \<open>
  One round of the loop; the listing of the line, which also clears the error
  buffer, is left out.
\<close>

definition assemble_line :: "'a source_ops \<Rightarrow> 'a trans_scheme \<Rightarrow> stop + 'a trans_scheme" where
  "assemble_line src s =
     bindE (asline src s) (\<lambda>s1. bindE (confirm_label s1) (\<lambda>s2. Inr (gen_line s2)))"

section \<open>The control part survives every line\<close>

definition source_ok :: "'a source_ops \<Rightarrow> bool" where
  "source_ok src \<longleftrightarrow>
     (\<forall>u. ctl_ok (ctl u) \<longrightarrow> safe (pget src u) \<and> safe (pmacro src u) \<and> safe (pproceof src u) \<and>
        (\<forall>r. safe (entermac src r u)))"

text \<open>The handlers that keep the control part, as facts about \<open>safe\<close>.\<close>

lemmas safe_handlers = keeps_intros [OF refl, THEN safe_keeps [rotated]]

lemma safe_conditionals:
  assumes "ctl_ok (ctl s)"
  shows "safe (pif s)" "safe (pifc s)" "safe (pelseif s)" "safe (pelsifc s)"
  unfolding pif_def pifc_def pelseif_def pelsifc_def
  using assms
  by (auto intro!: safe_doif safe_doelseif keeps_exprs(1) [OF refl] keeps_scompare [OF refl])

lemma rout_table_safe:
  assumes "source_ok src"
  shows "\<forall>f\<in>set (rout_table src). \<forall>u. ctl_ok (ctl u) \<longrightarrow> safe (f u)"
proof -
  have "safe (pendif u)" "safe (pendb u)" if "ctl_ok (ctl u)" for u :: "'a trans_scheme"
    using pendif_safe [OF that] pendb_safe [OF that] by auto
  moreover have "ctl (minher u) = ctl u" for u :: "'a trans_scheme" by simp
  moreover note assms [unfolded source_ok_def]
  ultimately show ?thesis
    by (simp add: rout_table_def safe_conditionals safe_locations safe_pblock
        safe_handlers)
qed

lemma safe_asline_op:
  assumes src: "source_ok src" and s: "ctl_ok (ctl s)"
  shows "safe (asline_op src r s)"
proof -
  let ?k = "unat (sy_routine (syms s ! r))"
  let ?u = "getsym (s\<lparr>mnsize := 0, opcode := sy_opcode (syms s ! r)\<rparr>)"
  have "ctl ?u = ctl s" by (simp add: ctl_def)
  then have "safe ((rout_table src ! ?k) ?u)" if "?k < length (rout_table src)"
    using rout_table_safe [OF src] that s by (metis nth_mem)
  then show ?thesis
    using src s
    by (auto simp: asline_op_def Let_def source_ok_def not_le intro!: safe_bind)
qed

lemma ctl_define_label [simp]: "ctl (define_label r s) = ctl s"
  by (auto simp: define_label_def Let_def split: prod.split bool.split dest!: ctl_checksegrel)

lemma safe_asline:
  assumes src: "source_ok src" and s: "ctl_ok (ctl s)"
  shows "safe (asline src s)"
proof -
  have r: "ctl (asline_reset s) = ctl s" by (simp add: asline_reset_def ctl_def set_data_def)
  have l: "safe (asline_label src i r u)" if "ctl_ok (ctl u)" for i r u
  proof -
    have "ctl (u\<lparr>oldlabel := v\<rparr>) = ctl u" for v by (simp add: ctl_def)
    with that show ?thesis
      by (auto simp: asline_label_def Let_def intro!: safe_asline_op [OF src] safe_handlers split: option.split)
  qed
  have "ctl (u\<lparr>list_force := b\<rparr>) = ctl u" for u :: "'a trans_scheme" and b by (simp add: ctl_def)
  then show ?thesis
    using r s by (auto simp: asline_def Let_def intro!: safe_asline_op [OF src] l split: option.split)
qed

lemma ctl_genobjadr [simp]: "ctl (genobjadr adr n s) = ctl s"
proof -
  have "ctl (s\<lparr>relsize := n\<rparr>) = ctl s" by (simp add: ctl_def)
  then show ?thesis by (simp add: genobjadr_def putobjword_def Let_def)
qed

lemma ctl_folds [simp]:
  "ctl (fold putabs bs s) = ctl s" "ctl (fold putbin bs s) = ctl s"
  "ctl (fold (\<lambda>adr. genobjadr adr n) as s) = ctl s"
  by (induction bs arbitrary: s, simp_all) (induction as arbitrary: s, simp_all)

lemma ctl_putbinoffset [simp]: "ctl (putbinoffset v n s) = ctl s"
  by (simp add: putbinoffset_def Let_def)

lemma ctl_fold_putbinoffset [simp]:
  "ctl (fold (\<lambda>adr. putbinoffset (a_offset adr) n) as s) = ctl s"
  by (induction as arbitrary: s) simp_all

lemma ctl_gen_instr [simp]: "ctl (gen_instr s) = ctl s"
  by (cases "page s = 0"; cases "postb s = 0") (simp_all add: gen_instr_def Let_def)

lemma ctl_genobj [simp]: "ctl (genobj s) = ctl s"
  by (simp add: genobj_def Let_def)

lemma ctl_genbin [simp]: "ctl (genbin s) = ctl s"
  by (cases "page s = 0"; cases "postb s = 0"; cases "popflags s = 0")
     (simp_all add: genbin_def Let_def)

lemma ctl_gen_line [simp]: "ctl (gen_line s) = ctl s"
  by (simp add: gen_line_def Let_def)

lemma keeps_confirm_label: "keeps s (confirm_label s)"
  by (auto simp: confirm_label_def Let_def intro!: keeps_bind keeps_showlabel split: option.split)

text \<open>
  C15: the counters and stacks behind \<^verbatim>\<open>IF\<close> and \<^verbatim>\<open>BLOCK\<close> and the table of
  location counters stay well formed over every line, whatever it contains:
  the nesting levels are the heights of the stacks and at most 8, the current
  location counter is an entry of the table, the direct page is zero, and no
  loop of a handler fails to end.  In such a state \<^verbatim>\<open>ENDIF\<close> and \<^verbatim>\<open>ENDB\<close> never
  take an entry from an empty stack.
\<close>

theorem assemble_line_control:
  assumes "source_ok src" and "ctl_ok (ctl s)"
  shows "(case assemble_line src s of Inl e \<Rightarrow> e \<noteq> NoFuel | Inr t \<Rightarrow> ctl_ok (ctl t)) \<and>
    (\<exists>t. pendif s = Inr t) \<and> (\<exists>t. pendb s = Inr t)"
proof -
  have "safe (bindE (confirm_label u) (\<lambda>s2. Inr (gen_line s2)))" if "ctl_ok (ctl u)" for u :: "'a trans_scheme"
    by (rule safe_bind, rule safe_keeps [OF that keeps_confirm_label]) simp
  then have "safe (assemble_line src s)"
    unfolding assemble_line_def by (rule safe_bind [OF safe_asline [OF assms]])
  then show ?thesis
    using pendif_safe [OF assms(2)] pendb_safe [OF assms(2)] by (auto simp: safe_def)
qed

text \<open>A source reader without included files and macros, for an example.\<close>

definition idle_source :: "unit source_ops" where
  "idle_source = \<lparr>pget = Inr, pmacro = Inr, pproceof = Inr, entermac = (\<lambda>r. Inr)\<rparr>"

theorem assemble_line_control_witness:
  "(case assemble_line idle_source (operand_at ''L1: RMB 3'' 0) of Inl e \<Rightarrow> e \<noteq> NoFuel | Inr t \<Rightarrow> ctl_ok (ctl t)) \<and>
   (\<exists>t. pendif (operand_at ''L1: RMB 3'' 0) = Inr t)"
proof -
  have "source_ok idle_source" by (simp add: source_ok_def idle_source_def)
  moreover have "ctl_ok (ctl (operand_at ''L1: RMB 3'' 0))" by code_simp
  ultimately show ?thesis using assemble_line_control by blast
qed

end
