(* ===== verification/Ldio.thy ===== *)
theory Ldio
  imports Prelude
begin

text \<open>
  The buffered files of the linker, \<^verbatim>\<open>ld/io.c\<close>: one input file read through
  a buffer of 1024 bytes and one output file written through a buffer of 2048
  bytes, both with seeking.  A file is the list of its bytes, a descriptor its
  offset.  Failures of the operating system's calls are not modelled; the end
  of the input is.  The contracts the rest of the linker uses are the locales
  \<open>byte_source\<close> and \<open>byte_sink\<close>: a source is the list of bytes still to come, a
  sink the contents a file will have once everything is flushed.
\<close>

section \<open>Input\<close>

text \<open>The bytes from \<^verbatim>\<open>inbuf\<close> up to \<^verbatim>\<open>inbufend\<close>, and \<^verbatim>\<open>inbufptr\<close> as an index.\<close>

record input =
  in_file :: "byte list"
  in_fpos :: nat
  inbuf :: "byte list"
  inbufptr :: nat

abbreviation INBUFSIZE :: nat where "INBUFSIZE \<equiv> 1024"

text \<open>\<^verbatim>\<open>ERR\<close> at the end of the file is \<open>None\<close>.\<close>

definition readchar :: "'a input_scheme \<Rightarrow> byte option \<times> 'a input_scheme" where
  "readchar s =
     (if length (inbuf s) \<le> inbufptr s then
        let got = take INBUFSIZE (drop (in_fpos s) (in_file s)) in
        if got = [] then (None, s\<lparr>inbuf := [], inbufptr := 0\<rparr>)
        else (Some (got ! 0),
              s\<lparr>in_fpos := in_fpos s + length got, inbuf := got, inbufptr := 1\<rparr>)
      else (Some (inbuf s ! inbufptr s), s\<lparr>inbufptr := inbufptr s + 1\<rparr>))"

definition prematureeof :: "stop + 'a" where
  "prematureeof = Inl (Fatal ''premature end of input file'')"

primrec readin :: "nat \<Rightarrow> 'a input_scheme \<Rightarrow> stop + byte list \<times> 'a input_scheme" where
  "readin 0 s = Inr ([], s)"
| "readin (Suc n) s =
     (case readchar s of
        (None, s1) \<Rightarrow> prematureeof
      | (Some ch, s1) \<Rightarrow> bindE (readin n s1) (\<lambda>(bs, s2). Inr (ch # bs, s2)))"

text \<open>The caller's buffer keeps its old contents where the file ended: \<open>None\<close>.\<close>

primrec readineofok :: "nat \<Rightarrow> 'a input_scheme \<Rightarrow> byte list option \<times> 'a input_scheme" where
  "readineofok 0 s = (Some [], s)"
| "readineofok (Suc n) s =
     (case readchar s of
        (None, s1) \<Rightarrow> (None, s1)
      | (Some ch, s1) \<Rightarrow>
          (case readineofok n s1 of (r, s2) \<Rightarrow> (map_option (Cons ch) r, s2)))"

definition seekin :: "nat \<Rightarrow> 'a input_scheme \<Rightarrow> 'a input_scheme" where
  "seekin offset s = s\<lparr>inbuf := [], inbufptr := 0, in_fpos := offset\<rparr>"

definition openin :: "byte list \<Rightarrow> 'a input_scheme \<Rightarrow> 'a input_scheme" where
  "openin contents s = s\<lparr>in_file := contents, in_fpos := 0, inbuf := [], inbufptr := 0\<rparr>"

section \<open>Output\<close>

record ioput = input +
  out_file :: "byte list"
  out_fpos :: nat
  outbuf :: "byte list"

abbreviation OUTBUFSIZE :: nat where "OUTBUFSIZE \<equiv> 2048"

text \<open>
  The system call \<^verbatim>\<open>write\<close> at an offset: bytes beyond the end of the file that
  were skipped are zero.
\<close>

definition write_at :: "nat \<Rightarrow> byte list \<Rightarrow> byte list \<Rightarrow> byte list" where
  "write_at p bs f =
     (if bs = [] then f
      else take p f @ replicate (p - length f) 0 @ bs @ drop (p + length bs) f)"

definition flushout :: "'a ioput_scheme \<Rightarrow> 'a ioput_scheme" where
  "flushout s =
     s\<lparr>out_file := write_at (out_fpos s) (outbuf s) (out_file s),
       out_fpos := out_fpos s + length (outbuf s), outbuf := []\<rparr>"

definition writechar :: "byte \<Rightarrow> 'a ioput_scheme \<Rightarrow> 'a ioput_scheme" where
  "writechar ch s =
     (let s1 = (if OUTBUFSIZE \<le> length (outbuf s) then flushout s else s)
      in s1\<lparr>outbuf := outbuf s1 @ [ch]\<rparr>)"

primrec writeout :: "byte list \<Rightarrow> 'a ioput_scheme \<Rightarrow> 'a ioput_scheme" where
  "writeout [] s = s"
| "writeout (ch # bs) s =
     (let s1 = (if OUTBUFSIZE \<le> length (outbuf s) then flushout s else s)
      in writeout bs (s1\<lparr>outbuf := outbuf s1 @ [ch]\<rparr>))"

definition seekout :: "nat \<Rightarrow> 'a ioput_scheme \<Rightarrow> 'a ioput_scheme" where
  "seekout offset s = (flushout s)\<lparr>out_fpos := offset\<rparr>"

text \<open>A new file; the relocation buffers are never written to.\<close>

definition openout :: "'a ioput_scheme \<Rightarrow> 'a ioput_scheme" where
  "openout s = s\<lparr>out_file := [], out_fpos := 0, outbuf := []\<rparr>"

definition closeout :: "'a ioput_scheme \<Rightarrow> 'a ioput_scheme" where
  "closeout s = flushout s"

section \<open>Sources of bytes\<close>

text \<open>
  What a reader of a file relies on: a state stands for the bytes still to
  come, getting one takes the first of them, and one that is positioned stands
  for a suffix of the file.
\<close>

locale byte_source =
  fixes rest :: "'s \<Rightarrow> byte list"
    and get :: "'s \<Rightarrow> byte option \<times> 's"
  assumes get_fst: "fst (get s) = (case rest s of [] \<Rightarrow> None | b # bs \<Rightarrow> Some b)"
    and get_rest: "rest (snd (get s)) = tl (rest s)"
begin

lemma get_Cons:
  assumes "rest s = b # bs"
  obtains s' where "get s = (Some b, s')" and "rest s' = bs"
  using assms get_fst [of s] get_rest [of s] by (cases "get s") auto

lemma get_shorter: "get s = (Some b, s') \<Longrightarrow> length (rest s') < length (rest s)"
  using get_fst [of s] get_rest [of s] by (cases "rest s") auto

lemma get_Nil:
  assumes "rest s = []"
  obtains s' where "get s = (None, s')" and "rest s' = []"
  using assms get_fst [of s] get_rest [of s] by (cases "get s") auto

end

definition in_rest :: "'a input_scheme \<Rightarrow> byte list" where
  "in_rest s = drop (inbufptr s) (inbuf s) @ drop (in_fpos s) (in_file s)"

lemma readchar_buffered:
  assumes "inbufptr s < length (inbuf s)"
  shows "readchar s = (Some (inbuf s ! inbufptr s), s\<lparr>inbufptr := inbufptr s + 1\<rparr>)"
    and "in_rest s = inbuf s ! inbufptr s # in_rest (s\<lparr>inbufptr := inbufptr s + 1\<rparr>)"
  using assms by (simp_all add: readchar_def in_rest_def Cons_nth_drop_Suc [symmetric])

lemma readchar_refill:
  assumes "length (inbuf s) \<le> inbufptr s" and "drop (in_fpos s) (in_file s) = b # bs"
  shows "fst (readchar s) = Some b" and "in_rest (snd (readchar s)) = bs"
proof -
  let ?got = "take INBUFSIZE (b # bs)"
  have got: "?got = b # take 1023 bs" by simp
  have "drop (in_fpos s + length ?got) (in_file s) = drop (length ?got) (b # bs)"
    by (simp add: assms(2) [symmetric] add.commute)
  also have "\<dots> = drop 1023 bs"
    unfolding got by (cases "1023 \<le> length bs") simp_all
  finally have "drop (in_fpos s + length ?got) (in_file s) = drop 1023 bs" .
  then show "fst (readchar s) = Some b" "in_rest (snd (readchar s)) = bs"
    using assms by (simp_all add: readchar_def Let_def in_rest_def)
qed

interpretation infile: byte_source in_rest readchar
proof
  fix s :: "'a input_scheme"
  show "fst (readchar s) = (case in_rest s of [] \<Rightarrow> None | b # bs \<Rightarrow> Some b)"
    "in_rest (snd (readchar s)) = tl (in_rest s)"
  proof -
    consider "inbufptr s < length (inbuf s)"
      | "length (inbuf s) \<le> inbufptr s" "drop (in_fpos s) (in_file s) = []"
      | b bs where "length (inbuf s) \<le> inbufptr s" "drop (in_fpos s) (in_file s) = b # bs"
      by (metis not_le neq_Nil_conv)
    note cases = this
    show "fst (readchar s) = (case in_rest s of [] \<Rightarrow> None | b # bs \<Rightarrow> Some b)"
      by (cases rule: cases) (auto simp: readchar_buffered readchar_refill, auto simp: readchar_def in_rest_def)
    show "in_rest (snd (readchar s)) = tl (in_rest s)"
      by (cases rule: cases) (auto simp: readchar_buffered readchar_refill, auto simp: readchar_def in_rest_def)
  qed
qed

lemma in_start [simp]:
  "in_rest (seekin p s) = drop p (in_file s)"
  "in_rest (openin f s) = f"
  by (simp_all add: seekin_def openin_def in_rest_def)

text \<open>Reading changes nothing but the position in the input.\<close>

definition same_but_input :: "'a input_scheme \<Rightarrow> 'a input_scheme \<Rightarrow> bool" where
  "same_but_input s t \<longleftrightarrow>
     t = s\<lparr>in_fpos := in_fpos t, inbuf := inbuf t, inbufptr := inbufptr t\<rparr>"

lemma same_but_input_refl [simp]: "same_but_input s s"
  by (simp add: same_but_input_def)

lemma same_but_input_trans: "\<lbrakk>same_but_input s t; same_but_input t u\<rbrakk> \<Longrightarrow> same_but_input s u"
  unfolding same_but_input_def by (cases s; cases t; cases u) simp

lemma same_readchar: "same_but_input s (snd (readchar s))"
  by (simp add: same_but_input_def readchar_def Let_def)

text \<open>
  The bytes of a counted read, or the premature end of the file.
\<close>

lemma readin_enough:
  assumes "n \<le> length (in_rest s)"
  shows "\<exists>s'. readin n s = Inr (take n (in_rest s), s') \<and> in_rest s' = drop n (in_rest s) \<and> same_but_input s s'"
  using assms
proof (induction n arbitrary: s)
  case 0
  then show ?case by simp
next
  case (Suc n)
  obtain b bs where "in_rest s = b # bs" using Suc.prems by (cases "in_rest s") auto
  moreover from this obtain s1 where "readchar s = (Some b, s1)" "in_rest s1 = bs"
    using infile.get_Cons by blast
  moreover have "same_but_input s s1" using same_readchar [of s] calculation by simp
  moreover obtain s2 where "readin n s1 = Inr (take n bs, s2)"
      "in_rest s2 = drop n bs" "same_but_input s1 s2"
    using Suc calculation by fastforce
  ultimately show ?case by (auto intro: same_but_input_trans)
qed

lemma readin_short:
  assumes "length (in_rest s) < n"
  shows "readin n s = prematureeof"
  using assms
proof (induction n arbitrary: s)
  case 0
  then show ?case by simp
next
  case (Suc n)
  show ?case
  proof (cases "in_rest s")
    case Nil
    then obtain s1 where "readchar s = (None, s1)" using infile.get_Nil by blast
    then show ?thesis by simp
  next
    case (Cons b bs)
    then obtain s1 where "readchar s = (Some b, s1)" "in_rest s1 = bs"
      using infile.get_Cons by blast
    moreover from this have "readin n s1 = prematureeof" using Suc Cons by simp
    ultimately show ?thesis by (simp add: prematureeof_def)
  qed
qed

lemma readin_take_bytes:
  "readin n s = prematureeof \<and> length (in_rest s) < n \<or>
    (\<exists>s'. readin n s = Inr (take n (in_rest s), s') \<and> n \<le> length (in_rest s) \<and>
      in_rest s' = drop n (in_rest s) \<and> same_but_input s s')"
  using readin_enough [of n s] readin_short [of s n] by (meson not_le)

section \<open>Sinks of bytes\<close>

text \<open>
  What a writer of a file relies on: the contents the file will have, the
  position of the next byte, and that a byte written lands there.
\<close>

locale byte_sink =
  fixes view :: "'s \<Rightarrow> byte list"
    and at :: "'s \<Rightarrow> nat"
    and put :: "byte list \<Rightarrow> 's \<Rightarrow> 's"
    and seek :: "nat \<Rightarrow> 's \<Rightarrow> 's"
    and close :: "'s \<Rightarrow> byte list"
  assumes put_view: "view (put bs s) = write_at (at s) bs (view s)"
    and put_at: "at (put bs s) = at s + length bs"
    and seek_view: "view (seek p s) = view s"
    and seek_at: "at (seek p s) = p"
    and close_view: "close s = view s"
begin

text \<open>Blocks written at their own positions.\<close>

lemma put_blocks:
  "view (fold (\<lambda>(p, bs) s. put bs (seek p s)) ws s) =
     fold (\<lambda>(p, bs). write_at p bs) ws (view s)"
  by (induction ws arbitrary: s) (auto simp: put_view seek_view seek_at)

lemma close_blocks:
  "close (fold (\<lambda>(p, bs) s. put bs (seek p s)) ws s) =
     fold (\<lambda>(p, bs). write_at p bs) ws (view s)"
  by (simp add: close_view put_blocks)

end

definition out_view :: "'a ioput_scheme \<Rightarrow> byte list" where
  "out_view s = write_at (out_fpos s) (outbuf s) (out_file s)"

definition out_at :: "'a ioput_scheme \<Rightarrow> nat" where
  "out_at s = out_fpos s + length (outbuf s)"

text \<open>The byte of a file at a position; a file is followed by nothing.\<close>

definition byte_at :: "byte list \<Rightarrow> nat \<Rightarrow> byte" where
  "byte_at f k = (if k < length f then f ! k else 0)"

lemma length_write_at: "length (write_at p bs f) = (if bs = [] then length f else max (length f) (p + length bs))"
  by (auto simp: write_at_def)

lemma byte_at_write_at:
  "byte_at (write_at p bs f) k =
     (if p \<le> k \<and> k < p + length bs then bs ! (k - p) else byte_at f k)"
  by (auto simp: byte_at_def write_at_def nth_append min_def)

lemma file_eqI: "\<lbrakk>length f = length g; \<And>k. byte_at f k = byte_at g k\<rbrakk> \<Longrightarrow> f = g"
  by (rule nth_equalityI) (metis byte_at_def)+

lemma write_at_Nil [simp]: "write_at p [] f = f"
  by (simp add: write_at_def)

lemma write_at_append:
  "write_at p (as @ bs) f = write_at (p + length as) bs (write_at p as f)"
  by (rule file_eqI) (auto simp: length_write_at byte_at_write_at nth_append)

lemma out_flush [simp]:
  "out_view (flushout s) = out_view s" "out_at (flushout s) = out_at s"
  "out_file (flushout s) = out_view s" "outbuf (flushout s) = []"
  by (simp_all add: flushout_def out_view_def out_at_def)

lemma out_put1 [simp]:
  "out_view (s\<lparr>outbuf := outbuf s @ [ch]\<rparr>) = write_at (out_at s) [ch] (out_view s)"
  "out_at (s\<lparr>outbuf := outbuf s @ [ch]\<rparr>) = Suc (out_at s)"
  by (simp_all add: out_view_def out_at_def write_at_append)

lemma writechar_out:
  "out_view (writechar ch s) = write_at (out_at s) [ch] (out_view s)"
  "out_at (writechar ch s) = Suc (out_at s)"
  by (simp_all add: writechar_def Let_def)

lemma writeout_out:
  "out_view (writeout bs s) = write_at (out_at s) bs (out_view s)"
  "out_at (writeout bs s) = out_at s + length bs"
proof (induction bs arbitrary: s)
  case Nil
  { case 1 show ?case by simp next case 2 show ?case by simp }
next
  case (Cons ch bs)
  have step: "write_at (Suc p) bs (write_at p [ch] f) = write_at p (ch # bs) f" for p f
    using write_at_append [of p "[ch]" bs f] by simp
  { case 1 show ?case using Cons by (simp add: Let_def step) next
    case 2 show ?case using Cons by (simp add: Let_def) }
qed

interpretation outfile: byte_sink out_view out_at writeout seekout "\<lambda>s. out_file (closeout s)"
  by unfold_locales
     (simp_all add: writeout_out seekout_def closeout_def, simp_all add: out_view_def out_at_def flushout_def)

text \<open>
  C20: the buffered output is transparent.  Whatever blocks are written, in
  whatever order and at whatever positions, and however they fall across the
  2048-byte buffer, the file after \<^verbatim>\<open>closeout\<close> is the one that results from
  writing each block at its position directly; skipped bytes are zero.
\<close>

theorem closeout_file:
  "out_file (closeout (fold (\<lambda>(p, bs) s. writeout bs (seekout p s)) ws (openout s))) =
     fold (\<lambda>(p, bs). write_at p bs) ws []"
  unfolding outfile.close_blocks by (simp add: openout_def out_view_def)

text \<open>
  C21: the buffered input is transparent.  After a seek, a counted read gives
  the next bytes of the file, however they fall across the 1024-byte buffer;
  when there are fewer, the linker stops with a premature end of file.
\<close>

theorem readin_file:
  "case readin n (seekin p s) of
     Inr (bs, t) \<Rightarrow>
       n \<le> length (drop p (in_file s)) \<and> bs = take n (drop p (in_file s)) \<and>
       in_rest t = drop n (drop p (in_file s)) \<and> in_file t = in_file s
   | Inl e \<Rightarrow>
       length (drop p (in_file s)) < n \<and> e = Fatal ''premature end of input file''"
proof -
  have "in_file t = in_file s" if "same_but_input (seekin p s) t" for t
    using that unfolding same_but_input_def by (metis (no_types) input.ext_inject input.surjective input.update_convs seekin_def)
  then show ?thesis
    using readin_take_bytes [of n "seekin p s"] by (auto simp: prematureeof_def)
qed

end
