(* ===== verification/Ldtable.thy ===== *)
theory Ldtable
  imports Ldio Symtab
begin

text \<open>
  The linker's symbol table, \<^verbatim>\<open>ld/table.c\<close> with \<^verbatim>\<open>struct symstruct\<close> of
  \<^verbatim>\<open>ld/type.h\<close>: a hash table of chains in which only symbols that are exported
  or imported are ever found; local symbols of modules are entries too.  A
  symbol pointer is an index into the list of entries, a module pointer an
  index into the list of modules.  The storage under the table is not bounded
  in the model.
\<close>

section \<open>Entries\<close>

text \<open>Symbol flags (\<^verbatim>\<open>ld/obj.h\<close>).\<close>

abbreviation SEGM_MASK :: u32 where "SEGM_MASK \<equiv> 0x000F"
abbreviation A_MASK :: u32 where "A_MASK \<equiv> 0x0010"
abbreviation C_MASK :: u32 where "C_MASK \<equiv> 0x0020"
abbreviation I_MASK :: u32 where "I_MASK \<equiv> 0x0040"
abbreviation E_MASK :: u32 where "E_MASK \<equiv> 0x0080"
abbreviation N_MASK :: u32 where "N_MASK \<equiv> 0x0100"
abbreviation SA_MASK :: u32 where "SA_MASK \<equiv> 0x2000"
abbreviation SZ_MASK :: u32 where "SZ_MASK \<equiv> 0xC000"

record symstruct =
  modptr :: "nat option"
  sm_value :: u32
  sm_flags :: u32
  sm_name :: "byte list"

record ldtab = ioput +
  symbols :: "symstruct list"
  hashtab :: "nat \<Rightarrow> nat list"

definition syminit :: "'a ldtab_scheme \<Rightarrow> 'a ldtab_scheme" where
  "syminit s = s\<lparr>symbols := [], hashtab := (\<lambda>_. [])\<rparr>"

definition upd_symbol :: "nat \<Rightarrow> (symstruct \<Rightarrow> symstruct) \<Rightarrow> 'a ldtab_scheme \<Rightarrow> 'a ldtab_scheme" where
  "upd_symbol r f s = s\<lparr>symbols := (symbols s)[r := f (symbols s ! r)]\<rparr>"

text \<open>The characters are signed: \<^verbatim>\<open>*name++\<close> extends the sign.\<close>

definition gethashptr :: "byte list \<Rightarrow> nat" where
  "gethashptr name =
     unat ((fold (\<lambda>ch hashval. hashval * 2 + scast ch) name (0 :: u32) * 157) AND 0xFF)"

text \<open>
  A new entry at the end of its chain.  The value and the flags are not
  initialised; the one caller assigns both before anything reads them, and the
  model starts them at zero.
\<close>

definition addsym :: "byte list \<Rightarrow> 'a ldtab_scheme \<Rightarrow> nat \<times> 'a ldtab_scheme" where
  "addsym name s =
     (let h = gethashptr name; r = length (symbols s)
      in (r, s\<lparr>symbols := symbols s @ [\<lparr>modptr = None, sm_value = 0, sm_flags = 0, sm_name = name\<rparr>],
               hashtab := (hashtab s)(h := hashtab s h @ [r])\<rparr>))"

definition is_extern :: "u32 \<Rightarrow> bool" where
  "is_extern flags \<longleftrightarrow> has flags (E_MASK OR I_MASK)"

definition findsym :: "byte list \<Rightarrow> 'a ldtab_scheme \<Rightarrow> nat option" where
  "findsym name s =
     List.find (\<lambda>r. is_extern (sm_flags (symbols s ! r)) \<and> sm_name (symbols s ! r) = name)
       (hashtab s (gethashptr name))"

text \<open>The text of a name up to its terminator, or the end of the file.\<close>

definition str_len :: "byte list \<Rightarrow> nat" where
  "str_len bs = length (takeWhile (\<lambda>b. b \<noteq> 0) bs)"

function readstring :: "'a input_scheme \<Rightarrow> stop + byte list \<times> 'a input_scheme" where
  "readstring s =
     (case readchar s of
        (None, s1) \<Rightarrow> prematureeof
      | (Some c, s1) \<Rightarrow>
          if c = 0 then Inr ([], s1)
          else bindE (readstring s1) (\<lambda>(bs, s2). Inr (c # bs, s2)))"
  by pat_completeness auto
termination
  by (relation "measure (\<lambda>s. length (in_rest s))") (auto dest: sym intro: infile.get_shorter)

declare readstring.simps [simp del]

section \<open>The table as a map of external names\<close>

definition table_ok :: "'a ldtab_scheme \<Rightarrow> bool" where
  "table_ok s \<longleftrightarrow>
     (\<forall>h. \<forall>r\<in>set (hashtab s h). r < length (symbols s) \<and> gethashptr (sm_name (symbols s ! r)) = h) \<and>
     (\<forall>r<length (symbols s). r \<in> set (hashtab s (gethashptr (sm_name (symbols s ! r))))) \<and>
     (\<forall>q<length (symbols s). \<forall>r<length (symbols s).
        is_extern (sm_flags (symbols s ! q)) \<longrightarrow> is_extern (sm_flags (symbols s ! r)) \<longrightarrow>
        sm_name (symbols s ! q) = sm_name (symbols s ! r) \<longrightarrow> q = r)"

lemma table_ok_init: "table_ok (syminit s)"
  by (simp add: table_ok_def syminit_def)

lemma findsym_Some_iff:
  assumes "table_ok s"
  shows "findsym name s = Some r \<longleftrightarrow>
    r < length (symbols s) \<and> is_extern (sm_flags (symbols s ! r)) \<and> sm_name (symbols s ! r) = name"
proof
  assume "findsym name s = Some r"
  then show "r < length (symbols s) \<and> is_extern (sm_flags (symbols s ! r)) \<and> sm_name (symbols s ! r) = name"
    using assms by (auto simp: findsym_def find_Some_iff table_ok_def dest: nth_mem)
next
  assume r: "r < length (symbols s) \<and> is_extern (sm_flags (symbols s ! r)) \<and> sm_name (symbols s ! r) = name"
  show "findsym name s = Some r"
    unfolding findsym_def
    by (rule find_Some_unique) (use r assms in \<open>auto simp: table_ok_def\<close>)
qed

text \<open>The assignments that complete a new or redefined symbol in \<^verbatim>\<open>readmodule\<close>.\<close>

definition define_symbol :: "nat \<Rightarrow> u32 \<Rightarrow> u32 \<Rightarrow> nat \<Rightarrow> 'a ldtab_scheme \<Rightarrow> 'a ldtab_scheme" where
  "define_symbol m v fl r s = upd_symbol r (\<lambda>y. y\<lparr>modptr := Some m, sm_value := v, sm_flags := fl\<rparr>) s"

definition new_symbol :: "nat \<Rightarrow> u32 \<Rightarrow> u32 \<Rightarrow> byte list \<Rightarrow> 'a ldtab_scheme \<Rightarrow> nat \<times> 'a ldtab_scheme" where
  "new_symbol m v fl name s =
     (case addsym name s of (r, s1) \<Rightarrow> (r, define_symbol m v fl r s1))"

lemma new_symbol_simps [simp]:
  "fst (new_symbol m v fl name s) = length (symbols s)"
  "symbols (snd (new_symbol m v fl name s)) =
     symbols s @ [\<lparr>modptr = Some m, sm_value = v, sm_flags = fl, sm_name = name\<rparr>]"
  "hashtab (snd (new_symbol m v fl name s)) =
     (hashtab s)(gethashptr name := hashtab s (gethashptr name) @ [length (symbols s)])"
  by (simp_all add: new_symbol_def addsym_def Let_def define_symbol_def upd_symbol_def)

lemma new_symbol_ok:
  assumes ok: "table_ok s" and new: "is_extern fl \<Longrightarrow> findsym name s = None"
  shows "table_ok (snd (new_symbol m v fl name s))"
proof -
  have fresh: "\<not> (is_extern (sm_flags (symbols s ! r)) \<and> sm_name (symbols s ! r) = name)"
    if "is_extern fl" "r < length (symbols s)" for r
    using new findsym_Some_iff [OF ok, of name r] that by auto
  let ?n = "length (symbols s)" and ?t = "snd (new_symbol m v fl name s)"
  have chain: "r < ?n" "gethashptr (sm_name (symbols s ! r)) = h" if "r \<in> set (hashtab s h)" for r h
    using ok that by (auto simp: table_ok_def)
  have entry: "r \<in> set (hashtab s (gethashptr (sm_name (symbols s ! r))))" if "r < ?n" for r
    using ok that by (auto simp: table_ok_def)
  have uniq: "q = r" if "q < ?n" "r < ?n" "is_extern (sm_flags (symbols s ! q))"
      "is_extern (sm_flags (symbols s ! r))" "sm_name (symbols s ! q) = sm_name (symbols s ! r)" for q r
    using ok that by (auto simp: table_ok_def)
  have old: "symbols ?t ! r = symbols s ! r" if "r < ?n" for r
    using that by (simp add: nth_append)
  have last: "sm_name (symbols ?t ! ?n) = name" "sm_flags (symbols ?t ! ?n) = fl" by simp_all
  have "r < Suc ?n \<and> gethashptr (sm_name (symbols ?t ! r)) = h" if "r \<in> set (hashtab ?t h)" for r h
    using that chain [of r h] old [of r] last(1) by (auto split: if_splits)
  moreover have "r \<in> set (hashtab ?t (gethashptr (sm_name (symbols ?t ! r))))" if "r < Suc ?n" for r
    using that entry [of r] old [of r] last(1) by (cases "r = ?n") auto
  moreover have "q = r" if "q < Suc ?n" "r < Suc ?n" "is_extern (sm_flags (symbols ?t ! q))"
      "is_extern (sm_flags (symbols ?t ! r))" "sm_name (symbols ?t ! q) = sm_name (symbols ?t ! r)" for q r
    using that uniq [of q r] old [of q] old [of r] fresh [of q] fresh [of r]
    by (cases "q = ?n"; cases "r = ?n") (auto simp: last simp del: new_symbol_simps)
  moreover have "length (symbols ?t) = Suc ?n" by simp
  ultimately show ?thesis
    unfolding table_ok_def by metis
qed

lemma findsym_new_symbol:
  assumes ok: "table_ok s" and new: "is_extern fl \<Longrightarrow> findsym name s = None"
  shows "findsym k (snd (new_symbol m v fl name s)) =
    (if is_extern fl \<and> k = name then Some (length (symbols s)) else findsym k s)"
proof (rule option_eqI)
  fix r
  have ok': "table_ok (snd (new_symbol m v fl name s))"
    using assms by (rule new_symbol_ok)
  have fresh: "\<not> (is_extern (sm_flags (symbols s ! r)) \<and> sm_name (symbols s ! r) = name)"
    if "is_extern fl" "r < length (symbols s)"
    using new findsym_Some_iff [OF ok, of name r] that by auto
  then show "findsym k (snd (new_symbol m v fl name s)) = Some r \<longleftrightarrow>
     (if is_extern fl \<and> k = name then Some (length (symbols s)) else findsym k s) = Some r"
    by (auto simp: findsym_Some_iff [OF ok] findsym_Some_iff [OF ok'] nth_append less_Suc_eq)
qed

text \<open>External symbols make a table of named entries, as the assembler's do.\<close>

interpretation ld_table: name_table table_ok "\<lambda>_. True" findsym "new_symbol m v (fl OR E_MASK)"
  for m v fl
proof
  have ext: "is_extern (fl OR E_MASK)"
    by (simp add: is_extern_def bit_eq_iff bit_simps) (rule exI [of _ 7], simp)
  fix s :: "'a ldtab_scheme" and k k' p
  assume ok: "table_ok s"
  show "findsym k s = None \<Longrightarrow> table_ok (snd (new_symbol m v (fl OR E_MASK) k s))"
    using new_symbol_ok [OF ok] by blast
  show "findsym k s = None \<Longrightarrow> findsym k' (snd (new_symbol m v (fl OR E_MASK) k s)) =
      (if k' = k then Some (fst (new_symbol m v (fl OR E_MASK) k s)) else findsym k' s)"
    using findsym_new_symbol [OF ok, of "fl OR E_MASK" k k' m v] ext by auto
  show "\<lbrakk>findsym k s = Some p; findsym k' s = Some p\<rbrakk> \<Longrightarrow> k' = k"
    by (simp add: findsym_Some_iff [OF ok])
qed

text \<open>Reading a string that ends within the file.\<close>

lemma readstring_rest:
  assumes "in_rest s = name @ 0 # bs" and "0 \<notin> set name"
  shows "\<exists>s'. readstring s = Inr (name, s') \<and> in_rest s' = bs \<and> same_but_input s s'"
  using assms
proof (induction name arbitrary: s)
  case Nil
  then obtain s1 where s1: "readchar s = (Some 0, s1)" "in_rest s1 = bs"
    using infile.get_Cons [of s 0 bs] by auto
  then show ?case using same_readchar [of s] by (simp add: readstring.simps [of s])
next
  case (Cons c name)
  then obtain s1 where s1: "readchar s = (Some c, s1)" "in_rest s1 = name @ 0 # bs"
    using infile.get_Cons [of s c "name @ 0 # bs"] by auto
  moreover obtain s2 where "readstring s1 = Inr (name, s2)" "in_rest s2 = bs" "same_but_input s1 s2"
    using Cons s1 by auto
  ultimately show ?case
    using same_readchar [of s] Cons.prems
    by (auto simp: readstring.simps [of s] intro: same_but_input_trans)
qed

end
