(* ===== verification/Readobj.thy ===== *)
theory Readobj
  imports Ldtable Objformat
begin

text \<open>
  Reading object files and archives, \<^verbatim>\<open>ld/readobj.c\<close>: the header of each
  module, its symbol descriptors and names, and the resolution of its symbols
  against those of the modules read before.  The chain of modules is the list
  \<open>mods\<close> (\<^verbatim>\<open>modlast\<close> is its last element), the entry and redefinition lists
  are lists of indices.  Files are given by their contents; the texts of
  messages are not modelled, only their counts and that a fatal one stops the
  linker.
\<close>

section \<open>Modules\<close>

abbreviation NSEG :: nat where "NSEG \<equiv> 16"

record modstruct =
  filename :: "byte list"
  archentry :: "byte list option"
  modname :: "byte list"
  textoffset :: u64
  mclass :: byte
  loadflag :: bool
  segmaxsize :: "byte list"
  segsizedesc :: "byte list"
  symparray :: "nat list"
  segaddr :: "nat \<Rightarrow> u32"
  comaddr :: "nat \<Rightarrow> u32"
  comsize :: "nat \<Rightarrow> u32"
  segfadj :: "nat \<Rightarrow> u32"
  segpad :: "nat \<Rightarrow> u32"
  segfill :: "nat \<Rightarrow> byte"
  segnoload :: "nat \<Rightarrow> bool"
  segsize :: "byte list"

record redlist =
  rlsymptr :: nat
  rlmodptr :: nat
  rlvalue :: u32

record link = ldtab +
  mods :: "modstruct list"
  entrylist :: "nat list"
  redefs :: "redlist list"
  errcount :: u32
  warncount :: u32

definition objinit :: "'a link_scheme \<Rightarrow> 'a link_scheme" where
  "objinit s = s\<lparr>mods := [], entrylist := [], redefs := []\<rparr>"

definition upd_mod :: "nat \<Rightarrow> (modstruct \<Rightarrow> modstruct) \<Rightarrow> 'a link_scheme \<Rightarrow> 'a link_scheme" where
  "upd_mod i f s = s\<lparr>mods := (mods s)[i := f (mods s ! i)]\<rparr>"

abbreviation modlast :: "'a link_scheme \<Rightarrow> nat"
  where "modlast s \<equiv> length (mods s) - 1"

section \<open>Numbers and headers\<close>

definition checksum :: "byte list \<Rightarrow> byte" where
  "checksum string = fold (\<lambda>b sum. sum + b) string 0"

definition readsize :: "nat \<Rightarrow> 'a input_scheme \<Rightarrow> stop + u32 \<times> 'a input_scheme" where
  "readsize count s =
     (if count = 0 then Inr (0, s)
      else bindE (readin count s) (\<lambda>(buf, s1). Inr (cnu2 target buf count, s1)))"

definition readconvsize :: "byte \<Rightarrow> 'a input_scheme \<Rightarrow> stop + u32 \<times> 'a input_scheme" where
  "readconvsize countindex s = readsize (convertsize countindex) s"

text \<open>The \<^verbatim>\<open>char\<close> is widened with its sign before the shift.\<close>

definition segbits :: "nat \<Rightarrow> byte list \<Rightarrow> byte" where
  "segbits seg sizedesc =
     3 AND ucast (drop_bit (2 * (seg mod 4)) (scast (sizedesc ! ((NSEG - 1 - seg) div 4)) :: u32))"

definition segsizecount :: "nat \<Rightarrow> byte list \<Rightarrow> nat" where
  "segsizecount seg sizedesc = convertsize (segbits seg sizedesc)"

definition readfileheader :: "'a input_scheme \<Rightarrow> stop + u32 \<times> 'a input_scheme" where
  "readfileheader s =
     bindE (readin 4 s) (\<lambda>(fileheader, s1).
     bindE (readin 1 s1) (\<lambda>(filechecksum, s2).
       if filechecksum ! 0 \<noteq> checksum fileheader then
         Inl (Fatal '' is not an object file (checksum failed)'')
       else Inr (c2u2 target (drop 2 fileheader), s2)))"

text \<open>The size bytes of all segments, one after the other.\<close>

primrec read_segsizes :: "nat list \<Rightarrow> byte list \<Rightarrow> 'a input_scheme \<Rightarrow> stop + byte list \<times> 'a input_scheme" where
  "read_segsizes [] sizedesc s = Inr ([], s)"
| "read_segsizes (seg # segs) sizedesc s =
     bindE (readin (segsizecount seg sizedesc) s) (\<lambda>(bs, s1).
     bindE (read_segsizes segs sizedesc s1) (\<lambda>(cs, s2). Inr (bs @ cs, s2)))"

text \<open>
  The fields that are not read are not initialised; the ones that matter
  are assigned before they are used.
\<close>

definition reedmodheader :: "'a link_scheme \<Rightarrow> stop + 'a link_scheme" where
  "reedmodheader s =
     bindE (readin 12 s) (\<lambda>(modheader, s1).
     bindE (readin 4 s1) (\<lambda>(maxsizes, s2).
     bindE (readin 4 s2) (\<lambda>(sizedesc, s3).
     bindE (read_segsizes [0..<NSEG] sizedesc s3) (\<lambda>(sizes, s4).
       Inr (s4\<lparr>mods := mods s4 @
         [\<lparr>filename = [], archentry = None, modname = [],
           textoffset = c4u4 target (take 4 modheader), mclass = modheader ! 10,
           loadflag = False, segmaxsize = maxsizes, segsizedesc = sizedesc, symparray = [],
           segaddr = (\<lambda>_. 0), comaddr = (\<lambda>_. 0), comsize = (\<lambda>_. 0), segfadj = (\<lambda>_. 0),
           segpad = (\<lambda>_. 0), segfill = (\<lambda>_. 0), segnoload = (\<lambda>_. False),
           segsize = sizes\<rparr>]\<rparr>)))))"

section \<open>Symbols\<close>

definition entrysym :: "nat \<Rightarrow> 'a link_scheme \<Rightarrow> 'a link_scheme" where
  "entrysym symptr s =
     (if symptr \<in> set (entrylist s) then s else s\<lparr>entrylist := entrylist s @ [symptr]\<rparr>)"

text \<open>
  A second exported definition: \<^verbatim>\<open>TRUE\<close> when it is in error, otherwise the one
  of the higher class goes on the redefinition list.  Classes are compared as
  signed characters.
\<close>

definition redsym :: "nat \<Rightarrow> u32 \<Rightarrow> 'a link_scheme \<Rightarrow> stop + bool \<times> 'a link_scheme" where
  "redsym symptr val s =
     (let y = symbols s ! symptr; new = modlast s; cls = mclass (mods s ! new) in
      case modptr y of
        None \<Rightarrow> Inl NullPointer
      | Some old \<Rightarrow>
          if mclass (mods s ! old) = cls then Inr (True, s)
          else if \<exists>rl\<in>set (redefs s). symptr = rlsymptr rl \<and> cls = mclass (mods s ! rlmodptr rl) then
            Inr (True, s)
          else if sint (mclass (mods s ! old)) < sint cls then
            Inr (False, s\<lparr>redefs := redefs s @ [\<lparr>rlsymptr = symptr, rlmodptr = new, rlvalue = val\<rparr>]\<rparr>)
          else
            Inr (False,
              upd_symbol symptr (\<lambda>y. y\<lparr>modptr := Some new, sm_value := val\<rparr>)
                (s\<lparr>redefs := redefs s @ [\<lparr>rlsymptr = symptr, rlmodptr = old, rlvalue = sm_value y\<rparr>]\<rparr>)))"

text \<open>\<^verbatim>\<open>redefined\<close> names the file of the definition in use.\<close>

definition redefined :: "nat \<Rightarrow> 'a link_scheme \<Rightarrow> stop + 'a link_scheme" where
  "redefined symptr s =
     (if modptr (symbols s ! symptr) = None then Inl NullPointer
      else Inr (s\<lparr>warncount := warncount s + 1\<rparr>))"

text \<open>The end of the loop body: the symbol becomes the module's.\<close>

definition take_symbol :: "nat \<Rightarrow> u32 \<Rightarrow> u32 \<Rightarrow> 'a link_scheme \<Rightarrow> 'a link_scheme" where
  "take_symbol symptr dvalue flags s =
     (let s1 = define_symbol (modlast s) dvalue flags symptr s
      in if has flags N_MASK then entrysym symptr s1 else s1)"

text \<open>
  A known external symbol.  A segment of \<^verbatim>\<open>SEGM_MASK\<close> on either side means any
  segment; the value of an import is the size of a common block.
\<close>

definition meet_symbol :: "nat \<Rightarrow> u32 \<Rightarrow> u32 \<Rightarrow> 'a link_scheme \<Rightarrow> stop + 'a link_scheme" where
  "meet_symbol symptr dvalue flags s =
     (let sflags = sm_flags (symbols s ! symptr);
          anyold = (sflags AND SEGM_MASK = SEGM_MASK);
          sflags' = (if anyold then sflags AND (NOT SEGM_MASK OR (flags AND SEGM_MASK)) else sflags);
          flags' = (if \<not> anyold \<and> flags AND SEGM_MASK = SEGM_MASK
                    then flags AND (NOT SEGM_MASK OR (sflags AND SEGM_MASK)) else flags);
          s1 = upd_symbol symptr (\<lambda>y. y\<lparr>sm_flags := sflags'\<rparr>) s
      in
      if has (flags' XOR sflags') (A_MASK OR SEGM_MASK) then redefined symptr s1
      else if has sflags' E_MASK then
        (if has flags' E_MASK then
           bindE (redsym symptr dvalue s1) (\<lambda>(bad, s2). if bad then redefined symptr s2 else Inr s2)
         else Inr s1)
      else if has flags' I_MASK \<and> sint dvalue \<le> sint (sm_value (symbols s ! symptr)) then Inr s1
      else Inr (take_symbol symptr dvalue flags' s1))"

text \<open>One symbol of a module: its entry, known or new.\<close>

definition enter_symbol :: "byte list \<Rightarrow> u32 \<Rightarrow> u32 \<Rightarrow> 'a link_scheme \<Rightarrow> stop + nat \<times> 'a link_scheme" where
  "enter_symbol symname dvalue flags s =
     (case (if is_extern flags then findsym symname s else None) of
        Some symptr \<Rightarrow> bindE (meet_symbol symptr dvalue flags s) (\<lambda>s1. Inr (symptr, s1))
      | None \<Rightarrow>
          (case addsym symname s of (symptr, s1) \<Rightarrow>
             Inr (symptr, take_symbol symptr dvalue flags s1)))"

primrec read_descriptors :: "nat \<Rightarrow> 'a input_scheme \<Rightarrow> stop + (u32 \<times> u32) list \<times> 'a input_scheme" where
  "read_descriptors 0 s = Inr ([], s)"
| "read_descriptors (Suc n) s =
     bindE (readsize 2 s) (\<lambda>(stroffset, s1).
     bindE (readsize 2 s1) (\<lambda>(flags, s2).
     bindE (readconvsize (ucast (drop_bit 14 (flags AND SZ_MASK))) s2) (\<lambda>(dvalue, s3).
     bindE (read_descriptors n s3) (\<lambda>(ds, s4). Inr ((dvalue, flags) # ds, s4)))))"

primrec enter_symbols :: "(u32 \<times> u32) list \<Rightarrow> 'a link_scheme \<Rightarrow> stop + nat list \<times> 'a link_scheme" where
  "enter_symbols [] s = Inr ([], s)"
| "enter_symbols (d # ds) s =
     bindE (readstring s) (\<lambda>(symname, s1).
     bindE (enter_symbol symname (fst d) (snd d) s1) (\<lambda>(symptr, s2).
     bindE (enter_symbols ds s2) (\<lambda>(ptrs, s3). Inr (symptr # ptrs, s3))))"

definition readmodule :: "byte list \<Rightarrow> byte list option \<Rightarrow> 'a link_scheme \<Rightarrow> stop + 'a link_scheme" where
  "readmodule fname aentry s =
     bindE (reedmodheader s) (\<lambda>s1.
     bindE (readsize 2 s1) (\<lambda>(nsymbol, s2).
     bindE (read_descriptors (unat nsymbol) s2) (\<lambda>(ds, s3).
     bindE (readstring s3) (\<lambda>(name, s4).
     bindE (enter_symbols ds
        (upd_mod (modlast s4) (\<lambda>m. m\<lparr>filename := fname, archentry := aentry, modname := name\<rparr>) s4))
       (\<lambda>(ptrs, s5). Inr (upd_mod (modlast s5) (\<lambda>m. m\<lparr>symparray := ptrs\<rparr>) s5))))))"

section \<open>Archives\<close>

text \<open>
  The fields of \<^verbatim>\<open>struct ar_hdr\<close> of the system's \<^verbatim>\<open>ar.h\<close>: name 16, date 12, user
  and group 6 each, mode 8, size 10 and a closing mark of 2 characters.
\<close>

abbreviation SARMAG :: nat where "SARMAG \<equiv> 8"
abbreviation ARHDR :: nat where "ARHDR \<equiv> 60"

definition armag :: "byte list" where
  "armag = bytes_of ''!<arch>'' @ [10]"

text \<open>\<^verbatim>\<open>strtoul\<close> with base 0: white space, a sign, the prefix of the base, digits.\<close>

definition digit_value :: "byte \<Rightarrow> nat" where
  "digit_value c =
     (let v = unat c in
      if 48 \<le> v \<and> v \<le> 57 then v - 48
      else if 65 \<le> v \<and> v \<le> 90 then v - 55
      else if 97 \<le> v \<and> v \<le> 122 then v - 87
      else 36)"

definition c_isspace :: "byte \<Rightarrow> bool" where
  "c_isspace c \<longleftrightarrow> c = 32 \<or> 9 \<le> c \<and> c \<le> 13"

definition digits_value :: "nat \<Rightarrow> byte list \<Rightarrow> nat" where
  "digits_value base bs =
     fold (\<lambda>c n. n * base + digit_value c) (takeWhile (\<lambda>c. digit_value c < base) bs) 0"

definition strtoul0 :: "byte list \<Rightarrow> u64" where
  "strtoul0 bs =
     (let ts = dropWhile c_isspace bs;
          neg = (take 1 ts = [45]);
          ds = (if take 1 ts = [45] \<or> take 1 ts = [43] then drop 1 ts else ts);
          n = (if take 1 ds \<noteq> [48] then digits_value 10 ds
               else if (take 1 (drop 1 ds) = [120] \<or> take 1 (drop 1 ds) = [88]) \<and>
                       drop 2 ds \<noteq> [] \<and> digit_value (ds ! 2) < 16
               then digits_value 16 (drop 2 ds)
               else digits_value 8 ds);
          v = (if 2 ^ 64 \<le> n then - 1 else of_nat n)
      in if neg \<and> n < 2 ^ 64 then - v else v)"

text \<open>The name loses its trailing blanks and slashes, but not its first character.\<close>

definition trim_name :: "byte list \<Rightarrow> byte list" where
  "trim_name bs =
     takeWhile (\<lambda>c. c \<noteq> 0)
       (take 1 bs @ rev (dropWhile (\<lambda>c. c = 32 \<or> c = 47) (rev (drop 1 bs))))"

definition readarheader :: "'a input_scheme \<Rightarrow> (u64 \<times> byte list) \<times> 'a input_scheme" where
  "readarheader s =
     (case readineofok ARHDR s of
        (None, s1) \<Rightarrow> ((0, []), s1)
      | (Some h, s1) \<Rightarrow> ((strtoul0 (drop 48 h), trim_name (take 16 h)), s1))"

section \<open>Files\<close>

primrec readmodules :: "nat \<Rightarrow> (modstruct \<Rightarrow> modstruct) \<Rightarrow> byte list \<Rightarrow> byte list option \<Rightarrow>
    'a link_scheme \<Rightarrow> stop + 'a link_scheme" where
  "readmodules 0 adjust fname aentry s = Inr s"
| "readmodules (Suc modcount) adjust fname aentry s =
     bindE (readmodule fname aentry s) (\<lambda>s1.
       readmodules modcount adjust fname aentry (upd_mod (modlast s1) adjust s1))"

text \<open>The modules of an archive member that is an object file, at its position.\<close>

definition read_member :: "byte list \<Rightarrow> byte list \<Rightarrow> nat \<Rightarrow> 'a link_scheme \<Rightarrow> stop + 'a link_scheme" where
  "read_member fname aentry filepos s =
     bindE (readfileheader (seekin filepos s)) (\<lambda>(modcount, s1).
       readmodules (unat modcount) (\<lambda>m. m\<lparr>textoffset := textoffset m + of_nat filepos\<rparr>)
         fname (Some aentry) s1)"

text \<open>
  The members one after the other, at even positions; \<^verbatim>\<open>filelength\<close> is signed.
  A member that starts like an archive is entered.
\<close>

primrec read_archive :: "nat \<Rightarrow> byte list \<Rightarrow> nat \<Rightarrow> 'a link_scheme \<Rightarrow> stop + 'a link_scheme" where
  "read_archive 0 fname filepos s = Inl NoFuel"
| "read_archive (Suc n) fname filepos s =
     (case readarheader s of ((filelength, aentry), s1) \<Rightarrow>
        if sint filelength \<le> 0 then Inr s1
        else
          let pos = filepos + ARHDR in
          bindE (readsize 2 s1) (\<lambda>(magic, s2).
          bindE (if magic = 0x5331 then read_member fname aentry pos s2 else Inr s2) (\<lambda>s3.
            let len = (if magic = 0x3C21 then of_nat SARMAG else filelength);
                next = pos + unat ((len + 1) AND NOT 1)
            in read_archive n fname next (seekin next s3))))"

definition readsyms :: "byte list \<Rightarrow> byte list \<Rightarrow> 'a link_scheme \<Rightarrow> stop + 'a link_scheme" where
  "readsyms fname contents s =
     bindE (readsize 2 (openin contents s)) (\<lambda>(magic, s1).
       let s2 = seekin 0 s1 in
       if magic = 0x5331 then
         bindE (readfileheader s2) (\<lambda>(modcount, s3).
           readmodules (unat modcount) id fname None s3)
       else
         bindE (readin SARMAG s2) (\<lambda>(filemagic, s3).
           if filemagic \<noteq> armag then Inl (Fatal '' has bad magic number'')
           else read_archive (length contents + 1) fname SARMAG s3))"

end
