(* ===== verification/Readobj_Props.thy ===== *)
theory Readobj_Props
  imports Readobj
begin

text \<open>
  What reading object files keeps of the linker's tables: every pointer in a
  symbol, a module, the entry list and the redefinition list stays valid, every
  external name has one entry, and the only ways to stop are fatal messages.
\<close>

section \<open>Well-formed linker tables\<close>

definition link_ok :: "'a link_scheme \<Rightarrow> bool" where
  "link_ok s \<longleftrightarrow>
     table_ok s \<and>
     (\<forall>y\<in>set (symbols s). \<exists>m<length (mods s). modptr y = Some m) \<and>
     (\<forall>m\<in>set (mods s). \<forall>r\<in>set (symparray m). r < length (symbols s)) \<and>
     (\<forall>r\<in>set (entrylist s). r < length (symbols s)) \<and> distinct (entrylist s) \<and>
     (\<forall>rl\<in>set (redefs s). rlsymptr rl < length (symbols s) \<and> rlmodptr rl < length (mods s))"

definition grows :: "'a link_scheme \<Rightarrow> 'a link_scheme \<Rightarrow> bool" where
  "grows s t \<longleftrightarrow>
     length (mods s) \<le> length (mods t) \<and> length (symbols s) \<le> length (symbols t) \<and>
     in_file t = in_file s"

lemma grows_refl [simp]: "grows s s"
  by (simp add: grows_def)

lemma grows_trans: "\<lbrakk>grows s t; grows t u\<rbrakk> \<Longrightarrow> grows s u"
  by (auto simp: grows_def)

text \<open>Reading from the file leaves the tables alone.\<close>

lemma same_but_input_link:
  assumes "same_but_input s t"
  shows "symbols t = symbols s" "hashtab t = hashtab s" "mods t = mods s"
    "entrylist t = entrylist s" "redefs t = redefs s" "in_file t = in_file s"
    "errcount t = errcount s" "warncount t = warncount s"
  by (subst assms [unfolded same_but_input_def], simp)+

lemma same_but_input_ok:
  assumes "same_but_input s t"
  shows "link_ok t = link_ok s" "grows s t" "table_ok t = table_ok s"
  using same_but_input_link [OF assms] by (simp_all add: link_ok_def grows_def table_ok_def)

definition fatal :: "stop \<Rightarrow> bool" where
  "fatal e \<longleftrightarrow> (\<exists>msg. e = Fatal msg)"

text \<open>
  A reading operation: it gives a value with some property and only moves in
  the file, or it stops with a message.
\<close>

definition reads :: "'a input_scheme \<Rightarrow> ('v \<Rightarrow> bool) \<Rightarrow> stop + 'v \<times> 'a input_scheme \<Rightarrow> bool" where
  "reads s Q m \<longleftrightarrow>
     (case m of Inl e \<Rightarrow> fatal e | Inr (x, t) \<Rightarrow> same_but_input s t \<and> Q x)"

lemma reads_bind:
  assumes "reads s Q m"
    and "\<And>x t. \<lbrakk>same_but_input s t; Q x\<rbrakk> \<Longrightarrow> reads t R (f (x, t))"
  shows "reads s R (bindE m f)"
  using assms unfolding reads_def
  by (cases m) (fastforce split: sum.splits intro: same_but_input_trans)+

lemma reads_Inr: "reads s Q (Inr (x, s)) \<longleftrightarrow> Q x"
  by (simp add: reads_def)

lemma reads_fatal [simp]: "reads s Q (Inl (Fatal msg))" "reads s Q prematureeof"
  by (simp_all add: reads_def fatal_def prematureeof_def)

lemma reads_weaken: "\<lbrakk>reads s Q m; \<And>x. Q x \<Longrightarrow> R x\<rbrakk> \<Longrightarrow> reads s R m"
  by (auto simp: reads_def split: sum.splits)

lemma reads_readin: "reads s (\<lambda>bs. length bs = n) (readin n s)"
  using readin_take_bytes [of n s] by (auto simp: reads_def prematureeof_def fatal_def)

lemma reads_readsize: "reads s (\<lambda>_. True) (readsize n s)"
  unfolding readsize_def
  by (auto simp: reads_Inr intro!: reads_bind [OF reads_readin])

lemma reads_readstring: "reads s (\<lambda>name. 0 \<notin> set name) (readstring s)"
proof (induction s rule: readstring.induct)
  case (1 s)
  have same: "same_but_input s s1" if "readchar s = (r, s1)" for r s1
    using same_readchar [of s] that by simp
  show ?case
  proof (cases "readchar s")
    case (Pair r s1)
    show ?thesis
    proof (cases "r = None \<or> r = Some 0")
      case True
      then show ?thesis
        using same [OF Pair] by (auto simp: readstring.simps [of s] Pair) (simp add: reads_def)
    next
      case False
      then obtain c where c: "r = Some c" "c \<noteq> 0" by auto
      have "reads s1 (\<lambda>name. 0 \<notin> set name) (readstring s1)"
        using 1 Pair c by simp
      then show ?thesis
        using same [OF Pair] c
        by (auto simp: readstring.simps [of s] Pair reads_def
            split: sum.splits intro: same_but_input_trans)
    qed
  qed
qed

lemma reads_readfileheader: "reads s (\<lambda>_. True) (readfileheader s)"
  unfolding readfileheader_def
  by (auto simp: reads_Inr simp del: readin.simps intro!: reads_bind [OF reads_readin])

lemma reads_segsizes: "reads s (\<lambda>_. True) (read_segsizes segs sizedesc s)"
  by (induction segs arbitrary: s)
     (auto simp: reads_Inr intro!: reads_bind [OF reads_readin] reads_bind)

lemma reads_descriptors: "reads s (\<lambda>ds. length ds = n) (read_descriptors n s)"
  by (induction n arbitrary: s)
     (auto simp: reads_Inr readconvsize_def intro!: reads_bind [OF reads_readsize] reads_bind)

section \<open>Operations on the tables\<close>

definition keeps_link :: "'a link_scheme \<Rightarrow> stop + 'a link_scheme \<Rightarrow> bool" where
  "keeps_link s m \<longleftrightarrow>
     (case m of Inl e \<Rightarrow> fatal e | Inr t \<Rightarrow> link_ok t \<and> grows s t)"

lemma keeps_link_Inr [simp]: "keeps_link s (Inr t) \<longleftrightarrow> link_ok t \<and> grows s t"
  by (simp add: keeps_link_def)

lemma keeps_link_reads':
  assumes "reads s Q m" and "link_ok s"
    and "\<And>x t. \<lbrakk>m = Inr (x, t); same_but_input s t; link_ok t; Q x\<rbrakk> \<Longrightarrow> keeps_link t (f (x, t))"
  shows "keeps_link s (bindE m f)"
proof (cases m)
  case (Inl e)
  then show ?thesis using assms(1) by (simp add: reads_def keeps_link_def)
next
  case (Inr p)
  obtain x t where p: "p = (x, t)" by (cases p)
  then have t: "same_but_input s t" "Q x" using assms(1) Inr by (auto simp: reads_def)
  then have "keeps_link t (f (x, t))" using assms(2,3) Inr p by (simp add: same_but_input_ok)
  then show ?thesis
    using Inr p same_but_input_ok(2) [OF t(1)]
    by (auto simp: keeps_link_def split: sum.splits intro: grows_trans)
qed

lemma keeps_link_reads:
  assumes "reads s Q m" and "link_ok s"
    and "\<And>x t. \<lbrakk>same_but_input s t; link_ok t; Q x\<rbrakk> \<Longrightarrow> keeps_link t (f (x, t))"
  shows "keeps_link s (bindE m f)"
  using assms by (rule keeps_link_reads')

lemma keeps_link_bind:
  assumes "keeps_link s m" and "\<And>t. \<lbrakk>link_ok t; grows s t\<rbrakk> \<Longrightarrow> keeps_link t (f t)"
  shows "keeps_link s (bindE m f)"
proof (cases m)
  case (Inl e)
  then show ?thesis using assms(1) by (simp add: keeps_link_def)
next
  case (Inr t)
  then have t: "grows s t" "keeps_link t (f t)" using assms by simp_all
  then show ?thesis
    using Inr by (auto simp: keeps_link_def split: sum.splits intro: grows_trans)
qed

text \<open>
  An assignment to a symbol that keeps its name, gives it a module and leaves
  it external or not as it was.
\<close>

lemma table_ok_upd_symbol:
  assumes ok: "table_ok s"
    and f: "sm_name (f (symbols s ! r)) = sm_name (symbols s ! r)"
      "is_extern (sm_flags (f (symbols s ! r))) = is_extern (sm_flags (symbols s ! r))"
  shows "table_ok (upd_symbol r f s)"
proof -
  let ?t = "upd_symbol r f s"
  have "symbols ?t ! q = symbols s ! q \<or> q = r \<and> symbols ?t ! q = f (symbols s ! r)" for q
    by (cases "r < length (symbols s)") (auto simp: upd_symbol_def nth_list_update list_update_beyond)
  then have "sm_name (symbols ?t ! q) = sm_name (symbols s ! q)"
    "is_extern (sm_flags (symbols ?t ! q)) = is_extern (sm_flags (symbols s ! q))" for q
    using f by metis+
  moreover have "length (symbols ?t) = length (symbols s)" "hashtab ?t = hashtab s"
    by (simp_all add: upd_symbol_def)
  ultimately have "table_ok ?t \<longleftrightarrow> table_ok s" by (simp only: table_ok_def)
  with ok show ?thesis by simp
qed

lemma upd_symbol_simps [simp]:
  "length (symbols (upd_symbol r f s)) = length (symbols s)"
  "mods (upd_symbol r f s) = mods s" "entrylist (upd_symbol r f s) = entrylist s"
  "redefs (upd_symbol r f s) = redefs s" "in_file (upd_symbol r f s) = in_file s"
  for s :: "'a link_scheme"
  by (simp_all add: upd_symbol_def)

lemma link_ok_upd_symbol:
  fixes s :: "'a link_scheme"
  assumes ok: "link_ok s" and r: "r < length (symbols s)"
    and f: "sm_name (f (symbols s ! r)) = sm_name (symbols s ! r)"
      "is_extern (sm_flags (f (symbols s ! r))) = is_extern (sm_flags (symbols s ! r))"
      "\<exists>m<length (mods s). modptr (f (symbols s ! r)) = Some m"
  shows "link_ok (upd_symbol r f s)"
proof -
  have "set (symbols (upd_symbol r f s)) \<subseteq> insert (f (symbols s ! r)) (set (symbols s))"
    by (simp add: upd_symbol_def set_update_subset_insert)
  then show ?thesis
    using ok f(3) table_ok_upd_symbol [of s f r, OF _ f(1,2)]
    unfolding link_ok_def upd_symbol_simps by blast
qed

lemma link_ok_symbol:
  assumes "link_ok s" "r < length (symbols s)"
  obtains m where "m < length (mods s)" "modptr (symbols s ! r) = Some m"
proof -
  have "symbols s ! r \<in> set (symbols s)" using assms(2) by simp
  then show thesis using that assms(1) unfolding link_ok_def by blast
qed

lemma link_ok_redef:
  assumes "link_ok s" "rlsymptr rl < length (symbols s)" "rlmodptr rl < length (mods s)"
  shows "link_ok (s\<lparr>redefs := redefs s @ [rl]\<rparr>)"
  using assms by (auto simp: link_ok_def table_ok_def)

lemma link_ok_counts [simp]:
  "link_ok (s\<lparr>warncount := n\<rparr>) = link_ok s" "grows s (s\<lparr>warncount := n\<rparr>)"
  by (simp_all add: link_ok_def table_ok_def grows_def)

lemma entrysym_ok:
  assumes "link_ok s" "r < length (symbols s)"
  shows "link_ok (entrysym r s)" "grows s (entrysym r s)"
  using assms by (auto simp: entrysym_def link_ok_def table_ok_def grows_def)

lemma take_symbol_ok:
  assumes "link_ok s" "r < length (symbols s)" "mods s \<noteq> []"
    and "is_extern fl = is_extern (sm_flags (symbols s ! r))"
  shows "link_ok (take_symbol r v fl s)" "grows s (take_symbol r v fl s)"
proof -
  let ?t = "define_symbol (modlast s) v fl r s"
  have "link_ok ?t"
    unfolding define_symbol_def using assms by (intro link_ok_upd_symbol) auto
  moreover have "grows s ?t" by (simp add: grows_def define_symbol_def)
  moreover have "length (symbols ?t) = length (symbols s)" by (simp add: define_symbol_def)
  ultimately show "link_ok (take_symbol r v fl s)" "grows s (take_symbol r v fl s)"
    using assms(2) entrysym_ok [of ?t r]
    by (auto simp: take_symbol_def Let_def intro: grows_trans)
qed

lemma keeps_redefined:
  assumes "link_ok s" "r < length (symbols s)"
  shows "keeps_link s (redefined r s)"
  using assms by (auto simp: redefined_def elim: link_ok_symbol)

definition same_size :: "'a link_scheme \<Rightarrow> 'a link_scheme \<Rightarrow> bool" where
  "same_size s t \<longleftrightarrow> grows s t \<and> length (symbols t) = length (symbols s) \<and> mods t = mods s"

lemma redsym_ok:
  assumes "link_ok s" "r < length (symbols s)" "mods s \<noteq> []"
  shows "\<exists>b t. redsym r v s = Inr (b, t) \<and> link_ok t \<and> same_size s t"
proof -
  obtain m where m: "m < length (mods s)" "modptr (symbols s ! r) = Some m"
    using assms(1,2) by (rule link_ok_symbol)
  let ?rl = "\<lambda>i x. \<lparr>rlsymptr = r, rlmodptr = i, rlvalue = x\<rparr>"
  let ?s = "\<lambda>i x. s\<lparr>redefs := redefs s @ [?rl i x]\<rparr>"
  have ok: "link_ok (?s i x)" if "i < length (mods s)" for i x
    using assms that by (intro link_ok_redef) auto
  have "link_ok (upd_symbol r (\<lambda>y. y\<lparr>modptr := Some (modlast s), sm_value := v\<rparr>) (?s m x))" for x
    using ok [OF m(1), of x] assms by (intro link_ok_upd_symbol) auto
  then show ?thesis
    using m ok [of "modlast s"] assms
    by (auto simp: redsym_def Let_def same_size_def grows_def)
qed

lemma is_extern_segm:
  "is_extern (fl AND (NOT SEGM_MASK OR (x AND SEGM_MASK))) = is_extern fl"
proof -
  have "(fl AND (NOT SEGM_MASK OR (x AND SEGM_MASK))) AND (E_MASK OR I_MASK) = fl AND (E_MASK OR I_MASK)"
    by (simp add: and.assoc bit.conj_disj_distrib2)
  then show ?thesis by (simp add: is_extern_def)
qed

lemma keeps_meet_symbol:
  assumes ok: "link_ok s" and r: "r < length (symbols s)" and m: "mods s \<noteq> []"
    and ext: "is_extern fl" "is_extern (sm_flags (symbols s ! r))"
  shows "keeps_link s (meet_symbol r v fl s)"
proof -
  let ?sf = "sm_flags (symbols s ! r)"
  let ?sf' = "if ?sf AND SEGM_MASK = SEGM_MASK then ?sf AND (NOT SEGM_MASK OR (fl AND SEGM_MASK)) else ?sf"
  let ?fl' = "if \<not> ?sf AND SEGM_MASK = SEGM_MASK \<and> fl AND SEGM_MASK = SEGM_MASK
    then fl AND (NOT SEGM_MASK OR (?sf AND SEGM_MASK)) else fl"
  define s1 where "s1 = upd_symbol r (\<lambda>y. y\<lparr>sm_flags := ?sf'\<rparr>) s"
  obtain i where "i < length (mods s)" "modptr (symbols s ! r) = Some i"
    using ok r by (rule link_ok_symbol)
  then have ok1: "link_ok s1"
    unfolding s1_def using ok r is_extern_segm by (intro link_ok_upd_symbol) auto
  have s1: "grows s s1" "mods s1 \<noteq> []" "r < length (symbols s1)" "sm_flags (symbols s1 ! r) = ?sf'"
    using r m by (simp_all add: s1_def grows_def) (simp add: upd_symbol_def)
  have "is_extern ?fl' = is_extern (sm_flags (symbols s1 ! r))"
    unfolding s1(4) using ext is_extern_segm by simp
  then have "keeps_link s1 (Inr (take_symbol r v ?fl' s1))"
    using take_symbol_ok [OF ok1 s1(3,2)] by simp
  moreover have "keeps_link s1 (redefined r s1)"
    using ok1 s1(3) by (rule keeps_redefined)
  moreover have "keeps_link s1 (bindE (redsym r v s1) (\<lambda>(bad, s2). if bad then redefined r s2 else Inr s2))"
  proof -
    obtain b t where t: "redsym r v s1 = Inr (b, t)" "link_ok t" "same_size s1 t"
      using redsym_ok [OF ok1 s1(3,2)] by blast
    then have "keeps_link t (redefined r t)"
      using s1(3) by (intro keeps_redefined) (simp_all add: same_size_def)
    then show ?thesis
      using t by (auto simp: keeps_link_def same_size_def split: sum.splits intro: grows_trans)
  qed
  moreover have "keeps_link s x" if "keeps_link s1 x" for x
    using that s1(1) by (auto simp: keeps_link_def split: sum.splits intro: grows_trans)
  ultimately show ?thesis
    using ok1 s1(1) unfolding meet_symbol_def Let_def s1_def [symmetric] by simp
qed

lemma new_symbol_link [simp]:
  "mods (snd (new_symbol m v fl name s)) = mods s"
  "entrylist (snd (new_symbol m v fl name s)) = entrylist s"
  "redefs (snd (new_symbol m v fl name s)) = redefs s"
  "in_file (snd (new_symbol m v fl name s)) = in_file s"
  for s :: "'a link_scheme"
  by (simp_all add: new_symbol_def addsym_def Let_def define_symbol_def)

lemma link_ok_new_symbol:
  fixes s :: "'a link_scheme"
  assumes ok: "link_ok s" and m: "m < length (mods s)" and new: "is_extern fl \<Longrightarrow> findsym name s = None"
  shows "link_ok (snd (new_symbol m v fl name s))"
proof -
  have "table_ok (snd (new_symbol m v fl name s))"
    using ok new by (intro new_symbol_ok) (simp_all add: link_ok_def)
  then show ?thesis
    using ok m by (auto simp: link_ok_def less_Suc_eq)
qed

text \<open>Operations that also give a symbol pointer, or several.\<close>

definition gives_ptrs :: "'a link_scheme \<Rightarrow> ('v \<Rightarrow> nat set) \<Rightarrow> stop + 'v \<times> 'a link_scheme \<Rightarrow> bool" where
  "gives_ptrs s ptrs m \<longleftrightarrow>
     (case m of Inl e \<Rightarrow> fatal e
      | Inr (x, t) \<Rightarrow> link_ok t \<and> grows s t \<and> mods t = mods s \<and> (\<forall>r\<in>ptrs x. r < length (symbols t)))"

lemma meet_symbol_mods: "meet_symbol r v fl s = Inr t \<Longrightarrow> mods t = mods s"
  by (auto simp: meet_symbol_def Let_def redefined_def redsym_def take_symbol_def entrysym_def define_symbol_def
      bindE_Inr_iff split: if_splits option.splits)

lemma gives_enter_symbol:
  assumes ok: "link_ok s" and m: "mods s \<noteq> []"
  shows "gives_ptrs s (\<lambda>r. {r}) (enter_symbol name v fl s)"
proof (cases "if is_extern fl then findsym name s else None")
  case (Some r)
  then have r: "is_extern fl" "r < length (symbols s)" "is_extern (sm_flags (symbols s ! r))"
    using findsym_Some_iff [of s name r] ok by (auto simp: link_ok_def split: if_splits)
  then have "keeps_link s (meet_symbol r v fl s)"
    using ok m by (intro keeps_meet_symbol)
  then show ?thesis
    using Some r(2) by (auto simp: enter_symbol_def gives_ptrs_def keeps_link_def grows_def
        meet_symbol_mods split: sum.splits)
next
  case None
  let ?t = "snd (new_symbol (modlast s) v fl name s)"
  have t: "link_ok ?t"
    using ok m None by (intro link_ok_new_symbol) (auto split: if_splits)
  have "enter_symbol name v fl s =
      Inr (length (symbols s), if has fl N_MASK then entrysym (length (symbols s)) ?t else ?t)"
    using None by (simp add: enter_symbol_def take_symbol_def new_symbol_def addsym_def Let_def)
  then show ?thesis
    using t entrysym_ok [OF t, of "length (symbols s)"]
    by (auto simp: gives_ptrs_def grows_def entrysym_def)
qed

lemma gives_enter_symbols:
  assumes "link_ok s" and "mods s \<noteq> []"
  shows "gives_ptrs s set (enter_symbols ds s)"
  using assms
proof (induction ds arbitrary: s)
  case Nil
  then show ?case by (simp add: gives_ptrs_def)
next
  case (Cons d ds)
  show ?case
  proof (cases "readstring s")
    case (Inl e)
    then show ?thesis using reads_readstring [of s] by (simp add: reads_def gives_ptrs_def)
  next
    case (Inr p)
    obtain name s1 where s1: "readstring s = Inr (name, s1)" "same_but_input s s1"
      using Inr reads_readstring [of s] by (cases p) (auto simp: reads_def)
    note t = same_but_input_ok [OF s1(2)] same_but_input_link [OF s1(2)]
    have 2: "gives_ptrs s1 (\<lambda>r. {r}) (enter_symbol name (fst d) (snd d) s1)"
      using Cons.prems t by (intro gives_enter_symbol) simp_all
    show ?thesis
    proof (cases "enter_symbol name (fst d) (snd d) s1")
      case (Inl e)
      then show ?thesis using s1 2 by (simp add: gives_ptrs_def)
    next
      case (Inr q)
      then obtain r s2 where s2: "enter_symbol name (fst d) (snd d) s1 = Inr (r, s2)" "link_ok s2"
          "grows s1 s2" "mods s2 = mods s1" "r < length (symbols s2)"
        using 2 by (cases q) (auto simp: gives_ptrs_def)
      then have "gives_ptrs s2 set (enter_symbols ds s2)"
        using Cons t by simp
      then show ?thesis
        using s1 s2 t by (auto simp: gives_ptrs_def grows_def split: sum.splits)
    qed
  qed
qed

section \<open>Modules and files\<close>

lemma link_ok_upd_mod:
  assumes ok: "link_ok s" and f: "\<And>m. m \<in> set (mods s) \<Longrightarrow> \<forall>r\<in>set (symparray (f m)). r < length (symbols s)"
  shows "link_ok (upd_mod i f s)" "grows s (upd_mod i f s)"
proof -
  have "\<forall>r\<in>set (symparray m). r < length (symbols s)" if "m \<in> set (mods (upd_mod i f s))" for m
  proof (cases "i < length (mods s)")
    case True
    then have "m = f (mods s ! i) \<or> m \<in> set (mods s)"
      using that set_update_subset_insert [of "mods s" i "f (mods s ! i)"] by (auto simp: upd_mod_def)
    then show ?thesis using ok f [of "mods s ! i"] True by (auto simp: link_ok_def)
  next
    case False
    then show ?thesis using that ok by (auto simp: upd_mod_def link_ok_def list_update_beyond)
  qed
  then show "link_ok (upd_mod i f s)"
    using ok by (auto simp: link_ok_def upd_mod_def table_ok_def)
  show "grows s (upd_mod i f s)" by (simp add: grows_def upd_mod_def)
qed

text \<open>\<^verbatim>\<open>reedmodheader\<close> appends a module without symbols.\<close>

lemma keeps_reedmodheader:
  assumes "link_ok s"
  shows "keeps_link s (reedmodheader s) \<and> (\<forall>t. reedmodheader s = Inr t \<longrightarrow> mods t \<noteq> [])"
proof
  have add: "keeps_link t (Inr (t\<lparr>mods := mods t @ [m]\<rparr>))" if "link_ok t" "symparray m = []" for t :: "'a link_scheme" and m
    using that by (auto simp: link_ok_def table_ok_def grows_def less_Suc_eq)
  show "keeps_link s (reedmodheader s)"
    unfolding reedmodheader_def
    by (rule keeps_link_reads [OF reads_readin assms], simp only: prod.case,
        rule keeps_link_reads [OF reads_readin], assumption, simp only: prod.case,
        rule keeps_link_reads [OF reads_readin], assumption, simp only: prod.case,
        rule keeps_link_reads [OF reads_segsizes], assumption, simp only: prod.case,
        rule add, assumption, simp)
  show "\<forall>t. reedmodheader s = Inr t \<longrightarrow> mods t \<noteq> []"
    by (auto simp: reedmodheader_def bindE_Inr_iff)
qed

lemma keeps_link_bind':
  assumes "keeps_link s m" and "\<And>t. \<lbrakk>m = Inr t; link_ok t; grows s t\<rbrakk> \<Longrightarrow> keeps_link t (f t)"
  shows "keeps_link s (bindE m f)"
  using assms(1) assms(2) by (cases m) (auto simp: keeps_link_def split: sum.splits intro: grows_trans)

lemma keeps_link_gives:
  assumes "gives_ptrs s ptrs m"
    and "\<And>x t. \<lbrakk>link_ok t; \<forall>r\<in>ptrs x. r < length (symbols t)\<rbrakk> \<Longrightarrow> keeps_link t (f (x, t))"
  shows "keeps_link s (bindE m f)"
proof (cases m)
  case (Inl e)
  then show ?thesis using assms(1) by (simp add: gives_ptrs_def keeps_link_def)
next
  case (Inr p)
  obtain x t where p: "p = (x, t)" by (cases p)
  then have t: "link_ok t" "grows s t" "\<forall>r\<in>ptrs x. r < length (symbols t)"
    using assms(1) Inr by (auto simp: gives_ptrs_def)
  then have "keeps_link t (f (x, t))" using assms(2) by blast
  then show ?thesis
    using Inr p t by (auto simp: keeps_link_def split: sum.splits intro: grows_trans)
qed

lemma link_ok_named:
  assumes "link_ok s" and "\<And>m. symparray (f m) = symparray m"
  shows "link_ok (upd_mod i f s)"
  using assms by (intro link_ok_upd_mod) (auto simp: link_ok_def)

lemma keeps_link_shift: "\<lbrakk>keeps_link t m; grows s t\<rbrakk> \<Longrightarrow> keeps_link s m"
  by (auto simp: keeps_link_def split: sum.splits intro: grows_trans)

lemma keeps_readmodule:
  assumes "link_ok s"
  shows "keeps_link s (readmodule fname aentry s)"
  unfolding readmodule_def
proof (rule keeps_link_bind')
  show "keeps_link s (reedmodheader s)" using keeps_reedmodheader [OF assms] by blast
  fix s1 assume s1: "reedmodheader s = Inr s1" "link_ok s1"
  then have m1: "mods s1 \<noteq> []" using keeps_reedmodheader [OF assms] by blast
  let ?f = "\<lambda>name m. m\<lparr>filename := fname, archentry := aentry, modname := name\<rparr>"
  have body: "keeps_link s4 (bindE (enter_symbols ds (upd_mod (modlast s4) (?f name) s4))
      (\<lambda>(ptrs, s5). Inr (upd_mod (modlast s5) (\<lambda>m. m\<lparr>symparray := ptrs\<rparr>) s5)))"
    if "link_ok s4" "mods s4 \<noteq> []" for s4 :: "'a link_scheme" and ds name
  proof (rule keeps_link_shift)
    let ?t = "upd_mod (modlast s4) (?f name) s4"
    have "link_ok ?t" using that by (intro link_ok_named) simp_all
    moreover have "mods ?t \<noteq> []" using that by (simp add: upd_mod_def)
    ultimately show "keeps_link ?t (bindE (enter_symbols ds ?t)
        (\<lambda>(ptrs, s5). Inr (upd_mod (modlast s5) (\<lambda>m. m\<lparr>symparray := ptrs\<rparr>) s5)))"
      by (rule keeps_link_gives [OF gives_enter_symbols]) (auto intro: link_ok_upd_mod)
    show "grows s4 ?t" by (simp add: grows_def upd_mod_def)
  qed
  have names: "keeps_link s3 (bindE (readstring s3) (\<lambda>(name, s4).
     bindE (enter_symbols ds (upd_mod (modlast s4) (?f name) s4))
       (\<lambda>(ptrs, s5). Inr (upd_mod (modlast s5) (\<lambda>m. m\<lparr>symparray := ptrs\<rparr>) s5))))"
    if "link_ok s3" "mods s3 \<noteq> []" for s3 :: "'a link_scheme" and ds
    by (rule keeps_link_reads [OF reads_readstring that(1)], unfold prod.case, rule body)
       (simp_all add: same_but_input_link that)
  have descs: "keeps_link s2 (bindE (read_descriptors n s2) (\<lambda>(ds, s3).
     bindE (readstring s3) (\<lambda>(name, s4).
     bindE (enter_symbols ds (upd_mod (modlast s4) (?f name) s4))
       (\<lambda>(ptrs, s5). Inr (upd_mod (modlast s5) (\<lambda>m. m\<lparr>symparray := ptrs\<rparr>) s5)))))"
    if "link_ok s2" "mods s2 \<noteq> []" for s2 :: "'a link_scheme" and n
    by (rule keeps_link_reads [OF reads_descriptors that(1)], unfold prod.case, rule names)
       (simp_all add: same_but_input_link that)
  show "keeps_link s1 (bindE (readsize 2 s1) (\<lambda>(nsymbol, s2).
     bindE (read_descriptors (unat nsymbol) s2) (\<lambda>(ds, s3).
     bindE (readstring s3) (\<lambda>(name, s4).
     bindE (enter_symbols ds (upd_mod (modlast s4) (?f name) s4))
       (\<lambda>(ptrs, s5). Inr (upd_mod (modlast s5) (\<lambda>m. m\<lparr>symparray := ptrs\<rparr>) s5))))))"
    by (rule keeps_link_reads [OF reads_readsize s1(2)], unfold prod.case, rule descs)
       (simp_all add: same_but_input_link m1)
qed

lemma keeps_readmodules:
  assumes "link_ok s" and "\<And>m. symparray (adjust m) = symparray m"
  shows "keeps_link s (readmodules n adjust fname aentry s)"
  using assms(1)
proof (induction n arbitrary: s)
  case 0
  then show ?case by simp
next
  case (Suc n)
  have "keeps_link t (readmodules n adjust fname aentry (upd_mod (modlast t) adjust t))"
    if "link_ok t" for t :: "'a link_scheme"
    using Suc.IH [OF link_ok_named [OF that assms(2)]]
    by (rule keeps_link_shift) (simp add: grows_def upd_mod_def)
  then show ?case
    unfolding readmodules.simps by (intro keeps_link_bind keeps_readmodule Suc.prems)
qed

lemma seekin_ok [simp]:
  "link_ok (seekin p s) = link_ok s" "grows s (seekin p s)" "in_file (seekin p s) = in_file s"
  "link_ok (openin f s) = link_ok s"
  by (simp_all add: seekin_def openin_def link_ok_def table_ok_def grows_def)

lemma keeps_read_member:
  assumes "link_ok s"
  shows "keeps_link s (read_member fname aentry p s)"
proof (rule keeps_link_shift)
  show "keeps_link (seekin p s) (read_member fname aentry p s)"
    unfolding read_member_def
    by (rule keeps_link_reads [OF reads_readfileheader])
       (auto simp: assms intro!: keeps_readmodules)
qed simp

text \<open>
  The archive loop ends: every member header takes sixty bytes of what is left
  of the file.
\<close>

lemma readineofok_rest:
  "\<exists>r t. readineofok n s = (r, t) \<and> same_but_input s t \<and> (r = None \<longleftrightarrow> length (in_rest s) < n)"
proof (induction n arbitrary: s)
  case 0
  then show ?case by simp
next
  case (Suc n)
  obtain r s1 where r: "readchar s = (r, s1)" by (cases "readchar s")
  then have s1: "same_but_input s s1" "in_rest s1 = tl (in_rest s)"
      "r = (case in_rest s of [] \<Rightarrow> None | b # bs \<Rightarrow> Some b)"
    using same_readchar [of s] infile.get_rest [of s] infile.get_fst [of s] by auto
  obtain q t where t: "readineofok n s1 = (q, t)" "same_but_input s1 t" "q = None \<longleftrightarrow> length (in_rest s1) < n"
    using Suc.IH by blast
  show ?case
  proof (cases "in_rest s")
    case Nil
    then show ?thesis using r s1 by auto
  next
    case (Cons b bs)
    then show ?thesis using r s1 t by (auto intro: same_but_input_trans)
  qed
qed

lemma readarheader_rest:
  "\<exists>len aentry t. readarheader s = ((len, aentry), t) \<and> same_but_input s t \<and>
     (0 < sint len \<longrightarrow> ARHDR \<le> length (in_rest s))"
  using readineofok_rest [of ARHDR s] by (fastforce simp: readarheader_def split: option.splits)

lemma keeps_read_archive:
  assumes "link_ok s" and "in_rest s = drop p (in_file s)" and "length (in_file s) - p < n"
  shows "keeps_link s (read_archive n fname p s)"
  using assms
proof (induction n arbitrary: s p)
  case 0
  then show ?case by simp
next
  case (Suc n)
  obtain len aentry s1 where h: "readarheader s = ((len, aentry), s1)" "same_but_input s s1"
      "0 < sint len \<longrightarrow> ARHDR \<le> length (in_rest s)"
    using readarheader_rest by blast
  note s1 = same_but_input_ok [OF h(2)] same_but_input_link [OF h(2)]
  show ?case
  proof (cases "sint len \<le> 0")
    case True
    then show ?thesis using h s1 Suc.prems by simp
  next
    case False
    then have left: "ARHDR \<le> length (in_file s) - p" using h(3) Suc.prems(2) by simp
    have again: "keeps_link t (read_archive n fname (p + ARHDR + k) (seekin (p + ARHDR + k) t))"
      if "link_ok t" "in_file t = in_file s" for t :: "'a link_scheme" and k
      using that left Suc.prems(3)
      by (intro keeps_link_shift [OF Suc.IH]) (simp_all)
    have member: "keeps_link t (bindE (if magic = 0x5331 then read_member fname aentry (p + ARHDR) t else Inr t)
       (\<lambda>s3. let len = (if magic = 0x3C21 then of_nat SARMAG else len);
                next = p + ARHDR + unat ((len + 1) AND NOT 1)
            in read_archive n fname next (seekin next s3)))"
      if t: "link_ok t" "in_file t = in_file s" for t :: "'a link_scheme" and magic
      using t unfolding Let_def
      by (intro keeps_link_bind again) (auto intro: keeps_read_member simp: grows_def)
    have "keeps_link s1 (bindE (readsize 2 s1) (\<lambda>(magic, s2).
       bindE (if magic = 0x5331 then read_member fname aentry (p + ARHDR) s2 else Inr s2)
       (\<lambda>s3. let len = (if magic = 0x3C21 then of_nat SARMAG else len);
                next = p + ARHDR + unat ((len + 1) AND NOT 1)
            in read_archive n fname next (seekin next s3))))"
      using s1 Suc.prems(1)
      by (intro keeps_link_reads [OF reads_readsize], simp, unfold prod.case, intro member)
         (simp_all add: same_but_input_link)
    then have "keeps_link s1 (read_archive (Suc n) fname p s)"
      unfolding read_archive.simps h(1) prod.case if_not_P [OF False] Let_def .
    then show ?thesis using s1(2) by (rule keeps_link_shift)
  qed
qed

text \<open>
  C22: reading any file at all, object file, archive or garbage, ends; it
  leaves well-formed tables or stops the linker with a fatal message, and never
  follows an invalid pointer.
\<close>

theorem readsyms_safe:
  assumes "link_ok s"
  shows "case readsyms fname contents s of
           Inr t \<Rightarrow> link_ok t \<and> length (mods s) \<le> length (mods t) \<and> length (symbols s) \<le> length (symbols t)
         | Inl e \<Rightarrow> \<exists>msg. e = Fatal msg"
proof -
  let ?s = "openin contents s"
  have ok: "link_ok ?s" using assms by simp
  have object: "keeps_link t (bindE (readfileheader t) (\<lambda>(modcount, s3).
      readmodules (unat modcount) id fname None s3))" if "link_ok t" for t :: "'a link_scheme"
    by (rule keeps_link_reads [OF reads_readfileheader that]) (auto intro!: keeps_readmodules)
  have archive: "keeps_link t (bindE (readin SARMAG t) (\<lambda>(filemagic, s3).
      if filemagic \<noteq> armag then Inl (Fatal '' has bad magic number'')
      else read_archive (length contents + 1) fname SARMAG s3))"
    if "link_ok t" "in_rest t = contents" "in_file t = contents" for t :: "'a link_scheme"
  proof (rule keeps_link_reads' [OF reads_readin that(1)], unfold prod.case)
    fix bs and u :: "'a link_scheme"
    assume u: "readin SARMAG t = Inr (bs, u)" "same_but_input t u" "link_ok u"
    then have "in_rest u = drop SARMAG (in_file u)" "in_file u = contents"
      using that(2,3) readin_take_bytes [of SARMAG t]
      by (auto simp: prematureeof_def same_but_input_link simp del: readin.simps)
    then have "keeps_link u (read_archive (length contents + 1) fname SARMAG u)"
      using u(3) by (intro keeps_read_archive) simp_all
    then show "keeps_link u (if bs \<noteq> armag then Inl (Fatal '' has bad magic number'')
        else read_archive (length contents + 1) fname SARMAG u)"
      by (simp add: keeps_link_def fatal_def del: read_archive.simps)
  qed
  have "keeps_link ?s (readsyms fname contents s)"
    unfolding readsyms_def Let_def
  proof (rule keeps_link_reads [OF reads_readsize ok], unfold prod.case)
    fix magic :: u32 and t :: "'a link_scheme"
    assume t: "same_but_input ?s t" "link_ok t"
    have "in_file t = contents"
      using same_but_input_link(6) [OF t(1)] by (simp add: openin_def)
    then show "keeps_link t (if magic = 0x5331
        then bindE (readfileheader (seekin 0 t)) (\<lambda>(modcount, s3). readmodules (unat modcount) id fname None s3)
        else bindE (readin SARMAG (seekin 0 t)) (\<lambda>(filemagic, s3).
          if filemagic \<noteq> armag then Inl (Fatal '' has bad magic number'')
          else read_archive (length contents + 1) fname SARMAG s3))"
      using t(2) object [of "seekin 0 t"] archive [of "seekin 0 t"]
      by (auto intro: keeps_link_shift)
  qed
  moreover have "mods ?s = mods s" "symbols ?s = symbols s" by (simp_all add: openin_def)
  ultimately show ?thesis
    by (auto simp: keeps_link_def grows_def fatal_def split: sum.splits)
qed

text \<open>The linker before it has read anything, and a small object file.\<close>

definition link_start :: link where
  "link_start =
     \<lparr>in_file = [], in_fpos = 0, inbuf = [], inbufptr = 0,
      out_file = [], out_fpos = 0, outbuf = [],
      symbols = [], hashtab = (\<lambda>_. []), mods = [], entrylist = [], redefs = [],
      errcount = 0, warncount = 0\<rparr>"

definition sample_object :: "byte list" where
  "sample_object =
     bytes_of ''S1'' @ [0, 1, 0x85] @
     [0, 0, 0, 0x30, 0, 0, 0, 3, 0, 8, 0, 0] @ [0x55, 0x55, 0x55, 0x55] @
     [0, 0, 0, 2, 0, 3] @ [0, 1] @ [0, 2, 0x01, 0x80] @
     bytes_of ''m'' @ [0] @ bytes_of ''_main'' @ [0] @
     [0x20, 0x43, 0x86, 0x2A, 0x39, 0x00]"

lemma link_start_ok: "link_ok link_start"
  by (simp add: link_start_def link_ok_def table_ok_def)

theorem readsyms_safe_witness:
  "\<exists>t. readsyms (bytes_of ''m.o'') sample_object link_start = Inr t \<and> link_ok t"
proof -
  have "\<not> isl (readsyms (bytes_of ''m.o'') sample_object link_start)"
    by code_simp
  then show ?thesis
    using readsyms_safe [OF link_start_ok, of "bytes_of ''m.o''" sample_object]
    by (auto split: sum.splits)
qed

end
