(* ===== verification/Linksyms.thy ===== *)
theory Linksyms
  imports Readobj_Props
begin

text \<open>
  Choosing the modules to link, \<^verbatim>\<open>ld/linksyms.c\<close>: those that the entry
  symbols need, directly or through the symbols of other modules; and the
  choice between definitions of one symbol in modules of different classes.
  The modules that a linker script keeps (\<^verbatim>\<open>script_roots\<close> of \<^verbatim>\<open>ld/script.c\<close>)
  are given by a function of the symbol and module tables.
\<close>

section \<open>Operations\<close>

abbreviation set_load :: "bool \<Rightarrow> modstruct \<Rightarrow> modstruct"
  where "set_load b m \<equiv> m\<lparr>loadflag := b\<rparr>"

text \<open>The recursion goes at most one level deeper for every module not yet loaded.\<close>

fun linkrefs :: "nat \<Rightarrow> nat \<Rightarrow> 'a link_scheme \<Rightarrow> stop + 'a link_scheme"
  and linkrefs_syms :: "nat \<Rightarrow> nat list \<Rightarrow> 'a link_scheme \<Rightarrow> stop + 'a link_scheme" where
  "linkrefs 0 m s = Inl NoFuel"
| "linkrefs (Suc n) m s =
     linkrefs_syms n (symparray (mods s ! m)) (upd_mod m (set_load True) s)"
| "linkrefs_syms n [] s = Inr s"
| "linkrefs_syms n (symptr # ptrs) s =
     (case modptr (symbols s ! symptr) of
        None \<Rightarrow> Inl NullPointer
      | Some m \<Rightarrow>
          if \<not> loadflag (mods s ! m) then
            bindE (linkrefs n m s) (\<lambda>s1. linkrefs_syms n ptrs s1)
          else linkrefs_syms n ptrs s)"

primrec link_mods :: "nat list \<Rightarrow> 'a link_scheme \<Rightarrow> stop + 'a link_scheme" where
  "link_mods [] s = Inr s"
| "link_mods (m # ms) s = bindE (linkrefs (length (mods s) + 1) m s) (\<lambda>s1. link_mods ms s1)"

primrec link_entries :: "nat list \<Rightarrow> 'a link_scheme \<Rightarrow> stop + 'a link_scheme" where
  "link_entries [] s = Inr s"
| "link_entries (r # rs) s =
     (case modptr (symbols s ! r) of
        None \<Rightarrow> Inl NullPointer
      | Some m \<Rightarrow> bindE (linkrefs (length (mods s) + 1) m s) (\<lambda>s1. link_entries rs s1))"

text \<open>
  The walk over the redefinition list.  An entry that is used is unlinked from
  its predecessor \<^verbatim>\<open>prlptr\<close>, or from the head of the list; when the
  predecessor has itself just been unlinked that has no effect on the list.
  The flags say whether all entries so far were unlinked, and whether the last
  one was.
\<close>

definition red_due :: "redlist \<Rightarrow> 'a link_scheme \<Rightarrow> bool" where
  "red_due rl s \<longleftrightarrow>
     loadflag (mods s ! rlmodptr rl) \<and>
     sint (mclass (mods s ! the (modptr (symbols s ! rlsymptr rl)))) < sint (mclass (mods s ! rlmodptr rl))"

primrec red_pass :: "bool \<Rightarrow> bool \<Rightarrow> redlist list \<Rightarrow> 'a link_scheme \<Rightarrow> bool \<times> redlist list \<times> 'a link_scheme" where
  "red_pass head gone [] s = (False, [], s)"
| "red_pass head gone (rl # rls) s =
     (if red_due rl s then
        let s1 = upd_symbol (rlsymptr rl)
                   (\<lambda>y. y\<lparr>modptr := Some (rlmodptr rl), sm_value := rlvalue rl\<rparr>) s;
            unlinked = (head \<or> \<not> gone)
        in case red_pass head unlinked rls s1 of (needlink, rest, s2) \<Rightarrow>
             (True, if unlinked then rest else rl # rest, s2)
      else
        case red_pass False False rls s of (needlink, rest, s2) \<Rightarrow> (needlink, rl # rest, s2))"

type_synonym roots = "symstruct list \<Rightarrow> modstruct list \<Rightarrow> nat list"

text \<open>One round: clear the flags, link from all roots, then prefer higher classes.\<close>

definition clear_flags :: "'a link_scheme \<Rightarrow> 'a link_scheme" where
  "clear_flags s = s\<lparr>mods := map (set_load False) (mods s)\<rparr>"

definition link_start_symbol :: "'a link_scheme \<Rightarrow> stop + 'a link_scheme" where
  "link_start_symbol s =
     (case findsym (bytes_of ''start'') s of
        None \<Rightarrow> Inr s
      | Some r \<Rightarrow> link_entries [r] s)"

definition link_round :: "roots \<Rightarrow> 'a link_scheme \<Rightarrow> stop + bool \<times> 'a link_scheme" where
  "link_round script_roots s =
     (if entrylist s = [] then Inl (Fatal ''no start symbol'')
      else
        bindE (link_entries (entrylist s) (clear_flags s)) (\<lambda>s1.
        bindE (link_mods (script_roots (symbols s1) (map (set_load False) (mods s1))) s1) (\<lambda>s2.
        bindE (link_start_symbol s2) (\<lambda>s3.
          case red_pass True False (redefs s3) s3 of (needlink, rls, s4) \<Rightarrow>
            Inr (needlink, s4\<lparr>redefs := rls\<rparr>)))))"

primrec link_rounds :: "nat \<Rightarrow> roots \<Rightarrow> 'a link_scheme \<Rightarrow> stop + 'a link_scheme" where
  "link_rounds 0 script_roots s = Inl NoFuel"
| "link_rounds (Suc n) script_roots s =
     bindE (link_round script_roots s) (\<lambda>(needlink, s1).
       if needlink then link_rounds n script_roots s1 else Inr s1)"

text \<open>Every round but the last raises the class of a redefined symbol's module.\<close>

definition linksyms :: "bool \<Rightarrow> roots \<Rightarrow> 'a link_scheme \<Rightarrow> stop + 'a link_scheme" where
  "linksyms argreloc_output script_roots s =
     (if argreloc_output then
        if mods s = [] then Inl NullPointer
        else if length (mods s) > 1 then Inl (Fatal ''relocatable output only works for one input file'')
        else Inr (s\<lparr>mods := map (set_load True) (mods s)\<rparr>)
      else
        let s1 = (case findsym (bytes_of ''_main'') s of None \<Rightarrow> s | Some r \<Rightarrow> entrysym r s)
        in link_rounds (256 * length (redefs s1) + 1) script_roots s1)"

end
