(* ===== verification/Linkmod.thy ===== *)
theory Linkmod
  imports Linksyms
begin

text \<open>
  Writing the parts of a module, \<^verbatim>\<open>ld/writex86.c\<close>: \<^verbatim>\<open>linkmod\<close> executes the
  commands of a module's text, relocating addresses by the places of its
  segments and by the values of its symbols, and \<^verbatim>\<open>padmod\<close> checks the sizes of
  its segments and pads them.  The layout of the segments comes from the
  module's fields, the files are given by a function from names to contents.
\<close>

section \<open>State\<close>

text \<open>The private variables of \<^verbatim>\<open>writex86.c\<close> and \<^verbatim>\<open>headerless\<close>.\<close>

record writer = link +
  curseg :: nat
  relocsize :: nat
  segadj :: "nat \<Rightarrow> u32"
  segdiscard :: "nat \<Rightarrow> bool"
  segpos :: "nat \<Rightarrow> u32"
  spos :: u32
  headerless :: bool

abbreviation FILEHEADERLENGTH :: "'a writer_scheme \<Rightarrow> u64"
  where "FILEHEADERLENGTH s \<equiv> (if headerless s then 0 else 32)"

text \<open>The file position of an address of a segment: both terms extend their sign.\<close>

definition seg_file_pos :: "'a writer_scheme \<Rightarrow> nat \<Rightarrow> u32 \<Rightarrow> u64" where
  "seg_file_pos s seg pos = FILEHEADERLENGTH s + scast pos + scast (segadj s seg)"

definition seek_current :: "'a writer_scheme \<Rightarrow> 'a writer_scheme" where
  "seek_current s =
     (if segdiscard s (curseg s) then s else seekout (unat (seg_file_pos s (curseg s) (spos s))) s)"

section \<open>Operations\<close>

definition setseg :: "nat \<Rightarrow> 'a writer_scheme \<Rightarrow> 'a writer_scheme" where
  "setseg newseg s =
     (if newseg = curseg s then s
      else
        let s1 = s\<lparr>segpos := (segpos s)(curseg s := spos s)\<rparr>
        in seek_current (s1\<lparr>curseg := newseg, spos := segpos s1 newseg\<rparr>))"

definition segwrite :: "byte list \<Rightarrow> 'a writer_scheme \<Rightarrow> 'a writer_scheme" where
  "segwrite buf s = (if segdiscard s (curseg s) then s else writeout buf s)"

text \<open>The loops \<^verbatim>\<open>while (count-- > 0)\<close> write nothing for a negative count.\<close>

definition writefill :: "u32 \<Rightarrow> byte \<Rightarrow> 'a writer_scheme \<Rightarrow> 'a writer_scheme" where
  "writefill count b s =
     (let s1 = s\<lparr>spos := spos s + count\<rparr>
      in if segdiscard s1 (curseg s1) then s1
         else (writechar b ^^ nat (sint count)) s1)"

definition writenulls :: "u32 \<Rightarrow> 'a writer_scheme \<Rightarrow> stop + 'a writer_scheme" where
  "writenulls count s =
     (let s1 = s\<lparr>spos := spos s + count\<rparr>
      in if segdiscard s1 (curseg s1) then Inr s1
         else if sint count < 0 then Inl (Fatal ''org command requires reverse seek'')
         else Inr ((writechar 0 ^^ nat (sint count)) s1))"

definition skip :: "nat \<Rightarrow> 'a writer_scheme \<Rightarrow> stop + 'a writer_scheme" where
  "skip countsize s = bindE (readsize countsize s) (\<lambda>(count, s1). writenulls count s1)"

text \<open>
  A relocated number: relative ones lose the address after the field; the
  result is stored with the current relocation size.
\<close>

definition put_reloc :: "byte \<Rightarrow> u32 \<Rightarrow> u32 \<Rightarrow> 'a writer_scheme \<Rightarrow> 'a writer_scheme" where
  "put_reloc modify base offset s =
     (let n = relocsize s;
          offset' = (if has modify 0x20 then offset - (spos s + of_nat n) else offset);
          buf = take n (u2cn target [0, 0, 0, 0] (base + offset') n);
          s1 = segwrite buf s
      in s1\<lparr>spos := spos s1 + of_nat n\<rparr>)"

text \<open>The special commands; \<open>True\<close> at the end of the text.\<close>

definition link_special :: "byte \<Rightarrow> 'a writer_scheme \<Rightarrow> stop + bool \<times> 'a writer_scheme" where
  "link_special modify s =
     (if modify = 0 then Inr (True, s\<lparr>segpos := (segpos s)(curseg s := spos s)\<rparr>)
      else if modify = 1 then Inr (False, s\<lparr>relocsize := 1\<rparr>)
      else if modify = 2 then Inr (False, s\<lparr>relocsize := 2\<rparr>)
      else if modify = 3 then Inl (Fatal ''relocation by long offsets not implemented'')
      else if modify = 0x11 then bindE (skip 1 s) (\<lambda>s1. Inr (False, s1))
      else if modify = 0x12 then bindE (skip 2 s) (\<lambda>s1. Inr (False, s1))
      else if modify = 0x13 then bindE (skip 4 s) (\<lambda>s1. Inr (False, s1))
      else if modify - 0x20 \<ge> 16 then Inl (Fatal ''bad data in input file'')
      else Inr (False, setseg (unat (modify - 0x20)) s))"

definition link_absolute :: "byte \<Rightarrow> 'a writer_scheme \<Rightarrow> stop + bool \<times> 'a writer_scheme" where
  "link_absolute modify s =
     (let n = (if modify = 0 then 64 else unat modify) in
      bindE (readin n s) (\<lambda>(buf, s1).
        let s2 = segwrite buf s1
        in Inr (False, s2\<lparr>spos := spos s2 + of_nat n\<rparr>)))"

definition link_offset :: "nat \<Rightarrow> byte \<Rightarrow> 'a writer_scheme \<Rightarrow> stop + bool \<times> 'a writer_scheme" where
  "link_offset m modify s =
     bindE (readsize (relocsize s) s) (\<lambda>(offset, s1).
       Inr (False, put_reloc modify (segaddr (mods s1 ! m) (unat (modify AND 0x0F))) offset s1))"

text \<open>A symbol number outside the module's array of symbols reads outside it.\<close>

definition link_symbol :: "nat \<Rightarrow> byte \<Rightarrow> 'a writer_scheme \<Rightarrow> stop + bool \<times> 'a writer_scheme" where
  "link_symbol m modify s =
     bindE (readconvsize (if has modify 0x04 then 2 else 1) s) (\<lambda>(symbolnum, s1).
       if length (symparray (mods s1 ! m)) \<le> unat symbolnum then Inl OutOfBounds
       else
         let symptr = symparray (mods s1 ! m) ! unat symbolnum in
         bindE (readconvsize (modify AND 0x03) s1) (\<lambda>(offset, s2).
           Inr (False, put_reloc modify (sm_value (symbols s2 ! symptr)) offset s2)))"

definition link_command :: "nat \<Rightarrow> byte \<Rightarrow> 'a writer_scheme \<Rightarrow> stop + bool \<times> 'a writer_scheme" where
  "link_command m command s =
     (let modify = command AND 0x3F in
      if command AND 0xC0 = 0x00 then link_special modify s
      else if command AND 0xC0 = 0x40 then link_absolute modify s
      else if command AND 0xC0 = 0x80 then link_offset m modify s
      else link_symbol m modify s)"

text \<open>
  The loop over the commands takes at least a byte each time: more rounds than
  bytes left are never needed.
\<close>

primrec link_text :: "nat \<Rightarrow> nat \<Rightarrow> 'a writer_scheme \<Rightarrow> stop + 'a writer_scheme" where
  "link_text 0 m s = Inl NoFuel"
| "link_text (Suc n) m s =
     (case readchar s of
        (None, s1) \<Rightarrow> prematureeof
      | (Some command, s1) \<Rightarrow>
          bindE (link_command m command s1) (\<lambda>(done, s2).
            if done then Inr s2 else link_text n m s2))"

definition prepare :: "modstruct \<Rightarrow> 'a writer_scheme \<Rightarrow> 'a writer_scheme" where
  "prepare md s =
     s\<lparr>segpos := segaddr md, segadj := segfadj md, segdiscard := segnoload md,
       curseg := 0, spos := segaddr md 0\<rparr>"

definition linkmod :: "(byte list \<Rightarrow> byte list) \<Rightarrow> nat \<Rightarrow> 'a writer_scheme \<Rightarrow> stop + 'a writer_scheme" where
  "linkmod files m s =
     (let md = mods s ! m;
          s2 = (seek_current (prepare md s))\<lparr>relocsize := 2\<rparr>;
          s3 = seekin (unat (textoffset md)) (openin (files (filename md)) s2)
      in link_text (length (in_file s3) + 1) m s3)"

text \<open>The sizes the header gives, segment by segment.\<close>

primrec pad_segs :: "nat list \<Rightarrow> nat \<Rightarrow> byte list \<Rightarrow> 'a writer_scheme \<Rightarrow> stop + 'a writer_scheme" where
  "pad_segs [] m sizeptr s = Inr s"
| "pad_segs (seg # segs) m sizeptr s =
     (let md = mods s ! m;
          sizecount = segsizecount seg (segsizedesc md);
          siz = cnu2 target sizeptr sizecount
      in
      if segpos s seg - segaddr md seg \<noteq> siz then Inl (Fatal ''seg has wrong size'')
      else
        let s1 = (if segpad md seg = 0 then s
                  else
                    let t = writefill (segpad md seg) (segfill md seg) (setseg seg s)
                    in t\<lparr>segpos := (segpos t)(seg := spos t)\<rparr>)
        in pad_segs segs m (drop sizecount sizeptr) s1)"

definition padmod :: "nat \<Rightarrow> 'a writer_scheme \<Rightarrow> stop + 'a writer_scheme" where
  "padmod m s = pad_segs [0..<NSEG] m (segsize (mods s ! m)) s"

end
