(* ===== verification/Linksyms_Props.thy ===== *)
theory Linksyms_Props
  imports Linksyms "HOL-Library.Multiset"
begin

text \<open>
  The linker loads exactly the modules that can be reached from the roots
  through the symbols that modules refer to, and its search ends.
\<close>

section \<open>The graph of modules\<close>

definition loaded :: "'a link_scheme \<Rightarrow> nat set" where
  "loaded s = {m. m < length (mods s) \<and> loadflag (mods s ! m)}"

definition needs :: "'a link_scheme \<Rightarrow> nat \<Rightarrow> nat \<Rightarrow> bool" where
  "needs s x y \<longleftrightarrow> (\<exists>r\<in>set (symparray (mods s ! x)). modptr (symbols s ! r) = Some y)"

definition reach :: "'a link_scheme \<Rightarrow> nat set \<Rightarrow> nat set" where
  "reach s X = {y. \<exists>x\<in>X. (needs s)\<^sup>*\<^sup>* x y}"

lemma reach_mono: "X \<subseteq> Y \<Longrightarrow> reach s X \<subseteq> reach s Y"
  by (auto simp: reach_def)

lemma reach_Un: "reach s (X \<union> Y) = reach s X \<union> reach s Y"
  by (auto simp: reach_def)

lemma reach_step: "reach s (Collect (needs s m)) \<subseteq> reach s {m}"
  by (auto simp: reach_def intro: converse_rtranclp_into_rtranclp)

lemma reach_self: "X \<subseteq> reach s X"
  by (auto simp: reach_def)

text \<open>States that differ in load flags only.\<close>

definition same_graph :: "'a link_scheme \<Rightarrow> 'a link_scheme \<Rightarrow> bool" where
  "same_graph s t \<longleftrightarrow>
     t = s\<lparr>mods := mods t\<rparr> \<and> map (set_load False) (mods t) = map (set_load False) (mods s)"

lemma same_graph_refl [simp]: "same_graph s s"
  by (simp add: same_graph_def)

lemma same_graph_trans: "\<lbrakk>same_graph s t; same_graph t u\<rbrakk> \<Longrightarrow> same_graph s u"
  unfolding same_graph_def by (metis link.surjective link.update_convs(1))

lemma same_graph_fields:
  assumes "same_graph s t"
  shows "symbols t = symbols s" "hashtab t = hashtab s" "entrylist t = entrylist s"
    "redefs t = redefs s" "length (mods t) = length (mods s)"
proof -
  have t: "t = s\<lparr>mods := mods t\<rparr>" using assms by (simp add: same_graph_def)
  show "symbols t = symbols s" "hashtab t = hashtab s" "entrylist t = entrylist s" "redefs t = redefs s"
    by (subst t, simp)+
  show "length (mods t) = length (mods s)"
    using assms by (metis same_graph_def length_map)
qed

lemma same_graph_mod:
  assumes "same_graph s t" "m < length (mods s)"
  shows "set_load False (mods t ! m) = set_load False (mods s ! m)"
    "symparray (mods t ! m) = symparray (mods s ! m)" "mclass (mods t ! m) = mclass (mods s ! m)"
proof -
  have "map (set_load False) (mods t) ! m = map (set_load False) (mods s) ! m"
    using assms by (simp add: same_graph_def)
  then show e: "set_load False (mods t ! m) = set_load False (mods s ! m)"
    using assms same_graph_fields(5) [OF assms(1)] by simp
  show "symparray (mods t ! m) = symparray (mods s ! m)"
    using arg_cong [OF e, of symparray] by simp
  show "mclass (mods t ! m) = mclass (mods s ! m)"
    using arg_cong [OF e, of mclass] by simp
qed

lemma same_graph_ok:
  assumes g: "same_graph s t" and ok: "link_ok s"
  shows "link_ok t"
proof -
  have "symparray ` set (mods t) = symparray ` set (mods s)"
  proof -
    have "map symparray (map (set_load False) (mods t)) = map symparray (map (set_load False) (mods s))"
      using g by (simp only: same_graph_def)
    then have "map symparray (mods t) = map symparray (mods s)" by (simp add: comp_def)
    then have "set (map symparray (mods t)) = set (map symparray (mods s))" by simp
    then show ?thesis by simp
  qed
  then have "\<forall>m\<in>set (mods t). symparray m \<in> symparray ` set (mods s)" by blast
  then have "\<forall>m\<in>set (mods t). \<forall>r\<in>set (symparray m). r < length (symbols s)"
    using ok by (auto simp: link_ok_def)
  then show ?thesis
    using ok same_graph_fields [OF g] by (simp add: link_ok_def table_ok_def)
qed

lemma needs_graph:
  assumes "same_graph s t" "x < length (mods s)"
  shows "needs t x = needs s x"
  using assms same_graph_fields(1) same_graph_mod(2) by (fastforce simp: needs_def fun_eq_iff)

text \<open>In well-formed tables references stay among the modules.\<close>

lemma needs_range: "\<lbrakk>link_ok s; x < length (mods s); needs s x y\<rbrakk> \<Longrightarrow> y < length (mods s)"
  unfolding needs_def link_ok_def by (metis nth_mem option.inject)

lemma reach_range:
  assumes "link_ok s" "X \<subseteq> {..<length (mods s)}"
  shows "reach s X \<subseteq> {..<length (mods s)}"
proof
  fix y assume "y \<in> reach s X"
  then obtain x where x: "x \<in> X" "(needs s)\<^sup>*\<^sup>* x y" by (auto simp: reach_def)
  from x(2) show "y \<in> {..<length (mods s)}"
    by (induction rule: rtranclp_induct) (use assms x(1) needs_range in auto)
qed

lemma reach_graph:
  assumes "same_graph s t" "link_ok s" "X \<subseteq> {..<length (mods s)}"
  shows "reach t X = reach s X"
proof -
  have "(needs t)\<^sup>*\<^sup>* x y \<longleftrightarrow> (needs s)\<^sup>*\<^sup>* x y" if "x \<in> X" for x y
  proof
    assume "(needs t)\<^sup>*\<^sup>* x y"
    then have "(needs s)\<^sup>*\<^sup>* x y \<and> y < length (mods s)"
      by (induction rule: rtranclp_induct)
         (use assms that needs_graph [OF assms(1)] needs_range in \<open>auto intro: rtranclp.rtrancl_into_rtrancl\<close>)
    then show "(needs s)\<^sup>*\<^sup>* x y" ..
  next
    assume "(needs s)\<^sup>*\<^sup>* x y"
    then have "(needs t)\<^sup>*\<^sup>* x y \<and> y < length (mods s)"
      by (induction rule: rtranclp_induct)
         (use assms that needs_graph [OF assms(1)] needs_range in \<open>auto intro: rtranclp.rtrancl_into_rtrancl\<close>)
    then show "(needs t)\<^sup>*\<^sup>* x y" ..
  qed
  then show ?thesis by (auto simp: reach_def)
qed

section \<open>The search\<close>

text \<open>From one state to another the modules of a set were loaded with all they need.\<close>

definition explores :: "'a link_scheme \<Rightarrow> nat set \<Rightarrow> 'a link_scheme \<Rightarrow> bool" where
  "explores s X t \<longleftrightarrow>
     same_graph s t \<and> loaded s \<union> X \<subseteq> loaded t \<and> loaded t \<subseteq> loaded s \<union> reach s X \<and>
     (\<forall>x\<in>loaded t - loaded s. Collect (needs s x) \<subseteq> loaded t)"

lemma loaded_range: "loaded s \<subseteq> {..<length (mods s)}"
  by (auto simp: loaded_def)

lemma explores_none: "explores s {} s"
  by (simp add: explores_def)

lemma explores_range: "\<lbrakk>explores s X t; x \<in> loaded t\<rbrakk> \<Longrightarrow> x < length (mods s)"
  using loaded_range [of t] same_graph_fields(5) [of s t] by (auto simp: explores_def)

lemma explores_trans:
  assumes s: "explores s X t" and t: "explores t Y u" and ok: "link_ok s" and Y: "Y \<subseteq> {..<length (mods s)}"
  shows "explores s (X \<union> Y) u"
proof -
  have g: "same_graph s t" using s by (simp add: explores_def)
  have "reach t Y = reach s Y" using g ok Y by (rule reach_graph)
  moreover have "needs t x = needs s x" if "x \<in> loaded u" for x
    using explores_range [OF t that] same_graph_fields(5) [OF g] by (intro needs_graph [OF g]) simp
  moreover have "Collect (needs s x) \<subseteq> loaded u" if "x \<in> loaded u - loaded s" for x
  proof (cases "x \<in> loaded t")
    case True
    then show ?thesis using that s t by (force simp: explores_def)
  next
    case False
    then have "Collect (needs t x) \<subseteq> loaded u" using that t by (simp add: explores_def)
    then show ?thesis using calculation(2) [of x] that by simp
  qed
  moreover have "same_graph s u" using s t same_graph_trans by (auto simp: explores_def)
  ultimately show ?thesis
    using s t unfolding explores_def reach_Un by auto
qed

lemma loaded_mark:
  "m < length (mods s) \<Longrightarrow> loaded (upd_mod m (set_load True) s) = insert m (loaded s)"
  by (auto simp: loaded_def upd_mod_def nth_list_update)

lemma same_graph_mark: "same_graph s (upd_mod m (set_load b) s)"
proof -
  have "map (set_load False) ((mods s)[m := set_load b (mods s ! m)]) = map (set_load False) (mods s)"
  proof (rule nth_equalityI)
    fix i assume "i < length (map (set_load False) ((mods s)[m := set_load b (mods s ! m)]))"
    then show "map (set_load False) ((mods s)[m := set_load b (mods s ! m)]) ! i = map (set_load False) (mods s) ! i"
      by (cases "i = m") simp_all
  qed simp
  then show ?thesis by (simp add: same_graph_def upd_mod_def)
qed

definition unloaded :: "'a link_scheme \<Rightarrow> nat" where
  "unloaded s = card ({..<length (mods s)} - loaded s)"

lemma unloaded_mark:
  assumes "m < length (mods s)" "m \<notin> loaded s"
  shows "Suc (unloaded (upd_mod m (set_load True) s)) = unloaded s"
proof -
  have "{..<length (mods s)} - loaded s = insert m ({..<length (mods s)} - insert m (loaded s))"
    using assms by auto
  then have "card ({..<length (mods s)} - loaded s) = Suc (card ({..<length (mods s)} - insert m (loaded s)))"
    by (metis card_insert_disjoint finite_Diff finite_lessThan Diff_iff insertI1)
  then show ?thesis
    using assms by (simp add: unloaded_def loaded_mark) (simp add: upd_mod_def)
qed

lemma unloaded_explores: "explores s X t \<Longrightarrow> unloaded t \<le> unloaded s"
  unfolding unloaded_def explores_def
  using same_graph_fields(5) [of s t] by (intro card_mono) auto

lemma explores_mark:
  assumes m: "m < length (mods s)" and ok: "link_ok s"
    and e: "explores (upd_mod m (set_load True) s) (Collect (needs s m)) t"
  shows "explores s {m} t"
proof -
  let ?s = "upd_mod m (set_load True) s"
  have g: "same_graph s ?s" by (rule same_graph_mark)
  have "Collect (needs s m) \<subseteq> {..<length (mods s)}" using needs_range [OF ok m] by auto
  then have "reach ?s (Collect (needs s m)) \<subseteq> reach s {m}"
    using reach_graph [OF g ok] reach_step [of s m] by simp
  moreover have "needs ?s x = needs s x" if "x \<in> loaded t" for x
    using explores_range [OF e that] same_graph_fields(5) [OF g] by (intro needs_graph [OF g]) simp
  moreover have "m \<in> reach s {m}" by (auto simp: reach_def)
  moreover have "same_graph s t" using e g same_graph_trans by (auto simp: explores_def)
  ultimately show ?thesis
    using e unfolding explores_def loaded_mark [OF m] by auto
qed

lemma linkrefs_explores:
  "\<lbrakk>link_ok s; m < length (mods s); unloaded (upd_mod m (set_load True) s) < n\<rbrakk> \<Longrightarrow>
     \<exists>t. linkrefs n m s = Inr t \<and> explores s {m} t"
  and linkrefs_syms_explores:
  "\<lbrakk>link_ok s; \<forall>r\<in>set rs. r < length (symbols s); unloaded s \<le> n\<rbrakk> \<Longrightarrow>
     \<exists>t. linkrefs_syms n rs s = Inr t \<and>
         explores s {y. \<exists>r\<in>set rs. modptr (symbols s ! r) = Some y} t"
proof (induction n m s and n rs s rule: linkrefs_linkrefs_syms.induct)
  case (1 m s)
  then show ?case by simp
next
  case (2 n m s)
  let ?s = "upd_mod m (set_load True) s"
  have ok: "link_ok ?s" using same_graph_mark 2 by (blast intro: same_graph_ok)
  have "\<forall>r\<in>set (symparray (mods s ! m)). r < length (symbols ?s)"
    using 2 by (auto simp: link_ok_def upd_mod_def)
  then obtain t where t: "linkrefs_syms n (symparray (mods s ! m)) ?s = Inr t"
      "explores ?s {y. \<exists>r\<in>set (symparray (mods s ! m)). modptr (symbols ?s ! r) = Some y} t"
    using 2 ok by auto
  have "{y. \<exists>r\<in>set (symparray (mods s ! m)). modptr (symbols ?s ! r) = Some y} = Collect (needs s m)"
    by (auto simp: needs_def upd_mod_def)
  then have "explores s {m} t" using t(2) 2 by (intro explores_mark) simp_all
  then show ?case using t by simp
next
  case (3 n s)
  then show ?case by (simp add: explores_none)
next
  case (4 n r rs s)
  obtain m where m: "m < length (mods s)" "modptr (symbols s ! r) = Some m"
    using link_ok_symbol [of s r] 4 by auto
  have rest: "\<exists>u. linkrefs_syms n rs t = Inr u \<and>
      explores s ({m} \<union> {y. \<exists>r\<in>set rs. modptr (symbols s ! r) = Some y}) u"
    if t: "explores s {m} t"
      and IH: "\<lbrakk>link_ok t; \<forall>r\<in>set rs. r < length (symbols t); unloaded t \<le> n\<rbrakk> \<Longrightarrow>
        \<exists>u. linkrefs_syms n rs t = Inr u \<and>
          explores t {y. \<exists>r\<in>set rs. modptr (symbols t ! r) = Some y} u" for t
  proof -
    have g: "same_graph s t" using t by (simp add: explores_def)
    have "unloaded t \<le> n" using unloaded_explores [OF t] "4.prems" by simp
    then obtain u where "linkrefs_syms n rs t = Inr u"
        "explores t {y. \<exists>r\<in>set rs. modptr (symbols s ! r) = Some y} u"
      using IH same_graph_ok [OF g] same_graph_fields [OF g] "4.prems" by auto
    moreover have "{y. \<exists>r\<in>set rs. modptr (symbols s ! r) = Some y} \<subseteq> {..<length (mods s)}"
    proof
      fix y assume "y \<in> {y. \<exists>r\<in>set rs. modptr (symbols s ! r) = Some y}"
      then obtain q where q: "q \<in> set rs" "modptr (symbols s ! q) = Some y" by auto
      then have "q < length (symbols s)" using "4.prems"(2) by simp
      with "4.prems"(1) obtain i where "i < length (mods s)" "modptr (symbols s ! q) = Some i"
        by (rule link_ok_symbol)
      then show "y \<in> {..<length (mods s)}" using q by simp
    qed
    ultimately show ?thesis using explores_trans [OF t] "4.prems"(1) by blast
  qed
  have all: "{y. \<exists>r'\<in>set (r # rs). modptr (symbols s ! r') = Some y} =
      {m} \<union> {y. \<exists>r\<in>set rs. modptr (symbols s ! r) = Some y}"
    using m by auto
  show ?case
  proof (cases "loadflag (mods s ! m)")
    case True
    then have "explores s {m} s" using m by (simp add: explores_def loaded_def)
    then show ?thesis using rest [of s] "4.IH" m True "4.prems" unfolding all by simp
  next
    case False
    then have "m \<notin> loaded s" by (simp add: loaded_def)
    then have "unloaded (upd_mod m (set_load True) s) < n"
      using unloaded_mark [OF m(1)] "4.prems"(3) by simp
    then obtain t where t: "linkrefs n m s = Inr t" "explores s {m} t"
      using "4.IH"(1) [OF m(2) False] m "4.prems" by blast
    then show ?thesis using rest [of t] "4.IH"(2) [OF m(2) False t(1)] m False unfolding all by simp
  qed
qed

section \<open>One round\<close>

definition owners :: "'a link_scheme \<Rightarrow> nat set \<Rightarrow> nat set" where
  "owners s R = {y. \<exists>r\<in>R. modptr (symbols s ! r) = Some y}"

lemma owners_range:
  assumes "link_ok s" "\<forall>r\<in>R. r < length (symbols s)"
  shows "owners s R \<subseteq> {..<length (mods s)}"
proof
  fix y assume "y \<in> owners s R"
  then obtain q where q: "q \<in> R" "modptr (symbols s ! q) = Some y" by (auto simp: owners_def)
  then have "q < length (symbols s)" using assms(2) by simp
  with assms(1) obtain i where "i < length (mods s)" "modptr (symbols s ! q) = Some i"
    by (rule link_ok_symbol)
  then show "y \<in> {..<length (mods s)}" using q by simp
qed

lemma owners_graph: "same_graph s t \<Longrightarrow> owners t = owners s"
  using same_graph_fields(1) by (fastforce simp: owners_def fun_eq_iff)

lemma linkrefs_top:
  assumes "link_ok s" "m < length (mods s)"
  shows "\<exists>t. linkrefs (length (mods s) + 1) m s = Inr t \<and> explores s {m} t"
proof -
  let ?s = "upd_mod m (set_load True) s"
  have "unloaded ?s \<le> card {..<length (mods ?s)}"
    unfolding unloaded_def by (intro card_mono) auto
  then have "unloaded ?s < length (mods s) + 1" by (simp add: upd_mod_def)
  then show ?thesis using assms by (intro linkrefs_explores)
qed

lemma link_mods_explores:
  assumes "link_ok s" "set ms \<subseteq> {..<length (mods s)}"
  shows "\<exists>t. link_mods ms s = Inr t \<and> explores s (set ms) t"
  using assms
proof (induction ms arbitrary: s)
  case Nil
  then show ?case by (simp add: explores_none)
next
  case (Cons m ms)
  then obtain t where t: "linkrefs (length (mods s) + 1) m s = Inr t" "explores s {m} t"
    using linkrefs_top [of s m] by auto
  then have g: "same_graph s t" by (simp add: explores_def)
  then obtain u where u: "link_mods ms t = Inr u" "explores t (set ms) u"
    using Cons.IH [OF same_graph_ok [OF g Cons.prems(1)]] Cons.prems(2) same_graph_fields(5) [OF g] by auto
  then show ?case
    using t explores_trans [OF t(2) u(2)] Cons.prems by auto
qed

lemma link_entries_explores:
  assumes "link_ok s" "\<forall>r\<in>set rs. r < length (symbols s)"
  shows "\<exists>t. link_entries rs s = Inr t \<and> explores s (owners s (set rs)) t"
  using assms
proof (induction rs arbitrary: s)
  case Nil
  then show ?case by (simp add: explores_none owners_def)
next
  case (Cons r rs)
  obtain m where m: "m < length (mods s)" "modptr (symbols s ! r) = Some m"
    using link_ok_symbol [of s r] Cons.prems by auto
  then obtain t where t: "linkrefs (length (mods s) + 1) m s = Inr t" "explores s {m} t"
    using linkrefs_top [of s m] Cons.prems by auto
  then have g: "same_graph s t" by (simp add: explores_def)
  then obtain u where u: "link_entries rs t = Inr u" "explores t (owners t (set rs)) u"
    using Cons.IH [OF same_graph_ok [OF g Cons.prems(1)]] Cons.prems(2) same_graph_fields(1) [OF g] by auto
  have "owners s (set (r # rs)) = {m} \<union> owners s (set rs)" using m by (auto simp: owners_def)
  moreover have "owners s (set rs) \<subseteq> {..<length (mods s)}"
    using Cons.prems by (intro owners_range) auto
  ultimately show ?case
    using t u m explores_trans [OF t(2), of "owners s (set rs)" u] Cons.prems(1) owners_graph [OF g] by auto
qed

text \<open>What the entry symbols, the script and the symbol \<^verbatim>\<open>start\<close> ask for.\<close>

definition root_set :: "roots \<Rightarrow> 'a link_scheme \<Rightarrow> nat set" where
  "root_set script_roots s =
     owners s (set (entrylist s)) \<union> set (script_roots (symbols s) (map (set_load False) (mods s))) \<union>
     owners s (set_option (findsym (bytes_of ''start'') s))"

definition roots_ok :: "roots \<Rightarrow> bool" where
  "roots_ok script_roots \<longleftrightarrow> (\<forall>ys ms. \<forall>m\<in>set (script_roots ys ms). m < length ms)"

lemma findsym_graph: "same_graph s t \<Longrightarrow> findsym name t = findsym name s"
  using same_graph_fields(1,2) [of s t] by (simp add: findsym_def)

lemma root_set_graph: "same_graph s t \<Longrightarrow> root_set script_roots t = root_set script_roots s"
  using same_graph_fields [of s t] owners_graph [of s t] findsym_graph [of s t]
  by (simp add: root_set_def same_graph_def)

lemma start_range: "link_ok s \<Longrightarrow> \<forall>r\<in>set_option (findsym name s). r < length (symbols s)"
  using findsym_Some_iff by (auto simp: link_ok_def)

lemma root_set_range:
  assumes "link_ok s" "roots_ok script_roots"
  shows "root_set script_roots s \<subseteq> {..<length (mods s)}"
proof -
  have "owners s (set (entrylist s)) \<subseteq> {..<length (mods s)}"
    using assms(1) by (intro owners_range) (simp_all add: link_ok_def)
  moreover have "owners s (set_option (findsym (bytes_of ''start'') s)) \<subseteq> {..<length (mods s)}"
    using assms(1) start_range by (intro owners_range)
  moreover have "set (script_roots (symbols s) (map (set_load False) (mods s))) \<subseteq> {..<length (mods s)}"
    using assms(2) unfolding roots_ok_def by (metis length_map lessThan_iff subsetI)
  ultimately show ?thesis by (simp add: root_set_def)
qed

lemma clear_flags_graph: "same_graph s (clear_flags s)" "loaded (clear_flags s) = {}"
  by (auto simp: same_graph_def clear_flags_def loaded_def)

text \<open>A search that starts with nothing loaded finds what can be reached, and no more.\<close>

lemma explores_all:
  assumes e: "explores s X t" and none: "loaded s = {}"
  shows "loaded t = reach s X"
proof
  show "loaded t \<subseteq> reach s X" using e none by (simp add: explores_def)
  show "reach s X \<subseteq> loaded t"
  proof
    fix y assume "y \<in> reach s X"
    then obtain x where x: "x \<in> X" "(needs s)\<^sup>*\<^sup>* x y" by (auto simp: reach_def)
    from x(2) show "y \<in> loaded t"
      by (induction rule: rtranclp_induct) (use e none x(1) in \<open>auto simp: explores_def\<close>)
  qed
qed

lemma search_phases:
  assumes ok: "link_ok s" and roots: "roots_ok script_roots"
  shows "\<exists>s1 s2 s3. link_entries (entrylist s) (clear_flags s) = Inr s1 \<and>
      link_mods (script_roots (symbols s1) (map (set_load False) (mods s1))) s1 = Inr s2 \<and>
      link_start_symbol s2 = Inr s3 \<and> same_graph s s3 \<and> loaded s3 = reach s3 (root_set script_roots s3)"
proof -
  let ?c = "clear_flags s"
  have c: "same_graph s ?c" "link_ok ?c" "entrylist ?c = entrylist s"
    using clear_flags_graph(1) same_graph_ok ok same_graph_fields(3) by blast+
  have entries: "\<forall>r\<in>set (entrylist ?c). r < length (symbols ?c)" using c(2) by (simp add: link_ok_def)
  obtain s1 where s1: "link_entries (entrylist s) ?c = Inr s1" "explores ?c (owners ?c (set (entrylist ?c))) s1"
    using link_entries_explores [OF c(2) entries] c(3) by auto
  then have g1: "same_graph ?c s1" by (simp add: explores_def)
  let ?ms = "script_roots (symbols s1) (map (set_load False) (mods s1))"
  have r1: "set ?ms \<subseteq> {..<length (mods s1)}"
    using roots unfolding roots_ok_def by (metis length_map lessThan_iff subsetI)
  obtain s2 where s2: "link_mods ?ms s1 = Inr s2" "explores s1 (set ?ms) s2"
    using link_mods_explores [OF same_graph_ok [OF g1 c(2)] r1] by blast
  have e2: "explores ?c (owners ?c (set (entrylist ?c)) \<union> set ?ms) s2"
    using explores_trans [OF s1(2) s2(2) c(2)] r1 same_graph_fields(5) [OF g1] by simp
  then have g2: "same_graph ?c s2" by (simp add: explores_def)
  let ?st = "findsym (bytes_of ''start'') s2"
  have ok2: "link_ok s2" using g2 c(2) by (rule same_graph_ok)
  have "\<exists>s3. link_start_symbol s2 = Inr s3 \<and> explores s2 (owners s2 (set_option ?st)) s3"
  proof (cases ?st)
    case None
    then show ?thesis by (simp add: link_start_symbol_def owners_def explores_none)
  next
    case (Some r)
    then show ?thesis
      using link_entries_explores [OF ok2, of "[r]"] start_range [OF ok2, of "bytes_of ''start''"]
      by (simp add: link_start_symbol_def)
  qed
  then obtain s3 where s3: "link_start_symbol s2 = Inr s3" "explores s2 (owners s2 (set_option ?st)) s3"
    by blast
  have "owners s2 (set_option ?st) \<subseteq> {..<length (mods ?c)}"
    using owners_range [OF ok2 start_range [OF ok2]] same_graph_fields(5) [OF g2] by simp
  then have "explores ?c (owners ?c (set (entrylist ?c)) \<union> set ?ms \<union> owners s2 (set_option ?st)) s3"
    using explores_trans [OF e2 s3(2) c(2)] by simp
  moreover have "owners ?c (set (entrylist ?c)) \<union> set ?ms \<union> owners s2 (set_option ?st) = root_set script_roots ?c"
    using g1 owners_graph [OF g2] findsym_graph [OF g2] same_graph_fields(1) [OF g1]
    by (simp add: root_set_def same_graph_def)
  ultimately have e3: "explores ?c (root_set script_roots ?c) s3" by simp
  then have g3: "same_graph ?c s3" by (simp add: explores_def)
  have "loaded s3 = reach ?c (root_set script_roots ?c)"
    using explores_all [OF e3 clear_flags_graph(2)] .
  also have "\<dots> = reach s3 (root_set script_roots s3)"
    using reach_graph [OF g3 c(2) root_set_range [OF c(2) roots]] root_set_graph [OF g3] by simp
  finally show ?thesis
    using s1 s2 s3 same_graph_trans [OF c(1) g3] by blast
qed

section \<open>Redefinitions\<close>

text \<open>The class of the module whose definition of a symbol is in use.\<close>

definition sym_class :: "'a link_scheme \<Rightarrow> nat \<Rightarrow> int" where
  "sym_class s r = sint (mclass (mods s ! the (modptr (symbols s ! r))))"

definition red_ok :: "'a link_scheme \<Rightarrow> redlist list \<Rightarrow> bool" where
  "red_ok s rls \<longleftrightarrow> (\<forall>rl\<in>set rls. rlsymptr rl < length (symbols s) \<and> rlmodptr rl < length (mods s))"

lemma use_redefinition:
  assumes ok: "link_ok s" and rl: "rlsymptr rl < length (symbols s)" "rlmodptr rl < length (mods s)"
    and due: "red_due rl s"
    and t: "t = upd_symbol (rlsymptr rl) (\<lambda>y. y\<lparr>modptr := Some (rlmodptr rl), sm_value := rlvalue rl\<rparr>) s"
  shows "link_ok t" "sym_class s r \<le> sym_class t r"
    "sym_class s (rlsymptr rl) < sym_class t (rlsymptr rl)" "red_ok t rls = red_ok s rls"
proof -
  show "link_ok t" unfolding t using ok rl by (intro link_ok_upd_symbol) auto
  have c: "sym_class t r = (if r = rlsymptr rl then sint (mclass (mods s ! rlmodptr rl)) else sym_class s r)" for r
    using rl by (simp add: sym_class_def t upd_symbol_def nth_list_update)
  then show "sym_class s r \<le> sym_class t r" "sym_class s (rlsymptr rl) < sym_class t (rlsymptr rl)"
    using due by (auto simp: red_due_def sym_class_def)
  show "red_ok t rls = red_ok s rls" by (simp add: red_ok_def t)
qed

definition pass_ok :: "'a link_scheme \<Rightarrow> redlist list \<Rightarrow> bool \<times> redlist list \<times> 'a link_scheme \<Rightarrow> bool" where
  "pass_ok s rls x \<longleftrightarrow>
     (case x of (needlink, rest, t) \<Rightarrow>
        link_ok t \<and> mods t = mods s \<and> length (symbols t) = length (symbols s) \<and>
        entrylist t = entrylist s \<and> red_ok t rest \<and>
        (\<forall>r. sym_class s r \<le> sym_class t r) \<and> mset rest \<subseteq># mset rls \<and>
        (if needlink then \<exists>rl\<in>set rls. sym_class s (rlsymptr rl) < sym_class t (rlsymptr rl)
         else t = s \<and> rest = rls \<and> (\<forall>rl\<in>set rls. \<not> red_due rl s)))"

lemma red_pass_ok:
  assumes "link_ok s" and "red_ok s rls"
  shows "pass_ok s rls (red_pass head gone rls s)"
  using assms
proof (induction rls arbitrary: head gone s)
  case Nil
  then show ?case by (simp add: pass_ok_def)
next
  case (Cons rl rls)
  show ?case
  proof (cases "red_due rl s")
    case True
    let ?t = "upd_symbol (rlsymptr rl) (\<lambda>y. y\<lparr>modptr := Some (rlmodptr rl), sm_value := rlvalue rl\<rparr>) s"
    have rl: "rlsymptr rl < length (symbols s)" "rlmodptr rl < length (mods s)" "red_ok s rls"
      using Cons.prems by (simp_all add: red_ok_def)
    note use = use_redefinition [OF Cons.prems(1) rl(1,2) True refl]
    let ?u = "head \<or> \<not> gone"
    obtain nl rest u where p: "red_pass head ?u rls ?t = (nl, rest, u)"
      by (cases "red_pass head ?u rls ?t")
    then have "pass_ok ?t rls (nl, rest, u)"
      using Cons.IH [OF use(1)] use(4) rl(3) by metis
    then have u: "link_ok u" "mods u = mods s" "length (symbols u) = length (symbols s)"
        "entrylist u = entrylist s" "red_ok u rest"
        "\<And>r. sym_class ?t r \<le> sym_class u r" "mset rest \<subseteq># mset rls"
      by (simp_all add: pass_ok_def)
    have "sym_class s r \<le> sym_class u r" for r
      using use(2) [of r] u(6) [of r] by simp
    moreover have "sym_class s (rlsymptr rl) < sym_class u (rlsymptr rl)"
      using use(3) u(6) [of "rlsymptr rl"] by simp
    moreover have "red_ok u (rl # rest)" using u rl by (simp add: red_ok_def)
    moreover have "mset rest \<subseteq># mset (rl # rls)" using u(7) by (simp add: subset_mset.trans)
    ultimately show ?thesis
      using True p u by (simp add: pass_ok_def Let_def)
  next
    case False
    obtain nl rest u where p: "red_pass False False rls s = (nl, rest, u)"
      by (cases "red_pass False False rls s")
    then have "pass_ok s rls (nl, rest, u)"
      using Cons.IH [OF Cons.prems(1)] Cons.prems(2) unfolding red_ok_def by (metis list.set_intros(2))
    then show ?thesis
      using False p Cons.prems by (auto simp: pass_ok_def red_ok_def)
  qed
qed

text \<open>
  How far the classes of redefined symbols can still rise bounds the number of
  rounds.
\<close>

definition weight :: "'a link_scheme \<Rightarrow> redlist \<Rightarrow> nat" where
  "weight s rl = nat (127 - sym_class s (rlsymptr rl))"

lemma sym_class_range: "- 128 \<le> sym_class s r" "sym_class s r \<le> 127"
  using sint_ge [of "mclass (mods s ! the (modptr (symbols s ! r)))"]
    sint_lt [of "mclass (mods s ! the (modptr (symbols s ! r)))"]
  by (simp_all add: sym_class_def)

lemma weight_bound: "sum_list (map (weight s) rls) \<le> 255 * length rls"
proof (induction rls)
  case (Cons rl rls)
  have "weight s rl \<le> 255" using sym_class_range [of s "rlsymptr rl"] by (simp add: weight_def)
  with Cons show ?case by simp
qed simp

lemma sum_list_strict_mono_map:
  fixes f g :: "'b \<Rightarrow> nat"
  assumes "x \<in> set xs" "f x < g x" "\<And>y. f y \<le> g y"
  shows "sum_list (map f xs) < sum_list (map g xs)"
  using assms(1)
proof (induction xs)
  case (Cons y ys)
  show ?case
  proof (cases "x = y")
    case True
    have "sum_list (map f ys) \<le> sum_list (map g ys)" by (intro sum_list_mono assms(3))
    then show ?thesis using assms(2) True by simp
  next
    case False
    then show ?thesis using Cons assms(3) [of y] by simp
  qed
qed simp

lemma sum_mset_mono_subset: "A \<subseteq># B \<Longrightarrow> sum_mset A \<le> sum_mset (B :: nat multiset)"
  by (metis le_add1 subset_mset.add_diff_inverse sum_mset.union)

lemma weight_pass:
  assumes "pass_ok s rls (True, rest, t)"
  shows "sum_list (map (weight t) rest) < sum_list (map (weight s) rls)"
proof -
  have le: "weight t rl \<le> weight s rl" for rl
  proof -
    have "sym_class s (rlsymptr rl) \<le> sym_class t (rlsymptr rl)" using assms by (simp add: pass_ok_def)
    then show ?thesis unfolding weight_def by (intro nat_mono) simp
  qed
  obtain rl where rl: "rl \<in> set rls" "sym_class s (rlsymptr rl) < sym_class t (rlsymptr rl)"
    using assms by (auto simp: pass_ok_def)
  then have "weight t rl < weight s rl"
    using sym_class_range [of t "rlsymptr rl"] by (simp add: weight_def)
  then have "sum_list (map (weight t) rls) < sum_list (map (weight s) rls)"
    using rl(1) le by (intro sum_list_strict_mono_map)
  moreover have "sum_list (map (weight t) rest) \<le> sum_list (map (weight t) rls)"
  proof -
    have "image_mset (weight t) (mset rest) \<subseteq># image_mset (weight t) (mset rls)"
      using assms by (intro image_mset_subseteq_mono) (simp add: pass_ok_def)
    then have "sum_mset (image_mset (weight t) (mset rest)) \<le> sum_mset (image_mset (weight t) (mset rls))"
      by (rule sum_mset_mono_subset)
    then show ?thesis by (simp add: sum_mset_sum_list flip: mset_map)
  qed
  ultimately show ?thesis by simp
qed

lemma weight_graph:
  assumes g: "same_graph s t" and ok: "link_ok s"
  shows "sum_list (map (weight t) (redefs s)) = sum_list (map (weight s) (redefs s))"
proof -
  have "weight t rl = weight s rl" if rl: "rl \<in> set (redefs s)" for rl
  proof -
    have "rlsymptr rl < length (symbols s)" using ok rl by (simp add: link_ok_def)
    with ok obtain m where "m < length (mods s)" "modptr (symbols s ! rlsymptr rl) = Some m"
      by (rule link_ok_symbol)
    then show ?thesis
      using same_graph_fields(1) [OF g] same_graph_mod(3) [OF g] by (simp add: weight_def sym_class_def)
  qed
  then show ?thesis by (simp cong: map_cong)
qed

lemma link_ok_set_redefs:
  "\<lbrakk>link_ok s; red_ok s rls\<rbrakk> \<Longrightarrow> link_ok (s\<lparr>redefs := rls\<rparr>)"
  by (auto simp: link_ok_def red_ok_def table_ok_def)

definition linked :: "roots \<Rightarrow> 'a link_scheme \<Rightarrow> bool" where
  "linked script_roots t \<longleftrightarrow>
     link_ok t \<and> loaded t = reach t (root_set script_roots t) \<and> (\<forall>rl\<in>set (redefs t). \<not> red_due rl t)"

lemma link_round_ok:
  assumes ok: "link_ok s" and roots: "roots_ok script_roots" and entry: "entrylist s \<noteq> []"
  shows "\<exists>needlink t. link_round script_roots s = Inr (needlink, t) \<and> link_ok t \<and> entrylist t \<noteq> [] \<and>
    (if needlink then sum_list (map (weight t) (redefs t)) < sum_list (map (weight s) (redefs s))
     else linked script_roots t)"
proof -
  obtain s1 s2 s3 where s3: "link_entries (entrylist s) (clear_flags s) = Inr s1"
      "link_mods (script_roots (symbols s1) (map (set_load False) (mods s1))) s1 = Inr s2"
      "link_start_symbol s2 = Inr s3" "same_graph s s3" "loaded s3 = reach s3 (root_set script_roots s3)"
    using search_phases [OF ok roots] by blast
  have ok3: "link_ok s3" using s3(4) ok by (rule same_graph_ok)
  obtain nl rls s4 where p: "red_pass True False (redefs s3) s3 = (nl, rls, s4)"
    by (cases "red_pass True False (redefs s3) s3")
  have "red_ok s3 (redefs s3)" using ok3 by (simp add: red_ok_def link_ok_def)
  then have pass: "pass_ok s3 (redefs s3) (nl, rls, s4)"
    using red_pass_ok [OF ok3] p by metis
  let ?t = "s4\<lparr>redefs := rls\<rparr>"
  have round: "link_round script_roots s = Inr (nl, ?t)"
    using entry s3 p by (simp add: link_round_def)
  have t: "link_ok ?t" "entrylist ?t \<noteq> []"
    using pass entry same_graph_fields(3) [OF s3(4)] by (simp_all add: pass_ok_def link_ok_set_redefs)
  have "weight ?t = weight s4" by (simp add: weight_def sym_class_def fun_eq_iff)
  then have "nl \<Longrightarrow> sum_list (map (weight ?t) (redefs ?t)) < sum_list (map (weight s) (redefs s))"
    using weight_pass [of s3 "redefs s3" rls s4] pass weight_graph [OF s3(4) ok] same_graph_fields(4) [OF s3(4)]
    by simp
  moreover have "\<not> nl \<Longrightarrow> linked script_roots ?t"
    using pass s3(5) ok3 by (simp add: pass_ok_def linked_def)
  ultimately show ?thesis using round t by simp
qed

lemma link_rounds_ok:
  assumes "link_ok s" and "roots_ok script_roots" and "entrylist s \<noteq> []"
    and "sum_list (map (weight s) (redefs s)) < n"
  shows "\<exists>t. link_rounds n script_roots s = Inr t \<and> linked script_roots t"
  using assms(1,3,4)
proof (induction n arbitrary: s)
  case 0
  then show ?case by simp
next
  case (Suc n)
  obtain nl t where t: "link_round script_roots s = Inr (nl, t)" "link_ok t" "entrylist t \<noteq> []"
      "if nl then sum_list (map (weight t) (redefs t)) < sum_list (map (weight s) (redefs s))
       else linked script_roots t"
    using link_round_ok [OF Suc.prems(1) assms(2) Suc.prems(2)] by blast
  then show ?case using Suc.IH [of t] Suc.prems(3) by (cases nl) auto
qed


text \<open>
  Three modules: the first defines \<^verbatim>\<open>_main\<close> and uses \<^verbatim>\<open>_f\<close> of the second; nothing
  uses the third.
\<close>

definition plain_module :: "nat list \<Rightarrow> modstruct" where
  "plain_module ptrs =
     \<lparr>filename = [], archentry = None, modname = [], textoffset = 0, mclass = 0, loadflag = False,
      segmaxsize = [0x55, 0x55, 0x55, 0x55], segsizedesc = [0, 0, 0, 0], symparray = ptrs,
      segaddr = (\<lambda>_. 0), comaddr = (\<lambda>_. 0), comsize = (\<lambda>_. 0), segfadj = (\<lambda>_. 0),
      segpad = (\<lambda>_. 0), segfill = (\<lambda>_. 0), segnoload = (\<lambda>_. False), segsize = []\<rparr>"

definition three_modules :: link where
  "three_modules =
     (let s = link_start\<lparr>mods := [plain_module [], plain_module [], plain_module []]\<rparr>;
          s1 = snd (new_symbol 0 0 0x80 (bytes_of ''_main'') s);
          s2 = snd (new_symbol 1 0 0x80 (bytes_of ''_f'') s1)
      in s2\<lparr>mods := [plain_module [0, 1], plain_module [1], plain_module []]\<rparr>)"

lemma three_modules_ok: "link_ok three_modules"
proof -
  let ?s = "link_start\<lparr>mods := [plain_module [], plain_module [], plain_module []]\<rparr>"
  let ?s1 = "snd (new_symbol 0 0 0x80 (bytes_of ''_main'') ?s)"
  have "link_ok ?s"
    by (simp add: link_start_def link_ok_def table_ok_def plain_module_def)
  then have ok1: "link_ok ?s1" by (rule link_ok_new_symbol) (simp, simp add: findsym_def link_start_def)
  have none: "findsym (bytes_of ''_f'') ?s1 = None" by code_simp
  have "link_ok (snd (new_symbol 1 0 0x80 (bytes_of ''_f'') ?s1))"
    by (rule link_ok_new_symbol [where name = "bytes_of ''_f''", OF ok1 _ none]) simp
  then show ?thesis
    by (auto simp: three_modules_def Let_def link_ok_def table_ok_def plain_module_def link_start_def
        less_Suc_eq numeral_3_eq_3)
qed


end
