(* ===== verification/Linkmod_Props.thy ===== *)
theory Linkmod_Props
  imports Linkmod Linksyms_Props
begin

text \<open>
  What executing a text writes.  The commands of a text are first turned into
  items at addresses of segments, without files or buffers; then \<open>linkmod\<close> is
  shown to write the bytes of each item at the place in the output file that
  the layout gives its address.
\<close>

section \<open>Items at addresses\<close>

datatype item = IAtom atom | INulls u32

record place =
  pl_rs :: nat
  pl_seg :: nat
  pl_pos :: "nat \<Rightarrow> u32"

definition item_size :: "item \<Rightarrow> u32" where
  "item_size i = (case i of IAtom a \<Rightarrow> of_nat (atom_size a) | INulls n \<Rightarrow> n)"

definition advance :: "u32 \<Rightarrow> place \<Rightarrow> place" where
  "advance n pl = pl\<lparr>pl_pos := (pl_pos pl)(pl_seg pl := pl_pos pl (pl_seg pl) + n)\<rparr>"

primrec emits :: "item list \<Rightarrow> place \<Rightarrow> (nat \<times> u32 \<times> item) list" where
  "emits [] pl = []"
| "emits (i # is) pl = (pl_seg pl, pl_pos pl (pl_seg pl), i) # emits is (advance (item_size i) pl)"

definition emitted :: "item list \<Rightarrow> place \<Rightarrow> place" where
  "emitted is pl = fold (\<lambda>i. advance (item_size i)) is pl"

definition cmd_list :: "nat \<Rightarrow> cmd \<Rightarrow> item list" where
  "cmd_list rs c =
     (case c of
        CSkip n \<Rightarrow> [INulls n]
      | CBytes bs \<Rightarrow> map (\<lambda>b. IAtom (AByte b)) bs
      | COff md v \<Rightarrow> [IAtom (AOff rs md v)]
      | CSym md y v \<Rightarrow> [IAtom (ASym rs md y v)]
      | _ \<Rightarrow> [])"

definition cmd_place :: "cmd \<Rightarrow> place \<Rightarrow> place" where
  "cmd_place c pl =
     (case c of CSize n \<Rightarrow> pl\<lparr>pl_rs := n\<rparr> | CSeg g \<Rightarrow> pl\<lparr>pl_seg := unat g\<rparr> | _ \<Rightarrow> pl)"

definition after_cmd :: "cmd \<Rightarrow> place \<Rightarrow> place" where
  "after_cmd c pl = cmd_place c (emitted (cmd_list (pl_rs pl) c) pl)"

primrec text_items :: "cmd list \<Rightarrow> place \<Rightarrow> (nat \<times> u32 \<times> item) list" where
  "text_items [] pl = []"
| "text_items (c # cs) pl = emits (cmd_list (pl_rs pl) c) pl @ text_items cs (after_cmd c pl)"

text \<open>
  The same placement in the 16 bits of the object format: the items of a text
  are the fields of the image it denotes.
\<close>

definition item_atoms :: "(nat \<times> u32 \<times> item) list \<Rightarrow> (byte \<times> u16 \<times> atom) list" where
  "item_atoms xs =
     concat (map (\<lambda>(g, p, i). case i of IAtom a \<Rightarrow> [(of_nat g, ucast p, a)] | INulls n \<Rightarrow> []) xs)"

definition at_image :: "place \<Rightarrow> nat \<times> image \<Rightarrow> bool" where
  "at_image pl x \<longleftrightarrow>
     pl_rs pl = fst x \<and> im_seg (snd x) = of_nat (pl_seg pl) \<and> pl_seg pl < 256 \<and>
     (\<forall>g<256. im_pos (snd x) (of_nat g) = ucast (pl_pos pl g))"

lemma of_nat_byte_eq: "\<lbrakk>g < 256; h < 256\<rbrakk> \<Longrightarrow> (of_nat g = (of_nat h :: byte)) = (g = h)"
  by (simp add: word_of_nat_eq_iff take_bit_nat_eq_self)

lemma ucast_add_32: "(ucast (a + b :: u32) :: u16) = ucast a + ucast b"
proof -
  have "(unat a + unat b) mod 2 ^ 32 mod 2 ^ 16 = (unat a mod 2 ^ 16 + unat b mod 2 ^ 16) mod 2 ^ 16"
    by (simp add: mod_mod_cancel mod_add_eq)
  then show ?thesis
    by (simp add: word_unat_eq_iff unsigned_ucast_eq take_bit_eq_mod unat_word_ariths)
qed

lemma ucast_of_nat_32: "(ucast (of_nat n :: u32) :: u16) = of_nat n"
  by (simp add: word_unat_eq_iff unsigned_ucast_eq unat_of_nat take_bit_eq_mod mod_mod_cancel)

lemma at_image_move:
  "at_image pl (rs, im) \<Longrightarrow> at_image (advance n pl) (rs, move (ucast n) im)"
  by (auto simp: at_image_def advance_def move_def of_nat_byte_eq ucast_add_32)

lemma at_image_place:
  assumes "at_image pl (rs, im)"
  shows "at_image (advance (item_size (IAtom a)) pl) (rs, place a im)"
    "im_data (place a im) = im_data im @ item_atoms [(pl_seg pl, pl_pos pl (pl_seg pl), IAtom a)]"
proof -
  let ?im = "im\<lparr>im_data := im_data im @ [(im_seg im, im_pos im (im_seg im), a)]\<rparr>"
  have "at_image pl (rs, ?im)" using assms by (simp add: at_image_def)
  from at_image_move [OF this, of "of_nat (atom_size a)"]
  show "at_image (advance (item_size (IAtom a)) pl) (rs, place a im)"
    by (simp add: place_def item_size_def ucast_of_nat_32)
  show "im_data (place a im) = im_data im @ item_atoms [(pl_seg pl, pl_pos pl (pl_seg pl), IAtom a)]"
    using assms by (simp add: place_def move_def item_atoms_def at_image_def)
qed

lemma item_atoms_append: "item_atoms (xs @ ys) = item_atoms xs @ item_atoms ys"
  by (simp add: item_atoms_def)

lemma at_image_bytes:
  assumes "at_image pl (rs, im)"
  shows "at_image (emitted (map (\<lambda>b. IAtom (AByte b)) bs) pl) (rs, fold (\<lambda>b. place (AByte b)) bs im) \<and>
    im_data (fold (\<lambda>b. place (AByte b)) bs im) =
      im_data im @ item_atoms (emits (map (\<lambda>b. IAtom (AByte b)) bs) pl)"
  using assms
proof (induction bs arbitrary: pl im)
  case Nil
  then show ?case by (simp add: emitted_def item_atoms_def)
next
  case (Cons b bs)
  note p = at_image_place [OF Cons.prems, of "AByte b"]
  have "item_atoms (emits (map (\<lambda>b. IAtom (AByte b)) (b # bs)) pl) =
      item_atoms [(pl_seg pl, pl_pos pl (pl_seg pl), IAtom (AByte b))] @
      item_atoms (emits (map (\<lambda>b. IAtom (AByte b)) bs) (advance (item_size (IAtom (AByte b))) pl))"
    by (simp flip: item_atoms_append)
  then show ?case
    using Cons.IH [OF p(1)] p(2) by (simp add: emitted_def)
qed

lemma cmd_image:
  assumes "at_image pl (rs, im)"
  shows "at_image (after_cmd c pl) (exec_cmd c (rs, im)) \<and>
    im_data (snd (exec_cmd c (rs, im))) = im_data im @ item_atoms (emits (cmd_list (pl_rs pl) c) pl)"
proof -
  have rs: "pl_rs pl = rs" using assms by (simp add: at_image_def)
  show ?thesis
  proof (cases c)
    case (CSize n)
    then show ?thesis using assms
      by (simp add: after_cmd_def cmd_place_def cmd_list_def emitted_def exec_cmd_def next_size_def item_atoms_def at_image_def)
  next
    case (CSkip n)
    then show ?thesis using at_image_move [OF assms, of n]
      by (simp add: after_cmd_def cmd_place_def cmd_list_def emitted_def exec_cmd_def next_size_def item_atoms_def item_size_def move_def)
  next
    case (CSeg g)
    then show ?thesis using assms unsigned_less [of g]
      by (simp add: after_cmd_def cmd_place_def cmd_list_def emitted_def exec_cmd_def next_size_def item_atoms_def at_image_def)
  next
    case (CBytes bs)
    then show ?thesis using at_image_bytes [OF assms, of bs]
      by (simp add: after_cmd_def cmd_place_def cmd_list_def exec_cmd_def next_size_def)
  qed (use assms at_image_place [OF assms] rs in
      \<open>simp_all add: after_cmd_def cmd_place_def cmd_list_def emitted_def exec_cmd_def next_size_def item_atoms_def\<close>)
qed

lemma text_items_image:
  assumes "at_image pl x"
  shows "im_data (snd (fold exec_cmd cs x)) = im_data (snd x) @ item_atoms (text_items cs pl)"
  using assms
proof (induction cs arbitrary: pl x)
  case Nil
  then show ?case by (simp add: item_atoms_def)
next
  case (Cons c cs)
  obtain rs im where x: "x = (rs, im)" by (cases x)
  from cmd_image [OF Cons.prems [unfolded x], of c] Cons.IH [of "after_cmd c pl" "exec_cmd c x"]
  show ?case by (simp add: x item_atoms_append)
qed

section \<open>Where items go\<close>

text \<open>The bytes of an item of module \<open>m\<close> at an address.\<close>

definition reloc_bytes :: "nat \<Rightarrow> byte \<Rightarrow> u32 \<Rightarrow> u32 \<Rightarrow> u32 \<Rightarrow> byte list" where
  "reloc_bytes n md base v p =
     take n (u2cn target [0, 0, 0, 0]
       (base + (if has md 0x20 then v - (p + of_nat n) else v)) n)"

definition item_bytes :: "'a writer_scheme \<Rightarrow> nat \<Rightarrow> u32 \<Rightarrow> item \<Rightarrow> byte list" where
  "item_bytes s m p i =
     (case i of
        INulls n \<Rightarrow> replicate (nat (sint n)) 0
      | IAtom (AByte b) \<Rightarrow> [b]
      | IAtom (AOff n md v) \<Rightarrow> reloc_bytes n md (segaddr (mods s ! m) (unat (md AND 0x0F))) v p
      | IAtom (ASym n md y v) \<Rightarrow>
          reloc_bytes n md (sm_value (symbols s ! (symparray (mods s ! m) ! unat y))) v p)"

definition write_item :: "'a writer_scheme \<Rightarrow> nat \<Rightarrow> nat \<times> u32 \<times> item \<Rightarrow> byte list \<Rightarrow> byte list" where
  "write_item s m x f =
     (case x of (g, p, i) \<Rightarrow>
        if segdiscard s g then f else write_at (unat (seg_file_pos s g p)) (item_bytes s m p i) f)"

text \<open>
  The layout has room for an item: it starts within the file, the addresses
  up to its end do not overflow, and a gap is not negative.
\<close>

definition fits :: "'a writer_scheme \<Rightarrow> nat \<times> u32 \<times> item \<Rightarrow> bool" where
  "fits s x \<longleftrightarrow>
     (case x of (g, p, i) \<Rightarrow>
        segdiscard s g \<or>
        0 \<le> (if headerless s then 0 else 32) + sint p + sint (segadj s g) \<and>
        0 \<le> sint (item_size i) \<and> sint p + sint (item_size i) < 2 ^ 31)"

lemma sint_add_small:
  fixes p n :: u32
  assumes "0 \<le> sint n" "sint p + sint n < 2 ^ 31"
  shows "sint (p + n) = sint p + sint n"
proof -
  have "- (2 ^ 31) \<le> sint p" using sint_ge [of p] by simp
  then show ?thesis using assms signed_take_bit_int_eq_self [of 31 "sint p + sint n"]
    by (simp add: sint_word_ariths)
qed

lemma scast_uint_mod: "uint (scast (w :: u32) :: u64) = sint w mod 2 ^ 64"
  by (subst scast_eq) (simp only: uint_word_of_int take_bit_eq_mod len_num1 len_bit0, simp)

lemma seg_file_pos_uint:
  assumes "0 \<le> h + sint p + sint a" "h = (if headerless s then 0 else 32)" "a = segadj s g"
  shows "uint (seg_file_pos s g p) = h + sint p + sint a"
proof -
  have "sint p < 2 ^ 31" "sint a < 2 ^ 31" using sint_lt [of p] sint_lt [of a] by simp_all
  then have "0 \<le> h + sint p + sint a" "h + sint p + sint a < 2 ^ 64" using assms by (auto split: if_splits)
  moreover have "uint (seg_file_pos s g p) = (h + sint p + sint a) mod 2 ^ 64"
    using assms(2,3) by (auto simp: seg_file_pos_def uint_word_ariths scast_uint_mod mod_simps)
  ultimately show ?thesis by simp
qed

lemma seg_file_pos_advance:
  assumes "fits s (g, p, i)" "\<not> segdiscard s g"
  shows "unat (seg_file_pos s g (p + item_size i)) = unat (seg_file_pos s g p) + nat (sint (item_size i))"
proof -
  define h :: int where "h = (if headerless s then 0 else 32)"
  define n where "n = item_size i"
  have f: "0 \<le> h + sint p + sint (segadj s g)" "0 \<le> sint n" "sint p + sint n < 2 ^ 31"
    using assms unfolding fits_def h_def n_def by simp_all
  have n: "sint (p + n) = sint p + sint n" using f(2,3) by (rule sint_add_small)
  have "uint (seg_file_pos s g p) = h + sint p + sint (segadj s g)"
    using f(1) h_def refl by (rule seg_file_pos_uint)
  moreover have "uint (seg_file_pos s g (p + n)) = h + sint (p + n) + sint (segadj s g)"
    by (rule seg_file_pos_uint [OF _ h_def refl]) (use f n in linarith)
  ultimately have "uint (seg_file_pos s g (p + n)) = uint (seg_file_pos s g p) + sint n"
    using n by linarith
  then have "nat (uint (seg_file_pos s g (p + n))) = nat (uint (seg_file_pos s g p)) + nat (sint n)"
    using f(2) by (simp only: nat_add_distrib uint_ge_0)
  then show ?thesis unfolding n_def unat_eq_nat_uint .
qed

lemma length_item_bytes:
  assumes "\<And>n md v. i = IAtom (AOff n md v) \<Longrightarrow> n \<in> {1, 2}"
    "\<And>n md y v. i = IAtom (ASym n md y v) \<Longrightarrow> n \<in> {1, 2}"
  shows "length (item_bytes s m p i) = nat (sint (item_size i))"
proof -
  have "length (u2cn target [0, 0, 0, 0] v n) = 4" if "n \<in> {1, 2}" for v n
    using that by (auto simp: u2cn_def u2c2_def simp del: list_update.simps)
  then have r: "length (reloc_bytes n md b v q) = n" if "n \<in> {1, 2}" for n md b v q
    using that by (auto simp: reloc_bytes_def)
  show ?thesis
  proof (cases i)
    case (IAtom a)
    then show ?thesis using assms r by (cases a) (auto simp: item_bytes_def item_size_def atom_size_def)
  qed (simp add: item_bytes_def item_size_def)
qed

text \<open>States between which only the output, the input position and the cursor differ.\<close>

definition same_layout :: "'a writer_scheme \<Rightarrow> 'a writer_scheme \<Rightarrow> bool" where
  "same_layout s t \<longleftrightarrow>
     mods t = mods s \<and> symbols t = symbols s \<and> segadj t = segadj s \<and>
     segdiscard t = segdiscard s \<and> headerless t = headerless s"

lemma same_layout_simps:
  assumes "same_layout s t"
  shows "item_bytes t m = item_bytes s m" "write_item t m = write_item s m" "fits t = fits s"
    "seg_file_pos t = seg_file_pos s"
proof -
  have eqs: "mods t = mods s" "symbols t = symbols s" "segadj t = segadj s"
    "segdiscard t = segdiscard s" "headerless t = headerless s"
    using assms by (simp_all add: same_layout_def)
  show b: "item_bytes t m = item_bytes s m"
    by (intro ext) (simp only: item_bytes_def eqs)
  show p: "seg_file_pos t = seg_file_pos s"
    by (intro ext) (simp only: seg_file_pos_def eqs)
  show "write_item t m = write_item s m"
    by (intro ext) (simp only: write_item_def eqs b p)
  show "fits t = fits s"
    by (intro ext) (simp only: fits_def eqs)
qed

lemma same_layout_trans: "\<lbrakk>same_layout s t; same_layout t u\<rbrakk> \<Longrightarrow> same_layout s u"
  by (simp add: same_layout_def)

definition cursor :: "'a writer_scheme \<Rightarrow> place" where
  "cursor s =
     \<lparr>pl_rs = relocsize s, pl_seg = curseg s, pl_pos = (segpos s)(curseg s := spos s)\<rparr>"

text \<open>The output is positioned at the current address, unless it is not written.\<close>

definition positioned :: "'a writer_scheme \<Rightarrow> bool" where
  "positioned s \<longleftrightarrow> (\<not> segdiscard s (curseg s) \<longrightarrow> out_at s = unat (seg_file_pos s (curseg s) (spos s)))"

text \<open>A step of the linker that writes items.\<close>

definition writes :: "nat \<Rightarrow> 'a writer_scheme \<Rightarrow> (nat \<times> u32 \<times> item) list \<Rightarrow> place \<Rightarrow> 'a writer_scheme \<Rightarrow> bool" where
  "writes m s xs pl t \<longleftrightarrow>
     same_layout s t \<and> cursor t = pl \<and> positioned t \<and>
     out_view t = fold (write_item s m) xs (out_view s)"

lemma writes_trans:
  assumes "writes m s xs pl t" "writes m t ys pl' u"
  shows "writes m s (xs @ ys) pl' u"
  using assms same_layout_simps(2) [of s t m] by (auto simp: writes_def intro: same_layout_trans)

section \<open>Steps that write\<close>

text \<open>Writing changes the output file only; reading, the input only.\<close>

definition same_but_output :: "'a ioput_scheme \<Rightarrow> 'a ioput_scheme \<Rightarrow> bool" where
  "same_but_output s t \<longleftrightarrow>
     t = s\<lparr>out_file := out_file t, out_fpos := out_fpos t, outbuf := outbuf t\<rparr>"

lemma same_but_output_refl: "same_but_output s s"
  by (simp add: same_but_output_def)

lemma same_but_output_trans: "\<lbrakk>same_but_output s t; same_but_output t u\<rbrakk> \<Longrightarrow> same_but_output s u"
  unfolding same_but_output_def by (cases s; cases t; cases u) simp

lemma same_out_put: "same_but_output s (s\<lparr>outbuf := b\<rparr>)" "same_but_output s (flushout s)"
  "same_but_output s (seekout p s)"
  by (simp_all add: same_but_output_def flushout_def seekout_def)

lemma same_out_writechar: "same_but_output s (writechar ch s)"
  unfolding writechar_def Let_def using same_out_put same_but_output_trans by (cases "OUTBUFSIZE \<le> length (outbuf s)") (auto, blast)

lemma same_out_writeout: "same_but_output s (writeout bs s)"
proof (induction bs arbitrary: s)
  case Nil
  then show ?case by (simp add: same_but_output_refl)
next
  case (Cons ch bs)
  have "same_but_output s (writeout bs (writechar ch s))"
    using same_but_output_trans [OF same_out_writechar Cons.IH] .
  then show ?case by (simp add: writechar_def Let_def)
qed

lemma same_out_fill: "same_but_output s ((writechar b ^^ n) s)"
  by (induction n) (auto intro: same_but_output_trans same_out_writechar same_but_output_refl)

lemma fill_out:
  "out_view ((writechar b ^^ n) s) = write_at (out_at s) (replicate n b) (out_view s)"
  "out_at ((writechar b ^^ n) s) = out_at s + n"
proof (induction n)
  case (Suc n)
  { case 1
    have "write_at (out_at s + n) [b] (write_at (out_at s) (replicate n b) (out_view s)) =
        write_at (out_at s) (replicate (Suc n) b) (out_view s)"
      using write_at_append [of "out_at s" "replicate n b" "[b]"] by (simp add: replicate_append_same)
    then show ?case using Suc by (simp add: writechar_out del: replicate.simps) }
  case 2
  show ?case using Suc by (simp add: writechar_out)
qed simp_all

lemma same_out_writer:
  assumes "same_but_output s t"
  shows "curseg t = curseg s" "relocsize t = relocsize s" "segadj t = segadj s"
    "segdiscard t = segdiscard s" "segpos t = segpos s" "spos t = spos s" "headerless t = headerless s"
    "mods t = mods s" "symbols t = symbols s" "in_rest t = in_rest s"
  by (subst assms [unfolded same_but_output_def], simp add: in_rest_def)+

lemma same_in_writer:
  assumes "same_but_input s t"
  shows "curseg t = curseg s" "relocsize t = relocsize s" "segadj t = segadj s"
    "segdiscard t = segdiscard s" "segpos t = segpos s" "spos t = spos s" "headerless t = headerless s"
    "mods t = mods s" "symbols t = symbols s" "out_view t = out_view s" "out_at t = out_at s"
  by (subst assms [unfolded same_but_input_def], simp add: out_view_def out_at_def)+

lemma same_in_writes:
  assumes "same_but_input s t"
  shows "same_layout s t" "cursor t = cursor s" "positioned t = positioned s" "out_view t = out_view s"
  using same_in_writer [OF assms]
  by (simp_all add: same_layout_def cursor_def positioned_def seg_file_pos_def)

lemma readin_take:
  "take_bytes n (in_rest s) = Some (bs, r) \<Longrightarrow>
     \<exists>t. readin n s = Inr (bs, t) \<and> in_rest t = r \<and> same_but_input s t"
  using readin_enough [of n s] by (fastforce simp: take_bytes_def split: if_splits)

lemma readsize_take:
  assumes "take_num n (in_rest s) = Some (v, r)"
  shows "\<exists>t. readsize n s = Inr (v, t) \<and> in_rest t = r \<and> same_but_input s t"
proof -
  obtain bs where bs: "take_bytes n (in_rest s) = Some (bs, r)" "v = cnu2 target bs n"
    using assms by (auto simp: take_num_def map_reader_def)
  then obtain t where "readin n s = Inr (bs, t)" "in_rest t = r" "same_but_input s t"
    using readin_take by blast
  moreover have "v = 0 \<and> r = in_rest s" if "n = 0"
    using bs that by (simp add: take_bytes_def cnu2_def)
  ultimately show ?thesis using bs(2) by (cases "n = 0") (simp_all add: readsize_def)
qed

text \<open>Bytes one by one are bytes at once.\<close>

abbreviation byte_items :: "byte list \<Rightarrow> item list"
  where "byte_items bs \<equiv> map (\<lambda>b. IAtom (AByte b)) bs"

lemma item_size_byte [simp]: "item_size (IAtom (AByte b)) = 1"
  by (simp add: item_size_def atom_size_def)

lemma emitted_bytes: "emitted (byte_items bs) pl = advance (of_nat (length bs)) pl"
proof (induction bs arbitrary: pl)
  case Nil
  then show ?case by (simp add: emitted_def advance_def)
next
  case (Cons b bs)
  have "advance n (advance 1 pl) = advance (1 + n) pl" for n
    by (simp add: advance_def add.assoc fun_upd_def [symmetric])
  then show ?case using Cons [of "advance 1 pl"] by (simp add: emitted_def)
qed

lemma write_byte_items:
  assumes "\<forall>x\<in>set (emits (byte_items bs) pl). fits s x"
  shows "fold (write_item s m) (emits (byte_items bs) pl) f =
      (if segdiscard s (pl_seg pl) then f
       else write_at (unat (seg_file_pos s (pl_seg pl) (pl_pos pl (pl_seg pl)))) bs f) \<and>
    (\<not> segdiscard s (pl_seg pl) \<longrightarrow>
      unat (seg_file_pos s (pl_seg pl) (pl_pos pl (pl_seg pl) + of_nat (length bs))) =
      unat (seg_file_pos s (pl_seg pl) (pl_pos pl (pl_seg pl))) + length bs)"
  using assms
proof (induction bs arbitrary: pl f)
  case Nil
  then show ?case by simp
next
  case (Cons b bs)
  let ?g = "pl_seg pl" and ?p = "pl_pos pl (pl_seg pl)"
  let ?pl = "advance 1 pl"
  have pl: "pl_seg ?pl = ?g" "pl_pos ?pl ?g = ?p + 1" by (simp_all add: advance_def)
  have f1: "fits s (?g, ?p, IAtom (AByte b))" using Cons.prems by simp
  show ?case
  proof (cases "segdiscard s ?g")
    case True
    then show ?thesis using Cons pl by (simp add: write_item_def)
  next
    case False
    have a: "unat (seg_file_pos s ?g (?p + 1)) = unat (seg_file_pos s ?g ?p) + 1"
      using seg_file_pos_advance [OF f1 False] by simp
    have "write_at (q + 1) bs (write_at q [b] f) = write_at q (b # bs) f" for q
      using write_at_append [of q "[b]" bs f] by simp
    then show ?thesis
      using Cons.IH [of ?pl "write_item s m (?g, ?p, IAtom (AByte b)) f"] Cons.prems False pl a
      by (simp add: write_item_def item_bytes_def add.assoc)
  qed
qed

text \<open>Writing some bytes at the current address and moving past them.\<close>

lemma segwrite_effect:
  fixes s :: "'a writer_scheme"
  assumes pos: "positioned s"
    and n: "\<not> segdiscard s (curseg s) \<Longrightarrow>
      unat (seg_file_pos s (curseg s) (spos s + n)) = unat (seg_file_pos s (curseg s) (spos s)) + length bs"
    and t: "t = (segwrite bs s)\<lparr>spos := spos (segwrite bs s) + n\<rparr>"
  shows "same_layout s t" "cursor t = advance n (cursor s)" "positioned t" "in_rest t = in_rest s"
    "out_view t = (if segdiscard s (curseg s) then out_view s
       else write_at (unat (seg_file_pos s (curseg s) (spos s))) bs (out_view s))"
proof -
  have "same_but_output s (segwrite bs s)"
    by (simp add: segwrite_def same_but_output_refl same_out_writeout)
  note f = same_out_writer [OF this]
  show "same_layout s t" "cursor t = advance n (cursor s)" "in_rest t = in_rest s"
    using f by (simp_all add: t same_layout_def cursor_def advance_def in_rest_def)
  have o: "out_view t = out_view (segwrite bs s)" "out_at t = out_at (segwrite bs s)"
    by (simp_all add: t out_view_def out_at_def)
  show "out_view t = (if segdiscard s (curseg s) then out_view s
       else write_at (unat (seg_file_pos s (curseg s) (spos s))) bs (out_view s))"
    using pos unfolding o by (simp add: segwrite_def writeout_out positioned_def)
  have "seg_file_pos t = seg_file_pos s"
    using f by (simp add: t seg_file_pos_def fun_eq_iff)
  then show "positioned t"
    using pos n f unfolding positioned_def o
    by (simp add: t) (simp add: segwrite_def writeout_out)
qed

text \<open>One item, a chunk of bytes, a gap.\<close>

lemma writes_item:
  fixes s :: "'a writer_scheme"
  assumes pos: "positioned s" and fit: "fits s (curseg s, spos s, i)"
    and bs: "bs = item_bytes s m (spos s) i" "length bs = nat (sint (item_size i))"
    and t: "t = (segwrite bs s)\<lparr>spos := spos (segwrite bs s) + item_size i\<rparr>"
  shows "writes m s (emits [i] (cursor s)) (emitted [i] (cursor s)) t \<and> in_rest t = in_rest s"
proof -
  have "\<not> segdiscard s (curseg s) \<Longrightarrow>
      unat (seg_file_pos s (curseg s) (spos s + item_size i)) = unat (seg_file_pos s (curseg s) (spos s)) + length bs"
    using seg_file_pos_advance [OF fit] bs(2) by simp
  note e = segwrite_effect [OF pos this t]
  have "cursor s = \<lparr>pl_rs = relocsize s, pl_seg = curseg s, pl_pos = (segpos s)(curseg s := spos s)\<rparr>"
    by (simp add: cursor_def)
  then show ?thesis
    using e bs(1) by (simp add: writes_def emitted_def write_item_def)
qed

lemma writes_bytes:
  fixes s :: "'a writer_scheme"
  assumes pos: "positioned s" and fit: "\<forall>x\<in>set (emits (byte_items bs) (cursor s)). fits s x"
    and t: "t = (segwrite bs s)\<lparr>spos := spos (segwrite bs s) + of_nat (length bs)\<rparr>"
  shows "writes m s (emits (byte_items bs) (cursor s)) (emitted (byte_items bs) (cursor s)) t \<and> in_rest t = in_rest s"
proof -
  have c: "pl_seg (cursor s) = curseg s" "pl_pos (cursor s) (curseg s) = spos s"
    by (simp_all add: cursor_def)
  note b = write_byte_items [OF fit, of m "out_view s", unfolded c]
  have "\<not> segdiscard s (curseg s) \<Longrightarrow>
      unat (seg_file_pos s (curseg s) (spos s + of_nat (length bs))) =
      unat (seg_file_pos s (curseg s) (spos s)) + length bs"
    using b by blast
  note e = segwrite_effect [OF pos this t]
  show ?thesis using e b by (simp add: writes_def emitted_bytes)
qed

lemma writes_nulls:
  fixes s :: "'a writer_scheme"
  assumes pos: "positioned s" and fit: "fits s (curseg s, spos s, INulls n)"
  shows "\<exists>t. writenulls n s = Inr t \<and>
    writes m s (emits [INulls n] (cursor s)) (emitted [INulls n] (cursor s)) t \<and> in_rest t = in_rest s"
proof -
  let ?s1 = "s\<lparr>spos := spos s + n\<rparr>"
  have c: "pl_seg (cursor s) = curseg s" "pl_pos (cursor s) (curseg s) = spos s"
    by (simp_all add: cursor_def)
  have cur: "cursor ?s1 = advance n (cursor s)" "same_layout s ?s1" "out_view ?s1 = out_view s"
    "out_at ?s1 = out_at s" "in_rest ?s1 = in_rest s"
    by (simp_all add: cursor_def advance_def same_layout_def out_view_def out_at_def in_rest_def)
  show ?thesis
  proof (cases "segdiscard s (curseg s)")
    case True
    then have "writenulls n s = Inr ?s1" by (simp add: writenulls_def)
    then show ?thesis
      using True cur c by (simp add: writes_def emitted_def item_size_def write_item_def positioned_def)
  next
    case False
    then have ge: "0 \<le> sint n" using fit by (simp add: fits_def item_size_def)
    let ?t = "(writechar 0 ^^ nat (sint n)) ?s1"
    have w: "writenulls n s = Inr ?t" using False ge by (simp add: writenulls_def)
    have so: "same_but_output ?s1 ?t" by (rule same_out_fill)
    note f = same_out_writer [OF so]
    have "out_at s = unat (seg_file_pos s (curseg s) (spos s))"
      using pos False by (simp add: positioned_def)
    moreover have "unat (seg_file_pos s (curseg s) (spos s + n)) =
        unat (seg_file_pos s (curseg s) (spos s)) + nat (sint n)"
      using seg_file_pos_advance [OF fit False] by (simp add: item_size_def)
    moreover have "seg_file_pos ?t = seg_file_pos s" using f by (simp add: seg_file_pos_def fun_eq_iff)
    moreover have "cursor ?t = advance n (cursor s)" using f cur(1) by (simp add: cursor_def)
    moreover have "same_layout s ?t" using f cur(2) by (simp add: same_layout_def)
    ultimately have "writes m s (emits [INulls n] (cursor s)) (emitted [INulls n] (cursor s)) ?t"
      using False f cur c fill_out [of "nat (sint n)" 0 ?s1]
      by (simp add: writes_def emitted_def item_size_def write_item_def item_bytes_def positioned_def)
    then show ?thesis using w f cur(5) by simp
  qed
qed

text \<open>A relocated field.\<close>

lemma length_reloc_bytes: "n \<in> {1, 2} \<Longrightarrow> length (reloc_bytes n md b v p) = n"
proof -
  assume "n \<in> {1, 2}"
  then have "length (u2cn target [0, 0, 0, 0] v n) = 4" for v
    by (auto simp: u2cn_def u2c2_def simp del: list_update.simps)
  then show ?thesis using \<open>n \<in> {1, 2}\<close> by (auto simp: reloc_bytes_def)
qed

lemma writes_reloc:
  fixes s :: "'a writer_scheme"
  assumes pos: "positioned s" and rs: "relocsize s \<in> {1, 2}"
    and i: "i = IAtom (AOff (relocsize s) md v) \<and> base = segaddr (mods s ! m) (unat (md AND 0x0F)) \<or>
      i = IAtom (ASym (relocsize s) md y v) \<and> base = sm_value (symbols s ! (symparray (mods s ! m) ! unat y))"
    and md: "has md' 0x20 = has md 0x20"
    and fit: "fits s (curseg s, spos s, i)"
  shows "writes m s (emits [i] (cursor s)) (emitted [i] (cursor s)) (put_reloc md' base v s) \<and>
    in_rest (put_reloc md' base v s) = in_rest s"
proof (rule writes_item [OF pos fit refl])
  have b: "item_bytes s m (spos s) i = reloc_bytes (relocsize s) md base v (spos s)"
    using i by (auto simp: item_bytes_def)
  have n: "item_size i = of_nat (relocsize s)" using i by (auto simp: item_size_def atom_size_def)
  show "length (item_bytes s m (spos s) i) = nat (sint (item_size i))"
    unfolding b n using length_reloc_bytes [OF rs] rs by auto
  show "put_reloc md' base v s = (segwrite (item_bytes s m (spos s) i) s)
      \<lparr>spos := spos (segwrite (item_bytes s m (spos s) i) s) + item_size i\<rparr>"
    unfolding b n using md by (simp add: put_reloc_def reloc_bytes_def Let_def)
qed

lemma writes_setseg:
  fixes s :: "'a writer_scheme"
  assumes "positioned s"
  shows "writes m s [] (cmd_place (CSeg g) (cursor s)) (setseg (unat g) s) \<and> in_rest (setseg (unat g) s) = in_rest s"
proof (cases "unat g = curseg s")
  case True
  then show ?thesis using assms
    by (simp add: setseg_def writes_def cmd_place_def cursor_def same_layout_def)
next
  case False
  let ?u = "s\<lparr>segpos := (segpos s)(curseg s := spos s), curseg := unat g, spos := segpos s (unat g)\<rparr>"
  have e: "setseg (unat g) s = seek_current ?u" using False by (simp add: setseg_def Let_def)
  have "same_but_output ?u (seek_current ?u)"
    by (simp add: seek_current_def same_but_output_refl same_out_put)
  note f = same_out_writer [OF this]
  have o: "out_view (seek_current ?u) = out_view s"
    by (simp add: seek_current_def outfile.seek_view) (simp add: out_view_def)
  have "seg_file_pos (seek_current ?u) = seg_file_pos ?u" using f by (simp add: seg_file_pos_def fun_eq_iff)
  then have "positioned (seek_current ?u)"
    using f by (simp add: positioned_def) (simp add: seek_current_def outfile.seek_at)
  then show ?thesis
    using f o False by (simp add: e writes_def cmd_place_def cursor_def same_layout_def fun_upd_def in_rest_def fun_eq_iff)
qed

section \<open>Commands and texts\<close>

definition symbols_ok :: "'a writer_scheme \<Rightarrow> nat \<Rightarrow> cmd \<Rightarrow> bool" where
  "symbols_ok s m c \<longleftrightarrow>
     (case c of CSym md y v \<Rightarrow> unat y < length (symparray (mods s ! m)) | _ \<Rightarrow> True)"

lemma symbols_ok_mods: "mods t = mods s \<Longrightarrow> symbols_ok t = symbols_ok s"
  by (intro ext) (simp only: symbols_ok_def)

text \<open>After the part of a command that reads, the part that writes.\<close>

lemma writes_after_reading:
  assumes "same_but_input s s'" and "writes m s' xs pl t"
  shows "writes m s xs pl t"
  using assms same_in_writes [OF assms(1)] same_layout_simps(2) [of s s' m]
  by (auto simp: writes_def intro: same_layout_trans)

lemma after_reading:
  assumes "same_but_input s s'" and "writes m s' xs pl t \<and> in_rest t = in_rest s'"
  shows "writes m s xs pl t \<and> in_rest t = in_rest s'"
  using assms writes_after_reading by blast

lemma special_cases:
  assumes "special_args md bs = Some (c, r)"
  obtains "md = 0" "c = CEnd" "r = bs"
  | "md = 1" "c = CSize 1" "r = bs" | "md = 2" "c = CSize 2" "r = bs"
  | n v where "md = 0x11 \<and> n = 1 \<or> md = 0x12 \<and> n = 2 \<or> md = 0x13 \<and> n = 4"
      "take_num n bs = Some (v, r)" "c = CSkip v"
  | "0x20 \<le> md" "md \<le> 0x2F" "c = CSeg (md - 0x20)" "r = bs"
  using assms by (auto simp: special_args_def map_reader_def split: if_splits)

lemma special_step:
  fixes s :: "'a writer_scheme"
  assumes c: "special_args md (in_rest s) = Some (c, r)" and nend: "c \<noteq> CEnd"
    and pos: "positioned s" and fit: "\<forall>x\<in>set (emits (cmd_list (relocsize s) c) (cursor s)). fits s x"
  shows "\<exists>t. link_special md s = Inr (False, t) \<and> in_rest t = r \<and>
    writes m s (emits (cmd_list (relocsize s) c) (cursor s)) (after_cmd c (cursor s)) t"
  using c
proof (cases rule: special_cases)
  case 1
  with nend show ?thesis by simp
next
  case 2
  let ?t = "s\<lparr>relocsize := 1\<rparr>"
  have "writes m s [] (after_cmd c (cursor s)) ?t" using 2 pos
    by (simp add: writes_def after_cmd_def cmd_place_def cmd_list_def emitted_def cursor_def same_layout_def
        positioned_def out_at_def out_view_def seg_file_pos_def)
  then show ?thesis using 2 by (simp add: link_special_def cmd_list_def in_rest_def)
next
  case 3
  let ?t = "s\<lparr>relocsize := 2\<rparr>"
  have "writes m s [] (after_cmd c (cursor s)) ?t" using 3 pos
    by (simp add: writes_def after_cmd_def cmd_place_def cmd_list_def emitted_def cursor_def same_layout_def
        positioned_def out_at_def out_view_def seg_file_pos_def)
  then show ?thesis using 3 by (simp add: link_special_def cmd_list_def in_rest_def)
next
  case (4 n v)
  obtain s' where s': "readsize n s = Inr (v, s')" "in_rest s' = r" "same_but_input s s'"
    using readsize_take [OF 4(2)] by blast
  note i = same_in_writer [OF s'(3)] same_in_writes [OF s'(3)]
  have "fits s' (curseg s', spos s', INulls v)"
    using fit 4(3) i same_layout_simps(3) [of s s'] by (simp add: cmd_list_def cursor_def)
  then obtain t where t: "writenulls v s' = Inr t"
      "writes m s' (emits [INulls v] (cursor s')) (emitted [INulls v] (cursor s')) t \<and> in_rest t = in_rest s'"
    using writes_nulls [of s' v m] pos i by auto
  have "writes m s (emits [INulls v] (cursor s')) (emitted [INulls v] (cursor s')) t \<and> in_rest t = in_rest s'"
    using s'(3) t(2) by (rule after_reading)
  moreover have "link_special md s = Inr (False, t)"
    using 4(1) s' t by (auto simp: link_special_def skip_def)
  ultimately show ?thesis
    using s' i 4(3) by (simp add: cmd_list_def after_cmd_def cmd_place_def)
next
  case 5
  have "unat (md - 0x20) = unat md - 32" "unat md \<le> 47" "32 \<le> unat md"
    using 5 by (simp_all add: unat_sub word_le_nat_alt)
  then have "\<not> md - 0x20 \<ge> 16" "md \<noteq> 0" "md \<noteq> 1" "md \<noteq> 2" "md \<noteq> 3" "md \<noteq> 0x11" "md \<noteq> 0x12" "md \<noteq> 0x13"
    by (auto simp: word_le_nat_alt)
  then have "link_special md s = Inr (False, setseg (unat (md - 0x20)) s)"
    by (simp add: link_special_def)
  then show ?thesis
    using writes_setseg [OF pos, of m "md - 0x20"] 5
    by (simp add: cmd_list_def after_cmd_def emitted_def)
qed

lemma has_masks: "has (md AND 0x20) 0x20 = has md (0x20 :: byte)"
  by (simp add: and.assoc)

lemma command_step:
  fixes s :: "'a writer_scheme"
  assumes c: "cmd_args (relocsize s) command (in_rest s) = Some (c, r)" and nend: "c \<noteq> CEnd"
    and pos: "positioned s" and rs: "relocsize s \<in> {1, 2}"
    and fit: "\<forall>x\<in>set (emits (cmd_list (relocsize s) c) (cursor s)). fits s x"
    and sym: "symbols_ok s m c"
  shows "\<exists>t. link_command m command s = Inr (False, t) \<and> in_rest t = r \<and>
    writes m s (emits (cmd_list (relocsize s) c) (cursor s)) (after_cmd c (cursor s)) t"
proof -
  define md where "md = command AND 0x3F"
  have cur: "pl_seg (cursor s) = curseg s" "pl_pos (cursor s) (curseg s) = spos s"
    "pl_rs (cursor s) = relocsize s" by (simp_all add: cursor_def)
  consider (special) "command AND 0xC0 = 0x00" | (bytes) "command AND 0xC0 = 0x40"
    | (off) "command AND 0xC0 = 0x80"
    | (sym) "command AND 0xC0 \<noteq> 0x00" "command AND 0xC0 \<noteq> 0x40" "command AND 0xC0 \<noteq> 0x80" by blast
  then show ?thesis
  proof cases
    case special
    then show ?thesis
      using special_step [of md s c r m] c nend pos fit
      by (simp add: link_command_def cmd_args_def Let_def md_def)
  next
    case bytes
    let ?n = "if md = 0 then 64 else unat md"
    obtain bs where bs: "take_bytes ?n (in_rest s) = Some (bs, r)" "c = CBytes bs"
      using c bytes by (auto simp: cmd_args_def Let_def map_reader_def md_def [symmetric])
    then obtain s' where s': "readin ?n s = Inr (bs, s')" "in_rest s' = r" "same_but_input s s'"
      using readin_take by blast
    note i = same_in_writer [OF s'(3)] same_in_writes [OF s'(3)]
    let ?t = "(segwrite bs s')\<lparr>spos := spos (segwrite bs s') + of_nat (length bs)\<rparr>"
    have len: "length bs = ?n" using bs(1) by (auto simp: take_bytes_def split: if_splits)
    have "\<forall>x\<in>set (emits (byte_items bs) (cursor s')). fits s' x"
      using fit bs(2) i same_layout_simps(3) [of s s'] by (simp add: cmd_list_def)
    then have "writes m s' (emits (byte_items bs) (cursor s')) (emitted (byte_items bs) (cursor s')) ?t \<and>
        in_rest ?t = in_rest s'"
      using pos i by (intro writes_bytes) simp_all
    then have "writes m s (emits (byte_items bs) (cursor s')) (emitted (byte_items bs) (cursor s')) ?t \<and>
        in_rest ?t = in_rest s'"
      by (rule after_reading [OF s'(3)])
    moreover have "link_command m command s = Inr (False, ?t)"
      using bytes s' len by (simp add: link_command_def link_absolute_def Let_def md_def [symmetric])
    ultimately show ?thesis
      using s' i bs(2) by (simp add: cmd_list_def after_cmd_def cmd_place_def)
  next
    case off
    obtain v where v: "take_num (relocsize s) (in_rest s) = Some (v, r)" "c = COff md v"
      using c off by (auto simp: cmd_args_def Let_def map_reader_def md_def [symmetric])
    then obtain s' where s': "readsize (relocsize s) s = Inr (v, s')" "in_rest s' = r" "same_but_input s s'"
      using readsize_take by blast
    note i = same_in_writer [OF s'(3)] same_in_writes [OF s'(3)]
    let ?i = "IAtom (AOff (relocsize s') md v)" and ?base = "segaddr (mods s' ! m) (unat (md AND 0x0F))"
    have "fits s' (curseg s', spos s', ?i)"
      using fit v(2) i same_layout_simps(3) [of s s'] cur by (simp add: cmd_list_def)
    then have "writes m s' (emits [?i] (cursor s')) (emitted [?i] (cursor s')) (put_reloc md ?base v s') \<and>
        in_rest (put_reloc md ?base v s') = in_rest s'"
      using pos i rs by (intro writes_reloc) auto
    then have "writes m s (emits [?i] (cursor s')) (emitted [?i] (cursor s')) (put_reloc md ?base v s') \<and>
        in_rest (put_reloc md ?base v s') = in_rest s'"
      by (rule after_reading [OF s'(3)])
    moreover have "link_command m command s = Inr (False, put_reloc md ?base v s')"
      using off s' by (simp add: link_command_def link_offset_def Let_def md_def)
    ultimately show ?thesis
      using s' i v(2) cur(3) by (simp add: cmd_list_def after_cmd_def cmd_place_def)
  next
    case sym
    let ?n1 = "if has md 0x04 then 2 else 1" and ?n2 = "convertsize (md AND 0x03)"
    have "then_reader (take_num ?n1) (\<lambda>symnum. map_reader (CSym (md AND 0x20) symnum) (take_num ?n2)) (in_rest s) = Some (c, r)"
      using c sym by (simp add: cmd_args_def Let_def md_def)
    then obtain y r1 v where y: "take_num ?n1 (in_rest s) = Some (y, r1)" "take_num ?n2 r1 = Some (v, r)"
        "c = CSym (md AND 0x20) y v"
      by (auto simp: then_reader_def map_reader_def split: option.splits)
    obtain s1 where s1: "readsize ?n1 s = Inr (y, s1)" "in_rest s1 = r1" "same_but_input s s1"
      using readsize_take [OF y(1)] by blast
    obtain s' where s': "readsize ?n2 s1 = Inr (v, s')" "in_rest s' = r" "same_but_input s1 s'"
      using readsize_take [of ?n2 s1] y(2) s1(2) by blast
    have ss: "same_but_input s s'" using s1(3) s'(3) by (rule same_but_input_trans)
    note i = same_in_writer [OF ss] same_in_writes [OF ss]
    let ?i = "IAtom (ASym (relocsize s') (md AND 0x20) y v)"
      and ?base = "sm_value (symbols s' ! (symparray (mods s' ! m) ! unat y))"
    have "fits s' (curseg s', spos s', ?i)"
      using fit y(3) i same_layout_simps(3) [of s s'] cur by (simp add: cmd_list_def)
    then have "writes m s' (emits [?i] (cursor s')) (emitted [?i] (cursor s')) (put_reloc md ?base v s') \<and>
        in_rest (put_reloc md ?base v s') = in_rest s'"
      using pos i rs has_masks by (intro writes_reloc [where md = "md AND 0x20" and y = y]) auto
    then have "writes m s (emits [?i] (cursor s')) (emitted [?i] (cursor s')) (put_reloc md ?base v s') \<and>
        in_rest (put_reloc md ?base v s') = in_rest s'"
      by (rule after_reading [OF ss])
    moreover have "link_command m command s = Inr (False, put_reloc md ?base v s')"
    proof -
      have "readconvsize (if has md 0x04 then 2 else 1) s = Inr (y, s1)"
        using s1(1) by (cases "has md 0x04") (simp_all add: readconvsize_def convertsize_def)
      moreover have "unat y < length (symparray (mods s1 ! m))"
        using \<open>symbols_ok s m c\<close> y(3) same_in_writer(8) [OF s1(3)] by (simp add: symbols_ok_def)
      ultimately show ?thesis
        using sym s' same_in_writer(8,9) [OF s'(3)]
        by (simp add: link_command_def link_symbol_def Let_def readconvsize_def [of "md AND 3"] flip: md_def)
    qed
    ultimately show ?thesis
      using s' i y(3) cur(3) by (simp add: cmd_list_def after_cmd_def cmd_place_def)
  qed
qed

lemma end_step:
  assumes "cmd_args rs command bs = Some (CEnd, r)"
  shows "command AND 0xC0 = 0 \<and> command AND 0x3F = 0"
proof -
  have "special_args (command AND 0x3F) bs = Some (CEnd, r) \<and> command AND 0xC0 = 0"
    using assms by (auto simp: cmd_args_def Let_def map_reader_def then_reader_def split: if_splits option.splits)
  then show ?thesis by (auto simp: special_args_def map_reader_def split: if_splits)
qed

lemma rs_after: "\<lbrakk>pl_rs pl \<in> {1, 2}; \<And>n. c = CSize n \<Longrightarrow> n \<in> {1, 2}\<rbrakk> \<Longrightarrow> pl_rs (after_cmd c pl) \<in> {1, 2}"
proof -
  have "pl_rs (emitted is pl) = pl_rs pl" for "is" pl
    unfolding emitted_def by (induction "is" arbitrary: pl) (simp_all add: advance_def)
  then show "\<lbrakk>pl_rs pl \<in> {1, 2}; \<And>n. c = CSize n \<Longrightarrow> n \<in> {1, 2}\<rbrakk> \<Longrightarrow> pl_rs (after_cmd c pl) \<in> {1, 2}"
    by (cases c) (auto simp: after_cmd_def cmd_place_def)
qed

lemma next_size_place: "next_size (pl_rs pl) c = pl_rs (after_cmd c pl)"
proof -
  have "pl_rs (emitted is pl) = pl_rs pl" for "is" pl
    unfolding emitted_def by (induction "is" arbitrary: pl) (simp_all add: advance_def)
  then show ?thesis by (cases c) (simp_all add: next_size_def after_cmd_def cmd_place_def)
qed

lemma next_cmd_sizes: "next_cmd rs bs = Some (CSize n, r) \<Longrightarrow> n \<in> {1, 2}"
  by (auto simp: next_cmd_def cmd_args_def special_args_def Let_def map_reader_def then_reader_def
      split: list.splits if_splits option.splits)

lemma link_text_writes:
  fixes s :: "'a writer_scheme"
  assumes "decode (relocsize s) bs = Some (cs @ [CEnd], rs')" and "CEnd \<notin> set cs"
    and "in_rest s = bs @ tail" and "length bs < n"
    and "positioned s" and "relocsize s \<in> {1, 2}"
    and "\<forall>x\<in>set (text_items cs (cursor s)). fits s x" and "\<forall>c\<in>set cs. symbols_ok s m c"
  shows "\<exists>t. link_text n m s = Inr t \<and> same_layout s t \<and>
    out_view t = fold (write_item s m) (text_items cs (cursor s)) (out_view s) \<and>
    segpos t = pl_pos (fold after_cmd cs (cursor s))"
  using assms
proof (induction n arbitrary: s bs cs)
  case 0
  then show ?case by simp
next
  case (Suc n)
  have ne: "bs \<noteq> []" using Suc.prems(1) by auto
  then obtain command bs1 where bs: "bs = command # bs1" by (cases bs) auto
  obtain s1 where s1: "readchar s = (Some command, s1)" "in_rest s1 = bs1 @ tail"
    using infile.get_Cons [of s command "bs1 @ tail"] Suc.prems(3) bs by auto
  have same: "same_but_input s s1" using same_readchar [of s] s1 by simp
  note i = same_in_writer [OF same] same_in_writes [OF same]
  obtain c r ds where c: "cmd_args (relocsize s) command bs1 = Some (c, r)"
      "decode (next_size (relocsize s) c) r = Some (ds, rs')" "cs @ [CEnd] = c # ds"
    using Suc.prems(1) bs
    by (auto simp: decode.simps [of "relocsize s" "command # bs1"] next_cmd_def split: option.splits)
  have ct: "cmd_args (relocsize s) command (bs1 @ tail) = Some (c, r @ tail)"
    using next_cmd_append [of "relocsize s" bs c r tail] c(1) bs by (simp add: next_cmd_def)
  show ?case
  proof (cases cs)
    case Nil
    then have "command AND 0xC0 = 0" "command AND 0x3F = 0"
      using end_step [of "relocsize s" command bs1 r] c by auto
    then have "link_text (Suc n) m s = Inr (s1\<lparr>segpos := (segpos s1)(curseg s1 := spos s1)\<rparr>)"
      using s1 by (simp add: link_command_def link_special_def Let_def)
    then show ?thesis using i Nil
      by (simp add: same_layout_def out_view_def cursor_def) (simp add: fun_eq_iff)
  next
    case (Cons c' cs')
    then have eq: "c' = c" "ds = cs' @ [CEnd]" using c(3) by auto
    have cend: "c \<noteq> CEnd" "CEnd \<notin> set cs'" using Suc.prems(2) Cons eq by auto
    have rs: "pl_rs (cursor s) = relocsize s" by (simp add: cursor_def)
    have fit: "\<forall>x\<in>set (emits (cmd_list (relocsize s1) c) (cursor s1)). fits s1 x"
      using Suc.prems(7) Cons eq i same_layout_simps(3) [of s s1] rs by simp
    have sym: "symbols_ok s1 m c" using Suc.prems(8) Cons eq symbols_ok_mods [OF i(8)] by simp
    obtain t where t: "link_command m command s1 = Inr (False, t)" "in_rest t = r @ tail"
        "writes m s1 (emits (cmd_list (relocsize s1) c) (cursor s1)) (after_cmd c (cursor s1)) t"
      using command_step [OF _ cend(1) _ _ fit sym, of command "r @ tail"] ct s1(2) i Suc.prems(5,6) by auto
    have w: "writes m s (emits (cmd_list (relocsize s) c) (cursor s)) (after_cmd c (cursor s)) t"
      using writes_after_reading [OF same t(3)] i by simp
    then have ct: "cursor t = after_cmd c (cursor s)" "same_layout s t" "positioned t"
        "out_view t = fold (write_item s m) (emits (cmd_list (relocsize s) c) (cursor s)) (out_view s)"
      by (simp_all add: writes_def)
    have rt: "relocsize t = next_size (relocsize s) c"
      using next_size_place [of "cursor s" c] ct(1) rs by (metis cursor_def place.select_convs(1))
    have "relocsize t \<in> {1, 2}"
      using rs_after [of "cursor s" c] Suc.prems(6) rs ct(1) c(1) next_cmd_sizes [of "relocsize s" bs _ r] bs
      by (auto simp: next_cmd_def rt next_size_place [symmetric] rs split: cmd.splits)
    moreover have "length r < n"
      using next_cmd_shorter [of "relocsize s" bs c r] c(1) bs Suc.prems(4) by (simp add: next_cmd_def)
    ultimately obtain u where u: "link_text n m t = Inr u" "same_layout t u"
        "out_view u = fold (write_item t m) (text_items cs' (cursor t)) (out_view t)"
        "segpos u = pl_pos (fold after_cmd cs' (cursor t))"
      using Suc.IH [of t r cs'] c(2) eq rt cend(2) t(2) ct Suc.prems(7,8) Cons
        same_layout_simps(3) [OF ct(2)] rs
        symbols_ok_mods [of t s]
      by (auto simp: same_layout_def)
    then have "link_text (Suc n) m s = Inr u" using s1 t by simp
    then show ?thesis
      using u ct Cons eq rs same_layout_simps(2) [OF ct(2), of m] same_layout_trans [OF ct(2) u(2)] by simp
  qed
qed

text \<open>The place where a module's text starts.\<close>

definition module_place :: "modstruct \<Rightarrow> place" where
  "module_place md = \<lparr>pl_rs = 2, pl_seg = 0, pl_pos = segaddr md\<rparr>"

lemma linkmod_runs:
  fixes s :: "'a writer_scheme"
  assumes "drop (unat (textoffset (mods s ! m))) (files (filename (mods s ! m))) = txt @ tail"
    and "decode 2 txt = Some (cs @ [CEnd], rs)" and "CEnd \<notin> set cs"
    and "\<forall>x\<in>set (text_items cs (module_place (mods s ! m))). fits (prepare (mods s ! m) s) x"
    and "\<forall>c\<in>set cs. symbols_ok s m c"
  shows "\<exists>t. linkmod files m s = Inr t \<and>
    out_view t = fold (write_item (prepare (mods s ! m) s) m)
      (text_items cs (module_place (mods s ! m))) (out_view s) \<and>
    segpos t = pl_pos (fold after_cmd cs (module_place (mods s ! m)))"
proof -
  let ?md = "mods s ! m"
  let ?p = "prepare ?md s"
  let ?k = "seek_current ?p"
  let ?r = "?k\<lparr>relocsize := 2\<rparr>"
  let ?s = "seekin (unat (textoffset ?md)) (openin (files (filename ?md)) ?r)"
  have "same_but_output ?p ?k" by (simp add: seek_current_def same_but_output_refl same_out_put)
  note f = same_out_writer [OF this]
  have o: "out_view ?k = out_view s"
    by (simp add: seek_current_def outfile.seek_view) (simp add: out_view_def prepare_def)
  have p: "curseg ?p = 0" "segpos ?p = segaddr ?md" "spos ?p = segaddr ?md 0" "mods ?p = mods s" "symbols ?p = symbols s"
    by (simp_all add: prepare_def)
  have lay: "same_layout ?p ?s" using f by (simp add: same_layout_def seekin_def openin_def)
  have cur: "cursor ?s = module_place ?md"
    using f p by (simp add: cursor_def seekin_def openin_def module_place_def fun_eq_iff)
  have pos: "positioned ?s"
  proof -
    have "seg_file_pos ?s = seg_file_pos ?p" using same_layout_simps(4) [OF lay] .
    moreover have "out_at ?s = out_at ?k" by (simp add: out_at_def seekin_def openin_def)
    moreover have "curseg ?s = 0" "spos ?s = spos ?p" "segdiscard ?s = segdiscard ?p"
      using f p by (simp_all add: seekin_def openin_def)
    moreover have "\<not> segdiscard ?p 0 \<Longrightarrow> out_at ?k = unat (seg_file_pos ?p 0 (spos ?p))"
      by (simp add: seek_current_def p(1) outfile.seek_at)
    ultimately show ?thesis unfolding positioned_def by metis
  qed
  have v: "out_view ?s = out_view s" using o by (simp add: out_view_def seekin_def openin_def)
  have rest: "in_rest ?s = txt @ tail" using assms(1) by (simp add: openin_def)
  have fil: "in_file ?s = files (filename ?md)" by (simp add: openin_def)
  have "length (txt @ tail) \<le> length (files (filename ?md))"
    unfolding assms(1) [symmetric] by simp
  then have len: "length txt < length (in_file ?s) + 1" using fil by simp
  have fit: "\<forall>x\<in>set (text_items cs (cursor ?s)). fits ?s x"
    using assms(4) cur same_layout_simps(3) [OF lay] by simp
  have "mods ?s = mods s" using f p by (simp add: seekin_def openin_def)
  then have sym: "\<forall>c\<in>set cs. symbols_ok ?s m c" using assms(5) symbols_ok_mods [of ?s s] by simp
  have rs: "relocsize ?s = 2" by (simp add: seekin_def openin_def)
  obtain t where "link_text (length (in_file ?s) + 1) m ?s = Inr t"
      "out_view t = fold (write_item ?s m) (text_items cs (cursor ?s)) (out_view ?s)"
      "segpos t = pl_pos (fold after_cmd cs (cursor ?s))"
    using link_text_writes [OF _ assms(3) rest len pos _ fit sym] assms(2) rs by auto
  moreover have "linkmod files m s = link_text (length (in_file ?s) + 1) m ?s"
    by (simp only: linkmod_def Let_def)
  ultimately show ?thesis
    using cur v same_layout_simps(2) [OF lay, of m] by metis
qed

text \<open>
  C24: linking a module.  The text of the module, found at its offset in its
  file, is executed to its end: every byte and every relocated address it
  holds, and zeros for every gap, are written at the place that the layout
  assigns to its address, in order; nothing else is written; parts of
  segments that are not to be loaded are only counted; and the positions
  reached in all segments are left for the size check.
\<close>

theorem linkmod_writes:
  fixes s :: "'a writer_scheme"
  assumes "drop (unat (textoffset (mods s ! m))) (files (filename (mods s ! m))) = txt @ tail"
    and "decode 2 txt = Some (cs @ [CEnd], rs)" and "CEnd \<notin> set cs"
    and "\<forall>x\<in>set (text_items cs (module_place (mods s ! m))). fits (prepare (mods s ! m) s) x"
    and "\<forall>c\<in>set cs. symbols_ok s m c"
  shows "\<exists>t. linkmod files m s = Inr t \<and>
    out_view t = fold (write_item (prepare (mods s ! m) s) m)
      (text_items cs (module_place (mods s ! m))) (out_view s) \<and>
    segpos t = pl_pos (fold after_cmd cs (module_place (mods s ! m)))"
  using assms by (rule linkmod_runs)

text \<open>
  A text of every kind of command, linked with its first segment at
  \<open>0x100\<close>, the start of the file, and its second at \<open>0x800\<close>.
\<close>

definition sample_text :: "byte list" where
  "sample_text = [0x20, 0x42, 0x86, 0x2A, 0x81, 0, 5, 0xC0, 0, 0x11, 3, 0xE1, 0, 1, 0x01, 0x41, 0x39, 0x00]"

definition sample_cmds :: "cmd list" where
  "sample_cmds =
     [CSeg 0, CBytes [0x86, 0x2A], COff 1 5, CSym 0 0 0, CSkip 3, CSym 0x20 0 1, CSize 1, CBytes [0x39]]"

definition writer_start :: writer where
  "writer_start =
     \<lparr>in_file = [], in_fpos = 0, inbuf = [], inbufptr = 0,
      out_file = [], out_fpos = 0, outbuf = [],
      symbols = [\<lparr>modptr = Some 0, sm_value = 0x1234, sm_flags = 0x80, sm_name = []\<rparr>],
      hashtab = (\<lambda>_. []),
      mods = [(plain_module [0])\<lparr>segaddr := (\<lambda>g. if g = 0 then 0x100 else 0x800), segfadj := (\<lambda>_. - 0x100)\<rparr>],
      entrylist = [], redefs = [], errcount = 0, warncount = 0,
      curseg = 0, relocsize = 2, segadj = (\<lambda>_. 0), segdiscard = (\<lambda>_. False), segpos = (\<lambda>_. 0), spos = 0,
      headerless = True\<rparr>"

theorem linkmod_writes_witness:
  "\<exists>t. linkmod (\<lambda>_. sample_text) 0 writer_start = Inr t \<and>
     out_view t = [0x86, 0x2A, 0x08, 0x05, 0x12, 0x34, 0, 0, 0, 0x11, 0x2A, 0x39]"
proof -
  have "drop (unat (textoffset (mods writer_start ! 0))) sample_text = sample_text @ []" by code_simp
  moreover have "decode 2 sample_text = Some (sample_cmds @ [CEnd], 1)" by code_simp
  moreover have "CEnd \<notin> set sample_cmds" by (simp add: sample_cmds_def)
  moreover have "\<forall>x\<in>set (text_items sample_cmds (module_place (mods writer_start ! 0))).
      fits (prepare (mods writer_start ! 0) writer_start) x" by code_simp
  moreover have "\<forall>c\<in>set sample_cmds. symbols_ok writer_start 0 c" by code_simp
  moreover have "fold (write_item (prepare (mods writer_start ! 0) writer_start) 0)
      (text_items sample_cmds (module_place (mods writer_start ! 0))) (out_view writer_start) =
    [0x86, 0x2A, 0x08, 0x05, 0x12, 0x34, 0, 0, 0, 0x11, 0x2A, 0x39]" by code_simp
  ultimately show ?thesis
    using linkmod_writes [of writer_start 0 "\<lambda>_. sample_text" sample_text "[]" sample_cmds 1] by metis
qed

end
