(* ===== verification/Srec.thy ===== *)
theory Srec
  imports Prelude
begin

text \<open>
  Motorola S-records and Intel hex, \<^verbatim>\<open>ld/srec.c\<close>: the records that the linker
  and \<^verbatim>\<open>objcopy01\<close> write for an image.  The output of a routine is the text it
  prints; an image is the list of its bytes.  A loader for both formats, which
  checks the count and the checksum of every record, says what the text means,
  and loading what was written gives the image back.
\<close>

section \<open>Formatted output\<close>

text \<open>The conversion \<^verbatim>\<open>%0wX\<close>: at least \<open>w\<close> digits, more when the number needs them.\<close>

definition xdigit :: "nat \<Rightarrow> byte" where
  "xdigit n = bytes_of ''0123456789ABCDEF'' ! n"

fun xdigits :: "nat \<Rightarrow> byte list" where
  "xdigits n = (if n < 16 then [xdigit n] else xdigits (n div 16) @ [xdigit (n mod 16)])"

declare xdigits.simps [simp del]

definition fmt_X :: "nat \<Rightarrow> nat \<Rightarrow> byte list" where
  "fmt_X w n = (let ds = xdigits n in replicate (w - length ds) (of_char CHR ''0'') @ ds)"

section \<open>The writers\<close>

definition LINESIZE :: nat where "LINESIZE = 16"

definition srec_header :: "byte list \<Rightarrow> byte list" where
  "srec_header name =
     (let len = length name;
          csum = fold (\<lambda>b c. c + b) name (of_nat (len + 3))
      in bytes_of ''S0'' @ fmt_X 2 (len + 3) @ bytes_of ''0000'' @
         concat (map (\<lambda>b. fmt_X 2 (unat b)) name) @
         fmt_X 2 (unat (csum XOR 0xFF)) @ [10])"

definition srec_line :: "byte list \<Rightarrow> u32 \<Rightarrow> byte list" where
  "srec_line buf address =
     (let n = length buf;
          csum = fold (\<lambda>b c. c + b) buf
            (of_nat n + 3 + ucast (drop_bit 8 address AND 0xFF) + ucast (address AND 0xFF) :: byte)
      in bytes_of ''S1'' @ fmt_X 2 (n + 3) @ fmt_X 4 (unat (address AND 0xFFFF)) @
         concat (map (\<lambda>b. fmt_X 2 (unat b)) buf) @
         fmt_X 2 (unat (csum XOR 0xFF)) @ [10])"

function srec_data :: "byte list \<Rightarrow> u32 \<Rightarrow> byte list \<times> u32" where
  "srec_data buf address =
     (if buf = [] then ([], 0)
      else
        let n = min LINESIZE (length buf);
            (out, records) = srec_data (drop n buf) (address + of_nat n)
        in (srec_line (take n buf) address @ out, records + 1))"
  by pat_completeness auto
termination
  by (relation "measure (\<lambda>(buf, address). length buf)") (auto simp: LINESIZE_def)

declare srec_data.simps [simp del]

definition srec_end :: "u32 \<Rightarrow> u32 \<Rightarrow> byte list" where
  "srec_end records entry =
     (let csum = (\<lambda>v :: u32. 3 + ucast (drop_bit 8 v AND 0xFF) + ucast (v AND 0xFF) :: byte)
      in bytes_of ''S503'' @ fmt_X 4 (unat (records AND 0xFFFF)) @
         fmt_X 2 (unat (csum records XOR 0xFF)) @ [10] @
         bytes_of ''S903'' @ fmt_X 4 (unat (entry AND 0xFFFF)) @
         fmt_X 2 (unat (csum entry XOR 0xFF)) @ [10])"

definition ihex_line :: "byte list \<Rightarrow> u32 \<Rightarrow> byte list" where
  "ihex_line buf address =
     (let n = length buf;
          csum = fold (\<lambda>b c. c + b) buf
            (of_nat n + ucast (drop_bit 8 address AND 0xFF) + ucast (address AND 0xFF) :: byte)
      in bytes_of '':'' @ fmt_X 2 n @ fmt_X 4 (unat (address AND 0xFFFF)) @ bytes_of ''00'' @
         concat (map (\<lambda>b. fmt_X 2 (unat b)) buf) @
         fmt_X 2 (unat ((csum XOR 0xFF) + 1)) @ [13, 10])"

function ihex_data :: "byte list \<Rightarrow> u32 \<Rightarrow> byte list" where
  "ihex_data buf address =
     (if buf = [] then []
      else
        let n = min LINESIZE (length buf)
        in ihex_line (take n buf) address @ ihex_data (drop n buf) (address + of_nat n))"
  by pat_completeness auto
termination
  by (relation "measure (\<lambda>(buf, address). length buf)") (auto simp: LINESIZE_def)

declare ihex_data.simps [simp del]

definition ihex_end :: "u32 \<Rightarrow> byte list" where
  "ihex_end entry =
     (let csum = 1 + ucast (drop_bit 8 entry AND 0xFF) + ucast (entry AND 0xFF) :: byte
      in bytes_of '':00'' @ fmt_X 4 (unat (entry AND 0xFFFF)) @ bytes_of ''01'' @
         fmt_X 2 (unat ((csum XOR 0xFF) + 1)) @ [13, 10])"

section \<open>Reading records\<close>

definition xvalue :: "byte \<Rightarrow> nat option" where
  "xvalue c =
     (if 0x30 \<le> c \<and> c \<le> 0x39 then Some (unat c - 0x30)
      else if 0x41 \<le> c \<and> c \<le> 0x46 then Some (unat c - 0x37) else None)"

fun hex_bytes :: "byte list \<Rightarrow> byte list option" where
  "hex_bytes [] = Some []"
| "hex_bytes [c] = None"
| "hex_bytes (c # d # cs) =
     (case (xvalue c, xvalue d, hex_bytes cs) of
        (Some h, Some l, Some bs) \<Rightarrow> Some (of_nat (16 * h + l) # bs)
      | _ \<Rightarrow> None)"

text \<open>The lines of a text; what follows the last newline is not a line.\<close>

fun text_lines :: "byte list \<Rightarrow> byte list \<Rightarrow> byte list list" where
  "text_lines acc [] = []"
| "text_lines acc (c # cs) =
     (if c = 10 then acc # text_lines [] cs else text_lines (acc @ [c]) cs)"

text \<open>A record: its type, its address and its data.\<close>

type_synonym rec = "byte \<times> nat \<times> byte list"

definition srec_record :: "byte list \<Rightarrow> rec option" where
  "srec_record l =
     (case l of
        s # t # ds \<Rightarrow>
          (case hex_bytes ds of
             Some (count # hi # lo # body) \<Rightarrow>
               if s = of_char CHR ''S'' \<and> unat count = length body + 2 \<and> body \<noteq> [] \<and>
                  sum_list (count # hi # lo # body) = 0xFF
               then Some (t, 256 * unat hi + unat lo, butlast body) else None
           | _ \<Rightarrow> None)
      | _ \<Rightarrow> None)"

definition ihex_record :: "byte list \<Rightarrow> rec option" where
  "ihex_record l =
     (case l of
        s # ds \<Rightarrow>
          if s = of_char CHR '':'' \<and> ds \<noteq> [] \<and> last ds = 13 then
            (case hex_bytes (butlast ds) of
               Some (count # hi # lo # t # body) \<Rightarrow>
                 if Suc (unat count) = length body \<and> sum_list (count # hi # lo # t # body) = 0
                 then Some (t, 256 * unat hi + unat lo, butlast body) else None
             | _ \<Rightarrow> None)
          else None
      | _ \<Rightarrow> None)"

primrec read_records :: "(byte list \<Rightarrow> rec option) \<Rightarrow> byte list list \<Rightarrow> rec list option" where
  "read_records f [] = Some []"
| "read_records f (l # ls) =
     (case (f l, read_records f ls) of (Some r, Some rs) \<Rightarrow> Some (r # rs) | _ \<Rightarrow> None)"

definition store :: "nat \<Rightarrow> byte list \<Rightarrow> (nat \<rightharpoonup> byte) \<Rightarrow> nat \<rightharpoonup> byte" where
  "store a bs mem = (\<lambda>i. if a \<le> i \<and> i < a + length bs then Some (bs ! (i - a)) else mem i)"

text \<open>
  Loading a file: the name of the header, the memory the data records fill and
  the entry point.  The record that counts the data records must agree with them,
  and nothing may follow the record of the entry point.
\<close>

fun load_srec :: "nat \<Rightarrow> (nat \<rightharpoonup> byte) \<Rightarrow> rec list \<Rightarrow> ((nat \<rightharpoonup> byte) \<times> nat) option" where
  "load_srec n mem [] = None"
| "load_srec n mem ((t, a, bs) # rs) =
     (if t = 0x31 then load_srec (Suc n) (store a bs mem) rs
      else if t = 0x35 then if a = n mod 65536 then load_srec n mem rs else None
      else if t = 0x39 \<and> rs = [] then Some (mem, a) else None)"

definition read_srec :: "byte list \<Rightarrow> (byte list \<times> (nat \<rightharpoonup> byte) \<times> nat) option" where
  "read_srec text =
     (case read_records srec_record (text_lines [] text) of
        Some ((t, a, name) # rs) \<Rightarrow>
          if t = 0x30 then map_option (Pair name) (load_srec 0 Map.empty rs) else None
      | _ \<Rightarrow> None)"

fun load_ihex :: "(nat \<rightharpoonup> byte) \<Rightarrow> rec list \<Rightarrow> ((nat \<rightharpoonup> byte) \<times> nat) option" where
  "load_ihex mem [] = None"
| "load_ihex mem ((t, a, bs) # rs) =
     (if t = 0 then load_ihex (store a bs mem) rs
      else if t = 1 \<and> rs = [] then Some (mem, a) else None)"

definition read_ihex :: "byte list \<Rightarrow> ((nat \<rightharpoonup> byte) \<times> nat) option" where
  "read_ihex text =
     (case read_records ihex_record (text_lines [] text) of
        Some rs \<Rightarrow> load_ihex Map.empty rs | None \<Rightarrow> None)"

section \<open>Digits\<close>

lemma xdigit_value: "n < 16 \<Longrightarrow> xvalue (xdigit n) = Some n \<and> xdigit n \<noteq> 10 \<and> xdigit n \<noteq> 13"
proof -
  have "\<forall>n\<in>set [0..<16]. xvalue (xdigit n) = Some n \<and> xdigit n \<noteq> 10 \<and> xdigit n \<noteq> 13"
    by code_simp
  then show "n < 16 \<Longrightarrow> ?thesis" by simp
qed

lemma fmt_Suc: "0 < w \<Longrightarrow> fmt_X (Suc w) n = fmt_X w (n div 16) @ [xdigit (n mod 16)]"
proof (cases "n < 16")
  case True
  assume "0 < w"
  then obtain v where "w = Suc v" by (cases w) auto
  moreover have "xdigit 0 = of_char CHR ''0''" by (simp add: xdigit_def)
  ultimately show ?thesis
    using True by (simp add: fmt_X_def xdigits.simps [of n] xdigits.simps [of 0] replicate_append_same)
next
  case False
  then show ?thesis by (simp add: fmt_X_def xdigits.simps [of n] Let_def)
qed

lemma fmt_1: "n < 16 \<Longrightarrow> fmt_X (Suc 0) n = [xdigit n]"
  by (simp add: fmt_X_def xdigits.simps [of n])

lemma fmt_byte: "n < 256 \<Longrightarrow> fmt_X 2 n = [xdigit (n div 16), xdigit (n mod 16)]"
  using fmt_Suc [of 1 n] by (simp add: fmt_1 numeral_2_eq_2)

lemma fmt_word: "n < 65536 \<Longrightarrow> fmt_X 4 n = fmt_X 2 (n div 256) @ fmt_X 2 (n mod 256)"
proof -
  assume n: "n < 65536"
  have m: "n mod 256 mod 16 = n mod 16" by (simp add: mod_mod_cancel)
  have d: "n div 16 mod 16 = n mod 256 div 16"
    using mod_mult2_eq [of n 16 16] by simp
  have "fmt_X 4 n = fmt_X 3 (n div 16) @ [xdigit (n mod 16)]"
    using fmt_Suc [of 3 n] by simp
  also have "fmt_X 3 (n div 16) = fmt_X 2 (n div 256) @ [xdigit (n div 16 mod 16)]"
    using fmt_Suc [of 2 "n div 16"] by (simp add: div_mult2_eq [symmetric])
  finally show ?thesis by (simp add: fmt_byte m d)
qed

lemma hex_bytes_fmt: "hex_bytes (concat (map (\<lambda>b. fmt_X 2 (unat b)) bs)) = Some bs"
proof (induction bs)
  case (Cons b bs)
  have "unat b < 256" using unsigned_less [of b] by simp
  then have "fmt_X 2 (unat b) = [xdigit (unat b div 16), xdigit (unat b mod 16)]"
    "unat b div 16 < 16" "unat b mod 16 < 16"
    by (simp_all add: fmt_byte less_mult_imp_div_less)
  with Cons xdigit_value show ?case by simp
qed simp

lemma hex_no_newline: "10 \<notin> set (fmt_X 2 (unat (b :: byte))) \<and> 13 \<notin> set (fmt_X 2 (unat b))"
proof -
  have "unat b < 256" using unsigned_less [of b] by simp
  then show ?thesis
    using xdigit_value [of "unat b div 16"] xdigit_value [of "unat b mod 16"]
    by (auto simp: fmt_byte)
qed

text \<open>The line of a record, as the bytes it holds.\<close>

abbreviation hex_of :: "byte list \<Rightarrow> byte list"
  where "hex_of bs \<equiv> concat (map (\<lambda>b. fmt_X 2 (unat b)) bs)"

abbreviation high :: "u32 \<Rightarrow> byte" where "high v \<equiv> ucast (drop_bit 8 v)"

lemma unat_high: "unat (high a) = unat a div 256 mod 256"
proof -
  have "unat a < 2 ^ 32" using unsigned_less [of a, where ?'a = nat] by simp
  then have "take_bit 32 (unat a) = unat a" by (rule take_bit_nat_eq_self)
  then show ?thesis by (simp only: ucast_byte_eq_mod unsigned_drop_bit_eq) (simp add: drop_bit_eq_div)
qed

lemma fmt_address: "fmt_X 4 (unat (a AND 0xFFFF :: u32)) = hex_of [high a, ucast a]"
proof -
  have e: "a AND 0xFFFF = take_bit 16 a" by (simp add: take_bit_eq_mask mask_eq_exp_minus_1)
  have "unat (a AND 0xFFFF) = unat a mod 65536"
    by (simp add: e unsigned_take_bit_eq) (simp add: take_bit_eq_mod)
  moreover have "unat (high a) = unat a mod 65536 div 256"
    using mod_mult2_eq [of "unat a" 256 256]
    by (simp add: unat_high)
  moreover have "unat (ucast a :: byte) = unat a mod 65536 mod 256"
    by (simp add: ucast_byte_eq_mod mod_mod_cancel)
  ultimately show ?thesis by (simp add: fmt_word)
qed

lemma high_mask: "ucast (drop_bit 8 a AND 0xFF) = high a" "ucast (a AND 0xFF) = (ucast a :: byte)"
  for a :: u32
proof -
  have e: "v AND 0xFF = take_bit 8 v" for v :: u32
    by (simp add: take_bit_eq_mask mask_eq_exp_minus_1)
  show "ucast (drop_bit 8 a AND 0xFF) = high a" "ucast (a AND 0xFF) = (ucast a :: byte)"
    unfolding e by (auto intro!: bit_word_eqI simp: bit_simps)
qed

lemma fold_sum: "fold (\<lambda>b c. c + b) bs c = c + sum_list (bs :: byte list)"
  by (induction bs arbitrary: c) (simp_all add: add.assoc)

lemma complement_sum: "c + (c XOR 0xFF) = (0xFF :: byte)"
proof -
  have "c XOR (- 1) = NOT c" by (rule bit_word_eqI) (simp add: bit_simps)
  moreover have "(0xFF :: byte) = - 1" by simp
  ultimately show ?thesis by (simp only: not_eq_complement) simp
qed

section \<open>Records read back\<close>

lemma text_lines_line: "10 \<notin> set l \<Longrightarrow> text_lines acc (l @ 10 # rest) = (acc @ l) # text_lines [] rest"
  by (induction l arbitrary: acc) auto

lemma hex_of_plain: "10 \<notin> set (hex_of bs) \<and> 13 \<notin> set (hex_of bs)"
  using hex_no_newline by auto

lemma srec_record_hex:
  assumes "unat count = length body + 2" and "body \<noteq> []" and "sum_list (count # hi # lo # body) = 0xFF"
  shows "srec_record (of_char CHR ''S'' # t # hex_of (count # hi # lo # body)) =
    Some (t, 256 * unat hi + unat lo, butlast body)"
  using assms hex_bytes_fmt [of "count # hi # lo # body"] by (simp add: srec_record_def)

lemma ihex_record_hex:
  assumes "Suc (unat count) = length body" and "sum_list (count # hi # lo # t # body) = 0"
  shows "ihex_record (of_char CHR '':'' # hex_of (count # hi # lo # t # body) @ [13]) =
    Some (t, 256 * unat hi + unat lo, butlast body)"
proof -
  define ds where "ds = hex_of (count # hi # lo # t # body)"
  then have "hex_bytes ds = Some (count # hi # lo # t # body)" by (simp only: hex_bytes_fmt)
  with assms show ?thesis unfolding ds_def [symmetric] by (simp add: ihex_record_def)
qed

lemma address_bytes: "256 * unat (high a) + unat (ucast a :: byte) = unat a mod 65536"
  using mod_mult2_eq [of "unat a" 256 256] by (simp only: unat_high) (simp add: ucast_byte_eq_mod)

text \<open>What one line adds to the records of the text that follows it.\<close>

definition then_rec :: "rec \<Rightarrow> rec list option \<Rightarrow> rec list option" where
  "then_rec r = map_option (Cons r)"

lemma read_line:
  assumes "f l = Some r" and "10 \<notin> set l"
  shows "read_records f (text_lines [] (l @ 10 # rest)) = then_rec r (read_records f (text_lines [] rest))"
  using assms by (simp add: text_lines_line then_rec_def split: option.splits)

lemma unat_of_nat_byte: "n < 256 \<Longrightarrow> unat (of_nat n :: byte) = n"
  by (simp add: take_bit_nat_eq_self unsigned_of_nat)

lemma checksum_closes: "c + ((c XOR 0xFF) + 1) = (0 :: byte)"
  using complement_sum [of c] by (simp add: add.assoc [symmetric])

lemma read_srec_line:
  assumes "length buf + 3 < 256"
  shows "read_records srec_record (text_lines [] (srec_line buf a @ rest)) =
    then_rec (0x31, unat a mod 65536, buf) (read_records srec_record (text_lines [] rest))"
proof -
  define c :: byte where "c = of_nat (length buf) + 3 + high a + ucast a + sum_list buf"
  define bs where "bs = (of_nat (length buf + 3) :: byte) # high a # ucast a # buf @ [c XOR 0xFF]"
  have "sum_list bs = c + (c XOR 0xFF)" by (simp add: bs_def c_def algebra_simps)
  then have "srec_record (of_char CHR ''S'' # 0x31 # hex_of bs) = Some (0x31, unat a mod 65536, buf)"
    unfolding bs_def using assms complement_sum [of c]
    by (subst srec_record_hex) (simp_all add: unat_of_nat_byte address_bytes del: of_nat_add)
  moreover have "srec_line buf a @ rest = (of_char CHR ''S'' # 0x31 # hex_of bs) @ 10 # rest"
    using assms by (simp add: srec_line_def Let_def bs_def fmt_address high_mask fold_sum c_def unat_of_nat_byte
      del: of_nat_add)
  moreover have "10 \<notin> set (of_char CHR ''S'' # 0x31 # hex_of bs)"
    using hex_of_plain [of bs] by simp
  ultimately show ?thesis using read_line by metis
qed

lemma read_ihex_line:
  assumes "length buf < 256"
  shows "read_records ihex_record (text_lines [] (ihex_line buf a @ rest)) =
    then_rec (0, unat a mod 65536, buf) (read_records ihex_record (text_lines [] rest))"
proof -
  define c :: byte where "c = of_nat (length buf) + high a + ucast a + sum_list buf"
  define bs where "bs = (of_nat (length buf) :: byte) # high a # ucast a # 0 # buf @ [(c XOR 0xFF) + 1]"
  have "sum_list bs = c + ((c XOR 0xFF) + 1)" by (simp add: bs_def c_def algebra_simps)
  then have "ihex_record (of_char CHR '':'' # hex_of bs @ [13]) = Some (0, unat a mod 65536, buf)"
    unfolding bs_def using assms checksum_closes [of c]
    by (subst ihex_record_hex) (simp_all add: unat_of_nat_byte address_bytes)
  moreover have "fmt_X 2 0 = [0x30, 0x30]" by (simp add: fmt_byte xdigit_def)
  then have "ihex_line buf a @ rest = (of_char CHR '':'' # hex_of bs @ [13]) @ 10 # rest"
    using assms by (simp add: ihex_line_def Let_def bs_def fmt_address high_mask fold_sum c_def unat_of_nat_byte)
  moreover have "10 \<notin> set (of_char CHR '':'' # hex_of bs @ [13])"
    using hex_of_plain [of bs] by simp
  ultimately show ?thesis using read_line by metis
qed

lemma read_srec_header:
  assumes "length name + 3 < 256"
  shows "read_records srec_record (text_lines [] (srec_header name @ rest)) =
    then_rec (0x30, 0, name) (read_records srec_record (text_lines [] rest))"
proof -
  define c :: byte where "c = of_nat (length name + 3) + sum_list name"
  define bs where "bs = (of_nat (length name + 3) :: byte) # 0 # 0 # name @ [c XOR 0xFF]"
  have "sum_list bs = c + (c XOR 0xFF)" by (simp add: bs_def c_def algebra_simps)
  then have "srec_record (of_char CHR ''S'' # 0x30 # hex_of bs) = Some (0x30, 0, name)"
    unfolding bs_def using assms complement_sum [of c]
    by (subst srec_record_hex) (simp_all add: unat_of_nat_byte del: of_nat_add)
  moreover have "fmt_X 2 0 = [0x30, 0x30]" by (simp add: fmt_byte xdigit_def)
  then have "srec_header name @ rest = (of_char CHR ''S'' # 0x30 # hex_of bs) @ 10 # rest"
    using assms by (simp add: srec_header_def Let_def bs_def fold_sum c_def unat_of_nat_byte del: of_nat_add)
  moreover have "10 \<notin> set (of_char CHR ''S'' # 0x30 # hex_of bs)"
    using hex_of_plain [of bs] by simp
  ultimately show ?thesis using read_line by metis
qed

text \<open>The records \<^verbatim>\<open>S5\<close> and \<^verbatim>\<open>S9\<close> hold a number in place of an address.\<close>

lemma read_srec_number:
  fixes v :: u32 and t :: byte
  assumes "t \<noteq> 10"
  shows "read_records srec_record (text_lines [] ([of_char CHR ''S'', t, 0x30, 0x33] @ fmt_X 4 (unat (v AND 0xFFFF)) @
      fmt_X 2 (unat ((3 + high v + ucast v) XOR 0xFF :: byte)) @ 10 # rest)) =
    then_rec (t, unat v mod 65536, []) (read_records srec_record (text_lines [] rest))"
proof -
  define c :: byte where "c = 3 + high v + ucast v"
  define bs where "bs = (3 :: byte) # high v # ucast v # [c XOR 0xFF]"
  have "sum_list bs = c + (c XOR 0xFF)" by (simp add: bs_def c_def algebra_simps)
  then have "srec_record (of_char CHR ''S'' # t # hex_of bs) = Some (t, unat v mod 65536, [])"
    unfolding bs_def using complement_sum [of c]
    by (subst srec_record_hex) (simp_all add: address_bytes)
  moreover have "fmt_X 2 3 = [0x30, 0x33]" by (simp add: fmt_byte xdigit_def)
  moreover have "10 \<notin> set (of_char CHR ''S'' # t # hex_of bs)"
    using hex_of_plain [of bs] assms by simp
  ultimately show ?thesis
    using read_line [of srec_record "of_char CHR ''S'' # t # hex_of bs" "(t, unat v mod 65536, [])" rest]
    by (simp add: bs_def c_def fmt_address)
qed

section \<open>Images\<close>

text \<open>The data records of an image: at most 16 bytes each.\<close>

function chunks :: "byte \<Rightarrow> byte list \<Rightarrow> nat \<Rightarrow> rec list" where
  "chunks t buf a =
     (if buf = [] then [] else (t, a, take 16 buf) # chunks t (drop 16 buf) (a + 16))"
  by pat_completeness auto
termination
  by (relation "measure (\<lambda>(t, buf, a). length buf)") auto

declare chunks.simps [simp del]

lemma store_append: "store (a + length bs) cs (store a bs mem) = store a (bs @ cs) mem"
  by (auto simp: store_def nth_append fun_eq_iff)

lemma store_take_drop: "store (a + 16) (drop 16 bs) (store a (take 16 bs) mem) = store a bs mem"
proof (cases "16 \<le> length bs")
  case True
  then show ?thesis using store_append [of a "take 16 bs" "drop 16 bs" mem] by simp
next
  case False
  then show ?thesis by (auto simp: store_def fun_eq_iff)
qed

lemma store_Nil [simp]: "store a [] mem = mem"
  by (auto simp: store_def fun_eq_iff)

lemma load_chunks:
  "load_srec n mem (chunks 0x31 buf a @ rs) = load_srec (n + length (chunks 0x31 buf a)) (store a buf mem) rs"
  "load_ihex mem (chunks 0 buf a @ rs) = load_ihex (store a buf mem) rs"
proof (induction "length buf" arbitrary: buf a n mem rule: less_induct)
  case less
  { case 1 show ?case
    proof (cases "buf = []")
      case False
      then show ?thesis
        using less(1) [of "drop 16 buf" "Suc n" "store a (take 16 buf) mem" "a + 16"] less(2)
        by (subst (1 2) chunks.simps) (simp add: store_take_drop)
    qed (simp add: chunks.simps) }
  { case 2 show ?case
    proof (cases "buf = []")
      case False
      then show ?thesis
        using less(2) [of "drop 16 buf" "store a (take 16 buf) mem" "a + 16"]
        by (subst chunks.simps) (simp add: store_take_drop)
    qed (simp add: chunks.simps) }
qed

lemma address_small: "unat (a :: u32) + length buf \<le> 65536 \<Longrightarrow> buf \<noteq> [] \<Longrightarrow> unat a mod 65536 = unat a"
  by (cases buf) simp_all

lemma next_address:
  fixes a :: u32
  assumes "unat a + length buf \<le> 65536"
  shows "unat (a + of_nat (min LINESIZE (length buf))) = unat a + min 16 (length buf)"
    and "unat a + min 16 (length buf) + length (drop (min LINESIZE (length buf)) buf) \<le> 65536"
proof -
  have "unat (of_nat (min LINESIZE (length buf)) :: u32) = min 16 (length buf)"
    by (simp add: LINESIZE_def unsigned_of_nat take_bit_nat_eq_self)
  with assms show "unat (a + of_nat (min LINESIZE (length buf))) = unat a + min 16 (length buf)"
    by (subst unat_add_lem [THEN iffD1]) simp_all
  from assms show "unat a + min 16 (length buf) + length (drop (min LINESIZE (length buf)) buf) \<le> 65536"
    by (simp add: LINESIZE_def)
qed

lemma chunks_step:
  assumes "buf \<noteq> []"
  shows "chunks t buf a = (t, a, take (min LINESIZE (length buf)) buf) #
    chunks t (drop (min LINESIZE (length buf)) buf) (a + min 16 (length buf))"
  using assms by (subst chunks.simps) (auto simp: LINESIZE_def min_def chunks.simps [of t "[]"])

lemma read_srec_data:
  assumes "unat a + length buf \<le> 65536"
  shows "read_records srec_record (text_lines [] (fst (srec_data buf a) @ rest)) =
      map_option ((@) (chunks 0x31 buf (unat a))) (read_records srec_record (text_lines [] rest)) \<and>
    snd (srec_data buf a) = of_nat (length (chunks 0x31 buf (unat a)))"
  using assms
proof (induction buf a rule: srec_data.induct)
  case (1 buf a)
  show ?case
  proof (cases "buf = []")
    case True
    then show ?thesis
      by (simp add: srec_data.simps chunks.simps option.map_ident)
  next
    case False
    define n where "n = min LINESIZE (length buf)"
    have small: "length (take n buf) + 3 < 256" by (simp add: n_def LINESIZE_def)
    have a: "unat a mod 65536 = unat a" using 1(2) False by (rule address_small)
    have "srec_data buf a = (srec_line (take n buf) a @ fst (srec_data (drop n buf) (a + of_nat n)),
        snd (srec_data (drop n buf) (a + of_nat n)) + 1)"
      using False by (subst srec_data.simps) (simp add: n_def Let_def split_beta)
    moreover have "chunks 0x31 buf (unat a) =
        (0x31, unat a, take n buf) # chunks 0x31 (drop n buf) (unat (a + of_nat n))"
      using chunks_step [OF False] next_address(1) [OF 1(2)] by (simp add: n_def)
    ultimately show ?thesis
      using 1(1) [OF False n_def] next_address [OF 1(2)] read_srec_line [OF small] a
      by (simp add: n_def [symmetric] then_rec_def option.map_comp comp_def)
  qed
qed

lemma read_ihex_data:
  assumes "unat a + length buf \<le> 65536"
  shows "read_records ihex_record (text_lines [] (ihex_data buf a @ rest)) =
      map_option ((@) (chunks 0 buf (unat a))) (read_records ihex_record (text_lines [] rest))"
  using assms
proof (induction buf a rule: ihex_data.induct)
  case (1 buf a)
  show ?case
  proof (cases "buf = []")
    case True
    then show ?thesis by (simp add: ihex_data.simps chunks.simps option.map_ident)
  next
    case False
    define n where "n = min LINESIZE (length buf)"
    have small: "length (take n buf) < 256" by (simp add: n_def LINESIZE_def)
    have a: "unat a mod 65536 = unat a" using 1(2) False by (rule address_small)
    have "ihex_data buf a = ihex_line (take n buf) a @ ihex_data (drop n buf) (a + of_nat n)"
      using False by (subst ihex_data.simps) (simp add: n_def Let_def)
    moreover have "chunks 0 buf (unat a) =
        (0, unat a, take n buf) # chunks 0 (drop n buf) (unat (a + of_nat n))"
      using chunks_step [OF False] next_address(1) [OF 1(2)] by (simp add: n_def)
    ultimately show ?thesis
      using 1(1) [OF False n_def] next_address [OF 1(2)] read_ihex_line [OF small] a
      by (simp add: n_def [symmetric] then_rec_def option.map_comp comp_def)
  qed
qed

text \<open>
  A file of several runs of data, as \<^verbatim>\<open>script_convert\<close> and \<^verbatim>\<open>objcopy01\<close> write it:
  the header, the records of every run, their number and the entry point.
\<close>

definition srec_file :: "byte list \<Rightarrow> (u32 \<times> byte list) list \<Rightarrow> u32 \<Rightarrow> byte list" where
  "srec_file name runs entry =
     srec_header name @ concat (map (\<lambda>(a, buf). fst (srec_data buf a)) runs) @
     srec_end (sum_list (map (\<lambda>(a, buf). snd (srec_data buf a)) runs)) entry"

definition ihex_file :: "(u32 \<times> byte list) list \<Rightarrow> u32 \<Rightarrow> byte list" where
  "ihex_file runs entry = concat (map (\<lambda>(a, buf). ihex_data buf a) runs) @ ihex_end entry"

definition in_memory :: "u32 \<times> byte list \<Rightarrow> bool" where
  "in_memory = (\<lambda>(a, buf). unat a + length buf \<le> 65536)"

definition store_runs :: "(u32 \<times> byte list) list \<Rightarrow> (nat \<rightharpoonup> byte) \<Rightarrow> nat \<rightharpoonup> byte" where
  "store_runs runs = fold (\<lambda>(a, buf). store (unat a) buf) runs"

lemma map_option_append_Nil: "map_option ((@) []) x = x"
  by (cases x) simp_all

lemma read_srec_runs:
  "list_all in_memory runs \<Longrightarrow>
   read_records srec_record (text_lines [] (concat (map (\<lambda>(a, buf). fst (srec_data buf a)) runs) @ rest)) =
     map_option ((@) (concat (map (\<lambda>(a, buf). chunks 0x31 buf (unat a)) runs)))
       (read_records srec_record (text_lines [] rest)) \<and>
   sum_list (map (\<lambda>(a, buf). snd (srec_data buf a)) runs) =
     of_nat (length (concat (map (\<lambda>(a, buf). chunks 0x31 buf (unat a)) runs)))"
proof (induction runs)
  case (Cons r runs)
  obtain a buf where r: "r = (a, buf)" by (cases r)
  with Cons.prems have "unat a + length buf \<le> 65536" by (simp add: in_memory_def)
  from read_srec_data [OF this] Cons show ?case
    by (simp add: r option.map_comp comp_def)
qed (simp add: map_option_append_Nil)

lemma load_srec_runs:
  "load_srec n mem (concat (map (\<lambda>(a, buf). chunks 0x31 buf (unat a)) runs) @ rs) =
   load_srec (n + length (concat (map (\<lambda>(a :: u32, buf). chunks 0x31 buf (unat a)) runs))) (store_runs runs mem) rs"
proof (induction runs arbitrary: n mem)
  case (Cons r runs)
  then show ?case by (cases r) (simp add: load_chunks store_runs_def add.assoc)
qed (simp add: store_runs_def)

lemma read_ihex_runs:
  "list_all in_memory runs \<Longrightarrow>
   read_records ihex_record (text_lines [] (concat (map (\<lambda>(a, buf). ihex_data buf a) runs) @ rest)) =
     map_option ((@) (concat (map (\<lambda>(a, buf). chunks 0 buf (unat a)) runs)))
       (read_records ihex_record (text_lines [] rest))"
proof (induction runs)
  case (Cons r runs)
  obtain a buf where r: "r = (a, buf)" by (cases r)
  with Cons.prems have "unat a + length buf \<le> 65536" by (simp add: in_memory_def)
  from read_ihex_data [OF this] Cons show ?case
    by (simp add: r option.map_comp comp_def)
qed (simp add: map_option_append_Nil)

lemma load_ihex_runs:
  "load_ihex mem (concat (map (\<lambda>(a :: u32, buf). chunks 0 buf (unat a)) runs) @ rs) =
   load_ihex (store_runs runs mem) rs"
proof (induction runs arbitrary: mem)
  case (Cons r runs)
  then show ?case by (cases r) (simp add: load_chunks store_runs_def)
qed (simp add: store_runs_def)

lemma read_srec_end:
  "read_records srec_record (text_lines [] (srec_end n e)) =
     Some [(0x35, unat n mod 65536, []), (0x39, unat e mod 65536, [])]"
proof -
  define tail where "tail = bytes_of ''S903'' @ fmt_X 4 (unat (e AND 0xFFFF)) @
      fmt_X 2 (unat ((3 + high e + ucast e) XOR 0xFF :: byte)) @ [10]"
  have "srec_end n e = [of_char CHR ''S'', 0x35, 0x30, 0x33] @ fmt_X 4 (unat (n AND 0xFFFF)) @
      fmt_X 2 (unat ((3 + high n + ucast n) XOR 0xFF :: byte)) @ 10 # tail"
    by (simp add: srec_end_def Let_def high_mask tail_def)
  moreover have "read_records srec_record (text_lines [] tail) = Some [(0x39, unat e mod 65536, [])]"
    using read_srec_number [where t = "0x39" and v = e and rest = "[]"] by (simp add: tail_def then_rec_def)
  ultimately show ?thesis
    using read_srec_number [where t = "0x35" and v = n and rest = tail] by (simp add: then_rec_def)
qed

lemma read_ihex_end:
  "read_records ihex_record (text_lines [] (ihex_end e)) = Some [(1, unat e mod 65536, [])]"
proof -
  define c :: byte where "c = 1 + high e + ucast e"
  define bs where "bs = (0 :: byte) # high e # ucast e # 1 # [(c XOR 0xFF) + 1]"
  have "sum_list bs = c + ((c XOR 0xFF) + 1)" by (simp add: bs_def c_def algebra_simps)
  then have "ihex_record (of_char CHR '':'' # hex_of bs @ [13]) = Some (1, unat e mod 65536, [])"
    unfolding bs_def using checksum_closes [of c]
    by (subst ihex_record_hex) (simp_all add: address_bytes)
  moreover have "fmt_X 2 0 = [0x30, 0x30]" "fmt_X 2 (Suc 0) = [0x30, 0x31]" by (simp_all add: fmt_byte xdigit_def)
  then have "ihex_end e = (of_char CHR '':'' # hex_of bs @ [13]) @ 10 # []"
    by (simp add: ihex_end_def Let_def bs_def fmt_address high_mask c_def)
  moreover have "10 \<notin> set (of_char CHR '':'' # hex_of bs @ [13])"
    using hex_of_plain [of bs] by simp
  ultimately show ?thesis
    using read_line [of ihex_record "of_char CHR '':'' # hex_of bs @ [13]" "(1, unat e mod 65536, [])" "[]"]
    by (simp add: then_rec_def)
qed

lemma records_loaded:
  assumes "list_all in_memory runs" and "length name \<le> 252"
  shows "read_srec (srec_file name runs entry) = Some (name, store_runs runs Map.empty, unat entry mod 65536) \<and>
    read_ihex (ihex_file runs entry) = Some (store_runs runs Map.empty, unat entry mod 65536)"
proof
  define cs where "cs = concat (map (\<lambda>(a :: u32, buf). chunks 0x31 buf (unat a)) runs)"
  have n: "unat (of_nat k :: u32) mod 65536 = k mod 65536" for k
    by (simp add: unsigned_of_nat take_bit_eq_mod mod_mod_cancel)
  have "length name + 3 < 256" using assms(2) by simp
  from read_srec_header [OF this] read_srec_runs [OF assms(1)] read_srec_end
  have "read_records srec_record (text_lines [] (srec_file name runs entry)) =
      Some ((0x30, 0, name) # cs @ [(0x35, length cs mod 65536, []), (0x39, unat entry mod 65536, [])])"
    by (simp add: srec_file_def then_rec_def cs_def [symmetric] n)
  then show "read_srec (srec_file name runs entry) = Some (name, store_runs runs Map.empty, unat entry mod 65536)"
    by (simp add: read_srec_def cs_def load_srec_runs)
  from read_ihex_runs [OF assms(1)] read_ihex_end
  show "read_ihex (ihex_file runs entry) = Some (store_runs runs Map.empty, unat entry mod 65536)"
    by (simp add: read_ihex_def ihex_file_def load_ihex_runs)
qed

text \<open>
  C26: an S-record file and an Intel hex file written for runs of data within the
  64 KB of the address space are loaded without an error: every checksum and the
  count of the records are right, the memory holds exactly the runs (a later one
  over an earlier one), and the entry point is the one given modulo 65536.  The
  header gives the name back when its length fits the count byte of the record.
\<close>

theorem records_load:
  assumes "list_all in_memory runs" and "length name \<le> 252"
  shows "read_srec (srec_file name runs entry) = Some (name, store_runs runs Map.empty, unat entry mod 65536) \<and>
    read_ihex (ihex_file runs entry) = Some (store_runs runs Map.empty, unat entry mod 65536)"
  using assms by (rule records_loaded)

theorem records_load_witness:
  "read_srec (srec_file [0x61] [(0xFFF8, [1, 2, 3, 4, 5, 6, 7, 8])] 0xC000) =
     Some ([0x61], store_runs [(0xFFF8, [1, 2, 3, 4, 5, 6, 7, 8])] Map.empty, 0xC000) \<and>
   srec_file [0x61] [(0xFFF8, [1, 2, 3, 4, 5, 6, 7, 8])] 0xC000 =
     bytes_of ''S0040000619A'' @ [10] @ bytes_of ''S10BFFF80102030405060708D9'' @ [10] @
     bytes_of ''S5030001FB'' @ [10] @ bytes_of ''S903C0003C'' @ [10]"
proof
  show "read_srec (srec_file [0x61] [(0xFFF8, [1, 2, 3, 4, 5, 6, 7, 8])] 0xC000) =
     Some ([0x61], store_runs [(0xFFF8, [1, 2, 3, 4, 5, 6, 7, 8])] Map.empty, 0xC000)"
    using records_load [of "[(0xFFF8, [1, 2, 3, 4, 5, 6, 7, 8])]" "[0x61]" "0xC000"]
    by (simp add: in_memory_def)
  show "srec_file [0x61] [(0xFFF8, [1, 2, 3, 4, 5, 6, 7, 8])] 0xC000 =
     bytes_of ''S0040000619A'' @ [10] @ bytes_of ''S10BFFF80102030405060708D9'' @ [10] @
     bytes_of ''S5030001FB'' @ [10] @ bytes_of ''S903C0003C'' @ [10]"
    by (simp add: srec_file_def srec_header_def srec_data.simps LINESIZE_def srec_line_def srec_end_def
      fmt_byte fmt_word xdigit_def)
qed

end
