(* ===== verification/Script.thy ===== *)
theory Script
  imports Linkmod Srec "HOL-Library.Signed_Division"
begin

text \<open>
  Linker scripts, \<^verbatim>\<open>ld/script.c\<close>: the script as the parser builds it, the
  values of expressions, and the patterns that choose input sections.  A pointer
  to a section, a symbol, a region or a piece is an index into the list of them;
  the order of a script symbol is its index.  \<^verbatim>\<open>long\<close> is an integer of 64 bits
  whose overflow stops the model (it is undefined in C).  Of a diagnostic only the
  fixed part of its text is kept.
\<close>

section \<open>Scripts\<close>

datatype unop = X_NEG | X_COMPL | X_NOT

datatype binop =
    X_MUL | X_DIV | X_MOD | X_ADD | X_SUB | X_SHL | X_SHR
  | X_LT | X_LE | X_GT | X_GE | X_EQ | X_NE
  | X_AND | X_XOR | X_OR | X_LAND | X_LOR

text \<open>Every node carries its line; the second argument of a function may be missing.\<close>

datatype sexpr =
    X_NUM nat int
  | X_DOT nat
  | X_SYM nat "byte list"
  | X_FUNC nat "byte list" sexpr "sexpr option"
  | X_COND nat sexpr sexpr sexpr
  | X_UN nat unop sexpr
  | X_BIN nat binop sexpr sexpr

datatype akind = A_PLAIN | A_PROVIDE | A_HIDDEN

datatype sclass = C_TEXT | C_DATA | C_ABS

text \<open>
  The fields a kind of statement uses: an assignment to \<^verbatim>\<open>.\<close> has no symbol, the
  input statement for orphans no file pattern.
\<close>

datatype stmt =
    S_ASSIGN nat akind "nat option" sexpr
  | S_INPUT nat bool "byte list option" "byte list list" "nat list"
  | S_ONEPAGE nat "stmt list"
  | S_SECTION nat nat
  | S_DATA nat nat sexpr
  | S_FILL nat sexpr
  | S_ASSERT nat sexpr "byte list"

record region =
  rg_name :: "byte list"
  rg_attr :: "byte list option"
  rg_line :: nat
  rg_origin :: sexpr
  rg_length :: sexpr
  rg_org :: int
  rg_len :: int
  rg_cursor :: int

record extra =
  ex_sect :: "nat option"
  ex_vma :: int
  ex_len :: int
  ex_value :: int
  ex_data :: bool

record osect =
  os_name :: "byte list"
  os_line :: nat
  os_addr :: "sexpr option"
  os_at :: "sexpr option"
  os_align :: "sexpr option"
  os_subalign :: "sexpr option"
  os_body :: "stmt list"
  datapart :: bool
  noload :: bool
  os_region :: "nat option"
  lmaregion :: "nat option"
  fillexpr :: "sexpr option"
  os_sub :: int
  vma :: int
  lma :: int
  os_size :: int
  pvma :: int
  plma :: int
  psize :: int

record piece =
  pc_mod :: nat
  pc_seg :: nat
  pc_common :: bool
  pc_size :: int
  pc_vma :: int
  pc_pvma :: int
  pc_sect :: "nat option"

record ssym =
  ss_name :: "byte list"
  plain :: bool
  provide :: bool
  hidden :: bool
  ss_class :: sclass
  moddef :: bool
  referenced :: bool
  ss_defined :: bool
  assigned :: bool
  ss_value :: int
  ss_pvalue :: int
  ss_symptr :: "nat option"

record script = writer +
  top_stmts :: "stmt list"
  sects :: "osect list"
  ssyms :: "ssym list"
  entryname :: "byte list option"
  script_defines :: "stmt list"
  regions :: "region list"
  globalfill :: "sexpr option"
  script_binary :: bool
  script_records :: nat
  script_orphan_error :: bool
  text_base_given :: bool
  text_base_value :: u32
  data_base_value :: u32
  heap_top_value :: u32
  sc_line :: nat
  pieces :: "piece list"
  dot :: int
  cursect :: "nat option"
  sepid_option :: bool
  binary_output :: bool
  curfill :: int
  extras :: "extra list"
  failed_assert :: "stmt option"
  filelow :: int
  lay_text_start :: int
  lay_text_end :: int
  lay_data_start :: int
  lay_data_end :: int
  lay_bss_end :: int
  lay_sepid :: bool

text \<open>The variables before anything is read: empty lists and zeros.\<close>

definition script_start :: script where
  "script_start =
     \<lparr>in_file = [], in_fpos = 0, inbuf = [], inbufptr = 0, out_file = [], out_fpos = 0, outbuf = [],
      symbols = [], hashtab = (\<lambda>_. []), mods = [], entrylist = [], redefs = [], errcount = 0, warncount = 0,
      curseg = 0, relocsize = 0, segadj = (\<lambda>_. 0), segdiscard = (\<lambda>_. False), segpos = (\<lambda>_. 0), spos = 0,
      headerless = False,
      top_stmts = [], sects = [], ssyms = [], entryname = None, script_defines = [], regions = [],
      globalfill = None, script_binary = False, script_records = 0, script_orphan_error = False,
      text_base_given = False, text_base_value = 0, data_base_value = 0, heap_top_value = 0, sc_line = 0,
      pieces = [], dot = 0, cursect = None, sepid_option = False, binary_output = False, curfill = 0,
      extras = [], failed_assert = None, filelow = 0, lay_text_start = 0, lay_text_end = 0,
      lay_data_start = 0, lay_data_end = 0, lay_bss_end = 0, lay_sepid = False\<rparr>"

definition upd_sect :: "nat \<Rightarrow> (osect \<Rightarrow> osect) \<Rightarrow> 'a script_scheme \<Rightarrow> 'a script_scheme" where
  "upd_sect k f s = s\<lparr>sects := (sects s)[k := f (sects s ! k)]\<rparr>"

definition upd_ssym :: "nat \<Rightarrow> (ssym \<Rightarrow> ssym) \<Rightarrow> 'a script_scheme \<Rightarrow> 'a script_scheme" where
  "upd_ssym k f s = s\<lparr>ssyms := (ssyms s)[k := f (ssyms s ! k)]\<rparr>"

definition upd_piece :: "nat \<Rightarrow> (piece \<Rightarrow> piece) \<Rightarrow> 'a script_scheme \<Rightarrow> 'a script_scheme" where
  "upd_piece i f s = s\<lparr>pieces := (pieces s)[i := f (pieces s ! i)]\<rparr>"

definition upd_region :: "nat \<Rightarrow> (region \<Rightarrow> region) \<Rightarrow> 'a script_scheme \<Rightarrow> 'a script_scheme" where
  "upd_region r f s = s\<lparr>regions := (regions s)[r := f (regions s ! r)]\<rparr>"

text \<open>The first element with a property, as the searches along the chains find it.\<close>

definition find_index :: "('a \<Rightarrow> bool) \<Rightarrow> 'a list \<Rightarrow> nat option" where
  "find_index P xs = List.find (\<lambda>i. P (xs ! i)) [0..<length xs]"

definition findssym :: "byte list \<Rightarrow> 'a script_scheme \<Rightarrow> nat option" where
  "findssym n s = find_index (\<lambda>ss. ss_name ss = n) (ssyms s)"

definition new_ssym :: "byte list \<Rightarrow> ssym" where
  "new_ssym n =
     \<lparr>ss_name = n, plain = False, provide = False, hidden = False, ss_class = C_TEXT, moddef = False,
      referenced = False, ss_defined = False, assigned = False, ss_value = 0, ss_pvalue = 0,
      ss_symptr = None\<rparr>"

definition ssym :: "byte list \<Rightarrow> 'a script_scheme \<Rightarrow> nat \<times> 'a script_scheme" where
  "ssym n s =
     (case findssym n s of
        Some k \<Rightarrow> (k, s)
      | None \<Rightarrow> (length (ssyms s), s\<lparr>ssyms := ssyms s @ [new_ssym n]\<rparr>))"

definition findsect :: "byte list \<Rightarrow> 'a script_scheme \<Rightarrow> nat option" where
  "findsect n s = find_index (\<lambda>sect. os_name sect = n) (sects s)"

definition findregion :: "byte list \<Rightarrow> 'a script_scheme \<Rightarrow> stop + nat" where
  "findregion n s =
     (case find_index (\<lambda>r. rg_name r = n) (regions s) of
        Some r \<Rightarrow> Inr r
      | None \<Rightarrow> Inl (Fatal ''there's no memory region''))"

section \<open>Expressions\<close>

definition long :: "int \<Rightarrow> stop + int" where
  "long i = (if - (2 ^ 63) \<le> i \<and> i < 2 ^ 63 then Inr i else Inl Overflow)"

definition modvalue :: "symstruct \<Rightarrow> 'a script_scheme \<Rightarrow> int" where
  "modvalue y s =
     (let seg = unat (sm_flags y AND SEGM_MASK); md = mods s ! the (modptr y) in
      if has (sm_flags y) A_MASK then sint (sm_value y)
      else if has (sm_flags y) (C_MASK OR SA_MASK) then sint (comaddr md seg + sm_value y)
      else sint (segaddr md seg + sm_value y))"

definition moddefined :: "nat option \<Rightarrow> 'a script_scheme \<Rightarrow> bool" where
  "moddefined symptr s =
     (case symptr of
        None \<Rightarrow> False
      | Some r \<Rightarrow>
          let y = symbols s ! r in
          (case modptr y of
             None \<Rightarrow> False
           | Some m \<Rightarrow>
               loadflag (mods s ! m) \<and>
               (\<not> has (sm_flags y) I_MASK \<or> has (sm_flags y) (C_MASK OR SA_MASK) \<or> sm_value y \<noteq> 0)))"

definition symvalue :: "byte list \<Rightarrow> 'a script_scheme \<Rightarrow> stop + int" where
  "symvalue n s =
     (let ss = map_option (\<lambda>k. ssyms s ! k) (findssym n s); symptr = findsym n s in
      if (case ss of None \<Rightarrow> False | Some y \<Rightarrow> plain y \<or> hidden y \<or> provide y \<and> \<not> moddef y) then
        Inr (if assigned (the ss) then ss_value (the ss) else ss_pvalue (the ss))
      else if moddefined symptr s \<and> \<not> (case ss of None \<Rightarrow> False | Some y \<Rightarrow> ss_symptr y = symptr) then
        Inr (modvalue (symbols s ! the symptr) s)
      else Inl (Fatal ''symbol isn't defined''))"

text \<open>The name an argument of \<^verbatim>\<open>ADDR\<close> and the like is; any other expression has none.\<close>

definition arg_name :: "sexpr \<Rightarrow> stop + byte list" where
  "arg_name a = (case a of X_SYM l n \<Rightarrow> Inr n | X_FUNC l n b c \<Rightarrow> Inr n | _ \<Rightarrow> Inl NullPointer)"

definition sectarg :: "sexpr \<Rightarrow> 'a script_scheme \<Rightarrow> stop + nat" where
  "sectarg a s =
     bindE (arg_name a) (\<lambda>n.
       case findsect n s of Some k \<Rightarrow> Inr k | None \<Rightarrow> Inl (Fatal ''there's no section''))"

definition align_to :: "int \<Rightarrow> int \<Rightarrow> stop + int" where
  "align_to v n =
     (if n \<le> 0 \<or> n AND (n - 1) \<noteq> 0 then Inl (Fatal ''alignment isn't a power of 2'')
      else bindE (long (v + n)) (\<lambda>w. bindE (long (w - 1)) (\<lambda>w. Inr (w AND NOT (n - 1)))))"

definition unary_value :: "unop \<Rightarrow> int \<Rightarrow> stop + int" where
  "unary_value uop a =
     (case uop of X_NEG \<Rightarrow> long (- a) | X_COMPL \<Rightarrow> Inr (NOT a AND 0xFFFF) | X_NOT \<Rightarrow> Inr (of_bool (a = 0)))"

text \<open>
  Division truncates; the shifts of GCC: to the left modulo the width, to the
  right with the sign, and undefined unless the count is less than the width.
\<close>

definition binary_value :: "binop \<Rightarrow> int \<Rightarrow> int \<Rightarrow> stop + int" where
  "binary_value bop a b =
     (case bop of
        X_MUL \<Rightarrow> long (a * b)
      | X_DIV \<Rightarrow> if b = 0 then Inl (Fatal ''division by zero'') else long (a sdiv b)
      | X_MOD \<Rightarrow> if b = 0 then Inl (Fatal ''division by zero'') else bindE (long (a sdiv b)) (\<lambda>_. Inr (a smod b))
      | X_ADD \<Rightarrow> long (a + b)
      | X_SUB \<Rightarrow> long (a - b)
      | X_SHL \<Rightarrow> if b < 0 \<or> 64 \<le> b then Inl ShiftTooFar else Inr (sint (push_bit (nat b) (of_int a :: u64)))
      | X_SHR \<Rightarrow> if b < 0 \<or> 64 \<le> b then Inl ShiftTooFar else Inr (drop_bit (nat b) a)
      | X_LT \<Rightarrow> Inr (of_bool (a < b))
      | X_LE \<Rightarrow> Inr (of_bool (a \<le> b))
      | X_GT \<Rightarrow> Inr (of_bool (b < a))
      | X_GE \<Rightarrow> Inr (of_bool (b \<le> a))
      | X_EQ \<Rightarrow> Inr (of_bool (a = b))
      | X_NE \<Rightarrow> Inr (of_bool (a \<noteq> b))
      | X_AND \<Rightarrow> Inr (a AND b)
      | X_XOR \<Rightarrow> Inr (a XOR b)
      | X_OR \<Rightarrow> Inr (a OR b)
      | X_LAND \<Rightarrow> Inr (of_bool (a \<noteq> 0 \<and> b \<noteq> 0))
      | X_LOR \<Rightarrow> Inr (of_bool (a \<noteq> 0 \<or> b \<noteq> 0)))"

text \<open>The functions whose argument is a name.\<close>

definition name_func :: "byte list \<Rightarrow> sexpr \<Rightarrow> 'a script_scheme \<Rightarrow> (stop + int) option" where
  "name_func n a s =
     (if n = bytes_of ''ADDR'' then Some (bindE (sectarg a s) (\<lambda>k. Inr (vma (sects s ! k))))
      else if n = bytes_of ''LOADADDR'' then Some (bindE (sectarg a s) (\<lambda>k. Inr (lma (sects s ! k))))
      else if n = bytes_of ''SIZEOF'' then
        Some (bindE (sectarg a s) (\<lambda>k.
          if cursect s = Some k then long (dot s - vma (sects s ! k)) else Inr (os_size (sects s ! k))))
      else if n = bytes_of ''DEFINED'' then
        Some (bindE (arg_name a) (\<lambda>n.
          Inr (of_bool ((case findssym n s of None \<Rightarrow> False | Some k \<Rightarrow> assigned (ssyms s ! k)) \<or>
                        moddefined (findsym n s) s))))
      else if n = bytes_of ''ORIGIN'' then
        Some (bindE (arg_name a) (\<lambda>n. bindE (findregion n s) (\<lambda>r. Inr (rg_org (regions s ! r)))))
      else if n = bytes_of ''LENGTH'' then
        Some (bindE (arg_name a) (\<lambda>n. bindE (findregion n s) (\<lambda>r. Inr (rg_len (regions s ! r)))))
      else None)"

fun eval :: "'a script_scheme \<Rightarrow> sexpr \<Rightarrow> stop + int" where
  "eval s (X_NUM l n) = Inr n"
| "eval s (X_DOT l) = Inr (dot s)"
| "eval s (X_SYM l n) = symvalue n s"
| "eval s (X_FUNC l n a None) =
     (case name_func n a s of
        Some r \<Rightarrow> r
      | None \<Rightarrow>
          if n = bytes_of ''ALIGN'' then bindE (eval s a) (align_to (dot s))
          else bindE (eval s a) (\<lambda>_. Inl NullPointer))"
| "eval s (X_FUNC l n a (Some b)) =
     (case name_func n a s of
        Some r \<Rightarrow> r
      | None \<Rightarrow>
          bindE (eval s a) (\<lambda>v. bindE (eval s b) (\<lambda>w.
            if n = bytes_of ''ALIGN'' then align_to v w
            else if n = bytes_of ''MAX'' then Inr (max v w) else Inr (min v w))))"
| "eval s (X_COND l a b c) = bindE (eval s a) (\<lambda>v. if v \<noteq> 0 then eval s b else eval s c)"
| "eval s (X_UN l uop a) = bindE (eval s a) (unary_value uop)"
| "eval s (X_BIN l bop a b) =
     bindE (eval s a) (\<lambda>v.
       if bop = X_LAND \<and> v = 0 then Inr 0
       else if bop = X_LOR \<and> v \<noteq> 0 then Inr 1
       else bindE (eval s b) (binary_value bop v))"

text \<open>Does an expression depend on addresses or symbols?\<close>

fun relative :: "sexpr \<Rightarrow> bool" where
  "relative (X_NUM l n) = False"
| "relative (X_DOT l) = True"
| "relative (X_SYM l n) = True"
| "relative (X_FUNC l n a None) = (n \<noteq> bytes_of ''MAX'' \<and> n \<noteq> bytes_of ''MIN'' \<or> relative a)"
| "relative (X_FUNC l n a (Some b)) = (n \<noteq> bytes_of ''MAX'' \<and> n \<noteq> bytes_of ''MIN'' \<or> relative a \<or> relative b)"
| "relative (X_COND l a b c) = (relative a \<or> relative b \<or> relative c)"
| "relative (X_UN l uop a) = relative a"
| "relative (X_BIN l bop a b) = (relative a \<or> relative b)"

section \<open>Patterns\<close>

text \<open>The star tries every tail of the string in turn.\<close>

fun glob :: "byte list \<Rightarrow> byte list \<Rightarrow> bool" where
  "glob [] t = (t = [])"
| "glob (c # pat) t =
     (if c = of_char CHR ''*'' then
        glob pat t \<or> (case t of [] \<Rightarrow> False | d # t' \<Rightarrow> glob (c # pat) t')
      else
        (case t of [] \<Rightarrow> False | d # t' \<Rightarrow> (c = of_char CHR ''?'' \<or> c = d) \<and> glob pat t'))"

definition basename :: "byte list \<Rightarrow> byte list" where
  "basename t = rev (takeWhile (\<lambda>c. c \<noteq> of_char CHR ''/'') (rev t))"

text \<open>The names are built in an array of 512 characters.\<close>

definition filematch :: "byte list \<Rightarrow> modstruct \<Rightarrow> bool" where
  "filematch pat md =
     (case archentry md of
        None \<Rightarrow> glob pat (filename md) \<or> glob pat (basename (filename md))
      | Some entry \<Rightarrow>
          glob pat (take 511 (filename md @ bytes_of '':'' @ entry)) \<or>
          glob pat (take 511 (basename (filename md) @ bytes_of '':'' @ entry)))"

fun decimal :: "nat \<Rightarrow> byte list" where
  "decimal n = (if n < 10 then [of_nat (48 + n)] else decimal (n div 10) @ [of_nat (48 + n mod 10)])"

declare decimal.simps [simp del]

definition secmatch :: "byte list \<Rightarrow> nat \<Rightarrow> bool \<Rightarrow> bool" where
  "secmatch pat seg common =
     (if common then pat = bytes_of ''COMMON'' \<or> glob pat (bytes_of ''COMMON'' @ decimal seg)
      else
        pat = bytes_of ''.text'' \<and> seg = 0 \<or> pat = bytes_of ''.data'' \<and> seg = 3 \<or>
        glob pat (bytes_of ''LOC'' @ decimal seg))"

fun takesdata :: "stmt list \<Rightarrow> bool" where
  "takesdata [] = False"
| "takesdata (S_ONEPAGE l body # sts) = (takesdata body \<or> takesdata sts)"
| "takesdata (S_INPUT l keep fp secpats ps # sts) =
     ((\<exists>pat\<in>set secpats. \<exists>seg\<in>set [2..<NSEG]. secmatch pat seg False \<or> secmatch pat seg True) \<or>
      takesdata sts)"
| "takesdata (st # sts) = takesdata sts"

fun allfiles :: "stmt list \<Rightarrow> bool" where
  "allfiles [] = False"
| "allfiles (S_ONEPAGE l body # sts) = (allfiles body \<or> allfiles sts)"
| "allfiles (S_INPUT l keep fp secpats ps # sts) = (fp = Some (bytes_of ''*'') \<or> allfiles sts)"
| "allfiles (st # sts) = allfiles sts"

end
