(* ===== verification/Script_Layout.thy ===== *)
theory Script_Layout
  imports Script
begin

text \<open>
  Placing the input sections, \<^verbatim>\<open>ld/script.c\<close>: which statement takes each piece of
  each loaded module, the passes over the script that give addresses to sections,
  symbols and pieces until nothing changes, the checks of the result, and the
  file offsets of the pieces.
\<close>

section \<open>Statements take input sections\<close>

text \<open>The pieces a statement takes: those not taken yet that its patterns match.\<close>

definition takes :: "modstruct list \<Rightarrow> byte list option \<Rightarrow> byte list list \<Rightarrow> piece \<Rightarrow> bool" where
  "takes ms filepat secpats pc \<longleftrightarrow>
     pc_sect pc = None \<and>
     (case filepat of None \<Rightarrow> False | Some pat \<Rightarrow> filematch pat (ms ! pc_mod pc)) \<and>
     (\<exists>pat\<in>set secpats. secmatch pat (pc_seg pc) (pc_common pc))"

definition give :: "nat \<Rightarrow> nat list \<Rightarrow> piece list \<Rightarrow> piece list" where
  "give sect is ps = fold (\<lambda>i ps. ps[i := (ps ! i)\<lparr>pc_sect := Some sect\<rparr>]) is ps"

fun assign_stmts ::
    "modstruct list \<Rightarrow> nat \<Rightarrow> stmt list \<Rightarrow> piece list \<Rightarrow> stmt list \<times> piece list" where
  "assign_stmts ms sect [] ps = ([], ps)"
| "assign_stmts ms sect (S_ONEPAGE l body # sts) ps =
     (case assign_stmts ms sect body ps of (body', ps1) \<Rightarrow>
      case assign_stmts ms sect sts ps1 of (sts', ps2) \<Rightarrow> (S_ONEPAGE l body' # sts', ps2))"
| "assign_stmts ms sect (S_INPUT l keep filepat secpats old # sts) ps =
     (let new = filter (\<lambda>i. takes ms filepat secpats (ps ! i)) [0..<length ps] in
      case assign_stmts ms sect sts (give sect new ps) of (sts', ps2) \<Rightarrow>
        (S_INPUT l keep filepat secpats (old @ new) # sts', ps2))"
| "assign_stmts ms sect (st # sts) ps =
     (case assign_stmts ms sect sts ps of (sts', ps1) \<Rightarrow> (st # sts', ps1))"

definition assign_section :: "nat \<Rightarrow> 'a script_scheme \<Rightarrow> 'a script_scheme" where
  "assign_section k s =
     (case assign_stmts (mods s) k (os_body (sects s ! k)) (pieces s) of (body, ps) \<Rightarrow>
        (upd_sect k (\<lambda>sect. sect\<lparr>os_body := body\<rparr>) s)\<lparr>pieces := ps\<rparr>)"

text \<open>The sections in the order of their statements.\<close>

definition section_stmts :: "stmt list \<Rightarrow> nat list" where
  "section_stmts sts = concat (map (\<lambda>st. case st of S_SECTION l k \<Rightarrow> [k] | _ \<Rightarrow> []) sts)"

section \<open>Orphans\<close>

definition last_index :: "('a \<Rightarrow> bool) \<Rightarrow> 'a list \<Rightarrow> nat option" where
  "last_index P xs = List.find (\<lambda>i. P (xs ! i)) (rev [0..<length xs])"

definition or_else :: "'a option \<Rightarrow> 'a option \<Rightarrow> 'a option" where
  "or_else x y = (case x of None \<Rightarrow> y | Some _ \<Rightarrow> x)"

text \<open>
  The section for orphans of a part: the last loaded one that takes all files, or
  else the first loaded one, or else the first; without one, that of the other part.
\<close>

definition part_section :: "bool \<Rightarrow> osect list \<Rightarrow> nat option" where
  "part_section part secs =
     or_else (last_index (\<lambda>sect. datapart sect = part \<and> \<not> noload sect \<and> allfiles (os_body sect)) secs)
       (or_else (find_index (\<lambda>sect. datapart sect = part \<and> \<not> noload sect) secs)
         (find_index (\<lambda>sect. datapart sect = part) secs))"

definition orphan_section :: "bool \<Rightarrow> osect list \<Rightarrow> nat option" where
  "orphan_section part secs = or_else (part_section part secs) (part_section (\<not> part) secs)"

text \<open>
  The orphans of a part are collected in one input statement at the end of the
  section's body.  The second result counts the warnings.
\<close>

definition orphan_pieces :: "bool \<Rightarrow> piece list \<Rightarrow> nat list" where
  "orphan_pieces part ps = filter (\<lambda>i. pc_sect (ps ! i) = None \<and> (2 \<le> pc_seg (ps ! i)) = part) [0..<length ps]"

definition place_orphans :: "bool \<Rightarrow> nat list \<Rightarrow> 'a script_scheme \<Rightarrow> stop + 'a script_scheme" where
  "place_orphans part is s =
     (if is = [] then Inr s
      else
        case orphan_section part (sects s) of
          None \<Rightarrow> Inl (Fatal ''the script has no output sections'')
        | Some k \<Rightarrow>
            if script_orphan_error s \<and> (\<exists>i\<in>set is. pc_size (pieces s ! i) \<noteq> 0) then
              Inl (Fatal ''isn't placed by the script'')
            else
              Inr ((upd_sect k (\<lambda>sect. sect\<lparr>os_body := os_body sect @ [S_INPUT (sc_line s) False None [] is]\<rparr>) s)
                \<lparr>pieces := give k is (pieces s),
                 warncount := warncount s + of_nat (length (filter (\<lambda>i. pc_size (pieces s ! i) \<noteq> 0) is))\<rparr>))"

text \<open>
  The loop goes over the pieces in order, and the two parts take turns in it; they
  only share the body of a section when one part has no section of its own, where
  the statement of the part met first comes first.
\<close>

definition orphans :: "'a script_scheme \<Rightarrow> stop + 'a script_scheme" where
  "orphans s =
     (let text = orphan_pieces False (pieces s); data = orphan_pieces True (pieces s);
          data_first = (text \<noteq> [] \<and> data \<noteq> [] \<and> hd data < hd text)
      in if data_first
         then bindE (place_orphans True data s) (place_orphans False text)
         else bindE (place_orphans False text s) (place_orphans True data))"

section \<open>Giving addresses\<close>

definition addextra :: "int \<Rightarrow> int \<Rightarrow> int \<Rightarrow> bool \<Rightarrow> 'a script_scheme \<Rightarrow> 'a script_scheme" where
  "addextra a len v data s =
     s\<lparr>extras := extras s @ [\<lparr>ex_sect = cursect s, ex_vma = a, ex_len = len, ex_value = v, ex_data = data\<rparr>]\<rparr>"

definition gap :: "int \<Rightarrow> 'a script_scheme \<Rightarrow> stop + 'a script_scheme" where
  "gap to s =
     (if dot s < to \<and> curfill s \<noteq> 0 \<and> cursect s \<noteq> None then
        bindE (long (to - dot s)) (\<lambda>len. Inr (addextra (dot s) len (curfill s) False s))
      else Inr s)"

definition fillbyte :: "'a script_scheme \<Rightarrow> sexpr \<Rightarrow> stop + int" where
  "fillbyte s e =
     bindE (eval s e) (\<lambda>v.
       if v < - 128 \<or> 255 < v then Inl (Fatal ''fill value isn't a byte'') else Inr (v AND 0xFF))"

definition assign_symbol :: "akind \<Rightarrow> nat \<Rightarrow> sexpr \<Rightarrow> 'a script_scheme \<Rightarrow> stop + 'a script_scheme" where
  "assign_symbol ak k e s =
     (if ak = A_PROVIDE \<and> (plain (ssyms s ! k) \<or> moddef (ssyms s ! k)) then Inr s
      else bindE (eval s e) (\<lambda>v. Inr (upd_ssym k (\<lambda>ss. ss\<lparr>ss_value := v, assigned := True\<rparr>) s)))"

text \<open>A piece goes to the current address; its module keeps the address cut to 32 bits.\<close>

definition padding :: "int \<Rightarrow> int \<Rightarrow> int" where
  "padding sub n = (sub - n smod sub) smod sub"

definition place_module :: "piece \<Rightarrow> int \<Rightarrow> 'a script_scheme \<Rightarrow> modstruct \<Rightarrow> modstruct" where
  "place_module pc pad s md =
     (let seg = pc_seg pc in
      if pc_common pc then md\<lparr>comaddr := (comaddr md)(seg := of_int (dot s))\<rparr>
      else md\<lparr>segaddr := (segaddr md)(seg := of_int (dot s)),
              segpad := (segpad md)(seg := of_int pad),
              segfill := (segfill md)(seg := of_int (curfill s)),
              segnoload := (segnoload md)(seg := noload (sects s ! the (pc_sect pc)))\<rparr>)"

definition place_piece :: "int \<Rightarrow> nat \<Rightarrow> 'a script_scheme \<Rightarrow> stop + 'a script_scheme" where
  "place_piece sub i s =
     (let pc = pieces s ! i; pad = padding sub (pc_size pc) in
      bindE (long (pc_size pc + pad)) (\<lambda>len. bindE (long (dot s + len)) (\<lambda>next.
        Inr ((upd_piece i (\<lambda>pc. pc\<lparr>pc_vma := dot s\<rparr>)
               (upd_mod (pc_mod pc) (place_module pc pad s) s))\<lparr>dot := next\<rparr>))))"

primrec place_pieces :: "int \<Rightarrow> nat list \<Rightarrow> 'a script_scheme \<Rightarrow> stop + 'a script_scheme" where
  "place_pieces sub [] s = Inr s"
| "place_pieces sub (i # is) s = bindE (place_piece sub i s) (place_pieces sub is)"

definition note_assert :: "stmt \<Rightarrow> sexpr \<Rightarrow> 'a script_scheme \<Rightarrow> stop + 'a script_scheme" where
  "note_assert st e s =
     bindE (eval s e) (\<lambda>v.
       Inr (if v = 0 \<and> failed_assert s = None then s\<lparr>failed_assert := Some st\<rparr> else s))"

definition walk_data :: "nat \<Rightarrow> sexpr \<Rightarrow> 'a script_scheme \<Rightarrow> stop + 'a script_scheme" where
  "walk_data n e s =
     bindE (eval s e) (\<lambda>v.
       if (if n = 1 then v < - 128 \<or> 255 < v else v < - 32768 \<or> 65535 < v) then
         Inl (Fatal ''value is too large'')
       else
         bindE (long (dot s + int n)) (\<lambda>next. Inr ((addextra (dot s) (int n) v True s)\<lparr>dot := next\<rparr>)))"

definition walk_dot :: "sexpr \<Rightarrow> 'a script_scheme \<Rightarrow> stop + 'a script_scheme" where
  "walk_dot e s =
     bindE (eval s e) (\<lambda>v.
       if v < dot s then Inl (Fatal ''dot can't move backwards in a section'')
       else bindE (gap v s) (\<lambda>s1. Inr (s1\<lparr>dot := v\<rparr>)))"

definition walk_stmt :: "int \<Rightarrow> stmt \<Rightarrow> 'a script_scheme \<Rightarrow> stop + 'a script_scheme" where
  "walk_stmt sub st s =
     (case st of
        S_ASSIGN l ak (Some k) e \<Rightarrow> assign_symbol ak k e s
      | S_ASSIGN l ak None e \<Rightarrow> walk_dot e s
      | S_DATA l n e \<Rightarrow> walk_data n e s
      | S_FILL l e \<Rightarrow> bindE (fillbyte s e) (\<lambda>b. Inr (s\<lparr>curfill := b\<rparr>))
      | S_ASSERT l e msg \<Rightarrow> note_assert st e s
      | S_INPUT l keep filepat secpats is \<Rightarrow> place_pieces sub is s
      | _ \<Rightarrow> Inr s)"

definition PAGE :: "int \<Rightarrow> int" where "PAGE a = a AND NOT 0xFF"

text \<open>
  The contents of \<^verbatim>\<open>ONEPAGE\<close> that would cross a page boundary are laid out again
  from the next page.
\<close>

fun walk :: "int \<Rightarrow> stmt list \<Rightarrow> 'a script_scheme \<Rightarrow> stop + 'a script_scheme" where
  "walk sub [] s = Inr s"
| "walk sub (S_ONEPAGE l body # sts) s =
     bindE (walk sub body s) (\<lambda>s1.
     bindE (long (dot s1 - dot s)) (\<lambda>n.
       if 0x100 < n then Inl (Fatal ''ONEPAGE contents are larger than a page'')
       else
         bindE (if PAGE (dot s1 XOR dot s) \<noteq> 0 then
                  bindE (long (dot s + 0xFF)) (\<lambda>a.
                  bindE (gap (PAGE a)
                      (s1\<lparr>extras := take (length (extras s)) (extras s1), curfill := curfill s, dot := dot s\<rparr>)) (\<lambda>s2.
                    walk sub body (s2\<lparr>dot := PAGE a\<rparr>)))
                else Inr s1)
           (walk sub sts)))"
| "walk sub (st # sts) s = bindE (walk_stmt sub st s) (walk sub sts)"

text \<open>The start, the load address and the fill of a section, before its body.\<close>

definition opt_eval :: "'a script_scheme \<Rightarrow> sexpr option \<Rightarrow> int \<Rightarrow> stop + int" where
  "opt_eval s e v = (case e of None \<Rightarrow> Inr v | Some e \<Rightarrow> eval s e)"

definition cursor_of :: "'a script_scheme \<Rightarrow> nat option \<Rightarrow> int \<Rightarrow> int" where
  "cursor_of s r v = (case r of None \<Rightarrow> v | Some r \<Rightarrow> rg_cursor (regions s ! r))"

definition section_start :: "osect \<Rightarrow> 'a script_scheme \<Rightarrow> stop + int" where
  "section_start sect s =
     bindE (opt_eval s (os_addr sect) (cursor_of s (os_region sect) (dot s))) (\<lambda>start.
       let start = (if text_base_given s \<and> os_name sect = bytes_of ''.text'' then sint (text_base_value s) else start);
           start = (if data_base_value s \<noteq> 0 \<and> os_name sect = bytes_of ''.data'' then sint (data_base_value s) else start)
       in case os_align sect of
            None \<Rightarrow> Inr start
          | Some e \<Rightarrow> bindE (eval s e) (align_to start))"

definition section_sub :: "osect \<Rightarrow> 'a script_scheme \<Rightarrow> stop + int" where
  "section_sub sect s =
     (case os_subalign sect of None \<Rightarrow> Inr 1 | Some e \<Rightarrow> bindE (eval s e) (align_to 1))"

definition section_fill :: "osect \<Rightarrow> 'a script_scheme \<Rightarrow> stop + int" where
  "section_fill sect s =
     (case fillexpr sect of
        Some e \<Rightarrow> fillbyte s e
      | None \<Rightarrow> (case globalfill s of Some e \<Rightarrow> fillbyte s e | None \<Rightarrow> Inr 0))"

definition raise_cursor :: "nat option \<Rightarrow> int \<Rightarrow> 'a script_scheme \<Rightarrow> 'a script_scheme" where
  "raise_cursor r a s =
     (case r of
        None \<Rightarrow> s
      | Some r \<Rightarrow> upd_region r (\<lambda>rg. if rg_cursor rg < a then rg\<lparr>rg_cursor := a\<rparr> else rg) s)"

definition layout_section :: "nat \<Rightarrow> 'a script_scheme \<Rightarrow> stop + 'a script_scheme" where
  "layout_section k s0 =
     (let s = s0\<lparr>cursect := Some k\<rparr>; sect = sects s ! k in
      bindE (section_start sect s) (\<lambda>start.
      bindE (section_sub sect s) (\<lambda>sub.
      let s1 = upd_sect k (\<lambda>sect. sect\<lparr>os_sub := sub, vma := start\<rparr>) s in
      bindE (opt_eval s1 (os_at sect) (cursor_of s1 (lmaregion sect) start)) (\<lambda>load.
      let s2 = upd_sect k (\<lambda>sect. sect\<lparr>lma := load\<rparr>) s1 in
      bindE (section_fill sect s2) (\<lambda>fill.
      bindE (walk sub (os_body sect) (s2\<lparr>curfill := fill, dot := start\<rparr>)) (\<lambda>s3.
      bindE (long (dot s3 - start)) (\<lambda>n.
      let s4 = upd_sect k (\<lambda>sect. sect\<lparr>os_size := n\<rparr>) s3 in
      bindE (case os_region sect of None \<Rightarrow> Inr 0 | Some _ \<Rightarrow> long (start + n)) (\<lambda>_.
      bindE (case lmaregion sect of None \<Rightarrow> Inr 0 | Some _ \<Rightarrow> long (load + n)) (\<lambda>_.
        Inr ((raise_cursor (lmaregion sect) (load + n) (raise_cursor (os_region sect) (start + n) s4))
               \<lparr>cursect := None\<rparr>))))))))))"

primrec eval_regions :: "nat list \<Rightarrow> 'a script_scheme \<Rightarrow> stop + 'a script_scheme" where
  "eval_regions [] s = Inr s"
| "eval_regions (r # rs) s =
     bindE (eval s (rg_origin (regions s ! r))) (\<lambda>org.
     let s1 = upd_region r (\<lambda>rg. rg\<lparr>rg_org := org\<rparr>) s in
     bindE (eval s1 (rg_length (regions s1 ! r))) (\<lambda>len.
       eval_regions rs (upd_region r (\<lambda>rg. rg\<lparr>rg_len := len, rg_cursor := org\<rparr>) s1)))"

primrec layout_top :: "stmt list \<Rightarrow> 'a script_scheme \<Rightarrow> stop + 'a script_scheme" where
  "layout_top [] s = Inr s"
| "layout_top (st # sts) s =
     bindE (case st of
              S_SECTION l k \<Rightarrow> layout_section k s
            | S_ASSERT l e msg \<Rightarrow> note_assert st e s
            | S_ASSIGN l ak (Some k) e \<Rightarrow> assign_symbol ak k e s
            | S_ASSIGN l ak None e \<Rightarrow> bindE (eval s e) (\<lambda>v. Inr (s\<lparr>dot := v\<rparr>))
            | _ \<Rightarrow> Inl NullPointer)
       (layout_top sts)"

definition layout_pass :: "'a script_scheme \<Rightarrow> stop + 'a script_scheme" where
  "layout_pass s =
     bindE (eval_regions [0..<length (regions s)]
       (s\<lparr>ssyms := map (\<lambda>ss. ss\<lparr>assigned := False\<rparr>) (ssyms s), extras := [], failed_assert := None, dot := 0\<rparr>))
       (layout_top (top_stmts s))"

definition remember :: "'a script_scheme \<Rightarrow> bool \<times> 'a script_scheme" where
  "remember s =
     ((\<exists>sect\<in>set (sects s). vma sect \<noteq> pvma sect \<or> lma sect \<noteq> plma sect \<or> os_size sect \<noteq> psize sect) \<or>
      (\<exists>ss\<in>set (ssyms s). ss_value ss \<noteq> ss_pvalue ss) \<or>
      (\<exists>pc\<in>set (pieces s). pc_vma pc \<noteq> pc_pvma pc),
      s\<lparr>sects := map (\<lambda>sect. sect\<lparr>pvma := vma sect, plma := lma sect, psize := os_size sect\<rparr>) (sects s),
        ssyms := map (\<lambda>ss. ss\<lparr>ss_pvalue := ss_value ss\<rparr>) (ssyms s),
        pieces := map (\<lambda>pc. pc\<lparr>pc_pvma := pc_vma pc\<rparr>) (pieces s)\<rparr>)"


section \<open>Checks\<close>

text \<open>Checks run in order; the first that fails stops the linker.\<close>

definition require :: "bool \<Rightarrow> string \<Rightarrow> stop + unit" where
  "require b msg = (if b then Inr () else Inl (Fatal msg))"

primrec all_pass :: "(stop + unit) list \<Rightarrow> stop + unit" where
  "all_pass [] = Inr ()"
| "all_pass (c # cs) = bindE c (\<lambda>_. all_pass cs)"

definition inregion :: "osect \<Rightarrow> int \<Rightarrow> region \<Rightarrow> stop + unit" where
  "inregion sect a r =
     bindE (long (rg_org r + rg_len r)) (\<lambda>end.
     bindE (require (\<not> (a < rg_org r \<or> end < a)) ''section isn't in memory region'') (\<lambda>_.
     bindE (long (a + os_size sect)) (\<lambda>top.
       require (\<not> end < top) ''section doesn't fit in memory region'')))"

definition check_load :: "'a script_scheme \<Rightarrow> osect \<Rightarrow> osect \<Rightarrow> stop + unit" where
  "check_load s a b =
     (if os_size b \<noteq> 0 \<and> binary_output s \<and> \<not> noload a \<and> \<not> noload b then
        bindE (long (lma b + os_size b)) (\<lambda>end.
          require (\<not> (lma a < end \<and> lma b < lma a + os_size a)) ''the load addresses of sections overlap'')
      else Inr ())"

definition address_overlap :: "'a script_scheme \<Rightarrow> osect \<Rightarrow> osect \<Rightarrow> bool" where
  "address_overlap s a b \<longleftrightarrow>
     os_size b \<noteq> 0 \<and> (datapart a = datapart b \<or> \<not> sepid_option s) \<and>
     vma a < vma b + os_size b \<and> vma b < vma a + os_size a"

definition check_section :: "'a script_scheme \<Rightarrow> osect \<Rightarrow> osect list \<Rightarrow> stop + unit" where
  "check_section s a later =
     all_pass
      ([require (\<not> (vma a < 0 \<or> 0x10000 < vma a + os_size a)) ''section goes past $FFFF'',
        bindE (require (\<not> lma a < 0) ''section's load address goes past $FFFF'') (\<lambda>_.
          bindE (long (lma a + os_size a)) (\<lambda>end.
            require (\<not> 0x10000 < end) ''section's load address goes past $FFFF'')),
        (case os_region a of None \<Rightarrow> Inr () | Some r \<Rightarrow> inregion a (vma a) (regions s ! r)),
        (case lmaregion a of None \<Rightarrow> Inr () | Some r \<Rightarrow> inregion a (lma a) (regions s ! r)),
        require (\<not> (lma a \<noteq> vma a \<and> \<not> binary_output s)) ''section has a separate load address''] @
       (if os_size a = 0 then []
        else
          map (check_load s a) later @
          map (\<lambda>b. require (\<not> address_overlap s a b) ''sections overlap'') later))"

fun check_sections :: "'a script_scheme \<Rightarrow> osect list \<Rightarrow> stop + unit" where
  "check_sections s [] = Inr ()"
| "check_sections s (a # later) = bindE (check_section s a later) (\<lambda>_. check_sections s later)"

definition checks :: "'a script_scheme \<Rightarrow> stop + unit" where
  "checks s = check_sections s (sects s)"

section \<open>The layout\<close>

text \<open>The bytes of the size of each segment, as the module's header has them.\<close>

primrec segment_pieces :: "nat list \<Rightarrow> nat \<Rightarrow> modstruct \<Rightarrow> byte list \<Rightarrow> piece list" where
  "segment_pieces [] m md cptr = []"
| "segment_pieces (seg # segs) m md cptr =
     (let sizecount = segsizecount seg (segsizedesc md);
          pc = \<lparr>pc_mod = m, pc_seg = seg, pc_common = False, pc_size = uint (cnu2 target cptr sizecount),
                pc_vma = 0, pc_pvma = 0, pc_sect = None\<rparr>
      in pc # pc\<lparr>pc_common := True, pc_size := sint (comsize md seg)\<rparr> #
         segment_pieces segs m md (drop sizecount cptr))"

definition input_pieces :: "modstruct list \<Rightarrow> piece list" where
  "input_pieces ms =
     concat (map (\<lambda>m. if loadflag (ms ! m) then segment_pieces [0..<NSEG] m (ms ! m) (segsize (ms ! m)) else [])
       [0..<length ms])"

text \<open>Passes until one changes nothing, ten at most; the first is never the last.\<close>

primrec layout_passes :: "nat \<Rightarrow> bool \<Rightarrow> 'a script_scheme \<Rightarrow> stop + 'a script_scheme" where
  "layout_passes 0 again s = Inl (Fatal ''the layout doesn't settle'')"
| "layout_passes (Suc n) again s =
     bindE (layout_pass s) (\<lambda>s1.
       case remember s1 of (diff, s2) \<Rightarrow>
         if \<not> diff \<and> again then Inr s2 else layout_passes n True s2)"

definition MAXPASSES :: nat where "MAXPASSES = 10"

text \<open>A \<^verbatim>\<open>long\<close> stored in a \<^verbatim>\<open>bin_off_t\<close>.\<close>

definition to_off :: "int \<Rightarrow> int" where
  "to_off i = sint (of_int i :: u32)"

text \<open>The sections of one part, and whether each starts above the end of the one before it.\<close>

definition part_sects :: "bool \<Rightarrow> osect list \<Rightarrow> osect list" where
  "part_sects part secs = filter (\<lambda>sect. datapart sect = part) secs"

fun ascending :: "osect list \<Rightarrow> bool" where
  "ascending (a # b # secs) \<longleftrightarrow> \<not> (vma b < vma a + os_size a \<and> os_size b \<noteq> 0) \<and> ascending (b # secs)"
| "ascending secs \<longleftrightarrow> True"

definition part_bounds :: "'a script_scheme \<Rightarrow> 'a script_scheme" where
  "part_bounds s =
     (let ts = part_sects False (sects s); ds = part_sects True (sects s);
          text_start = to_off (if ts \<noteq> [] then vma (hd ts) else if ds \<noteq> [] then vma (hd ds) else 0);
          text_end = (if ts \<noteq> [] then to_off (vma (last ts) + os_size (last ts)) else text_start)
      in s\<lparr>lay_text_start := text_start, lay_text_end := text_end,
           lay_data_start := (if ds \<noteq> [] then to_off (vma (hd ds)) else text_end),
           lay_bss_end := (if ds \<noteq> [] then to_off (vma (last ds) + os_size (last ds)) else text_end)\<rparr>)"

text \<open>Initialised data ends with the last data input or statement of the data part.\<close>

definition extra_ends :: "'a script_scheme \<Rightarrow> int list" where
  "extra_ends s =
     map (\<lambda>x. ex_vma x + ex_len x)
       (filter (\<lambda>x. ex_data x \<and>
          (case ex_sect x of None \<Rightarrow> False | Some k \<Rightarrow> datapart (sects s ! k) \<and> \<not> noload (sects s ! k))) (extras s))"

definition piece_ends :: "'a script_scheme \<Rightarrow> int list" where
  "piece_ends s =
     map (\<lambda>pc. pc_vma pc + pc_size pc + padding (os_sub (sects s ! the (pc_sect pc))) (pc_size pc))
       (filter (\<lambda>pc. \<not> pc_common pc \<and> pc_size pc \<noteq> 0 \<and>
          datapart (sects s ! the (pc_sect pc)) \<and> \<not> noload (sects s ! the (pc_sect pc))) (pieces s))"

definition data_end :: "'a script_scheme \<Rightarrow> int" where
  "data_end s = fold (\<lambda>e m. if m < e then to_off e else m) (extra_ends s @ piece_ends s) (lay_data_start s)"

definition file_low :: "'a script_scheme \<Rightarrow> int" where
  "file_low s =
     (let low = fold (\<lambda>sect low.
          if os_size sect \<noteq> 0 \<and> \<not> noload sect \<and> (low < 0 \<or> lma sect < low) then lma sect else low)
        (sects s) (- 1)
      in if low < 0 then lay_text_start s else low)"

definition file_adjust :: "'a script_scheme \<Rightarrow> piece \<Rightarrow> int" where
  "file_adjust s pc =
     (let sect = sects s ! the (pc_sect pc) in
      if binary_output s then lma sect - vma sect - filelow s
      else if datapart sect then lay_text_end s - lay_text_start s - lay_data_start s
      else - lay_text_start s)"

definition adjust_modules :: "'a script_scheme \<Rightarrow> 'a script_scheme" where
  "adjust_modules s =
     fold (\<lambda>pc t.
         if pc_common pc \<or> noload (sects s ! the (pc_sect pc)) then t
         else upd_mod (pc_mod pc)
                (\<lambda>md. md\<lparr>segfadj := (segfadj md)(pc_seg pc := of_int (file_adjust s pc))\<rparr>) t)
       (pieces s) s"

definition layout_result :: "bool \<Rightarrow> bool \<Rightarrow> 'a script_scheme \<Rightarrow> stop + 'a script_scheme" where
  "layout_result sepid binary s =
     (if failed_assert s \<noteq> None then Inl (Fatal ''assertion failed'')
      else if \<not> binary \<and> \<not> (ascending (part_sects False (sects s)) \<and> ascending (part_sects True (sects s))) then
        Inl (Fatal ''section must not start below the end of the section before it'')
      else
        let s1 = part_bounds s;
            s2 = s1\<lparr>lay_data_end := data_end s1,
                    lay_sepid := (sepid \<or> part_sects True (sects s1) \<noteq> [] \<and> lay_data_start s1 \<noteq> lay_text_end s1)\<rparr>
        in bindE (checks s2) (\<lambda>_. Inr (adjust_modules (s2\<lparr>filelow := file_low s2\<rparr>))))"

definition script_layout :: "bool \<Rightarrow> bool \<Rightarrow> 'a script_scheme \<Rightarrow> stop + 'a script_scheme" where
  "script_layout sepid binary s =
     (let s1 = s\<lparr>sepid_option := sepid, binary_output := binary, pieces := input_pieces (mods s)\<rparr> in
      bindE (orphans (fold assign_section (section_stmts (top_stmts s1)) s1)) (\<lambda>s2.
      bindE (layout_passes MAXPASSES False s2) (\<lambda>s3.
        layout_result sepid binary s3)))"

section \<open>Output\<close>

definition fileoff :: "'a script_scheme \<Rightarrow> osect \<Rightarrow> int \<Rightarrow> int" where
  "fileoff s sect a =
     (if binary_output s then lma sect + (a - vma sect) - filelow s
      else if datapart sect then lay_text_end s - lay_text_start s + a - lay_data_start s
      else a - lay_text_start s)"

text \<open>Bytes at an offset of the file after its header (\<^verbatim>\<open>writeat\<close> of \<^verbatim>\<open>ld/writex86.c\<close>).\<close>

definition writeat :: "int \<Rightarrow> byte list \<Rightarrow> 'a script_scheme \<Rightarrow> 'a script_scheme" where
  "writeat offset buf s =
     writeout buf (seekout (unat (FILEHEADERLENGTH s + scast (of_int offset :: u32))) s)"

text \<open>Blocks of 256 fill bytes.\<close>

function outfill :: "int \<Rightarrow> int \<Rightarrow> byte \<Rightarrow> 'a script_scheme \<Rightarrow> 'a script_scheme" where
  "outfill offset len b s =
     (if 0 < len then
        let n = min 256 len
        in outfill (offset + n) (len - n) b (writeat offset (replicate (nat n) b) s)
      else s)"
  by pat_completeness auto
termination
  by (relation "measure (\<lambda>(offset, len, b, s). nat len)") auto

declare outfill.simps [simp del]

definition loaded_sect :: "osect \<Rightarrow> bool" where
  "loaded_sect sect \<longleftrightarrow> os_size sect \<noteq> 0 \<and> \<not> noload sect"

text \<open>The loaded section that starts next in the file, at or after an offset.\<close>

definition next_sect :: "'a script_scheme \<Rightarrow> int \<Rightarrow> osect option" where
  "next_sect s end =
     fold (\<lambda>sect b.
         if loaded_sect sect \<and> end \<le> fileoff s sect (vma sect) \<and>
            (case b of None \<Rightarrow> True | Some b \<Rightarrow> fileoff s sect (vma sect) < fileoff s b (vma b))
         then Some sect else b)
       (sects s) None"

definition fill_after :: "'a script_scheme \<Rightarrow> byte \<Rightarrow> osect \<Rightarrow> 'a script_scheme \<Rightarrow> 'a script_scheme" where
  "fill_after s b a t =
     (if \<not> loaded_sect a then t
      else
        let end = fileoff s a (vma a) + os_size a in
        (case next_sect s end of
           None \<Rightarrow> t
         | Some nx \<Rightarrow>
             if end < fileoff s nx (vma nx) then outfill end (fileoff s nx (vma nx) - end) b t else t))"

definition write_extra :: "'a script_scheme \<Rightarrow> bool \<Rightarrow> extra \<Rightarrow> (int \<Rightarrow> 'a script_scheme \<Rightarrow> 'a script_scheme) \<Rightarrow>
    'a script_scheme \<Rightarrow> 'a script_scheme" where
  "write_extra s data x write t =
     (case ex_sect x of
        None \<Rightarrow> t
      | Some k \<Rightarrow>
          if ex_data x = data \<and> \<not> noload (sects s ! k) then write (fileoff s (sects s ! k) (ex_vma x)) t else t)"

definition script_write_fill :: "'a script_scheme \<Rightarrow> stop + 'a script_scheme" where
  "script_write_fill s =
     (let s1 = fold (\<lambda>x. write_extra s False x (\<lambda>off. outfill off (ex_len x) (of_int (ex_value x)))) (extras s) s in
      case globalfill s of
        None \<Rightarrow> Inr s1
      | Some e \<Rightarrow>
          bindE (fillbyte s1 e) (\<lambda>fill.
            Inr (if fill = 0 then s1 else fold (fill_after s (of_int fill)) (sects s) s1)))"

definition data_bytes :: "extra \<Rightarrow> byte list" where
  "data_bytes x =
     (if ex_len x = 1 then [of_int (ex_value x)]
      else [of_int (drop_bit 8 (ex_value x)), of_int (ex_value x)])"

definition script_write_data :: "'a script_scheme \<Rightarrow> 'a script_scheme" where
  "script_write_data s =
     fold (\<lambda>x. write_extra s True x (\<lambda>off. writeat off (data_bytes x))) (extras s) s"


section \<open>Symbols of the script\<close>

text \<open>The data part starts with the first section that can take input from data counters.\<close>

primrec mark_dataparts :: "bool \<Rightarrow> osect list \<Rightarrow> osect list" where
  "mark_dataparts data [] = []"
| "mark_dataparts data (sect # secs) =
     (let d = (data \<or> takesdata (os_body sect)) in sect\<lparr>datapart := d\<rparr> # mark_dataparts d secs)"

text \<open>
  The symbols assigned in the body of a section; the walk keeps a stack of 16
  levels and does not enter statements nested deeper.
\<close>

fun body_syms :: "nat \<Rightarrow> stmt list \<Rightarrow> nat list" where
  "body_syms depth [] = []"
| "body_syms depth (S_ONEPAGE l body # sts) =
     (if depth < 16 then body_syms (Suc depth) body else []) @ body_syms depth sts"
| "body_syms depth (S_ASSIGN l ak (Some k) e # sts) = k # body_syms depth sts"
| "body_syms depth (st # sts) = body_syms depth sts"

definition set_class :: "sclass \<Rightarrow> nat \<Rightarrow> 'a script_scheme \<Rightarrow> 'a script_scheme" where
  "set_class c k s = upd_ssym k (\<lambda>ss. ss\<lparr>ss_class := c\<rparr>) s"

primrec class_stmts :: "stmt list \<Rightarrow> sclass \<Rightarrow> 'a script_scheme \<Rightarrow> 'a script_scheme" where
  "class_stmts [] c s = s"
| "class_stmts (st # sts) c s =
     (case st of
        S_SECTION l k \<Rightarrow>
          (let c' = (if datapart (sects s ! k) then C_DATA else C_TEXT)
           in class_stmts sts c' (fold (set_class c') (body_syms 0 (os_body (sects s ! k))) s))
      | S_ASSIGN l ak (Some k) e \<Rightarrow>
          class_stmts sts c (set_class (if relative e then c else C_ABS) k s)
      | _ \<Rightarrow> class_stmts sts c s)"

text \<open>The bounds of an output section, provided for the modules that import them.\<close>

definition bound_name :: "osect \<Rightarrow> string \<Rightarrow> byte list" where
  "bound_name sect suffix =
     take 79 (bytes_of ''__'' @
       (if os_name sect \<noteq> [] \<and> hd (os_name sect) = of_char CHR ''.'' then tl (os_name sect) else os_name sect) @
       bytes_of ''_'' @ bytes_of suffix)"

definition bound_expr :: "nat \<Rightarrow> byte list \<Rightarrow> nat \<Rightarrow> sexpr" where
  "bound_expr l n which =
     (if which = 0 then X_FUNC l (bytes_of ''ADDR'') (X_SYM l n) None
      else if which = 1 then
        X_BIN l X_ADD (X_FUNC l (bytes_of ''ADDR'') (X_SYM l n) None) (X_FUNC l (bytes_of ''SIZEOF'') (X_SYM l n) None)
      else X_FUNC l (bytes_of ''LOADADDR'') (X_SYM l n) None)"

definition provide_bound :: "osect \<Rightarrow> nat \<Rightarrow> 'a script_scheme \<Rightarrow> 'a script_scheme" where
  "provide_bound sect which s =
     (let n = bound_name sect ([''start'', ''end'', ''load''] ! which); symptr = findsym n s in
      if findssym n s \<noteq> None \<or> symptr = None \<or> moddefined symptr s then s
      else
        case ssym n s of (k, s1) \<Rightarrow>
          (upd_ssym k (\<lambda>ss. ss\<lparr>provide := True, ss_class := if datapart sect then C_DATA else C_TEXT\<rparr>) s1)
            \<lparr>top_stmts := top_stmts s1 @
               [S_ASSIGN (sc_line s1) A_PROVIDE (Some k) (bound_expr (sc_line s1) (os_name sect) which)]\<rparr>)"

definition mark_referenced :: "nat \<Rightarrow> 'a script_scheme \<Rightarrow> 'a script_scheme" where
  "mark_referenced r s =
     (case findssym (sm_name (symbols s ! r)) s of
        Some k \<Rightarrow> if \<not> moddefined (Some r) s then upd_ssym k (\<lambda>ss. ss\<lparr>referenced := True\<rparr>) s else s
      | None \<Rightarrow> s)"

definition loaded_refs :: "'a script_scheme \<Rightarrow> nat list" where
  "loaded_refs s = concat (map (\<lambda>md. if loadflag md then symparray md else []) (mods s))"

definition import_flags :: "sclass \<Rightarrow> u32" where
  "import_flags c = E_MASK OR (case c of C_ABS \<Rightarrow> A_MASK | C_DATA \<Rightarrow> 3 | C_TEXT \<Rightarrow> 0)"

text \<open>
  A referenced symbol has been found in the linker's table, so the import it
  satisfies exists.
\<close>

definition settle_symbol :: "nat \<Rightarrow> 'a script_scheme \<Rightarrow> stop + 'a script_scheme" where
  "settle_symbol k s =
     (let ss = ssyms s ! k; symptr = findsym (ss_name ss) s; md = moddefined symptr s;
          def = (plain ss \<or> provide ss \<and> \<not> md \<and> referenced ss);
          s1 = upd_ssym k (\<lambda>ss. ss\<lparr>moddef := md, ss_defined := def\<rparr>) s
      in if plain ss \<and> md then Inl (Fatal ''is defined by both the script and a module'')
         else if def \<and> referenced ss then
           (case symptr of
              None \<Rightarrow> Inl NullPointer
            | Some r \<Rightarrow>
                Inr (upd_symbol r (\<lambda>y. y\<lparr>sm_flags := import_flags (ss_class ss)\<rparr>)
                      (upd_ssym k (\<lambda>ss. ss\<lparr>ss_symptr := Some r\<rparr>) s1)))
         else Inr s1)"

primrec settle_symbols :: "nat list \<Rightarrow> 'a script_scheme \<Rightarrow> stop + 'a script_scheme" where
  "settle_symbols [] s = Inr s"
| "settle_symbols (k # ks) s = bindE (settle_symbol k s) (settle_symbols ks)"

definition script_mark_imports :: "'a script_scheme \<Rightarrow> stop + 'a script_scheme" where
  "script_mark_imports s =
     (let s1 = s\<lparr>sects := mark_dataparts False (sects s)\<rparr>;
          s2 = class_stmts (top_stmts s1) C_ABS s1;
          s3 = fold (\<lambda>sect t. fold (provide_bound sect) [0, 1, 2] t) (sects s2) s2;
          s4 = fold mark_referenced (loaded_refs s3) s3
      in settle_symbols [0..<length (ssyms s4)] s4)"

definition script_define_symbols :: "'a script_scheme \<Rightarrow> 'a script_scheme" where
  "script_define_symbols s =
     fold (\<lambda>ss t. case ss_symptr ss of
         None \<Rightarrow> t | Some r \<Rightarrow> upd_symbol r (\<lambda>y. y\<lparr>sm_value := of_int (ss_value ss)\<rparr>) t) (ssyms s) s"

definition script_value :: "byte list \<Rightarrow> 'a script_scheme \<Rightarrow> u32 option" where
  "script_value n s =
     (case findssym n s of
        None \<Rightarrow> None
      | Some k \<Rightarrow>
          let ss = ssyms s ! k in if \<not> assigned ss \<or> hidden ss then None else Some (of_int (ss_value ss)))"

text \<open>The entry point of the script, and the assignments of \<^verbatim>\<open>-A\<close> before its statements.\<close>

definition script_set_entry :: "'a script_scheme \<Rightarrow> stop + 'a script_scheme" where
  "script_set_entry s0 =
     (let s = s0\<lparr>top_stmts := script_defines s0 @ top_stmts s0\<rparr> in
      case entryname s of
        None \<Rightarrow> Inr s
      | Some n \<Rightarrow>
          (case findsym n s of
             None \<Rightarrow> Inl (Fatal ''entry symbol isn't defined by a module'')
           | Some r \<Rightarrow>
               if has (sm_flags (symbols s ! r)) I_MASK then
                 Inl (Fatal ''entry symbol isn't defined by a module'')
               else Inr (s\<lparr>entrylist := r # entrylist s\<rparr>)))"

section \<open>Modules the script needs\<close>

definition root_symbol :: "byte list \<Rightarrow> 'a script_scheme \<Rightarrow> nat list" where
  "root_symbol n s =
     (case findsym n s of
        None \<Rightarrow> []
      | Some r \<Rightarrow>
          let y = symbols s ! r in
          if has (sm_flags y) I_MASK then [] else (case modptr y of None \<Rightarrow> [] | Some m \<Rightarrow> [m]))"

fun exprroots :: "sexpr \<Rightarrow> 'a script_scheme \<Rightarrow> nat list" where
  "exprroots (X_NUM l n) s = []"
| "exprroots (X_DOT l) s = []"
| "exprroots (X_SYM l n) s = root_symbol n s"
| "exprroots (X_FUNC l n a None) s = exprroots a s"
| "exprroots (X_FUNC l n a (Some b)) s = exprroots a s @ exprroots b s"
| "exprroots (X_COND l a b c) s = exprroots a s @ exprroots b s @ exprroots c s"
| "exprroots (X_UN l uop a) s = exprroots a s"
| "exprroots (X_BIN l bop a b) s = exprroots a s @ exprroots b s"

primrec keeps_segment :: "nat list \<Rightarrow> byte list list \<Rightarrow> modstruct \<Rightarrow> byte list \<Rightarrow> bool" where
  "keeps_segment [] secpats md cptr = False"
| "keeps_segment (seg # segs) secpats md cptr =
     (let count = segsizecount seg (segsizedesc md); siz = cnu2 target cptr count in
      (\<exists>pat\<in>set secpats. siz \<noteq> 0 \<and> secmatch pat seg False \<or> secmatch pat seg True) \<or>
      keeps_segment segs secpats md (drop count cptr))"

definition keep_roots :: "byte list option \<Rightarrow> byte list list \<Rightarrow> modstruct list \<Rightarrow> nat list" where
  "keep_roots filepat secpats ms =
     (case filepat of
        None \<Rightarrow> []
      | Some pat \<Rightarrow>
          filter (\<lambda>m. filematch pat (ms ! m) \<and> keeps_segment [0..<NSEG] secpats (ms ! m) (segsize (ms ! m)))
            [0..<length ms])"

text \<open>
  The modules whose names are given to the linking function.  The source skips
  those already loaded, for which the function would change nothing.
\<close>

fun body_roots :: "stmt list \<Rightarrow> 'a script_scheme \<Rightarrow> nat list" where
  "body_roots [] s = []"
| "body_roots (S_ONEPAGE l body # sts) s = body_roots body s @ body_roots sts s"
| "body_roots (S_ASSERT l e msg # sts) s = exprroots e s @ body_roots sts s"
| "body_roots (S_INPUT l keep filepat secpats ps # sts) s =
     (if keep then keep_roots filepat secpats (mods s) else []) @ body_roots sts s"
| "body_roots (st # sts) s = body_roots sts s"

definition script_roots :: "'a script_scheme \<Rightarrow> nat list" where
  "script_roots s =
     concat (map (\<lambda>st. case st of S_SECTION l k \<Rightarrow> body_roots (os_body (sects s ! k)) s | _ \<Rightarrow> body_roots [st] s)
       (top_stmts s))"

section \<open>Record files\<close>

text \<open>The loaded section with the lowest load address above one, the first of equals.\<close>

definition next_load :: "osect list \<Rightarrow> int \<Rightarrow> osect option" where
  "next_load secs low =
     fold (\<lambda>sect b.
         if loaded_sect sect \<and> low < lma sect \<and> (case b of None \<Rightarrow> True | Some b \<Rightarrow> lma sect < lma b)
         then Some sect else b)
       secs None"

lemma next_load_gt: "next_load secs low = Some sect \<Longrightarrow> sect \<in> set secs \<and> low < lma sect"
proof -
  have "fold (\<lambda>sect b.
         if loaded_sect sect \<and> low < lma sect \<and> (case b of None \<Rightarrow> True | Some b \<Rightarrow> lma sect < lma b)
         then Some sect else b) secs b = Some sect \<Longrightarrow>
       b = Some sect \<or> sect \<in> set secs \<and> low < lma sect" for b
    by (induction secs arbitrary: b) (auto split: if_splits)
  from this [of None] show "next_load secs low = Some sect \<Longrightarrow> ?thesis" by (simp add: next_load_def)
qed

text \<open>The runs of data of the image, one for each load address in ascending order.\<close>

function load_runs :: "'a script_scheme \<Rightarrow> byte list \<Rightarrow> int \<Rightarrow> (u32 \<times> byte list) list" where
  "load_runs s img low =
     (case next_load (sects s) low of
        None \<Rightarrow> []
      | Some sect \<Rightarrow>
          let off = fileoff s sect (vma sect); siz = int (length img)
          in (if siz \<le> off then []
              else [(of_int (lma sect),
                     take (nat (if siz < off + os_size sect then siz - off else os_size sect)) (drop (nat off) img))]) @
             load_runs s img (lma sect))"
  by pat_completeness auto
termination
proof (relation "measure (\<lambda>(s, img, low). card {l \<in> lma ` set (sects s). low < l})", goal_cases)
  case (2 s img low sect)
  then have "sect \<in> set (sects s)" "low < lma sect" using next_load_gt by metis+
  then have "{l \<in> lma ` set (sects s). lma sect < l} \<subset> {l \<in> lma ` set (sects s). low < l}" by auto
  then show ?case by (simp add: psubset_card_mono)
qed simp

declare load_runs.simps [simp del]

definition script_convert :: "byte list \<Rightarrow> byte list \<Rightarrow> u32 \<Rightarrow> 'a script_scheme \<Rightarrow> byte list" where
  "script_convert outfilename img entry s =
     (let runs = load_runs s img (- 1) in
      if script_records s = 1 then srec_file (basename outfilename) runs entry else ihex_file runs entry)"


end
