(* ===== verification/Script_Walk.thy ===== *)
theory Script_Walk
  imports Script_Layout "HOL-Library.Multiset"
begin

text \<open>
  One pass over a section: whatever its statements, the pieces, the data and the
  filled gaps are put one after the other without overlap between the start of
  the section and its end, each module learns the addresses of its pieces, and
  nothing else of the script changes.
\<close>

section \<open>Walking a section\<close>

text \<open>Intervals one after the other between two addresses.\<close>

fun tiled :: "int \<Rightarrow> int \<Rightarrow> (int \<times> int) list \<Rightarrow> bool" where
  "tiled lo hi [] \<longleftrightarrow> lo \<le> hi"
| "tiled lo hi ((a, n) # xs) \<longleftrightarrow> lo \<le> a \<and> 0 \<le> n \<and> tiled (a + n) hi xs"

lemma tiled_le: "tiled lo hi xs \<Longrightarrow> lo \<le> hi"
  by (induction lo hi xs rule: tiled.induct) auto

lemma tiled_append: "tiled lo mid xs \<Longrightarrow> tiled mid hi ys \<Longrightarrow> tiled lo hi (xs @ ys)"
proof (induction lo mid xs rule: tiled.induct)
  case (1 lo mid)
  then show ?case by (cases ys) auto
qed auto

lemma tiled_weaken: "tiled lo hi xs \<Longrightarrow> lo' \<le> lo \<Longrightarrow> hi \<le> hi' \<Longrightarrow> tiled lo' hi' xs"
  by (induction lo hi xs arbitrary: lo' rule: tiled.induct) auto

lemma tiled_bounds: "tiled lo hi xs \<Longrightarrow> (a, n) \<in> set xs \<Longrightarrow> lo \<le> a \<and> 0 \<le> n \<and> a + n \<le> hi"
  by (induction lo hi xs rule: tiled.induct) (auto dest: tiled_le)

text \<open>The pieces of the statements, in their order.\<close>

fun stmt_pieces :: "stmt list \<Rightarrow> nat list" where
  "stmt_pieces [] = []"
| "stmt_pieces (S_ONEPAGE l body # sts) = stmt_pieces body @ stmt_pieces sts"
| "stmt_pieces (S_INPUT l keep filepat secpats is # sts) = is @ stmt_pieces sts"
| "stmt_pieces (st # sts) = stmt_pieces sts"

definition piece_span :: "int \<Rightarrow> piece \<Rightarrow> int \<times> int" where
  "piece_span sub pc = (pc_vma pc, pc_size pc + padding sub (pc_size pc))"

definition extra_span :: "extra \<Rightarrow> int \<times> int" where
  "extra_span x = (ex_vma x, ex_len x)"

definition piece_key :: "piece \<Rightarrow> nat \<times> nat \<times> bool" where
  "piece_key pc = (pc_mod pc, pc_seg pc, pc_common pc)"

definition pieces_ok :: "'a script_scheme \<Rightarrow> bool" where
  "pieces_ok s \<longleftrightarrow>
     (\<forall>i<length (pieces s). pc_mod (pieces s ! i) < length (mods s) \<and> 0 \<le> pc_size (pieces s ! i)) \<and>
     inj_on (\<lambda>i. piece_key (pieces s ! i)) {..<length (pieces s)}"

text \<open>The module of a piece has the address of the piece.\<close>

definition addressed :: "'a script_scheme \<Rightarrow> nat \<Rightarrow> bool" where
  "addressed s i \<longleftrightarrow>
     (let pc = pieces s ! i; md = mods s ! pc_mod pc in
      if pc_common pc then comaddr md (pc_seg pc) = of_int (pc_vma pc)
      else segaddr md (pc_seg pc) = of_int (pc_vma pc) \<and>
        segnoload md (pc_seg pc) = noload (sects s ! the (pc_sect pc)))"

definition unplaced :: "modstruct \<Rightarrow> modstruct" where
  "unplaced md = md\<lparr>segaddr := \<lambda>_. 0, comaddr := \<lambda>_. 0, segpad := \<lambda>_. 0, segfill := \<lambda>_. 0, segnoload := \<lambda>_. False\<rparr>"

text \<open>What laying out the pieces \<open>is\<close> leaves alone, and what it does.\<close>

definition lay_frame :: "nat list \<Rightarrow> 'a script_scheme \<Rightarrow> 'a script_scheme \<Rightarrow> bool" where
  "lay_frame is s t \<longleftrightarrow>
     sects t = sects s \<and> cursect t = cursect s \<and> regions t = regions s \<and> top_stmts t = top_stmts s \<and>
     length (pieces t) = length (pieces s) \<and>
     (\<forall>i. i \<notin> set is \<longrightarrow> pieces t ! i = pieces s ! i) \<and>
     (\<forall>i. (pieces t ! i)\<lparr>pc_vma := 0\<rparr> = (pieces s ! i)\<lparr>pc_vma := 0\<rparr>) \<and>
     map unplaced (mods t) = map unplaced (mods s) \<and>
     (\<forall>i<length (pieces s). i \<in> set is \<or> addressed s i \<longrightarrow> addressed t i)"

definition walked :: "int \<Rightarrow> nat list \<Rightarrow> 'a script_scheme \<Rightarrow> 'a script_scheme \<Rightarrow> bool" where
  "walked sub is s t \<longleftrightarrow>
     lay_frame is s t \<and>
     (\<exists>xs new. extras t = extras s @ new \<and> (\<forall>x\<in>set new. ex_sect x = cursect s) \<and> tiled (dot s) (dot t) xs \<and>
        mset xs = mset (map (\<lambda>i. piece_span sub (pieces t ! i)) is) + mset (map extra_span new))"

lemma smod_nonneg: "0 \<le> a \<Longrightarrow> 0 < b \<Longrightarrow> a smod b = a mod (b :: int)"
  by (simp add: signed_modulo_int_def sgn_if)

lemma padding_range: "0 \<le> n \<Longrightarrow> 0 < sub \<Longrightarrow> 0 \<le> padding sub n \<and> padding sub n < sub"
  by (simp add: padding_def smod_nonneg less_imp_le)

lemma pieces_ok_frame: "lay_frame is s t \<Longrightarrow> pieces_ok s \<Longrightarrow> pieces_ok t"
proof -
  assume f: "lay_frame is s t" and ok: "pieces_ok s"
  have p: "(pieces t ! i)\<lparr>pc_vma := 0\<rparr> = (pieces s ! i)\<lparr>pc_vma := 0\<rparr>" for i
    using f by (simp add: lay_frame_def)
  have e: "pc_mod (pieces t ! i) = pc_mod (pieces s ! i) \<and> pc_size (pieces t ! i) = pc_size (pieces s ! i) \<and>
      piece_key (pieces t ! i) = piece_key (pieces s ! i)" for i
    using p [of i] by (cases "pieces t ! i"; cases "pieces s ! i") (simp add: piece_key_def)
  have "length (mods t) = length (mods s)"
    using f by (metis lay_frame_def length_map)
  with f ok show ?thesis by (simp add: pieces_ok_def e lay_frame_def)
qed

lemma lay_frame_same:
  "\<lbrakk>sects t = sects s; cursect t = cursect s; regions t = regions s; top_stmts t = top_stmts s;
    pieces t = pieces s; mods t = mods s\<rbrakk> \<Longrightarrow> lay_frame [] s t"
  by (simp add: lay_frame_def addressed_def)

lemma lay_frame_trans:
  assumes "lay_frame is s t" and "lay_frame js t u"
  shows "lay_frame (is @ js) s u"
proof -
  have "i \<in> set (is @ js) \<or> addressed s i \<Longrightarrow> addressed u i" if "i < length (pieces s)" for i
    using assms that by (auto simp: lay_frame_def)
  with assms show ?thesis by (simp add: lay_frame_def)
qed

lemma walked_trans:
  assumes "walked sub is s t" and "walked sub js t u" and "set is \<inter> set js = {}"
  shows "walked sub (is @ js) s u"
proof -
  from assms(1) obtain xs new where 1: "lay_frame is s t" "extras t = extras s @ new"
    "\<forall>x\<in>set new. ex_sect x = cursect s" "tiled (dot s) (dot t) xs"
    "mset xs = mset (map (\<lambda>i. piece_span sub (pieces t ! i)) is) + mset (map extra_span new)"
    unfolding walked_def by blast
  from assms(2) obtain ys new' where 2: "lay_frame js t u" "extras u = extras t @ new'"
    "\<forall>x\<in>set new'. ex_sect x = cursect t" "tiled (dot t) (dot u) ys"
    "mset ys = mset (map (\<lambda>i. piece_span sub (pieces u ! i)) js) + mset (map extra_span new')"
    unfolding walked_def by blast
  have e: "map (\<lambda>i. piece_span sub (pieces u ! i)) is = map (\<lambda>i. piece_span sub (pieces t ! i)) is"
    using 2(1) assms(3) by (auto simp: lay_frame_def)
  have "mset (xs @ ys) = mset (map (\<lambda>i. piece_span sub (pieces u ! i)) (is @ js)) + mset (map extra_span (new @ new'))"
    by (simp only: mset_append map_append e 1(5) 2(5)) (simp only: ac_simps)
  moreover have "tiled (dot s) (dot u) (xs @ ys)" using 1(4) 2(4) by (rule tiled_append)
  moreover have "cursect t = cursect s" using 1(1) by (simp add: lay_frame_def)
  ultimately show ?thesis
    using lay_frame_trans [OF 1(1) 2(1)] 1(2,3) 2(2,3)
    unfolding walked_def by (intro conjI exI [of _ "xs @ ys"] exI [of _ "new @ new'"]) auto
qed

text \<open>A step that moves no piece: it may add extras in the space it takes.\<close>

lemma walked_step:
  assumes "lay_frame [] s t" and "extras t = extras s @ new" and "\<forall>x\<in>set new. ex_sect x = cursect s"
    and "tiled (dot s) (dot t) (map extra_span new)"
  shows "walked sub [] s t"
  using assms unfolding walked_def by (intro conjI exI [of _ "map extra_span new"] exI [of _ new]) auto

lemma walked_quiet: "lay_frame [] s t \<Longrightarrow> extras t = extras s \<Longrightarrow> dot s \<le> dot t \<Longrightarrow> walked sub [] s t"
  by (rule walked_step [of _ _ "[]"]) auto

lemma long_Inr: "long i = Inr j \<Longrightarrow> j = i"
  by (simp add: long_def split: if_splits)

lemma gap_walked:
  assumes "gap to s = Inr t" and "dot s \<le> to"
  shows "walked sub [] s (t\<lparr>dot := to\<rparr>)"
proof (cases "dot s < to \<and> curfill s \<noteq> 0 \<and> cursect s \<noteq> None")
  case True
  with assms(1) have t: "t = addextra (dot s) (to - dot s) (curfill s) False s"
    by (auto simp: gap_def bindE_Inr_iff dest: long_Inr)
  with True show ?thesis
    by (intro walked_step [where new = "drop (length (extras s)) (extras t)"] lay_frame_same)
       (simp_all add: addextra_def extra_span_def)
next
  case False
  with assms have "t = s" by (auto simp: gap_def split: if_splits)
  with assms(2) show ?thesis by (intro walked_quiet lay_frame_same) simp_all
qed

lemma place_piece_frame:
  assumes "pieces_ok s" and "i < length (pieces s)"
  shows "lay_frame [i] s (upd_piece i (\<lambda>pc. pc\<lparr>pc_vma := dot s\<rparr>)
           (upd_mod (pc_mod (pieces s ! i)) (place_module (pieces s ! i) pad s) s)\<lparr>dot := d\<rparr>)"
    (is "lay_frame _ _ (?t\<lparr>dot := d\<rparr>)")
proof -
  let ?pc = "pieces s ! i"
  have m: "pc_mod ?pc < length (mods s)" using assms by (simp add: pieces_ok_def)
  have "unplaced (place_module ?pc pad s md) = unplaced md" for md
    by (simp add: unplaced_def place_module_def Let_def)
  then have u: "map unplaced (mods ?t) = map unplaced (mods s)"
    using m by (simp add: upd_mod_def upd_piece_def map_update list_update_same_conv)
  have key: "pc_mod (pieces s ! j) = pc_mod ?pc \<longrightarrow>
      pc_seg (pieces s ! j) \<noteq> pc_seg ?pc \<or> pc_common (pieces s ! j) \<noteq> pc_common ?pc"
    if "j < length (pieces s)" "j \<noteq> i" for j
  proof -
    have "piece_key (pieces s ! j) \<noteq> piece_key ?pc"
      using assms that by (auto simp: pieces_ok_def inj_on_def)
    then show ?thesis by (auto simp: piece_key_def)
  qed
  have a: "addressed (?t\<lparr>dot := d\<rparr>) j" if "j < length (pieces s)" "j = i \<or> addressed s j" for j
  proof (cases "j = i")
    case True
    with m assms(2) show ?thesis
      by (simp add: addressed_def upd_mod_def upd_piece_def place_module_def Let_def)
  next
    case False
    with that key [of j] m show ?thesis
      by (cases "pc_mod (pieces s ! j) = pc_mod ?pc")
         (auto simp: addressed_def upd_mod_def upd_piece_def place_module_def Let_def)
  qed
  show ?thesis
    using u a assms(2) unfolding lay_frame_def
    by (auto simp: upd_mod_def upd_piece_def nth_list_update)
qed

lemma place_piece_walked:
  assumes "place_piece sub i s = Inr t" and "pieces_ok s" and "i < length (pieces s)" and "0 < sub"
  shows "walked sub [i] s t"
proof -
  let ?pc = "pieces s ! i" and ?pad = "padding sub (pc_size (pieces s ! i))"
  have t: "t = (upd_piece i (\<lambda>pc. pc\<lparr>pc_vma := dot s\<rparr>) (upd_mod (pc_mod ?pc) (place_module ?pc ?pad s) s))
      \<lparr>dot := dot s + (pc_size ?pc + ?pad)\<rparr>"
    using assms(1) by (auto simp: place_piece_def Let_def bindE_Inr_iff dest!: long_Inr)
  have n: "0 \<le> pc_size ?pc" using assms(2,3) by (simp add: pieces_ok_def)
  have "lay_frame [i] s t" unfolding t using assms(2,3) by (rule place_piece_frame)
  moreover have "piece_span sub (pieces t ! i) = (dot s, pc_size ?pc + ?pad)"
    using assms(3) by (simp add: t upd_piece_def upd_mod_def piece_span_def)
  moreover have "tiled (dot s) (dot t) [(dot s, pc_size ?pc + ?pad)]"
    using padding_range [OF n assms(4)] n by (simp add: t)
  moreover have "extras t = extras s" by (simp add: t upd_piece_def upd_mod_def)
  ultimately show ?thesis
    unfolding walked_def by (intro conjI exI [of _ "[(dot s, pc_size ?pc + ?pad)]"] exI [of _ "[]"]) auto
qed


lemma walked_pieces_ok: "walked sub is s t \<Longrightarrow> pieces_ok s \<Longrightarrow> pieces_ok t"
  by (auto simp: walked_def intro: pieces_ok_frame)

lemma walked_length: "walked sub is s t \<Longrightarrow> length (pieces t) = length (pieces s)"
  by (simp add: walked_def lay_frame_def)

text \<open>The pieces a walk may place: each once, and all of them exist.\<close>

definition placeable :: "nat list \<Rightarrow> 'a script_scheme \<Rightarrow> bool" where
  "placeable is s \<longleftrightarrow> pieces_ok s \<and> distinct is \<and> set is \<subseteq> {..<length (pieces s)}"

lemma placeable_step:
  assumes "walked sub is s t" and "placeable (is @ js) s"
  shows "placeable js t" and "set is \<inter> set js = {}"
  using assms walked_pieces_ok [OF assms(1)] walked_length [OF assms(1)] by (auto simp: placeable_def)

lemma placeable_append: "placeable (is @ js) s \<Longrightarrow> placeable is s"
  by (simp add: placeable_def)

lemma place_pieces_walked:
  "place_pieces sub is s = Inr t \<Longrightarrow> placeable is s \<Longrightarrow> 0 < sub \<Longrightarrow> walked sub is s t"
proof (induction "is" arbitrary: s)
  case Nil
  then show ?case by (intro walked_quiet lay_frame_same) simp_all
next
  case (Cons i "is")
  from Cons.prems(1) obtain u where u: "place_piece sub i s = Inr u" "place_pieces sub is u = Inr t"
    by (auto simp: bindE_Inr_iff)
  have w: "walked sub [i] s u"
    using u(1) Cons.prems(2,3) by (intro place_piece_walked) (auto simp: placeable_def)
  have "placeable ([i] @ is) s" using Cons.prems(2) by simp
  from placeable_step [OF w this] u(2) Cons have "walked sub is u t" "set [i] \<inter> set is = {}" by auto
  from walked_trans [OF w this] show ?case by simp
qed

lemma walked_assign_symbol: "assign_symbol ak k e s = Inr t \<Longrightarrow> walked sub [] s t"
  by (intro walked_quiet lay_frame_same)
     (auto simp: assign_symbol_def upd_ssym_def bindE_Inr_iff split: if_splits)

lemma walked_note_assert: "note_assert st e s = Inr t \<Longrightarrow> walked sub [] s t"
  by (intro walked_quiet lay_frame_same) (auto simp: note_assert_def bindE_Inr_iff)

lemma walked_walk_data: "walk_data n e s = Inr t \<Longrightarrow> walked sub [] s t"
  by (intro walked_step [where new = "drop (length (extras s)) (extras t)"] lay_frame_same)
     (auto simp: walk_data_def bindE_Inr_iff addextra_def extra_span_def dest!: long_Inr split: if_splits)

lemma walked_walk_dot: "walk_dot e s = Inr t \<Longrightarrow> walked sub [] s t"
  by (auto simp: walk_dot_def bindE_Inr_iff intro: gap_walked split: if_splits)

lemma walked_stmt:
  assumes "walk_stmt sub st s = Inr t" and "placeable (stmt_pieces [st]) s" and "0 < sub"
    and "\<And>l body. st \<noteq> S_ONEPAGE l body"
  shows "walked sub (stmt_pieces [st]) s t"
proof (cases st)
  case (S_ASSIGN l ak k e)
  with assms(1) show ?thesis
    by (cases k) (auto simp: walk_stmt_def intro: walked_assign_symbol walked_walk_dot)
next
  case (S_INPUT l keep filepat secpats "is")
  with assms show ?thesis by (auto simp: walk_stmt_def intro: place_pieces_walked)
next
  case (S_FILL l e)
  with assms(1) show ?thesis
    by (auto simp: walk_stmt_def bindE_Inr_iff intro!: walked_quiet lay_frame_same)
next
  case (S_SECTION l k)
  with assms(1) show ?thesis by (auto simp: walk_stmt_def intro!: walked_quiet lay_frame_same)
qed (use assms in \<open>auto simp: walk_stmt_def intro: walked_walk_data walked_note_assert\<close>)

lemma page_up: "PAGE (a + 0xFF) = (a + 0xFF) div 256 * 256" "a \<le> PAGE (a + 0xFF)" "PAGE (a + 0xFF) < a + 256"
proof -
  have e: "PAGE b = b div 256 * 256" for b
  proof -
    have "NOT (255 :: int) = NOT (mask 8)" by (simp add: mask_eq_exp_minus_1)
    moreover have "b AND NOT (mask 8) = push_bit 8 (drop_bit 8 b)"
      by (rule bit_eqI) (auto simp: bit_simps)
    ultimately show ?thesis by (simp only: PAGE_def) (simp add: push_bit_eq_mult drop_bit_eq_div)
  qed
  show "PAGE (a + 0xFF) = (a + 0xFF) div 256 * 256" by (rule e)
  show "a \<le> PAGE (a + 0xFF)" "PAGE (a + 0xFF) < a + 256" unfolding e by presburger+
qed


lemma lay_frame_set: "lay_frame is s t \<Longrightarrow> set is = set js \<Longrightarrow> lay_frame js s t"
  by (simp add: lay_frame_def)

text \<open>The statements of a page are laid out again from the same extras and address.\<close>

lemma walked_rebase:
  assumes "lay_frame is s s'" and "extras s' = extras s" and "dot s' = dot s" and "walked sub is s' t"
  shows "walked sub is s t"
proof -
  from assms(4) obtain xs new where w: "lay_frame is s' t" "extras t = extras s' @ new"
    "\<forall>x\<in>set new. ex_sect x = cursect s'" "tiled (dot s') (dot t) xs"
    "mset xs = mset (map (\<lambda>i. piece_span sub (pieces t ! i)) is) + mset (map extra_span new)"
    unfolding walked_def by blast
  have "lay_frame is s t"
    using lay_frame_trans [OF assms(1) w(1)] by (rule lay_frame_set) simp
  moreover have "cursect s' = cursect s" using assms(1) by (simp add: lay_frame_def)
  ultimately show ?thesis
    using w assms(2,3) unfolding walked_def by (intro conjI exI [of _ xs] exI [of _ new]) simp_all
qed

lemma walked_page_retry:
  fixes s s1 s2 t :: "'a script_scheme"
  assumes body: "\<And>(s :: 'a script_scheme) t. walk sub body s = Inr t \<Longrightarrow> placeable is s \<Longrightarrow> walked sub is s t"
    and s: "placeable is s" "walked sub is s s1"
    and g: "gap (PAGE a) (s1\<lparr>extras := take (length (extras s)) (extras s1), curfill := f, dot := dot s\<rparr>) = Inr s2"
    and a: "long (dot s + 0xFF) = Inr a"
    and t: "walk sub body (s2\<lparr>dot := PAGE a\<rparr>) = Inr t"
  shows "walked sub is s t"
proof -
  let ?s1 = "s1\<lparr>extras := take (length (extras s)) (extras s1), curfill := f, dot := dot s\<rparr>"
  have f1: "lay_frame is s s1" and e: "take (length (extras s)) (extras s1) = extras s"
    using s(2) by (auto simp: walked_def)
  have "lay_frame [] s1 ?s1" by (rule lay_frame_same) simp_all
  from lay_frame_trans [OF f1 this] have f: "lay_frame is s ?s1" by simp
  have "dot ?s1 \<le> PAGE a" using page_up(2) [of "dot s"] long_Inr [OF a] by simp
  from gap_walked [OF g this, where sub = sub] have w: "walked sub [] ?s1 (s2\<lparr>dot := PAGE a\<rparr>)" .
  have "placeable is ?s1"
    using s(1) pieces_ok_frame [OF f] f by (simp add: placeable_def lay_frame_def)
  then have "walked sub is (s2\<lparr>dot := PAGE a\<rparr>) t"
    using placeable_step(1) [OF w, of "is"] body [OF t] by simp
  with w have "walked sub is ?s1 t" using walked_trans [of sub "[]"] by fastforce
  then show ?thesis using f e by (intro walked_rebase [OF f]) simp_all
qed

lemma walked_cons:
  fixes s t :: "'a script_scheme"
  assumes "bindE (walk_stmt sub st s) (walk sub sts) = Inr t" and "\<And>l body. st \<noteq> S_ONEPAGE l body"
    and "placeable (stmt_pieces [st] @ stmt_pieces sts) s" and "0 < sub"
    and IH: "\<And>(s :: 'a script_scheme) t. walk sub sts s = Inr t \<Longrightarrow> placeable (stmt_pieces sts) s \<Longrightarrow>
      0 < sub \<Longrightarrow> walked sub (stmt_pieces sts) s t"
  shows "walked sub (stmt_pieces [st] @ stmt_pieces sts) s t"
proof -
  from assms(1) obtain u where u: "walk_stmt sub st s = Inr u" "walk sub sts u = Inr t"
    by (auto simp: bindE_Inr_iff)
  have w: "walked sub (stmt_pieces [st]) s u"
    using u(1) placeable_append [OF assms(3)] assms(4,2) by (rule walked_stmt)
  show ?thesis
    using IH [OF u(2) placeable_step(1) [OF w assms(3)] assms(4)] placeable_step(2) [OF w assms(3)]
    by (rule walked_trans [OF w])
qed

lemma walked_stmts:
  fixes s t :: "'a script_scheme"
  assumes IH: "\<And>(s :: 'a script_scheme) t. walk sub sts s = Inr t \<Longrightarrow> placeable (stmt_pieces sts) s \<Longrightarrow>
      0 < sub \<Longrightarrow> walked sub (stmt_pieces sts) s t"
    and st: "walk sub (st # sts) s = bindE (walk_stmt sub st s) (walk sub sts)"
      "stmt_pieces (st # sts) = stmt_pieces [st] @ stmt_pieces sts" "\<And>l body. st \<noteq> S_ONEPAGE l body"
    and "walk sub (st # sts) s = Inr t" and "placeable (stmt_pieces (st # sts)) s" and "0 < sub"
  shows "walked sub (stmt_pieces (st # sts)) s t"
  using assms(5,6,7) IH unfolding st(1,2) by (intro walked_cons [OF _ st(3)])

lemma if_Inl_iff: "(if b then Inl e else m) = Inr t \<longleftrightarrow> \<not> b \<and> m = Inr t"
  by simp

lemma walk_onepageE:
  assumes "walk sub (S_ONEPAGE l body # sts) s = Inr t"
  obtains (stay) s1 where "walk sub body s = Inr s1" and "dot s1 - dot s \<le> 0x100"
      and "PAGE (dot s1 XOR dot s) = 0" and "walk sub sts s1 = Inr t"
    | (move) s1 a s2 s4 where "walk sub body s = Inr s1" and "dot s1 - dot s \<le> 0x100"
      and "PAGE (dot s1 XOR dot s) \<noteq> 0" and "long (dot s + 0xFF) = Inr a"
      and "gap (PAGE a) (s1\<lparr>extras := take (length (extras s)) (extras s1), curfill := curfill s, dot := dot s\<rparr>) = Inr s2"
      and "walk sub body (s2\<lparr>dot := PAGE a\<rparr>) = Inr s4" and "walk sub sts s4 = Inr t"
proof -
  let ?R = "\<lambda>s1. if PAGE (dot s1 XOR dot s) \<noteq> 0 then
                  bindE (long (dot s + 0xFF)) (\<lambda>a.
                  bindE (gap (PAGE a)
                      (s1\<lparr>extras := take (length (extras s)) (extras s1), curfill := curfill s, dot := dot s\<rparr>)) (\<lambda>s2.
                    walk sub body (s2\<lparr>dot := PAGE a\<rparr>)))
                else Inr s1"
  from assms have "bindE (walk sub body s) (\<lambda>s1. bindE (long (dot s1 - dot s)) (\<lambda>n.
      if 0x100 < n then Inl (Fatal ''ONEPAGE contents are larger than a page'')
      else bindE (?R s1) (walk sub sts))) = Inr t" by simp
  then obtain s1 n where w: "walk sub body s = Inr s1" and n': "long (dot s1 - dot s) = Inr n"
    and i: "(if 0x100 < n then Inl (Fatal ''ONEPAGE contents are larger than a page'')
      else bindE (?R s1) (walk sub sts)) = Inr t" by (elim bindE_InrE)
  from i have n: "dot s1 - dot s \<le> 0x100" and r: "bindE (?R s1) (walk sub sts) = Inr t"
    unfolding if_Inl_iff using long_Inr [OF n'] by (simp_all only: not_less)
  show ?thesis
  proof (cases "PAGE (dot s1 XOR dot s) = 0")
    case True
    with w n r show ?thesis by (intro stay [of s1]) simp_all
  next
    case False
    with r obtain a s2 s4 where "long (dot s + 0xFF) = Inr a"
      "gap (PAGE a) (s1\<lparr>extras := take (length (extras s)) (extras s1), curfill := curfill s, dot := dot s\<rparr>) = Inr s2"
      "walk sub body (s2\<lparr>dot := PAGE a\<rparr>) = Inr s4" "walk sub sts s4 = Inr t"
      by (auto simp: bindE_Inr_iff)
    with w n False show ?thesis by (intro move)
  qed
qed

lemma walk_walked:
  "walk sub sts s = Inr t \<Longrightarrow> placeable (stmt_pieces sts) s \<Longrightarrow> 0 < sub \<Longrightarrow> walked sub (stmt_pieces sts) s t"
proof (induction sts arbitrary: s t rule: stmt_pieces.induct)
  case 1
  then show ?case by (auto intro!: walked_quiet lay_frame_same)
next
  case (2 l body sts)
  have p: "placeable (stmt_pieces body) s"
    using 2(4) by (simp add: placeable_def)
  obtain s4 where w4: "walked sub (stmt_pieces body) s s4" and r: "walk sub sts s4 = Inr t"
    using 2(3)
  proof (cases rule: walk_onepageE)
    case (stay s1)
    with 2(1) [OF _ p 2(5)] that show ?thesis by blast
  next
    case (move s1 a s2 s4)
    have "walked sub (stmt_pieces body) s s4"
      using 2(1) [OF _ _ 2(5)] p 2(1) [OF move(1) p 2(5)] move(5,4,6) by (rule walked_page_retry)
    with move(7) that show ?thesis by blast
  qed
  have "placeable (stmt_pieces body @ stmt_pieces sts) s" using 2(4) by simp
  from placeable_step [OF w4 this] 2(2) r 2(5) walked_trans [OF w4] show ?case by simp
qed (rule walked_stmts, assumption, simp, simp, simp, assumption, assumption, assumption)+

end
