(* ===== verification/Script_Deal.thy ===== *)
theory Script_Deal
  imports Script_Walk
begin

text \<open>
  Which section takes which input section: patterns match as they should, each
  piece goes to the first section with a statement that wants it, or else to the
  section for orphans, and appears there in exactly one statement.
\<close>

section \<open>Patterns\<close>

inductive glob_matches :: "byte list \<Rightarrow> byte list \<Rightarrow> bool" where
  "glob_matches [] []"
| "glob_matches pat t \<Longrightarrow> glob_matches (of_char CHR ''*'' # pat) (u @ t)"
| "glob_matches pat t \<Longrightarrow> glob_matches (of_char CHR ''?'' # pat) (c # t)"
| "c \<noteq> of_char CHR ''*'' \<Longrightarrow> glob_matches pat t \<Longrightarrow> glob_matches (c # pat) (c # t)"

inductive_simps glob_matches_simps:
  "glob_matches [] t" "glob_matches (c # pat) t"

lemma star_tail: "glob_matches (of_char CHR ''*'' # pat) t \<Longrightarrow> glob_matches (of_char CHR ''*'' # pat) (d # t)"
  using glob_matches.intros(2) [of pat _ "d # _"] by (auto simp: glob_matches_simps(2) [of _ pat])

lemma glob_matches_star:
  "glob_matches (of_char CHR ''*'' # pat) t \<longleftrightarrow>
     glob_matches pat t \<or> (case t of [] \<Rightarrow> False | d # t' \<Rightarrow> glob_matches (of_char CHR ''*'' # pat) t')"
proof
  assume "glob_matches (of_char CHR ''*'' # pat) t"
  then obtain u t' where t: "t = u @ t'" "glob_matches pat t'"
    by (auto simp: glob_matches_simps(2) [of _ pat])
  then show "glob_matches pat t \<or> (case t of [] \<Rightarrow> False | d # t' \<Rightarrow> glob_matches (of_char CHR ''*'' # pat) t')"
    using glob_matches.intros(2) [OF t(2)] by (cases u) auto
next
  assume "glob_matches pat t \<or> (case t of [] \<Rightarrow> False | d # t' \<Rightarrow> glob_matches (of_char CHR ''*'' # pat) t')"
  then show "glob_matches (of_char CHR ''*'' # pat) t"
    using glob_matches.intros(2) [of pat t "[]"] star_tail by (auto split: list.splits)
qed

lemma glob_iff: "glob pat t \<longleftrightarrow> glob_matches pat t"
proof (induction pat t rule: glob.induct)
  case (2 c pat t)
  show ?case
  proof (cases "c = of_char CHR ''*''")
    case True
    with 2(1,2) show ?thesis
      by (subst True, subst glob_matches_star) (auto split: list.splits)
  next
    case False
    with 2(3) show ?thesis
      by (auto simp: glob_matches_simps(2) [of c] split: list.splits)
  qed
qed (simp add: glob_matches_simps)

section \<open>Dealing the pieces to statements\<close>

text \<open>The input statements of a body, and those of them that want a piece.\<close>

fun inputs :: "stmt list \<Rightarrow> (byte list option \<times> byte list list) list" where
  "inputs [] = []"
| "inputs (S_ONEPAGE l body # sts) = inputs body @ inputs sts"
| "inputs (S_INPUT l keep filepat secpats is # sts) = (filepat, secpats) # inputs sts"
| "inputs (st # sts) = inputs sts"

definition wants :: "modstruct list \<Rightarrow> piece \<Rightarrow> byte list option \<times> byte list list \<Rightarrow> bool" where
  "wants ms pc = (\<lambda>(filepat, secpats). takes ms filepat secpats (pc\<lparr>pc_sect := None\<rparr>))"

lemma takes_wants: "takes ms filepat secpats pc \<longleftrightarrow> pc_sect pc = None \<and> wants ms pc (filepat, secpats)"
  by (cases filepat) (simp_all add: takes_def wants_def)

lemma wants_sect [simp]: "wants ms (pc\<lparr>pc_sect := x\<rparr>) = wants ms pc"
  by (simp add: wants_def)

lemma length_give [simp]: "length (give k is ps) = length ps"
  by (induction "is" arbitrary: ps) (simp_all add: give_def)

lemma nth_give:
  "set is \<subseteq> {..<length ps} \<Longrightarrow>
   give k is ps ! i = (if i \<in> set is then (ps ! i)\<lparr>pc_sect := Some k\<rparr> else ps ! i)"
proof (induction "is" arbitrary: ps)
  case (Cons j "is")
  have e: "give k (j # is) ps = give k is (ps[j := (ps ! j)\<lparr>pc_sect := Some k\<rparr>])"
    by (simp add: give_def)
  from Cons.prems have "set is \<subseteq> {..<length (ps[j := (ps ! j)\<lparr>pc_sect := Some k\<rparr>])}" by simp
  from Cons.IH [OF this] Cons.prems show ?case by (auto simp: e nth_list_update)
qed (simp add: give_def)

text \<open>
  What a list of statements does with the pieces of section \<open>k\<close>: those not taken
  before that one of its inputs wants, each once.
\<close>

definition newly :: "modstruct list \<Rightarrow> (byte list option \<times> byte list list) list \<Rightarrow> piece list \<Rightarrow> nat set" where
  "newly ms inps ps = {i. i < length ps \<and> pc_sect (ps ! i) = None \<and> (\<exists>inp\<in>set inps. wants ms (ps ! i) inp)}"

definition deals :: "modstruct list \<Rightarrow> nat \<Rightarrow> stmt list \<Rightarrow> piece list \<Rightarrow> stmt list \<Rightarrow> piece list \<Rightarrow> bool" where
  "deals ms k sts ps sts' ps' \<longleftrightarrow>
     inputs sts' = inputs sts \<and> length ps' = length ps \<and>
     (\<forall>i<length ps. ps' ! i = (if i \<in> newly ms (inputs sts) ps then (ps ! i)\<lparr>pc_sect := Some k\<rparr> else ps ! i)) \<and>
     mset (stmt_pieces sts') = mset (stmt_pieces sts) + mset_set (newly ms (inputs sts) ps)"

lemma finite_newly [simp]: "finite (newly ms inps ps)"
  by (simp add: newly_def)

lemma newly_append:
  assumes "length ps1 = length ps"
    and "\<And>i. i < length ps \<Longrightarrow> ps1 ! i = (if i \<in> newly ms xs ps then (ps ! i)\<lparr>pc_sect := Some k\<rparr> else ps ! i)"
  shows "newly ms (xs @ ys) ps = newly ms xs ps \<union> newly ms ys ps1" and "newly ms xs ps \<inter> newly ms ys ps1 = {}"
proof -
  have "i \<in> newly ms (xs @ ys) ps \<longleftrightarrow> i \<in> newly ms xs ps \<or> i \<in> newly ms ys ps1" for i
    using assms(1) assms(2) [of i] by (auto simp: newly_def split: if_splits)
  then show "newly ms (xs @ ys) ps = newly ms xs ps \<union> newly ms ys ps1" by auto
  have "pc_sect (ps1 ! i) \<noteq> None" if "i \<in> newly ms xs ps" for i
    using that assms(2) [of i] by (simp add: newly_def)
  then have "i \<notin> newly ms ys ps1" if "i \<in> newly ms xs ps" for i
    using that by (simp add: newly_def [of ms ys])
  then show "newly ms xs ps \<inter> newly ms ys ps1 = {}" by blast
qed

lemma deals_append:
  assumes 1: "deals ms k as ps as' ps1" and 2: "deals ms k bs ps1 bs' ps2"
    and i: "inputs cs = inputs as @ inputs bs" "inputs cs' = inputs as' @ inputs bs'"
    and p: "stmt_pieces cs = stmt_pieces as @ stmt_pieces bs" "stmt_pieces cs' = stmt_pieces as' @ stmt_pieces bs'"
  shows "deals ms k cs ps cs' ps2"
proof -
  have l: "length ps1 = length ps" using 1 by (simp add: deals_def)
  have n: "newly ms (inputs cs) ps = newly ms (inputs as) ps \<union> newly ms (inputs bs) ps1"
    "newly ms (inputs as) ps \<inter> newly ms (inputs bs) ps1 = {}"
    using newly_append [OF l, of ms "inputs as" k "inputs bs"] 1 by (auto simp: deals_def i)
  have "ps2 ! j = (if j \<in> newly ms (inputs cs) ps then (ps ! j)\<lparr>pc_sect := Some k\<rparr> else ps ! j)"
    if "j < length ps" for j
    using 1 2 that l n by (auto simp: deals_def)
  moreover have "mset (stmt_pieces cs') = mset (stmt_pieces cs) + mset_set (newly ms (inputs cs) ps)"
    using 1 2 unfolding p n(1) mset_append mset_set_Union [OF finite_newly finite_newly n(2)]
    by (simp add: deals_def ac_simps)
  ultimately show ?thesis using 1 2 by (simp add: deals_def i)
qed

lemma assign_stmts_deals:
  "assign_stmts ms k sts ps = (sts', ps') \<Longrightarrow> deals ms k sts ps sts' ps'"
proof (induction ms k sts ps arbitrary: sts' ps' rule: assign_stmts.induct)
  case (1 ms k ps)
  then show ?case by (auto simp: deals_def newly_def)
next
  case (2 ms k l body sts ps)
  obtain b ps1 r ps2 where e: "assign_stmts ms k body ps = (b, ps1)" "assign_stmts ms k sts ps1 = (r, ps2)"
    by fastforce
  with 2(3) have "sts' = S_ONEPAGE l b # r" "ps' = ps2" by auto
  with 2(1) [OF e(1)] 2(2) [OF e(1) [symmetric] e(2)] show ?case
    by (auto intro: deals_append)
next
  case (3 ms k l keep filepat secpats old sts ps)
  define new where "new = filter (\<lambda>i. takes ms filepat secpats (ps ! i)) [0..<length ps]"
  obtain r ps2 where e: "assign_stmts ms k sts (give k new ps) = (r, ps2)" by fastforce
  with 3(2) have r: "sts' = S_INPUT l keep filepat secpats (old @ new) # r" "ps' = ps2"
    by (auto simp: new_def [symmetric] Let_def)
  have s: "set new = newly ms [(filepat, secpats)] ps"
    by (auto simp: new_def newly_def takes_wants)
  have distinct_new: "distinct new" by (simp add: new_def)
  have "set new \<subseteq> {..<length ps}" by (auto simp: new_def)
  from nth_give [OF this, of k] have "deals ms k [S_INPUT l keep filepat secpats old] ps
      [S_INPUT l keep filepat secpats (old @ new)] (give k new ps)"
    using s mset_set_set [of new] distinct_new by (simp add: deals_def)
  moreover have "deals ms k sts (give k new ps) r ps2"
    using 3(1) [OF new_def e] .
  ultimately show ?case unfolding r by (rule deals_append) simp_all
qed (auto simp: deals_def split: prod.splits)


section \<open>Sections and their pieces\<close>

text \<open>Every section's statements hold exactly the pieces that are in it, each once.\<close>

definition dealt :: "'a script_scheme \<Rightarrow> bool" where
  "dealt s \<longleftrightarrow>
     (\<forall>k<length (sects s). mset (stmt_pieces (os_body (sects s ! k))) =
        mset_set {i. i < length (pieces s) \<and> pc_sect (pieces s ! i) = Some k}) \<and>
     (\<forall>i<length (pieces s). \<forall>k. pc_sect (pieces s ! i) = Some k \<longrightarrow> k < length (sects s))"

text \<open>A section gets some pieces that had none, and their indices are added to its body.\<close>

lemma dealt_give:
  assumes d: "dealt s" and k: "k < length (sects s)"
    and new: "new \<subseteq> {i. i < length (pieces s) \<and> pc_sect (pieces s ! i) = None}"
    and t: "sects t = (sects s)[k := (sects s ! k)\<lparr>os_body := body\<rparr>]" "length (pieces t) = length (pieces s)"
      "\<And>i. i < length (pieces s) \<Longrightarrow>
        pieces t ! i = (if i \<in> new then (pieces s ! i)\<lparr>pc_sect := Some k\<rparr> else pieces s ! i)"
    and body: "mset (stmt_pieces body) = mset (stmt_pieces (os_body (sects s ! k))) + mset_set new"
  shows "dealt t"
proof -
  let ?P = "\<lambda>u j. {i. i < length (pieces u) \<and> pc_sect (pieces u ! i) = Some j}"
  have p: "pc_sect (pieces t ! i) = (if i \<in> new then Some k else pc_sect (pieces s ! i))" if "i < length (pieces s)" for i
    using t(3) [OF that] by simp
  have "mset (stmt_pieces (os_body (sects t ! j))) = mset_set (?P t j)" if j: "j < length (sects s)" for j
  proof (cases "j = k")
    case True
    have "?P t k = ?P s k \<union> new" using p new t(2) by auto
    moreover have "?P s k \<inter> new = {}" using new by auto
    moreover have "finite new" using new by (rule finite_subset) simp
    ultimately have "mset_set (?P t k) = mset_set (?P s k) + mset_set new" by (simp add: mset_set_Union)
    with d k True body show ?thesis by (simp add: dealt_def t(1))
  next
    case False
    have "?P t j = ?P s j" using p new t(2) False by (auto split: if_splits)
    with d j False show ?thesis by (simp add: dealt_def t(1))
  qed
  moreover have "m < length (sects s)" if "i < length (pieces s)" "pc_sect (pieces t ! i) = Some m" for i m
    using d k p [OF that(1)] that by (auto simp: dealt_def split: if_splits)
  ultimately show ?thesis by (simp add: dealt_def t(1,2))
qed

definition body_inputs :: "'a script_scheme \<Rightarrow> nat \<Rightarrow> (byte list option \<times> byte list list) list" where
  "body_inputs s k = inputs (os_body (sects s ! k))"

text \<open>Nothing of the sections but the pieces of the statements changes.\<close>

definition same_script :: "'a script_scheme \<Rightarrow> 'a script_scheme \<Rightarrow> bool" where
  "same_script s t \<longleftrightarrow>
     length (sects t) = length (sects s) \<and> length (pieces t) = length (pieces s) \<and>
     (\<forall>k. (sects t ! k)\<lparr>os_body := []\<rparr> = (sects s ! k)\<lparr>os_body := []\<rparr>) \<and>
     (\<forall>i<length (pieces s). (pieces t ! i)\<lparr>pc_sect := None\<rparr> = (pieces s ! i)\<lparr>pc_sect := None\<rparr>) \<and>
     mods t = mods s \<and> top_stmts t = top_stmts s"

lemma assign_section_dealt:
  assumes d: "dealt s" and k: "k < length (sects s)"
  shows "dealt (assign_section k s)" and "same_script s (assign_section k s)"
    and "\<And>j. body_inputs (assign_section k s) j = body_inputs s j"
    and "\<And>i. i < length (pieces s) \<Longrightarrow> pc_sect (pieces (assign_section k s) ! i) =
      or_else (pc_sect (pieces s ! i)) (if \<exists>inp\<in>set (body_inputs s k). wants (mods s) (pieces s ! i) inp then Some k else None)"
proof -
  obtain body ps where e: "assign_stmts (mods s) k (os_body (sects s ! k)) (pieces s) = (body, ps)" by fastforce
  let ?t = "assign_section k s" and ?new = "newly (mods s) (inputs (os_body (sects s ! k))) (pieces s)"
  have dl: "deals (mods s) k (os_body (sects s ! k)) (pieces s) body ps" using e by (rule assign_stmts_deals)
  have t: "sects ?t = (sects s)[k := (sects s ! k)\<lparr>os_body := body\<rparr>]" "pieces ?t = ps"
      "mods ?t = mods s" "top_stmts ?t = top_stmts s"
    by (simp_all add: assign_section_def e upd_sect_def)
  have p: "ps ! i = (if i \<in> ?new then (pieces s ! i)\<lparr>pc_sect := Some k\<rparr> else pieces s ! i)" if "i < length (pieces s)" for i
    using dl that by (simp add: deals_def)
  have l: "length ps = length (pieces s)" using dl by (simp add: deals_def)
  have m: "mset (stmt_pieces body) = mset (stmt_pieces (os_body (sects s ! k))) + mset_set ?new"
    using dl by (simp add: deals_def)
  have sub: "?new \<subseteq> {i. i < length (pieces s) \<and> pc_sect (pieces s ! i) = None}" by (auto simp: newly_def)
  show "dealt ?t"
    using d k sub t(1) l [folded t(2)] p [folded t(2)] m by (rule dealt_give)
  show "same_script s ?t"
    using k l p by (simp add: same_script_def t nth_list_update)
  show "body_inputs ?t j = body_inputs s j" for j
    using dl k by (cases "j = k") (simp_all add: body_inputs_def t deals_def)
  show "pc_sect (pieces ?t ! i) =
      or_else (pc_sect (pieces s ! i)) (if \<exists>inp\<in>set (body_inputs s k). wants (mods s) (pieces s ! i) inp then Some k else None)"
    if "i < length (pieces s)" for i
    using p [OF that] that by (auto simp: t newly_def body_inputs_def or_else_def split: option.splits)
qed

lemma wants_same: "pc\<lparr>pc_sect := None\<rparr> = pc'\<lparr>pc_sect := None\<rparr> \<Longrightarrow> wants ms pc = wants ms pc'"
  by (simp add: wants_def)

lemma or_else_simps [simp]:
  "or_else None y = y" "or_else (Some a) y = Some a" "or_else x None = x" "or_else (or_else x y) z = or_else x (or_else y z)"
  by (cases x; simp add: or_else_def)+

lemma same_script_refl: "same_script s s"
  by (simp add: same_script_def)

lemma same_script_trans: "same_script s t \<Longrightarrow> same_script t u \<Longrightarrow> same_script s u"
  by (simp add: same_script_def)

text \<open>The sections in order, the first that wants a piece takes it.\<close>

definition wanted_by :: "'a script_scheme \<Rightarrow> nat \<Rightarrow> nat \<Rightarrow> bool" where
  "wanted_by s i k \<longleftrightarrow> (\<exists>inp\<in>set (body_inputs s k). wants (mods s) (pieces s ! i) inp)"

lemma fold_assign_dealt:
  assumes "dealt s" and "\<forall>k\<in>set ks. k < length (sects s)"
  shows "dealt (fold assign_section ks s) \<and> same_script s (fold assign_section ks s) \<and>
    (\<forall>j. body_inputs (fold assign_section ks s) j = body_inputs s j) \<and>
    (\<forall>i<length (pieces s). pc_sect (pieces (fold assign_section ks s) ! i) =
       or_else (pc_sect (pieces s ! i)) (List.find (wanted_by s i) ks))"
  using assms
proof (induction ks arbitrary: s)
  case Nil
  then show ?case by (simp add: same_script_refl)
next
  case (Cons k ks)
  let ?u = "assign_section k s"
  have k: "k < length (sects s)" using Cons.prems by simp
  note a = assign_section_dealt [OF Cons.prems(1) k]
  have l: "length (sects ?u) = length (sects s)" "length (pieces ?u) = length (pieces s)"
    using a(2) by (simp_all add: same_script_def)
  have "wanted_by ?u i = wanted_by s i" if "i < length (pieces s)" for i
  proof -
    have "wants (mods ?u) (pieces ?u ! i) = wants (mods s) (pieces s ! i)"
      using a(2) that wants_same [of "pieces ?u ! i" "pieces s ! i"] by (simp add: same_script_def)
    then show ?thesis by (simp only: wanted_by_def a(3) fun_eq_iff) simp
  qed
  moreover have "pc_sect (pieces ?u ! i) = or_else (pc_sect (pieces s ! i)) (if wanted_by s i k then Some k else None)"
    if "i < length (pieces s)" for i
    using a(4) [OF that] by (simp add: wanted_by_def)
  ultimately show ?case
    using Cons.IH [OF a(1)] Cons.prems(2) l a(2,3) same_script_trans [OF a(2)] by auto
qed

lemma allfiles_inputs: "allfiles sts \<longleftrightarrow> (\<exists>inp\<in>set (inputs sts). fst inp = Some (bytes_of ''*''))"
  by (induction sts rule: inputs.induct) auto

lemma inputs_append: "inputs (xs @ ys) = inputs xs @ inputs ys"
  by (induction xs rule: inputs.induct) auto

lemma stmt_pieces_append: "stmt_pieces (xs @ ys) = stmt_pieces xs @ stmt_pieces ys"
  by (induction xs rule: stmt_pieces.induct) auto

text \<open>The section for orphans depends on the kinds of the sections and on their patterns only.\<close>

definition orphan_view :: "osect \<Rightarrow> bool \<times> bool \<times> bool" where
  "orphan_view sect = (datapart sect, noload sect, allfiles (os_body sect))"

lemma find_nth_cong: "(\<And>i. i \<in> set is \<Longrightarrow> P (xs ! i) = Q (ys ! i)) \<Longrightarrow>
    List.find (\<lambda>i. P (xs ! i)) is = List.find (\<lambda>i. Q (ys ! i)) is"
  by (induction "is") auto

lemma orphan_section_cong:
  assumes "length ys = length xs" and "\<And>i. i < length xs \<Longrightarrow> orphan_view (ys ! i) = orphan_view (xs ! i)"
  shows "orphan_section part ys = orphan_section part xs"
proof -
  have "part_section p ys = part_section p xs" for p
    unfolding part_section_def find_index_def last_index_def assms(1)
    using assms(2) by (intro arg_cong2 [of _ _ _ _ or_else] find_nth_cong) (auto simp: orphan_view_def)
  then show ?thesis by (simp add: orphan_section_def)
qed

lemma orphan_section_range: "orphan_section part secs = Some k \<Longrightarrow> k < length secs"
proof -
  have f: "List.find P xs = Some i \<Longrightarrow> i \<in> set xs" for P xs and i :: nat
    by (auto simp: find_Some_iff)
  have o: "or_else x y = Some k \<Longrightarrow> x = Some k \<or> y = Some k" for x y by (cases x) auto
  have p: "part_section p secs = Some k \<Longrightarrow> k < length secs" for p
    by (auto simp: part_section_def find_index_def last_index_def dest!: o f)
  assume "orphan_section part secs = Some k"
  then show ?thesis by (auto simp: orphan_section_def dest!: o p)
qed

lemma place_orphans_dealt:
  assumes p: "place_orphans part is s = Inr t" and d: "dealt s" and n: "distinct is"
    and new: "set is \<subseteq> {i. i < length (pieces s) \<and> pc_sect (pieces s ! i) = None}"
  shows "dealt t \<and> same_script s t \<and>
    (\<forall>i<length (pieces s). pc_sect (pieces t ! i) =
       (if i \<in> set is then orphan_section part (sects s) else pc_sect (pieces s ! i))) \<and>
    (\<forall>part'. orphan_section part' (sects t) = orphan_section part' (sects s)) \<and>
    (is \<noteq> [] \<longrightarrow> orphan_section part (sects s) \<noteq> None)"
proof (cases "is = []")
  case True
  with p d show ?thesis by (auto simp: place_orphans_def same_script_refl)
next
  case False
  with p obtain k where k: "orphan_section part (sects s) = Some k" by (auto simp: place_orphans_def split: option.splits)
  let ?body = "os_body (sects s ! k) @ [S_INPUT (sc_line s) False None [] is]"
  from p False k have t: "sects t = (sects s)[k := (sects s ! k)\<lparr>os_body := ?body\<rparr>]"
      "pieces t = give k is (pieces s)" "mods t = mods s" "top_stmts t = top_stmts s"
    by (auto simp: place_orphans_def upd_sect_def split: if_splits)
  have r: "k < length (sects s)" using k by (rule orphan_section_range)
  have "set is \<subseteq> {..<length (pieces s)}" using new by auto
  from nth_give [OF this, of k] have q: "pieces t ! i = (if i \<in> set is then (pieces s ! i)\<lparr>pc_sect := Some k\<rparr> else pieces s ! i)" for i
    by (simp add: t)
  have l: "length (pieces t) = length (pieces s)" by (simp add: t)
  have "mset (stmt_pieces ?body) = mset (stmt_pieces (os_body (sects s ! k))) + mset_set (set is)"
    using n by (simp add: stmt_pieces_append mset_set_set)
  with d r new t(1) l q have "dealt t" by (rule dealt_give)
  moreover have "same_script s t" using r l q by (simp add: same_script_def t nth_list_update)
  moreover have "orphan_section part' (sects t) = orphan_section part' (sects s)" for part'
    using r by (intro orphan_section_cong)
       (simp_all add: t orphan_view_def nth_list_update allfiles_inputs inputs_append)
  ultimately show ?thesis using q k by simp
qed

text \<open>
  A layout starts with pieces that no section has, and with statements that have
  no pieces.
\<close>

definition fresh :: "'a script_scheme \<Rightarrow> bool" where
  "fresh s \<longleftrightarrow>
     (\<forall>pc\<in>set (pieces s). pc_sect pc = None) \<and> (\<forall>sect\<in>set (sects s). stmt_pieces (os_body sect) = []) \<and>
     (\<forall>k\<in>set (section_stmts (top_stmts s)). k < length (sects s))"

lemma fresh_dealt: "fresh s \<Longrightarrow> dealt s"
proof -
  assume f: "fresh s"
  then have n: "pc_sect (pieces s ! i) = None" if "i < length (pieces s)" for i
    using that by (auto simp: fresh_def)
  then have e: "{i. i < length (pieces s) \<and> pc_sect (pieces s ! i) = Some k} = {}" for k by auto
  from f n show ?thesis unfolding dealt_def e by (auto simp: fresh_def)
qed

lemma orphans_dealt:
  assumes o: "orphans s = Inr t" and d: "dealt s"
  shows "dealt t \<and> same_script s t \<and>
    (\<forall>i<length (pieces s). pc_sect (pieces t ! i) \<noteq> None \<and> pc_sect (pieces t ! i) =
       or_else (pc_sect (pieces s ! i)) (orphan_section (2 \<le> pc_seg (pieces s ! i)) (sects s)))"
proof -
  have n: "distinct (orphan_pieces part ps)" for part ps by (simp add: orphan_pieces_def)
  have two: ?thesis if "place_orphans part (orphan_pieces part (pieces s)) s = Inr u"
      "place_orphans (\<not> part) (orphan_pieces (\<not> part) (pieces s)) u = Inr t" for part and u
  proof -
    have "set (orphan_pieces part (pieces s)) \<subseteq> {i. i < length (pieces s) \<and> pc_sect (pieces s ! i) = None}"
      by (auto simp: orphan_pieces_def)
    note a = place_orphans_dealt [OF that(1) d n this]
    have l: "length (pieces u) = length (pieces s)" using a by (simp add: same_script_def)
    have "set (orphan_pieces (\<not> part) (pieces s)) \<subseteq> {i. i < length (pieces u) \<and> pc_sect (pieces u ! i) = None}"
      using a l by (auto simp: orphan_pieces_def)
    note b = place_orphans_dealt [OF that(2) conjunct1 [OF a] n this]
    have "pc_sect (pieces t ! i) \<noteq> None \<and> pc_sect (pieces t ! i) =
        or_else (pc_sect (pieces s ! i)) (orphan_section (2 \<le> pc_seg (pieces s ! i)) (sects s))" if "i < length (pieces s)" for i
    proof (cases "pc_sect (pieces s ! i) = None")
      case True
      with that have "i \<in> set (orphan_pieces (2 \<le> pc_seg (pieces s ! i)) (pieces s))"
        by (simp add: orphan_pieces_def)
      moreover from this have "orphan_pieces (2 \<le> pc_seg (pieces s ! i)) (pieces s) \<noteq> []" by auto
      moreover have "i \<in> set (orphan_pieces part (pieces s)) \<longrightarrow> i \<notin> set (orphan_pieces (\<not> part) (pieces s))"
        by (simp add: orphan_pieces_def)
      ultimately show ?thesis
        using a b that l True by (cases "part = (2 \<le> pc_seg (pieces s ! i))") auto
    next
      case False
      with that have "i \<notin> set (orphan_pieces p (pieces s))" for p by (simp add: orphan_pieces_def)
      with a b that l False show ?thesis by auto
    qed
    with a b same_script_trans show ?thesis by blast
  qed
  show ?thesis
    using o two [of False] two [of True] unfolding orphans_def Let_def
    by (auto simp: bindE_Inr_iff split: if_splits)
qed


lemma dealing:
  assumes "fresh s" and "orphans (fold assign_section (section_stmts (top_stmts s)) s) = Inr t"
  shows "dealt t \<and> same_script s t \<and>
    (\<forall>i<length (pieces s). pc_sect (pieces t ! i) \<noteq> None \<and> pc_sect (pieces t ! i) =
       or_else (List.find (wanted_by s i) (section_stmts (top_stmts s)))
         (orphan_section (2 \<le> pc_seg (pieces s ! i)) (sects s)))"
proof -
  let ?ks = "section_stmts (top_stmts s)" and ?u = "fold assign_section (section_stmts (top_stmts s)) s"
  have k: "\<forall>k\<in>set ?ks. k < length (sects s)" using assms(1) by (simp add: fresh_def)
  note a = fold_assign_dealt [OF fresh_dealt [OF assms(1)] k]
  note b = orphans_dealt [OF assms(2) conjunct1 [OF a]]
  have same: "same_script s ?u" and l: "length (pieces ?u) = length (pieces s)"
    using a by (simp_all add: same_script_def)
  have "orphan_section p (sects ?u) = orphan_section p (sects s)" for p
  proof (rule orphan_section_cong)
    show "length (sects ?u) = length (sects s)" using same by (simp add: same_script_def)
    fix i assume "i < length (sects s)"
    have e: "(sects ?u ! i)\<lparr>os_body := []\<rparr> = (sects s ! i)\<lparr>os_body := []\<rparr>" "body_inputs ?u i = body_inputs s i"
      using same a by (simp_all add: same_script_def)
    then have "datapart (sects ?u ! i) = datapart (sects s ! i)" "noload (sects ?u ! i) = noload (sects s ! i)"
      by (cases "sects ?u ! i"; cases "sects s ! i"; simp)+
    with e(2) show "orphan_view (sects ?u ! i) = orphan_view (sects s ! i)"
      by (simp add: orphan_view_def allfiles_inputs body_inputs_def)
  qed
  moreover have "pc_seg (pieces ?u ! i) = pc_seg (pieces s ! i) \<and> pc_sect (pieces s ! i) = None"
    if "i < length (pieces s)" for i
  proof -
    have "(pieces ?u ! i)\<lparr>pc_sect := None\<rparr> = (pieces s ! i)\<lparr>pc_sect := None\<rparr>"
      using same that by (simp add: same_script_def)
    then have "pc_seg (pieces ?u ! i) = pc_seg (pieces s ! i)"
      by (cases "pieces ?u ! i"; cases "pieces s ! i"; simp)
    with assms(1) that show ?thesis by (auto simp: fresh_def)
  qed
  ultimately have "pc_sect (pieces t ! i) \<noteq> None \<and> pc_sect (pieces t ! i) =
       or_else (List.find (wanted_by s i) (section_stmts (top_stmts s)))
         (orphan_section (2 \<le> pc_seg (pieces s ! i)) (sects s))" if "i < length (pieces s)" for i
    using a b l that by (metis or_else_simps(1))
  with b same_script_trans [OF same] show ?thesis by blast
qed


text \<open>A module with four bytes in segment 0 and two in segment 3, and a script of two sections.\<close>

definition sample_module :: modstruct where
  "sample_module =
     \<lparr>filename = bytes_of ''a.o'', archentry = None, modname = bytes_of ''a'', textoffset = 0, mclass = 0,
      loadflag = True, segmaxsize = [0x55, 0x55, 0x55, 0x55], segsizedesc = [0, 0, 0, 0x41], symparray = [],
      segaddr = (\<lambda>_. 0), comaddr = (\<lambda>_. 0), comsize = (\<lambda>_. 0), segfadj = (\<lambda>_. 0),
      segpad = (\<lambda>_. 0), segfill = (\<lambda>_. 0), segnoload = (\<lambda>_. False), segsize = [4, 2]\<rparr>"

definition sample_sect :: "string \<Rightarrow> sexpr option \<Rightarrow> stmt list \<Rightarrow> bool \<Rightarrow> osect" where
  "sample_sect n a body data =
     \<lparr>os_name = bytes_of n, os_line = 1, os_addr = a, os_at = None, os_align = None, os_subalign = None,
      os_body = body, datapart = data, noload = False, os_region = None, lmaregion = None, fillexpr = None,
      os_sub = 0, vma = 0, lma = 0, os_size = 0, pvma = 0, plma = 0, psize = 0\<rparr>"

definition sample_script :: script where
  "sample_script = script_start\<lparr>
     mods := [sample_module],
     top_stmts := [S_SECTION 1 0, S_SECTION 2 1],
     sects :=
       [sample_sect ''.text'' (Some (X_NUM 1 0x100)) [S_INPUT 1 False (Some (bytes_of ''*'')) [bytes_of ''LOC0''] []] False,
        sample_sect ''.data'' None
          [S_ONEPAGE 2 [S_INPUT 2 False (Some (bytes_of ''a.?'')) [bytes_of ''LOC3''] []], S_DATA 2 1 (X_NUM 2 7)] True]\<rparr>"

definition sample_pieces :: script where
  "sample_pieces = sample_script\<lparr>pieces := input_pieces (mods sample_script)\<rparr>"



end
