(* ===== verification/Script_Props.thy ===== *)
theory Script_Props
  imports Script_Deal
begin

text \<open>
  The whole layout: the final checks accept exactly the layouts that fit the
  memory, and a layout that is accepted puts every piece into its section, gives
  its address to its module, and lets no two pieces share an address.
\<close>

section \<open>The checks\<close>

text \<open>Two intervals without a common address.\<close>

definition apart :: "int \<Rightarrow> int \<Rightarrow> int \<Rightarrow> int \<Rightarrow> bool" where
  "apart a n b m \<longleftrightarrow> a + n \<le> b \<or> b + m \<le> a"

definition inside :: "osect \<Rightarrow> int \<Rightarrow> region \<Rightarrow> bool" where
  "inside sect a r \<longleftrightarrow> rg_org r \<le> a \<and> a + os_size sect \<le> rg_org r + rg_len r"

definition fits_memory :: "'a script_scheme \<Rightarrow> osect \<Rightarrow> bool" where
  "fits_memory s a \<longleftrightarrow>
     0 \<le> vma a \<and> vma a + os_size a \<le> 0x10000 \<and> 0 \<le> lma a \<and> lma a + os_size a \<le> 0x10000 \<and>
     (\<forall>r. os_region a = Some r \<longrightarrow> inside a (vma a) (regions s ! r)) \<and>
     (\<forall>r. lmaregion a = Some r \<longrightarrow> inside a (lma a) (regions s ! r)) \<and>
     (binary_output s \<or> lma a = vma a)"

definition no_clash :: "'a script_scheme \<Rightarrow> osect \<Rightarrow> osect \<Rightarrow> bool" where
  "no_clash s a b \<longleftrightarrow> os_size a = 0 \<or> os_size b = 0 \<or>
     ((datapart a = datapart b \<or> \<not> sepid_option s) \<longrightarrow> apart (vma a) (os_size a) (vma b) (os_size b)) \<and>
     (binary_output s \<and> \<not> noload a \<and> \<not> noload b \<longrightarrow> apart (lma a) (os_size a) (lma b) (os_size b))"

definition layout_legal :: "'a script_scheme \<Rightarrow> bool" where
  "layout_legal s \<longleftrightarrow>
     (\<forall>a\<in>set (sects s). fits_memory s a) \<and>
     (\<forall>i j. i < j \<and> j < length (sects s) \<longrightarrow> no_clash s (sects s ! i) (sects s ! j))"

text \<open>Numbers far from the ends of \<^verbatim>\<open>long\<close>.\<close>

definition moderate :: "int \<Rightarrow> bool" where
  "moderate i \<longleftrightarrow> - (2 ^ 62) \<le> i \<and> i < 2 ^ 62"

definition moderate_layout :: "'a script_scheme \<Rightarrow> bool" where
  "moderate_layout s \<longleftrightarrow>
     (\<forall>a\<in>set (sects s). 0 \<le> os_size a \<and> moderate (os_size a) \<and> moderate (lma a)) \<and>
     (\<forall>a\<in>set (sects s). \<forall>r. os_region a = Some r \<or> lmaregion a = Some r \<longrightarrow>
        moderate (rg_org (regions s ! r)) \<and> moderate (rg_len (regions s ! r)) \<and> 0 \<le> rg_len (regions s ! r)) \<and>
     (\<forall>a\<in>set (sects s). moderate (vma a))"

lemma long_moderate: "moderate a \<Longrightarrow> moderate b \<Longrightarrow> long (a + b) = Inr (a + b)"
  by (simp add: moderate_def long_def)

lemma all_pass_iff: "all_pass cs = Inr () \<longleftrightarrow> (\<forall>c\<in>set cs. c = Inr ())"
  by (induction cs) (auto simp: bindE_Inr_iff)

lemma require_iff [simp]: "require b msg = Inr () \<longleftrightarrow> b"
  by (simp add: require_def)

lemma bind_unit_iff: "bindE m (\<lambda>_. n) = Inr () \<longleftrightarrow> m = Inr () \<and> n = Inr ()" for m :: "stop + unit"
  by (auto simp: bindE_Inr_iff)

lemma inregion_iff:
  assumes "0 \<le> os_size sect" "moderate (os_size sect)" "moderate a" "moderate (rg_org r)" "moderate (rg_len r)" "0 \<le> rg_len r"
  shows "inregion sect a r = Inr () \<longleftrightarrow> inside sect a r"
  using assms by (simp add: inregion_def long_moderate bind_unit_iff inside_def) linarith

lemma check_load_iff:
  assumes "moderate (os_size b)" "moderate (lma b)"
  shows "check_load s a b = Inr () \<longleftrightarrow>
    \<not> (os_size b \<noteq> 0 \<and> binary_output s \<and> \<not> noload a \<and> \<not> noload b) \<or> apart (lma a) (os_size a) (lma b) (os_size b)"
  using assms by (auto simp: check_load_def long_moderate apart_def)

lemma check_section_iff:
  assumes m: "moderate_layout s" and a: "a \<in> set (sects s)" and later: "set later \<subseteq> set (sects s)"
  shows "check_section s a later = Inr () \<longleftrightarrow> fits_memory s a \<and> (\<forall>b\<in>set later. no_clash s a b)"
proof -
  have sz: "0 \<le> os_size a" "moderate (os_size a)" "moderate (lma a)" "moderate (vma a)"
    using m a by (auto simp: moderate_layout_def)
  have r1: "(case os_region a of None \<Rightarrow> Inr () | Some r \<Rightarrow> inregion a (vma a) (regions s ! r)) = Inr () \<longleftrightarrow>
      (\<forall>r. os_region a = Some r \<longrightarrow> inside a (vma a) (regions s ! r))"
    using m a sz by (cases "os_region a") (auto simp: moderate_layout_def inregion_iff)
  have r2: "(case lmaregion a of None \<Rightarrow> Inr () | Some r \<Rightarrow> inregion a (lma a) (regions s ! r)) = Inr () \<longleftrightarrow>
      (\<forall>r. lmaregion a = Some r \<longrightarrow> inside a (lma a) (regions s ! r))"
    using m a sz by (cases "lmaregion a") (auto simp: moderate_layout_def inregion_iff)
  have l: "(check_load s a b = Inr () \<and> \<not> address_overlap s a b) \<or> os_size a = 0 \<longleftrightarrow> no_clash s a b" if "b \<in> set later" for b
  proof -
    have "b \<in> set (sects s)" using that later by auto
    then have "moderate (os_size b)" "moderate (lma b)" using m by (auto simp: moderate_layout_def)
    from check_load_iff [OF this] show ?thesis
      by (auto simp: no_clash_def address_overlap_def apart_def)
  qed
  have "fits_memory s a \<longleftrightarrow>
      \<not> (vma a < 0 \<or> 0x10000 < vma a + os_size a) \<and> \<not> lma a < 0 \<and> \<not> 0x10000 < lma a + os_size a \<and>
      (\<forall>r. os_region a = Some r \<longrightarrow> inside a (vma a) (regions s ! r)) \<and>
      (\<forall>r. lmaregion a = Some r \<longrightarrow> inside a (lma a) (regions s ! r)) \<and> \<not> (lma a \<noteq> vma a \<and> \<not> binary_output s)"
    by (auto simp: fits_memory_def)
  with l show ?thesis
    unfolding check_section_def all_pass_iff
    by (simp add: r1 r2 bind_unit_iff long_moderate [OF sz(3,2)] ball_Un) blast
qed

lemma check_sections_iff:
  assumes "moderate_layout s"
  shows "set secs \<subseteq> set (sects s) \<Longrightarrow> check_sections s secs = Inr () \<longleftrightarrow>
    (\<forall>a\<in>set secs. fits_memory s a) \<and> (\<forall>i j. i < j \<and> j < length secs \<longrightarrow> no_clash s (secs ! i) (secs ! j))"
proof (induction secs)
  case (Cons a secs)
  have "(\<forall>i j. i < j \<and> j < length (a # secs) \<longrightarrow> no_clash s ((a # secs) ! i) ((a # secs) ! j)) \<longleftrightarrow>
      (\<forall>b\<in>set secs. no_clash s a b) \<and> (\<forall>i j. i < j \<and> j < length secs \<longrightarrow> no_clash s (secs ! i) (secs ! j))"
    (is "?l \<longleftrightarrow> ?r")
  proof
    assume l: ?l
    have "no_clash s a (secs ! j)" if "j < length secs" for j using l [rule_format, of 0 "Suc j"] that by simp
    moreover have "no_clash s (secs ! i) (secs ! j)" if "i < j" "j < length secs" for i j
      using l [rule_format, of "Suc i" "Suc j"] that by simp
    ultimately show ?r by (auto simp: in_set_conv_nth)
  next
    assume r: ?r
    show ?l
    proof (intro allI impI)
      fix i j assume "i < j \<and> j < length (a # secs)"
      with r show "no_clash s ((a # secs) ! i) ((a # secs) ! j)"
        by (cases i; cases j) auto
    qed
  qed
  with Cons check_section_iff [OF assms, of a secs] show ?case by (auto simp: bind_unit_iff)
qed simp

text \<open>A layout that passes is legal, whatever its numbers: an overflow does not pass.\<close>

lemma inregion_sound: "inregion sect a r = Inr () \<Longrightarrow> inside sect a r"
  by (auto simp: inregion_def inside_def bindE_Inr_iff dest!: long_Inr)

lemma check_load_sound:
  "check_load s a b = Inr () \<Longrightarrow>
    \<not> (os_size b \<noteq> 0 \<and> binary_output s \<and> \<not> noload a \<and> \<not> noload b) \<or> apart (lma a) (os_size a) (lma b) (os_size b)"
  by (auto simp: check_load_def bindE_Inr_iff apart_def dest!: long_Inr split: if_splits)

lemma check_section_sound:
  assumes "check_section s a later = Inr ()"
  shows "fits_memory s a" and "b \<in> set later \<Longrightarrow> no_clash s a b"
proof -
  note c = assms [unfolded check_section_def all_pass_iff]
  have "0 \<le> vma a \<and> vma a + os_size a \<le> 0x10000" "binary_output s \<or> lma a = vma a" using c by auto
  moreover have "bindE (require (\<not> lma a < 0) ''section's load address goes past $FFFF'') (\<lambda>_.
      bindE (long (lma a + os_size a)) (\<lambda>end. require (\<not> 0x10000 < end) ''section's load address goes past $FFFF'')) = Inr ()"
    using c by (simp only: set_append list.set) blast
  then have "0 \<le> lma a \<and> lma a + os_size a \<le> 0x10000" by (auto simp: bindE_Inr_iff dest!: long_Inr)
  moreover have "(case os_region a of None \<Rightarrow> Inr () | Some r \<Rightarrow> inregion a (vma a) (regions s ! r)) = Inr ()"
    "(case lmaregion a of None \<Rightarrow> Inr () | Some r \<Rightarrow> inregion a (lma a) (regions s ! r)) = Inr ()"
    using c by (simp_all only: set_append list.set) blast+
  ultimately show "fits_memory s a"
    by (auto simp: fits_memory_def intro: inregion_sound)
  assume b: "b \<in> set later"
  show "no_clash s a b"
  proof (cases "os_size a = 0")
    case False
    with b c have "check_load s a b = Inr ()" "\<not> address_overlap s a b" by (auto simp: ball_Un)
    with check_load_sound show ?thesis
      by (auto simp: no_clash_def address_overlap_def apart_def)
  qed (simp add: no_clash_def)
qed

lemma check_sections_sound:
  "check_sections s secs = Inr () \<Longrightarrow>
    (\<forall>a\<in>set secs. fits_memory s a) \<and> (\<forall>i j. i < j \<and> j < length secs \<longrightarrow> no_clash s (secs ! i) (secs ! j))"
proof (induction secs)
  case (Cons a secs)
  then have c: "check_section s a secs = Inr ()" and r: "check_sections s secs = Inr ()"
    by (auto simp: bind_unit_iff)
  have "no_clash s ((a # secs) ! i) ((a # secs) ! j)" if "i < j \<and> j < length (a # secs)" for i j
    using that Cons.IH [OF r] check_section_sound(2) [OF c] by (cases i; cases j) auto
  with Cons.IH [OF r] check_section_sound(1) [OF c] show ?case by auto
qed simp

lemma checks_sound: "checks s = Inr () \<Longrightarrow> layout_legal s"
  by (auto simp: checks_def layout_legal_def dest: check_sections_sound)

text \<open>
  C28: the final checks of a layout pass only when every section lies in the
  address space of 64 KB and in the memory regions it names, for its addresses and
  for its load addresses, and no two sections that are not empty overlap: in
  addresses, unless instructions and data are separate and the sections are of
  different kinds, and in load addresses, for the sections a binary image holds.
  They do pass in that case when the numbers are far from the ends of \<^verbatim>\<open>long\<close>.
\<close>

theorem checks_legal:
  "(checks s = Inr () \<longrightarrow> layout_legal s) \<and> (moderate_layout s \<and> layout_legal s \<longrightarrow> checks s = Inr ())"
  by (simp add: checks_sound) (simp add: checks_def check_sections_iff layout_legal_def)

definition sample_laid :: script where
  "sample_laid = script_start\<lparr>
     regions := [\<lparr>rg_name = bytes_of ''rom'', rg_attr = None, rg_line = 1, rg_origin = X_NUM 1 0x100,
       rg_length = X_NUM 1 0x80, rg_org = 0x100, rg_len = 0x80, rg_cursor = 0x100\<rparr>],
     sects :=
       [(sample_sect ''.text'' None [] False)\<lparr>vma := 0x100, lma := 0x100, os_size := 4, os_region := Some 0\<rparr>,
        (sample_sect ''.data'' None [] True)\<lparr>vma := 0x104, lma := 0x104, os_size := 3\<rparr>]\<rparr>"

theorem checks_legal_witness:
  "moderate_layout sample_laid \<and> checks sample_laid = Inr () \<and> layout_legal sample_laid"
proof -
  have "moderate_layout sample_laid"
    by (simp add: moderate_layout_def sample_laid_def sample_sect_def moderate_def)
  moreover have "layout_legal sample_laid"
    unfolding layout_legal_def
  proof (intro conjI allI impI)
    show "\<forall>a\<in>set (sects sample_laid). fits_memory sample_laid a"
      by (simp add: sample_laid_def sample_sect_def script_start_def fits_memory_def inside_def)
    fix i j assume "i < j \<and> j < length (sects sample_laid)"
    then have "i = 0 \<and> j = 1" by (auto simp: sample_laid_def)
    then show "no_clash sample_laid (sects sample_laid ! i) (sects sample_laid ! j)"
      by (simp add: sample_laid_def sample_sect_def no_clash_def apart_def)
  qed
  ultimately show ?thesis using checks_legal [of sample_laid] by blast
qed


end
