(* ===== verification/Script_Sound.thy ===== *)
theory Script_Sound
  imports Script_Props
begin

text \<open>
  Soundness of the whole layout: after the last pass every section holds its
  pieces, its data and its filled gaps one after the other, every module has the
  addresses of its pieces, and with the final checks no two pieces overlap.
\<close>

section \<open>A section that has been laid out\<close>

definition sect_extras :: "nat \<Rightarrow> 'a script_scheme \<Rightarrow> extra list" where
  "sect_extras k s = filter (\<lambda>x. ex_sect x = Some k) (extras s)"

definition sect_pieces :: "nat \<Rightarrow> 'a script_scheme \<Rightarrow> nat list" where
  "sect_pieces k s = stmt_pieces (os_body (sects s ! k))"

definition section_laid :: "'a script_scheme \<Rightarrow> nat \<Rightarrow> bool" where
  "section_laid s k \<longleftrightarrow>
     (let sect = sects s ! k in
      0 < os_sub sect \<and> (\<forall>i\<in>set (sect_pieces k s). addressed s i) \<and>
      (\<exists>xs. tiled (vma sect) (vma sect + os_size sect) xs \<and>
         mset xs = mset (map (\<lambda>i. piece_span (os_sub sect) (pieces s ! i)) (sect_pieces k s)) +
           mset (map extra_span (sect_extras k s))))"

lemma section_laid_cong:
  assumes "section_laid s k" and "sects t ! k = sects s ! k" and "sect_extras k t = sect_extras k s"
    and "\<And>i. i \<in> set (sect_pieces k s) \<Longrightarrow> piece_span (os_sub (sects s ! k)) (pieces t ! i) = piece_span (os_sub (sects s ! k)) (pieces s ! i)"
    and "\<And>i. i \<in> set (sect_pieces k s) \<Longrightarrow> addressed s i \<Longrightarrow> addressed t i"
  shows "section_laid t k"
proof -
  have p: "sect_pieces k t = sect_pieces k s" by (simp add: sect_pieces_def assms(2))
  have "map (\<lambda>i. piece_span (os_sub (sects s ! k)) (pieces t ! i)) (sect_pieces k s) =
      map (\<lambda>i. piece_span (os_sub (sects s ! k)) (pieces s ! i)) (sect_pieces k s)"
    by (rule map_cong [OF refl]) (rule assms(4))
  note e = arg_cong [OF this, of mset]
  show ?thesis
    using assms(1,5) unfolding section_laid_def Let_def assms(2,3) p e by blast
qed

text \<open>
  Before and between the sections of a pass: the pieces are dealt, the sections
  done so far are laid out, and only they have extras.
\<close>

definition lay_inv :: "nat set \<Rightarrow> 'a script_scheme \<Rightarrow> bool" where
  "lay_inv D s \<longleftrightarrow>
     pieces_ok s \<and> dealt s \<and> (\<forall>k\<in>D. k < length (sects s) \<and> section_laid s k) \<and>
     (\<forall>x\<in>set (extras s). \<exists>k\<in>D. ex_sect x = Some k)"

lemma lay_inv_pieces:
  assumes "lay_inv D s" and "k < length (sects s)"
  shows "placeable (sect_pieces k s) s" and "set (sect_pieces k s) = {i. i < length (pieces s) \<and> pc_sect (pieces s ! i) = Some k}"
proof -
  let ?P = "{i. i < length (pieces s) \<and> pc_sect (pieces s ! i) = Some k}"
  have m: "mset (sect_pieces k s) = mset_set ?P"
    using assms by (simp add: lay_inv_def dealt_def sect_pieces_def)
  then have "set_mset (mset (sect_pieces k s)) = set_mset (mset_set ?P)" by (rule arg_cong)
  then show e: "set (sect_pieces k s) = ?P" by simp
  have "finite ?P" by simp
  then have "mset (sorted_list_of_set ?P) = mset_set ?P"
    using mset_set_set [OF distinct_sorted_list_of_set, of ?P] by (simp only: set_sorted_list_of_set)
  with m have "distinct (sect_pieces k s)"
    using mset_eq_imp_distinct_iff [of "sect_pieces k s" "sorted_list_of_set ?P"] by simp
  with assms(1) e show "placeable (sect_pieces k s) s" by (auto simp: placeable_def lay_inv_def)
qed

text \<open>Steps that change neither pieces nor sections nor modules.\<close>

lemma lay_inv_same:
  assumes "lay_inv D s" and "pieces t = pieces s" "sects t = sects s" "mods t = mods s" "extras t = extras s"
  shows "lay_inv D t"
proof -
  have "addressed t = addressed s" by (rule ext) (simp add: addressed_def assms)
  then have "section_laid t k" if "section_laid s k" for k
    using that assms by (intro section_laid_cong [OF that]) (simp_all add: sect_extras_def)
  with assms show ?thesis by (simp add: lay_inv_def pieces_ok_def dealt_def)
qed

section \<open>Laying out one section\<close>

lemma align_pos: "align_to 1 n = Inr m \<Longrightarrow> 0 < m"
proof -
  assume a: "align_to 1 n = Inr m"
  then have n: "0 < n" "n AND (n - 1) = 0" and m: "m = n AND NOT (n - 1)"
    by (auto simp: align_to_def bindE_Inr_iff dest!: long_Inr split: if_splits)
  have "n AND NOT (n - 1) = n"
  proof (rule bit_eqI)
    fix b
    have "\<not> bit (n AND (n - 1)) b" by (simp add: n)
    then show "bit (n AND NOT (n - 1)) b = bit n b" by (auto simp: bit_simps)
  qed
  with m n show ?thesis by simp
qed

lemma section_sub_pos: "section_sub sect s = Inr m \<Longrightarrow> 0 < m"
  by (auto simp: section_sub_def bindE_Inr_iff split: option.splits intro: align_pos)

text \<open>What the layout of a section starts its walk from, and what it does with the result.\<close>

lemma layout_sectionE:
  assumes "layout_section k s0 = Inr t"
  obtains start sub load fill s3 where "0 < sub"
    and "walk sub (os_body (sects s0 ! k))
           ((upd_sect k (\<lambda>sect. sect\<lparr>lma := load\<rparr>)
               (upd_sect k (\<lambda>sect. sect\<lparr>os_sub := sub, vma := start\<rparr>) (s0\<lparr>cursect := Some k\<rparr>)))
             \<lparr>curfill := fill, dot := start\<rparr>) = Inr s3"
    and "sects t = (sects s3)[k := (sects s3 ! k)\<lparr>os_size := dot s3 - start\<rparr>]"
    and "pieces t = pieces s3" and "mods t = mods s3" and "extras t = extras s3"
    and "length (regions t) = length (regions s3)" and "top_stmts t = top_stmts s3"
proof -
  have r: "sects (raise_cursor r a s) = sects s" "pieces (raise_cursor r a s) = pieces s"
      "mods (raise_cursor r a s) = mods s" "extras (raise_cursor r a s) = extras s"
      "length (regions (raise_cursor r a s)) = length (regions s)" "top_stmts (raise_cursor r a s) = top_stmts s"
    for r a and s :: "'a script_scheme"
    by (cases r; simp add: raise_cursor_def upd_region_def)+
  let ?s = "s0\<lparr>cursect := Some k\<rparr>" and ?sect = "sects s0 ! k"
  from assms obtain start sub load fill s3 n where sub: "section_sub ?sect ?s = Inr sub"
    and w: "walk sub (os_body ?sect)
        ((upd_sect k (\<lambda>sect. sect\<lparr>lma := load\<rparr>) (upd_sect k (\<lambda>sect. sect\<lparr>os_sub := sub, vma := start\<rparr>) ?s))
           \<lparr>curfill := fill, dot := start\<rparr>) = Inr s3"
    and n: "long (dot s3 - start) = Inr n"
    and t: "t = (raise_cursor (lmaregion ?sect) (load + n) (raise_cursor (os_region ?sect) (start + n)
        (upd_sect k (\<lambda>sect. sect\<lparr>os_size := n\<rparr>) s3)))\<lparr>cursect := None\<rparr>"
    by (auto simp: layout_section_def Let_def elim!: bindE_InrE)
  show ?thesis
    using w long_Inr [OF n] by (intro that [OF section_sub_pos [OF sub] w]) (simp_all add: t r upd_sect_def)
qed

lemma addressed_cong:
  assumes "pieces t = pieces s" "mods t = mods s" "\<And>k. noload (sects t ! k) = noload (sects s ! k)"
  shows "addressed t i = addressed s i"
  by (simp add: addressed_def assms)

text \<open>The fields of a section that a layout pass does not change.\<close>

definition sect_fixed :: "osect \<Rightarrow> osect" where
  "sect_fixed sect = sect\<lparr>os_sub := 0, vma := 0, lma := 0, os_size := 0, pvma := 0, plma := 0, psize := 0\<rparr>"

lemma sect_fixed_simps:
  "sect_fixed a = sect_fixed b \<Longrightarrow> os_body a = os_body b \<and> noload a = noload b \<and> datapart a = datapart b \<and> os_name a = os_name b"
  by (cases a; cases b) (simp add: sect_fixed_def)

definition same_parts :: "'a script_scheme \<Rightarrow> 'a script_scheme \<Rightarrow> bool" where
  "same_parts s t \<longleftrightarrow>
     length (sects t) = length (sects s) \<and> (\<forall>k. sect_fixed (sects t ! k) = sect_fixed (sects s ! k)) \<and>
     top_stmts t = top_stmts s \<and> length (pieces t) = length (pieces s) \<and>
     (\<forall>i. (pieces t ! i)\<lparr>pc_vma := 0, pc_pvma := 0\<rparr> = (pieces s ! i)\<lparr>pc_vma := 0, pc_pvma := 0\<rparr>) \<and>
     map unplaced (mods t) = map unplaced (mods s)"

lemma same_parts_refl: "same_parts s s"
  by (simp add: same_parts_def)

lemma same_parts_trans: "same_parts s t \<Longrightarrow> same_parts t u \<Longrightarrow> same_parts s u"
  by (simp add: same_parts_def)

lemma same_parts_eqI:
  "pieces t = pieces s \<Longrightarrow> sects t = sects s \<Longrightarrow> mods t = mods s \<Longrightarrow> top_stmts t = top_stmts s \<Longrightarrow> same_parts s t"
  by (simp add: same_parts_def)

lemma same_parts_piece:
  assumes "same_parts s t"
  shows "pc_sect (pieces t ! i) = pc_sect (pieces s ! i)" "pc_size (pieces t ! i) = pc_size (pieces s ! i)"
    "piece_key (pieces t ! i) = piece_key (pieces s ! i)" "pc_mod (pieces t ! i) = pc_mod (pieces s ! i)"
    "pc_common (pieces t ! i) = pc_common (pieces s ! i)" "pc_seg (pieces t ! i) = pc_seg (pieces s ! i)"
proof -
  have "(pieces t ! i)\<lparr>pc_vma := 0, pc_pvma := 0\<rparr> = (pieces s ! i)\<lparr>pc_vma := 0, pc_pvma := 0\<rparr>"
    using assms by (simp add: same_parts_def)
  then show "pc_sect (pieces t ! i) = pc_sect (pieces s ! i)" "pc_size (pieces t ! i) = pc_size (pieces s ! i)"
    "piece_key (pieces t ! i) = piece_key (pieces s ! i)" "pc_mod (pieces t ! i) = pc_mod (pieces s ! i)"
    "pc_common (pieces t ! i) = pc_common (pieces s ! i)" "pc_seg (pieces t ! i) = pc_seg (pieces s ! i)"
    by (cases "pieces t ! i"; cases "pieces s ! i"; simp add: piece_key_def)+
qed

lemma same_parts_sect:
  assumes "same_parts s t"
  shows "os_body (sects t ! k) = os_body (sects s ! k)" "noload (sects t ! k) = noload (sects s ! k)"
    "datapart (sects t ! k) = datapart (sects s ! k)" "length (sects t) = length (sects s)"
    "length (pieces t) = length (pieces s)" "length (mods t) = length (mods s)" "top_stmts t = top_stmts s"
proof -
  have "sect_fixed (sects t ! k) = sect_fixed (sects s ! k)" using assms by (simp add: same_parts_def)
  from sect_fixed_simps [OF this] show "os_body (sects t ! k) = os_body (sects s ! k)"
    "noload (sects t ! k) = noload (sects s ! k)" "datapart (sects t ! k) = datapart (sects s ! k)" by simp_all
  show "length (sects t) = length (sects s)" "length (pieces t) = length (pieces s)" "top_stmts t = top_stmts s"
    using assms by (simp_all add: same_parts_def)
  show "length (mods t) = length (mods s)" using assms by (metis same_parts_def length_map)
qed

lemma same_parts_ok: "same_parts s t \<Longrightarrow> pieces_ok s \<Longrightarrow> pieces_ok t"
  by (simp add: pieces_ok_def same_parts_piece same_parts_sect)

lemma same_parts_dealt: "same_parts s t \<Longrightarrow> dealt s \<Longrightarrow> dealt t"
  by (simp add: dealt_def same_parts_piece same_parts_sect)

lemma same_parts_frame: "lay_frame is s t \<Longrightarrow> same_parts s t"
proof -
  assume f: "lay_frame is s t"
  have "(pieces t ! i)\<lparr>pc_vma := 0, pc_pvma := 0\<rparr> = (pieces s ! i)\<lparr>pc_vma := 0, pc_pvma := 0\<rparr>" for i
  proof -
    have "(pieces t ! i)\<lparr>pc_vma := 0\<rparr> = (pieces s ! i)\<lparr>pc_vma := 0\<rparr>" using f by (simp add: lay_frame_def)
    then show ?thesis by (cases "pieces t ! i"; cases "pieces s ! i"; simp)
  qed
  with f show ?thesis by (simp add: lay_frame_def same_parts_def)
qed

lemma same_parts_upd_sect:
  assumes "\<And>sect. sect_fixed (f sect) = sect_fixed sect" and "k < length (sects s)"
    and "sects t = (sects s)[k := f (sects s ! k)]" and "pieces t = pieces s" "mods t = mods s" "top_stmts t = top_stmts s"
  shows "same_parts s t"
  using assms by (simp add: same_parts_def nth_list_update)

lemma layout_section_inv:
  assumes inv: "lay_inv D s" and k: "k < length (sects s)" "k \<notin> D" and l: "layout_section k s = Inr t"
  shows "lay_inv (insert k D) t \<and> same_parts s t"
proof -
  let ?is = "sect_pieces k s"
  obtain start sub load fill s3 where sub: "0 < sub"
    and w: "walk sub (os_body (sects s ! k))
           ((upd_sect k (\<lambda>sect. sect\<lparr>lma := load\<rparr>)
               (upd_sect k (\<lambda>sect. sect\<lparr>os_sub := sub, vma := start\<rparr>) (s\<lparr>cursect := Some k\<rparr>)))
             \<lparr>curfill := fill, dot := start\<rparr>) = Inr s3"
    and t: "sects t = (sects s3)[k := (sects s3 ! k)\<lparr>os_size := dot s3 - start\<rparr>]"
      "pieces t = pieces s3" "mods t = mods s3" "extras t = extras s3" "top_stmts t = top_stmts s3"
    using l by (rule layout_sectionE)
  define s1 where "s1 = (upd_sect k (\<lambda>sect. sect\<lparr>lma := load\<rparr>)
      (upd_sect k (\<lambda>sect. sect\<lparr>os_sub := sub, vma := start\<rparr>) (s\<lparr>cursect := Some k\<rparr>)))\<lparr>curfill := fill, dot := start\<rparr>"
  have s1: "sects s1 = (sects s)[k := (sects s ! k)\<lparr>os_sub := sub, vma := start, lma := load\<rparr>]" "pieces s1 = pieces s"
      "mods s1 = mods s" "extras s1 = extras s" "cursect s1 = Some k" "dot s1 = start" "top_stmts s1 = top_stmts s"
    using k(1) by (simp_all add: s1_def upd_sect_def)
  have p1: "same_parts s s1"
    by (rule same_parts_upd_sect [where f = "\<lambda>sect. sect\<lparr>os_sub := sub, vma := start, lma := load\<rparr>", OF _ k(1)])
       (simp_all add: s1 sect_fixed_def)
  have "placeable ?is s1"
    using lay_inv_pieces(1) [OF inv k(1)] same_parts_ok [OF p1] by (simp add: placeable_def s1)
  then have "walked sub ?is s1 s3"
    using walk_walked [OF w [folded s1_def]] sub by (simp add: sect_pieces_def)
  then obtain xs new where fr: "lay_frame ?is s1 s3" and e: "extras s3 = extras s @ new" "\<forall>x\<in>set new. ex_sect x = Some k"
    and xs: "tiled start (dot s3) xs"
      "mset xs = mset (map (\<lambda>i. piece_span sub (pieces s3 ! i)) ?is) + mset (map extra_span new)"
    unfolding walked_def s1 by blast
  have s3: "sects s3 = sects s1" "length (pieces s3) = length (pieces s)" using fr by (simp_all add: lay_frame_def s1)
  have p3: "same_parts s3 t"
    using k(1) by (intro same_parts_upd_sect [where f = "\<lambda>sect. sect\<lparr>os_size := dot s3 - start\<rparr>" and k = k])
      (simp_all add: t s3 s1 sect_fixed_def)
  have st: "same_parts s t"
    using p1 same_parts_frame [OF fr] p3 by (blast intro: same_parts_trans)
  have tk: "sects t ! k = (sects s ! k)\<lparr>os_sub := sub, vma := start, lma := load, os_size := dot s3 - start\<rparr>"
    and tj: "\<And>j. j \<noteq> k \<Longrightarrow> sects t ! j = sects s ! j"
    using k(1) by (simp_all add: t s3 s1)
  have ad: "addressed t i" if "i < length (pieces s)" "i \<in> set ?is \<or> addressed s i" for i
  proof -
    have "addressed s1 i = addressed s i"
      by (rule addressed_cong) (simp_all add: s1 same_parts_sect(2) [OF p1, unfolded s1])
    moreover have "addressed t i = addressed s3 i"
      by (rule addressed_cong) (simp_all add: t(2,3) same_parts_sect(2) [OF p3])
    ultimately show ?thesis using fr that by (auto simp: lay_frame_def s1)
  qed
  have isin: "set ?is = {i. i < length (pieces s) \<and> pc_sect (pieces s ! i) = Some k}"
    by (rule lay_inv_pieces(2) [OF inv k(1)])
  have old: "ex_sect x \<noteq> Some k" if "x \<in> set (extras s)" for x
    using inv k(2) that by (auto simp: lay_inv_def)
  have xk: "sect_extras k t = new" and xj: "\<And>j. j \<noteq> k \<Longrightarrow> sect_extras j t = sect_extras j s"
    using e old by (auto simp: sect_extras_def t filter_empty_conv filter_id_conv)
  have "section_laid t k"
    unfolding section_laid_def Let_def using sub ad xs isin
    by (auto simp: tk xk sect_pieces_def same_parts_sect(1) [OF st] t(2))
  moreover have "section_laid t j" if j: "j \<in> D" for j
  proof (rule section_laid_cong)
    show "section_laid s j" using inv j by (simp add: lay_inv_def)
    have jk: "j \<noteq> k" using j k(2) by auto
    then show "sects t ! j = sects s ! j" "sect_extras j t = sect_extras j s" by (rule tj, rule xj)
    have isj: "set (sect_pieces j s) = {i. i < length (pieces s) \<and> pc_sect (pieces s ! i) = Some j}"
      using inv j by (intro lay_inv_pieces(2) [OF inv]) (simp add: lay_inv_def)
    fix i assume i: "i \<in> set (sect_pieces j s)"
    then have "i \<notin> set ?is" "i < length (pieces s)" using isin isj jk by auto
    with fr have "pieces t ! i = pieces s ! i" by (simp add: t lay_frame_def s1)
    then show "piece_span (os_sub (sects s ! j)) (pieces t ! i) = piece_span (os_sub (sects s ! j)) (pieces s ! i)" by simp
    show "addressed s i \<Longrightarrow> addressed t i" using ad i isj by auto
  qed
  moreover have "\<forall>x\<in>set (extras t). \<exists>j\<in>insert k D. ex_sect x = Some j"
    using inv e by (auto simp: lay_inv_def t)
  ultimately show ?thesis
    using inv st same_parts_ok [OF st] same_parts_dealt [OF st] k(1)
    by (auto simp: lay_inv_def same_parts_sect [OF st])
qed


section \<open>A pass over the script\<close>

lemma assign_symbol_quiet:
  "assign_symbol ak k e s = Inr t \<Longrightarrow> pieces t = pieces s \<and> sects t = sects s \<and> mods t = mods s \<and>
    extras t = extras s \<and> top_stmts t = top_stmts s"
  by (auto simp: assign_symbol_def upd_ssym_def bindE_Inr_iff split: if_splits)

lemma note_assert_quiet:
  "note_assert st e s = Inr t \<Longrightarrow> pieces t = pieces s \<and> sects t = sects s \<and> mods t = mods s \<and>
    extras t = extras s \<and> top_stmts t = top_stmts s"
  by (auto simp: note_assert_def bindE_Inr_iff)

lemma eval_regions_quiet:
  "eval_regions rs s = Inr t \<Longrightarrow> pieces t = pieces s \<and> sects t = sects s \<and> mods t = mods s \<and>
    extras t = extras s \<and> top_stmts t = top_stmts s"
  by (induction rs arbitrary: s) (fastforce simp: bindE_Inr_iff upd_region_def Let_def)+

lemma layout_top_inv:
  "\<lbrakk>layout_top sts s = Inr t; lay_inv D s; distinct (section_stmts sts); D \<inter> set (section_stmts sts) = {};
    set (section_stmts sts) \<subseteq> {..<length (sects s)}\<rbrakk> \<Longrightarrow>
   lay_inv (D \<union> set (section_stmts sts)) t \<and> same_parts s t"
proof (induction sts arbitrary: s D)
  case Nil
  then show ?case by (simp add: section_stmts_def same_parts_refl)
next
  case (Cons st sts)
  have other: "lay_inv (D \<union> set (section_stmts (st # sts))) t \<and> same_parts s t"
    if u: "layout_top sts u = Inr t" "pieces u = pieces s \<and> sects u = sects s \<and> mods u = mods s \<and>
        extras u = extras s \<and> top_stmts u = top_stmts s"
      and n: "section_stmts (st # sts) = section_stmts sts" for u
  proof -
    have "lay_inv D u" using Cons.prems(2) u(2) by (auto intro: lay_inv_same)
    moreover have "same_parts s u" using u(2) by (simp add: same_parts_eqI)
    ultimately show ?thesis
      using Cons.IH [OF u(1), of D] Cons.prems(3-5) u(2) n same_parts_trans by auto
  qed
  show ?case
  proof (cases st)
    case (S_SECTION l k)
    with Cons.prems(1) obtain u where u: "layout_section k s = Inr u" "layout_top sts u = Inr t"
      by (auto simp: bindE_Inr_iff)
    have n: "section_stmts (st # sts) = k # section_stmts sts" by (simp add: S_SECTION section_stmts_def)
    have k: "k < length (sects s)" "k \<notin> D" using Cons.prems(4,5) n by auto
    note a = layout_section_inv [OF Cons.prems(2) k u(1)]
    have "lay_inv (insert k D \<union> set (section_stmts sts)) t \<and> same_parts u t"
      using a Cons.prems(3-5) n same_parts_sect(4) [of s u] by (intro Cons.IH [OF u(2)]) auto
    with a n show ?thesis by (auto intro: same_parts_trans)
  next
    case (S_ASSIGN l ak k e)
    have "section_stmts (st # sts) = section_stmts sts" by (simp add: S_ASSIGN section_stmts_def)
    moreover from Cons.prems(1) S_ASSIGN obtain u where "layout_top sts u = Inr t"
      "pieces u = pieces s \<and> sects u = sects s \<and> mods u = mods s \<and> extras u = extras s \<and> top_stmts u = top_stmts s"
      by (cases k) (fastforce simp: bindE_Inr_iff dest: assign_symbol_quiet)+
    ultimately show ?thesis using other by blast
  next
    case (S_ASSERT l e m)
    have "section_stmts (st # sts) = section_stmts sts" by (simp add: S_ASSERT section_stmts_def)
    moreover from Cons.prems(1) S_ASSERT obtain u where "layout_top sts u = Inr t"
      "pieces u = pieces s \<and> sects u = sects s \<and> mods u = mods s \<and> extras u = extras s \<and> top_stmts u = top_stmts s"
      by (fastforce simp: bindE_Inr_iff dest: note_assert_quiet)
    ultimately show ?thesis using other by blast
  qed (use Cons.prems(1) in simp_all)
qed

text \<open>Every section has one statement.\<close>

definition sections_once :: "'a script_scheme \<Rightarrow> bool" where
  "sections_once s \<longleftrightarrow>
     distinct (section_stmts (top_stmts s)) \<and> set (section_stmts (top_stmts s)) = {..<length (sects s)}"

definition pass_start :: "'a script_scheme \<Rightarrow> 'a script_scheme" where
  "pass_start s = s\<lparr>ssyms := map (\<lambda>ss. ss\<lparr>assigned := False\<rparr>) (ssyms s), extras := [], failed_assert := None, dot := 0\<rparr>"

definition all_laid :: "'a script_scheme \<Rightarrow> bool" where
  "all_laid s \<longleftrightarrow> pieces_ok s \<and> dealt s \<and> sections_once s \<and> (\<forall>k<length (sects s). section_laid s k)"

lemma layout_pass_laid:
  assumes "layout_pass s = Inr t" and "pieces_ok s" and "dealt s" and "sections_once s"
  shows "all_laid t \<and> same_parts s t"
proof -
  from assms(1) obtain u where u: "eval_regions [0..<length (regions s)] (pass_start s) = Inr u"
      "layout_top (top_stmts s) u = Inr t"
    by (auto simp: layout_pass_def pass_start_def bindE_Inr_iff)
  from eval_regions_quiet [OF u(1)]
  have q: "pieces u = pieces s" "sects u = sects s" "mods u = mods s" "extras u = []" "top_stmts u = top_stmts s"
    by (simp_all add: pass_start_def)
  have "lay_inv {} u" using assms(2,3) by (simp add: lay_inv_def pieces_ok_def dealt_def q)
  from layout_top_inv [OF u(2) this] assms(4)
  have "lay_inv {..<length (sects s)} t \<and> same_parts u t" by (simp add: sections_once_def q)
  moreover have "same_parts s u" using q by (simp add: same_parts_eqI)
  ultimately have "lay_inv {..<length (sects s)} t" and st: "same_parts s t" by (auto intro: same_parts_trans)
  with assms(4) show ?thesis
    by (auto simp: all_laid_def lay_inv_def sections_once_def same_parts_sect [OF st])
qed

lemma nth_beyond: "length xs \<le> k \<Longrightarrow> xs ! k = [] ! (k - length xs)"
proof (induction xs arbitrary: k)
  case (Cons a xs)
  then show ?case by (cases k) simp_all
qed simp

lemma nth_map_like: "(\<And>x. g (f x) = g x) \<Longrightarrow> g (map f xs ! k) = g (xs ! k)"
proof (cases "k < length xs")
  case False
  then have "map f xs ! k = xs ! k"
    using nth_beyond [of "map f xs" k] nth_beyond [of xs k] by (simp only: length_map not_less)
  then show ?thesis by simp
qed simp

lemma remember_laid:
  assumes r: "remember s = (diff, t)" and a: "all_laid s"
  shows "all_laid t \<and> same_parts s t"
proof -
  have t: "sects t = map (\<lambda>sect. sect\<lparr>pvma := vma sect, plma := lma sect, psize := os_size sect\<rparr>) (sects s)"
      "pieces t = map (\<lambda>pc. pc\<lparr>pc_pvma := pc_vma pc\<rparr>) (pieces s)" "mods t = mods s" "extras t = extras s"
      "top_stmts t = top_stmts s"
    using r by (auto simp: remember_def)
  have st: "same_parts s t"
    by (auto simp: same_parts_def t sect_fixed_def intro: nth_map_like [where g = "\<lambda>pc. pc\<lparr>pc_vma := 0, pc_pvma := 0\<rparr>"]
        nth_map_like [where g = sect_fixed, unfolded sect_fixed_def])
  have v: "pc_vma (pieces t ! i) = pc_vma (pieces s ! i)" for i
    unfolding t(2) by (rule nth_map_like) simp
  have ad: "addressed t i = addressed s i" for i
    by (simp add: addressed_def Let_def same_parts_piece [OF st] same_parts_sect [OF st] v t(3))
  have sp: "piece_span sub (pieces t ! i) = piece_span sub (pieces s ! i)" for sub i
    by (simp add: piece_span_def v same_parts_piece [OF st])
  have "section_laid t k" if "k < length (sects s)" for k
  proof -
    have "section_laid s k" using a that by (simp add: all_laid_def)
    moreover have "sect_pieces k t = sect_pieces k s" "sect_extras k t = sect_extras k s"
      by (simp_all add: sect_pieces_def sect_extras_def same_parts_sect [OF st] t(4))
    moreover have "vma (sects t ! k) = vma (sects s ! k)" "os_size (sects t ! k) = os_size (sects s ! k)"
      "os_sub (sects t ! k) = os_sub (sects s ! k)" using that by (simp_all add: t)
    ultimately show ?thesis by (simp add: section_laid_def Let_def ad sp)
  qed
  with a st show ?thesis
    by (auto simp: all_laid_def sections_once_def same_parts_sect [OF st] intro: same_parts_ok same_parts_dealt)
qed

lemma layout_passes_laid:
  "\<lbrakk>layout_passes n again s = Inr t; pieces_ok s; dealt s; sections_once s\<rbrakk> \<Longrightarrow> all_laid t \<and> same_parts s t"
proof (induction n arbitrary: again s)
  case (Suc n)
  from Suc.prems(1) obtain s1 where p1: "layout_pass s = Inr s1"
    and r': "(case remember s1 of (diff, s2) \<Rightarrow> if \<not> diff \<and> again then Inr s2 else layout_passes n True s2) = Inr t"
    by (auto simp: bindE_Inr_iff)
  obtain diff s2 where p2: "remember s1 = (diff, s2)" by (cases "remember s1")
  have r: "(if \<not> diff \<and> again then Inr s2 else layout_passes n True s2) = Inr t" using r' by (simp add: p2)
  note p = p1 p2
  note a = layout_pass_laid [OF p(1) Suc.prems(2-4)]
  note b = remember_laid [OF p(2) conjunct1 [OF a]]
  have st: "same_parts s s2" using a b by (auto intro: same_parts_trans)
  show ?case
  proof (cases "\<not> diff \<and> again")
    case True
    with r b st show ?thesis by simp
  next
    case False
    with r have "layout_passes n True s2 = Inr t" by simp
    with Suc.IH [of True s2] b st show ?thesis
      by (auto simp: all_laid_def intro: same_parts_trans)
  qed
qed simp

section \<open>The pieces of the loaded modules\<close>

lemma segment_pieces_keys:
  "map piece_key (segment_pieces segs m md cptr) = concat (map (\<lambda>seg. [(m, seg, False), (m, seg, True)]) segs)"
  by (induction segs arbitrary: cptr) (simp_all add: piece_key_def Let_def)

lemma distinct_seg_keys: "distinct segs \<Longrightarrow> distinct (concat (map (\<lambda>seg. [(m, seg, False), (m, seg, True)]) segs))"
  by (induction segs) auto

text \<open>Sizes of common blocks are not negative.\<close>

definition commons_ok :: "modstruct list \<Rightarrow> bool" where
  "commons_ok ms \<longleftrightarrow> (\<forall>md\<in>set ms. loadflag md \<longrightarrow> (\<forall>seg<NSEG. 0 \<le> sint (comsize md seg)))"

lemma segment_pieces_props:
  "pc \<in> set (segment_pieces segs m md cptr) \<Longrightarrow>
    pc_mod pc = m \<and> pc_seg pc \<in> set segs \<and> pc_sect pc = None \<and>
    (0 \<le> pc_size pc \<or> pc_size pc = sint (comsize md (pc_seg pc)))"
  by (induction segs arbitrary: cptr) (auto simp: Let_def)

lemma distinct_concat_keys:
  "distinct ms \<Longrightarrow> (\<And>m. m \<in> set ms \<Longrightarrow> distinct (f m) \<and> fst ` set (f m) \<subseteq> {m}) \<Longrightarrow> distinct (concat (map f ms))"
proof (induction ms)
  case (Cons m ms)
  have "set (f m) \<inter> (\<Union>k\<in>set ms. set (f k)) = {}"
  proof -
    have "fst x = m" if "x \<in> set (f m)" for x using Cons.prems(2) [of m] that by auto
    moreover have "fst x \<noteq> m" if "x \<in> set (f k)" "k \<in> set ms" for x k
      using Cons.prems(1) Cons.prems(2) [of k] that by auto
    ultimately show ?thesis by fastforce
  qed
  with Cons show ?case by auto
qed simp

lemma input_pieces_keys: "distinct (map piece_key (input_pieces ms))"
proof -
  let ?f = "\<lambda>m. if loadflag (ms ! m) then segment_pieces [0..<NSEG] m (ms ! m) (segsize (ms ! m)) else []"
  have "map piece_key (input_pieces ms) = concat (map (\<lambda>m. map piece_key (?f m)) [0..<length ms])"
    by (simp add: input_pieces_def map_concat comp_def)
  moreover have "distinct (map piece_key (?f m)) \<and> fst ` set (map piece_key (?f m)) \<subseteq> {m}" for m
  proof (cases "loadflag (ms ! m)")
    case True
    then have e: "map piece_key (?f m) = concat (map (\<lambda>seg. [(m, seg, False), (m, seg, True)]) [0..<NSEG])"
      by (simp only: segment_pieces_keys if_True)
    show ?thesis unfolding e using distinct_seg_keys [of "[0..<NSEG]" m] by auto
  qed simp
  ultimately show ?thesis by (simp only:) (intro distinct_concat_keys, simp_all)
qed

lemma input_pieces_mem:
  assumes "pc \<in> set (input_pieces ms)" and "commons_ok ms"
  shows "pc_mod pc < length ms \<and> pc_sect pc = None \<and> 0 \<le> pc_size pc"
proof -
  from assms(1) obtain m where m: "m < length ms" "loadflag (ms ! m)"
    "pc \<in> set (segment_pieces [0..<NSEG] m (ms ! m) (segsize (ms ! m)))"
    by (auto simp: input_pieces_def split: if_splits)
  from segment_pieces_props [OF m(3)] assms(2) m(1,2) show ?thesis
    by (auto simp: commons_ok_def dest!: nth_mem)
qed

lemma input_pieces_ok:
  assumes "commons_ok (mods s)" and "pieces s = input_pieces (mods s)"
  shows "pieces_ok s"
proof -
  have "inj_on (\<lambda>i. piece_key (pieces s ! i)) {..<length (pieces s)}"
  proof (rule inj_onI)
    fix i j assume "i \<in> {..<length (pieces s)}" "j \<in> {..<length (pieces s)}"
      "piece_key (pieces s ! i) = piece_key (pieces s ! j)"
    then show "i = j"
      using nth_eq_iff_index_eq [OF input_pieces_keys [of "mods s"], of i j] by (simp add: assms(2))
  qed
  moreover have "pc_mod (pieces s ! i) < length (mods s) \<and> 0 \<le> pc_size (pieces s ! i)" if "i < length (pieces s)" for i
    using input_pieces_mem [of "pieces s ! i" "mods s"] that assms by auto
  ultimately show ?thesis by (simp add: pieces_ok_def)
qed

text \<open>A script as the parser builds it: each section once, and no pieces yet.\<close>

definition script_ready :: "'a script_scheme \<Rightarrow> bool" where
  "script_ready s \<longleftrightarrow>
     sections_once s \<and> commons_ok (mods s) \<and> (\<forall>sect\<in>set (sects s). stmt_pieces (os_body sect) = [])"

lemma same_script_ok: "same_script s t \<Longrightarrow> pieces_ok s \<Longrightarrow> pieces_ok t"
proof -
  assume s: "same_script s t" and ok: "pieces_ok s"
  have e: "pc_mod (pieces t ! i) = pc_mod (pieces s ! i) \<and> pc_size (pieces t ! i) = pc_size (pieces s ! i) \<and>
      piece_key (pieces t ! i) = piece_key (pieces s ! i)" if "i < length (pieces s)" for i
  proof -
    have "(pieces t ! i)\<lparr>pc_sect := None\<rparr> = (pieces s ! i)\<lparr>pc_sect := None\<rparr>" using s that by (simp add: same_script_def)
    then show ?thesis by (cases "pieces t ! i"; cases "pieces s ! i") (simp add: piece_key_def)
  qed
  have l: "length (pieces t) = length (pieces s)" "mods t = mods s" using s by (simp_all add: same_script_def)
  have "inj_on (\<lambda>i. piece_key (pieces t ! i)) {..<length (pieces s)}"
    using ok e by (auto simp: pieces_ok_def inj_on_def)
  with ok e l show ?thesis by (simp add: pieces_ok_def)
qed

lemma sections_placed:
  assumes ready: "script_ready s" and o: "orphans (fold assign_section (section_stmts (top_stmts s)) s) = Inr t"
    and p: "pieces s = input_pieces (mods s)"
  shows "pieces_ok t \<and> dealt t \<and> sections_once t \<and> same_script s t \<and>
    (\<forall>i<length (pieces t). pc_sect (pieces t ! i) \<noteq> None)"
proof -
  have "fresh s"
    using ready input_pieces_mem [of _ "mods s"] by (auto simp: fresh_def script_ready_def sections_once_def p)
  from dealing [OF this o] have d: "dealt t" "same_script s t" "\<forall>i<length (pieces s). pc_sect (pieces t ! i) \<noteq> None"
    by blast+
  have "pieces_ok s" using ready p by (auto simp: script_ready_def intro: input_pieces_ok)
  with d ready show ?thesis
    by (auto simp: same_script_def script_ready_def sections_once_def intro: same_script_ok)
qed

section \<open>No two pieces overlap\<close>

text \<open>Two intervals of a tiled space are apart, wherever they stand in it.\<close>

lemma tiled_apart:
  "tiled lo hi xs \<Longrightarrow> {#(a, n), (b, m)#} \<subseteq># mset xs \<Longrightarrow> apart a n b m"
proof (induction lo hi xs rule: tiled.induct)
  case (2 lo hi c l xs)
  have r: "(d, k) \<in># mset xs \<Longrightarrow> c + l \<le> d" for d k
    using 2(2) tiled_bounds [of "c + l" hi xs d k] by auto
  have f: "{#p, q#} \<subseteq># add_mset x M \<Longrightarrow> p = x \<and> q \<in># M \<or> q = x \<and> p \<in># M \<or> {#p, q#} \<subseteq># M" for p q x :: "int \<times> int" and M
    by (cases "p = x"; cases "q = x") (auto simp: insert_subset_eq_iff subset_eq_diff_conv)
  from f [of "(a, n)" "(b, m)" "(c, l)" "mset xs"] 2 r show ?case
    by (auto simp: apart_def)
qed simp


text \<open>The spans of the pieces of a laid section are part of its tiling.\<close>

lemma laid_section:
  assumes a: "all_laid s" and k: "k < length (sects s)"
  obtains xs where "tiled (vma (sects s ! k)) (vma (sects s ! k) + os_size (sects s ! k)) xs"
    and "mset (map (\<lambda>i. piece_span (os_sub (sects s ! k)) (pieces s ! i)) (sect_pieces k s)) \<subseteq># mset xs"
    and "0 < os_sub (sects s ! k)" and "distinct (sect_pieces k s)"
    and "set (sect_pieces k s) = {i. i < length (pieces s) \<and> pc_sect (pieces s ! i) = Some k}"
    and "\<forall>i\<in>set (sect_pieces k s). addressed s i"
proof -
  have l: "section_laid s k" and d: "dealt s" "pieces_ok s" using a k by (simp_all add: all_laid_def)
  from l obtain xs where xs: "tiled (vma (sects s ! k)) (vma (sects s ! k) + os_size (sects s ! k)) xs"
    "mset xs = mset (map (\<lambda>i. piece_span (os_sub (sects s ! k)) (pieces s ! i)) (sect_pieces k s)) +
       mset (map extra_span (sect_extras k s))"
    "0 < os_sub (sects s ! k)" "\<forall>i\<in>set (sect_pieces k s). addressed s i"
    unfolding section_laid_def Let_def by blast
  have "lay_inv {} (s\<lparr>extras := []\<rparr>)"
    using d by (simp add: lay_inv_def pieces_ok_def dealt_def)
  from lay_inv_pieces [OF this, of k] k have "distinct (sect_pieces k s)"
    "set (sect_pieces k s) = {i. i < length (pieces s) \<and> pc_sect (pieces s ! i) = Some k}"
    by (simp_all add: sect_pieces_def placeable_def)
  with xs show ?thesis by (intro that [of xs]) simp_all
qed

lemma pair_subset:
  "\<lbrakk>distinct is; i \<in> set is; j \<in> set is; i \<noteq> j\<rbrakk> \<Longrightarrow> {#f i, f j#} \<subseteq># mset (map f is)"
proof -
  assume d: "distinct is" and m: "i \<in> set is" "j \<in> set is" "i \<noteq> j"
  have "mset [i, j] \<subseteq># mset is"
    using d m by (intro mset_subset_eqI) (auto simp: distinct_count_atmost_1 [THEN iffD1, OF d, rule_format])
  from image_mset_subseteq_mono [OF this, of f] show ?thesis by simp
qed

lemma laid_pieces_apart:
  assumes a: "all_laid s" and k: "k < length (sects s)" and ne: "i \<noteq> j"
    and i: "i < length (pieces s)" "pc_sect (pieces s ! i) = Some k"
    and j: "j < length (pieces s)" "pc_sect (pieces s ! j) = Some k"
  shows "apart (pc_vma (pieces s ! i)) (pc_size (pieces s ! i)) (pc_vma (pieces s ! j)) (pc_size (pieces s ! j))"
proof -
  let ?sub = "os_sub (sects s ! k)"
  have n: "0 \<le> pc_size (pieces s ! i)" "0 \<le> pc_size (pieces s ! j)"
    using a i j by (auto simp: all_laid_def pieces_ok_def)
  obtain xs where xs: "tiled (vma (sects s ! k)) (vma (sects s ! k) + os_size (sects s ! k)) xs"
    and m: "mset (map (\<lambda>i. piece_span ?sub (pieces s ! i)) (sect_pieces k s)) \<subseteq># mset xs"
    and sub: "0 < ?sub" and d: "distinct (sect_pieces k s)"
    and st: "set (sect_pieces k s) = {i. i < length (pieces s) \<and> pc_sect (pieces s ! i) = Some k}"
    and "\<forall>i\<in>set (sect_pieces k s). addressed s i"
    by (rule laid_section [OF a k])
  have "i \<in> set (sect_pieces k s)" "j \<in> set (sect_pieces k s)" using st i j by auto
  from pair_subset [OF d this ne, of "\<lambda>i. piece_span ?sub (pieces s ! i)"] m
  have "{#piece_span ?sub (pieces s ! i), piece_span ?sub (pieces s ! j)#} \<subseteq># mset xs"
    by (rule subset_mset.order_trans)
  from tiled_apart [OF xs this [unfolded piece_span_def]] padding_range [OF n(1) sub] padding_range [OF n(2) sub]
  show ?thesis by (auto simp: apart_def)
qed

lemma laid_piece_inside:
  assumes a: "all_laid s" and i: "i < length (pieces s)" "pc_sect (pieces s ! i) = Some k"
  shows "k < length (sects s)" and "vma (sects s ! k) \<le> pc_vma (pieces s ! i)"
    and "pc_vma (pieces s ! i) + pc_size (pieces s ! i) \<le> vma (sects s ! k) + os_size (sects s ! k)"
    and "addressed s i" and "0 \<le> pc_size (pieces s ! i)"
proof -
  show k: "k < length (sects s)" using a i by (auto simp: all_laid_def dealt_def)
  show n: "0 \<le> pc_size (pieces s ! i)" using a i by (auto simp: all_laid_def pieces_ok_def)
  let ?sub = "os_sub (sects s ! k)"
  obtain xs where xs: "tiled (vma (sects s ! k)) (vma (sects s ! k) + os_size (sects s ! k)) xs"
    and m: "mset (map (\<lambda>i. piece_span ?sub (pieces s ! i)) (sect_pieces k s)) \<subseteq># mset xs"
    and sub: "0 < ?sub" and "distinct (sect_pieces k s)"
    and st: "set (sect_pieces k s) = {i. i < length (pieces s) \<and> pc_sect (pieces s ! i) = Some k}"
    and ad: "\<forall>i\<in>set (sect_pieces k s). addressed s i"
    by (rule laid_section [OF a k])
  have p: "i \<in> set (sect_pieces k s)" using st i by auto
  with ad show "addressed s i" by blast
  have "piece_span ?sub (pieces s ! i) \<in># mset (map (\<lambda>i. piece_span ?sub (pieces s ! i)) (sect_pieces k s))"
    using p by simp
  from mset_subset_eqD [OF m this] have "piece_span ?sub (pieces s ! i) \<in> set xs" by simp
  from tiled_bounds [OF xs this [unfolded piece_span_def]] padding_range [OF n sub]
  show "vma (sects s ! k) \<le> pc_vma (pieces s ! i)"
    "pc_vma (pieces s ! i) + pc_size (pieces s ! i) \<le> vma (sects s ! k) + os_size (sects s ! k)" by auto
qed

section \<open>The result\<close>

definition adjust_step :: "'a script_scheme \<Rightarrow> piece \<Rightarrow> modstruct list \<Rightarrow> modstruct list" where
  "adjust_step s pc ms =
     (if pc_common pc \<or> noload (sects s ! the (pc_sect pc)) then ms
      else ms[pc_mod pc := (ms ! pc_mod pc)\<lparr>segfadj := (segfadj (ms ! pc_mod pc))(pc_seg pc := of_int (file_adjust s pc))\<rparr>])"

lemma adjust_modules_eq: "adjust_modules s = s\<lparr>mods := fold (adjust_step s) (pieces s) (mods s)\<rparr>"
proof -
  have "fold (\<lambda>pc t. if pc_common pc \<or> noload (sects s ! the (pc_sect pc)) then t
         else upd_mod (pc_mod pc)
                (\<lambda>md. md\<lparr>segfadj := (segfadj md)(pc_seg pc := of_int (file_adjust s pc))\<rparr>) t) ps t =
      t\<lparr>mods := fold (adjust_step s) ps (mods t)\<rparr>" for ps and t :: "'a script_scheme"
    by (induction ps arbitrary: t) (simp_all add: adjust_step_def upd_mod_def)
  then show ?thesis by (simp add: adjust_modules_def)
qed

text \<open>The file adjustments of the modules change nothing else of them.\<close>

definition unadjusted :: "modstruct \<Rightarrow> modstruct" where
  "unadjusted md = md\<lparr>segfadj := \<lambda>_. 0\<rparr>"

lemma adjust_step_mods:
  "length (adjust_step s pc ms) = length ms" "unadjusted (adjust_step s pc ms ! m) = unadjusted (ms ! m)"
proof -
  show "length (adjust_step s pc ms) = length ms" by (simp add: adjust_step_def)
  show "unadjusted (adjust_step s pc ms ! m) = unadjusted (ms ! m)"
    by (cases "pc_mod pc = m"; cases "m < length ms") (simp_all add: adjust_step_def unadjusted_def list_update_beyond not_less)
qed

lemma adjust_mods:
  "length (fold (adjust_step s) ps ms) = length ms \<and> unadjusted (fold (adjust_step s) ps ms ! m) = unadjusted (ms ! m)"
  by (induction ps arbitrary: ms) (simp_all add: adjust_step_mods)

lemma unadjusted_simps:
  "unadjusted a = unadjusted b \<Longrightarrow> segaddr a = segaddr b \<and> comaddr a = comaddr b \<and> segnoload a = segnoload b \<and> segpad a = segpad b"
  by (cases a; cases b) (simp add: unadjusted_def)

lemma adjust_addressed: "addressed (adjust_modules s) i = addressed s i"
  using adjust_mods [of s "pieces s" "mods s" "pc_mod (pieces s ! i)", THEN conjunct2, THEN unadjusted_simps]
  by (simp add: addressed_def adjust_modules_eq Let_def)

text \<open>The piece of a segment of a module sets its adjustment, and no other piece does.\<close>

lemma adjust_piece:
  assumes "distinct (map piece_key ps)" and "pc \<in> set ps" and "\<not> pc_common pc" "\<not> noload (sects s ! the (pc_sect pc))"
    and "pc_mod pc < length ms"
  shows "segfadj (fold (adjust_step s) ps ms ! pc_mod pc) (pc_seg pc) = of_int (file_adjust s pc)"
  using assms(1,2,5)
proof (induction ps arbitrary: ms)
  case (Cons q ps)
  have later: "segfadj (fold (adjust_step s) ps ns ! pc_mod pc) (pc_seg pc) = segfadj (ns ! pc_mod pc) (pc_seg pc)"
    if "piece_key pc \<notin> piece_key ` set ps" "pc_mod pc < length ns" for ns
    using that
  proof (induction ps arbitrary: ns)
    case (Cons q ps)
    have "segfadj (adjust_step s q ns ! pc_mod pc) (pc_seg pc) = segfadj (ns ! pc_mod pc) (pc_seg pc)"
      using Cons.prems assms(3)
      by (cases "pc_mod q = pc_mod pc"; cases "pc_seg q = pc_seg pc"; cases "pc_common q")
         (auto simp: adjust_step_def piece_key_def)
    with Cons show ?case by (simp add: adjust_step_mods)
  qed simp
  show ?case
  proof (cases "q = pc")
    case True
    with Cons.prems later [of "adjust_step s pc ms"] assms(3,4) show ?thesis
      by (simp add: adjust_step_mods) (simp add: adjust_step_def)
  next
    case False
    with Cons show ?thesis by (simp add: adjust_step_mods)
  qed
qed simp

text \<open>
  What a finished layout promises: it passes the checks; every piece lies in its
  section, its module has its address, and its segment of the module is written at
  the place of the section in the file; and pieces that share a space do not
  share an address.
\<close>

definition piece_placed :: "'a script_scheme \<Rightarrow> piece \<Rightarrow> bool" where
  "piece_placed t pc \<longleftrightarrow>
     (\<exists>k<length (sects t). pc_sect pc = Some k \<and> 0 \<le> pc_size pc \<and> vma (sects t ! k) \<le> pc_vma pc \<and>
        pc_vma pc + pc_size pc \<le> vma (sects t ! k) + os_size (sects t ! k) \<and>
        (let md = mods t ! pc_mod pc in
         if pc_common pc then comaddr md (pc_seg pc) = of_int (pc_vma pc)
         else segaddr md (pc_seg pc) = of_int (pc_vma pc) \<and> segnoload md (pc_seg pc) = noload (sects t ! k) \<and>
           (\<not> noload (sects t ! k) \<longrightarrow> segfadj md (pc_seg pc) = of_int (file_adjust t pc))))"

definition share_space :: "'a script_scheme \<Rightarrow> piece \<Rightarrow> piece \<Rightarrow> bool" where
  "share_space t pc qc \<longleftrightarrow>
     datapart (sects t ! the (pc_sect pc)) = datapart (sects t ! the (pc_sect qc)) \<or> \<not> sepid_option t"

definition layout_sound :: "'a script_scheme \<Rightarrow> bool" where
  "layout_sound t \<longleftrightarrow>
     layout_legal t \<and> (\<forall>pc\<in>set (pieces t). piece_placed t pc) \<and>
     (\<forall>i j. i < length (pieces t) \<and> j < length (pieces t) \<and> i \<noteq> j \<and>
        pc_size (pieces t ! i) \<noteq> 0 \<and> pc_size (pieces t ! j) \<noteq> 0 \<and> share_space t (pieces t ! i) (pieces t ! j) \<longrightarrow>
        apart (pc_vma (pieces t ! i)) (pc_size (pieces t ! i)) (pc_vma (pieces t ! j)) (pc_size (pieces t ! j)))"

lemma all_laid_cong:
  "all_laid s \<Longrightarrow> pieces t = pieces s \<Longrightarrow> sects t = sects s \<Longrightarrow> mods t = mods s \<Longrightarrow> extras t = extras s \<Longrightarrow>
   top_stmts t = top_stmts s \<Longrightarrow> all_laid t"
proof -
  assume a: "all_laid s" and e: "pieces t = pieces s" "sects t = sects s" "mods t = mods s" "extras t = extras s"
    "top_stmts t = top_stmts s"
  have "addressed t = addressed s" by (rule ext) (simp add: addressed_def e)
  then have "section_laid t k" if "section_laid s k" for k
    using that e by (intro section_laid_cong [OF that]) (simp_all add: sect_extras_def)
  with a e show ?thesis by (simp add: all_laid_def pieces_ok_def dealt_def sections_once_def)
qed

lemma legal_apart:
  assumes "layout_legal s" and k: "k < length (sects s)" "l < length (sects s)" "k \<noteq> l"
    and n: "os_size (sects s ! k) \<noteq> 0" "os_size (sects s ! l) \<noteq> 0"
    and d: "datapart (sects s ! k) = datapart (sects s ! l) \<or> \<not> sepid_option s"
  shows "apart (vma (sects s ! k)) (os_size (sects s ! k)) (vma (sects s ! l)) (os_size (sects s ! l))"
proof (cases "k < l")
  case True
  with assms have "no_clash s (sects s ! k) (sects s ! l)" by (simp add: layout_legal_def)
  with n d show ?thesis by (simp add: no_clash_def)
next
  case False
  with assms have "no_clash s (sects s ! l) (sects s ! k)" by (simp add: layout_legal_def)
  with n d show ?thesis by (auto simp: no_clash_def apart_def)
qed

lemma all_laid_sound:
  assumes a: "all_laid s" and c: "layout_legal s" and sect: "\<forall>i<length (pieces s). pc_sect (pieces s ! i) \<noteq> None"
  shows "layout_sound (adjust_modules s)"
proof -
  let ?t = "adjust_modules s"
  have t: "sects ?t = sects s" "pieces ?t = pieces s" "regions ?t = regions s" "binary_output ?t = binary_output s"
    "sepid_option ?t = sepid_option s" "mods ?t = fold (adjust_step s) (pieces s) (mods s)"
    by (simp_all add: adjust_modules_eq)
  have fa: "file_adjust ?t pc = file_adjust s pc" for pc
    by (simp add: file_adjust_def adjust_modules_eq Let_def)
  have legal: "layout_legal ?t"
    using c by (simp add: layout_legal_def fits_memory_def no_clash_def t)
  have ok: "pieces_ok s" using a by (simp add: all_laid_def)
  have keys: "distinct (map piece_key (pieces s))"
    using ok by (auto simp: pieces_ok_def distinct_conv_nth inj_on_def)
  have placed: "piece_placed ?t (pieces s ! i)" if i: "i < length (pieces s)" for i
  proof -
    obtain k where k: "pc_sect (pieces s ! i) = Some k" using sect i by blast
    note inside = laid_piece_inside [OF a i k]
    have m: "pc_mod (pieces s ! i) < length (mods s)" using ok i by (simp add: pieces_ok_def)
    have "addressed ?t i" using inside(4) by (simp add: adjust_addressed)
    moreover have "segfadj (mods ?t ! pc_mod (pieces s ! i)) (pc_seg (pieces s ! i)) = of_int (file_adjust s (pieces s ! i))"
      if "\<not> pc_common (pieces s ! i)" "\<not> noload (sects s ! k)"
      using adjust_piece [OF keys nth_mem [OF i] that(1) _ m, of s] that(2) k by (simp add: t)
    ultimately show ?thesis
      using inside(1-3,5) k by (auto simp: piece_placed_def addressed_def Let_def t fa)
  qed
  have ap: "apart (pc_vma (pieces s ! i)) (pc_size (pieces s ! i)) (pc_vma (pieces s ! j)) (pc_size (pieces s ! j))"
    if ij: "i < length (pieces s)" "j < length (pieces s)" "i \<noteq> j" and n: "pc_size (pieces s ! i) \<noteq> 0" "pc_size (pieces s ! j) \<noteq> 0"
      and sp: "share_space ?t (pieces s ! i) (pieces s ! j)" for i j
  proof -
    obtain k l where kl: "pc_sect (pieces s ! i) = Some k" "pc_sect (pieces s ! j) = Some l" using sect ij by blast
    note ki = laid_piece_inside [OF a ij(1) kl(1)] and lj = laid_piece_inside [OF a ij(2) kl(2)]
    show ?thesis
    proof (cases "k = l")
      case True
      with laid_pieces_apart [OF a ki(1) ij(3) ij(1) kl(1) ij(2)] kl(2) show ?thesis by simp
    next
      case False
      have "os_size (sects s ! k) \<noteq> 0" "os_size (sects s ! l) \<noteq> 0" using ki lj n by auto
      moreover have "datapart (sects s ! k) = datapart (sects s ! l) \<or> \<not> sepid_option s"
        using sp kl by (simp add: share_space_def t)
      ultimately have "apart (vma (sects s ! k)) (os_size (sects s ! k)) (vma (sects s ! l)) (os_size (sects s ! l))"
        using legal_apart [OF c ki(1) lj(1) False] by blast
      with ki lj show ?thesis by (auto simp: apart_def)
    qed
  qed
  from legal placed ap show ?thesis
    unfolding layout_sound_def t(2) by (auto simp: in_set_conv_nth)
qed

text \<open>The pieces of a layout are those of the loaded modules.\<close>

definition piece_input :: "piece \<Rightarrow> (nat \<times> nat \<times> bool) \<times> int" where
  "piece_input pc = (piece_key pc, pc_size pc)"

lemma part_bounds_keeps:
  "pieces (part_bounds s) = pieces s" "sects (part_bounds s) = sects s" "mods (part_bounds s) = mods s"
  "extras (part_bounds s) = extras s" "top_stmts (part_bounds s) = top_stmts s"
  by (simp_all add: part_bounds_def Let_def)

lemma layout_result_parts:
  assumes "layout_result sepid binary s = Inr t"
  obtains u where "pieces u = pieces s" "sects u = sects s" "mods u = mods s" "extras u = extras s"
    "top_stmts u = top_stmts s" "checks u = Inr ()" "t = adjust_modules (u\<lparr>filelow := file_low u\<rparr>)"
proof -
  let ?u = "(part_bounds s)\<lparr>lay_data_end := data_end (part_bounds s),
    lay_sepid := (sepid \<or> part_sects True (sects (part_bounds s)) \<noteq> [] \<and>
      lay_data_start (part_bounds s) \<noteq> lay_text_end (part_bounds s))\<rparr>"
  from assms have "checks ?u = Inr ()" "t = adjust_modules (?u\<lparr>filelow := file_low ?u\<rparr>)"
    unfolding layout_result_def Let_def by (auto simp: bindE_Inr_iff split: if_splits)
  then show ?thesis by (intro that [of ?u]) (simp_all add: part_bounds_keeps)
qed

lemma layout_gives:
  assumes ready: "script_ready s" and l: "script_layout sepid binary s = Inr t"
  shows "layout_sound t \<and> map piece_input (pieces t) = map piece_input (input_pieces (mods s))"
proof -
  define s1 where "s1 = s\<lparr>sepid_option := sepid, binary_output := binary, pieces := input_pieces (mods s)\<rparr>"
  from l obtain s2 s3 where o: "orphans (fold assign_section (section_stmts (top_stmts s1)) s1) = Inr s2"
    and p: "layout_passes MAXPASSES False s2 = Inr s3" and r: "layout_result sepid binary s3 = Inr t"
    by (auto simp: script_layout_def Let_def s1_def [symmetric] bindE_Inr_iff)
  have r1: "script_ready s1" and p1: "pieces s1 = input_pieces (mods s1)" "mods s1 = mods s"
    using ready by (simp_all add: script_ready_def sections_once_def s1_def)
  note a = sections_placed [OF r1 o p1(1)]
  have b: "all_laid s3" "same_parts s2 s3" using layout_passes_laid [OF p] a by blast+
  have sect: "\<forall>i<length (pieces s3). pc_sect (pieces s3 ! i) \<noteq> None"
    using a by (simp add: same_parts_piece [OF b(2)] same_parts_sect [OF b(2)])
  obtain s4 where s4: "pieces s4 = pieces s3" "sects s4 = sects s3" "mods s4 = mods s3" "extras s4 = extras s3"
      "top_stmts s4 = top_stmts s3" and ck: "checks s4 = Inr ()" and t: "t = adjust_modules (s4\<lparr>filelow := file_low s4\<rparr>)"
    by (rule layout_result_parts [OF r])
  let ?s4 = "s4\<lparr>filelow := file_low s4\<rparr>"
  have "all_laid ?s4" by (rule all_laid_cong [OF b(1)]) (simp_all add: s4)
  moreover have "layout_legal ?s4"
    using checks_sound [OF ck] by (simp add: layout_legal_def fits_memory_def no_clash_def)
  ultimately have "layout_sound t" unfolding t using sect by (intro all_laid_sound) (simp_all add: s4)
  moreover have "map piece_input (pieces t) = map piece_input (input_pieces (mods s))"
  proof (rule nth_equalityI)
    have len: "length (pieces s3) = length (pieces s1)"
      using a same_parts_sect(5) [OF b(2)] by (simp add: same_script_def)
    then show "length (map piece_input (pieces t)) = length (map piece_input (input_pieces (mods s)))"
      by (simp add: t adjust_modules_eq s4 p1)
    fix i assume "i < length (map piece_input (pieces t))"
    then have i: "i < length (pieces s1)" using len by (simp add: t adjust_modules_eq s4)
    have "(pieces s2 ! i)\<lparr>pc_sect := None\<rparr> = (pieces s1 ! i)\<lparr>pc_sect := None\<rparr>" using a i by (simp add: same_script_def)
    then have "piece_input (pieces s2 ! i) = piece_input (pieces s1 ! i)"
      by (cases "pieces s2 ! i"; cases "pieces s1 ! i") (simp add: piece_input_def piece_key_def)
    then have "piece_input (pieces s3 ! i) = piece_input (pieces s1 ! i)"
      by (simp add: piece_input_def same_parts_piece [OF b(2)])
    then show "map piece_input (pieces t) ! i = map piece_input (input_pieces (mods s)) ! i"
      using i len by (simp add: t adjust_modules_eq s4 p1)
  qed
  ultimately show ?thesis ..
qed



definition small_script :: script where
  "small_script = script_start\<lparr>
     mods := [sample_module],
     top_stmts := [S_SECTION 1 0, S_SECTION 2 1],
     sects :=
       [sample_sect ''.text'' (Some (X_NUM 1 0x100)) [S_INPUT 1 False None [bytes_of ''LOC0''] []] False,
        sample_sect ''.data'' None [S_INPUT 2 False None [bytes_of ''*''] [], S_DATA 2 1 (X_NUM 2 7)] True]\<rparr>"



end
