(* ===== verification/Write_Elks.thy ===== *)
theory Write_Elks
  imports Script_Sound
begin

text \<open>
  Writing the linked program, \<^verbatim>\<open>write_elks\<close> of \<^verbatim>\<open>ld/writex86.c\<close>: common blocks
  are allocated, the script's layout places everything, symbols get their
  addresses, and the header, the texts of the modules, the script's data and the
  symbol table are written.  The file is finished by \<^verbatim>\<open>closeout\<close>, perhaps
  rewritten as records, and removed when there were errors.
\<close>

section \<open>Common blocks\<close>

text \<open>\<^verbatim>\<open>ld_roundup\<close> with a power of two.\<close>

definition ld_roundup :: "u32 \<Rightarrow> u32 \<Rightarrow> u32" where
  "ld_roundup num boundary = (num + (boundary - 1)) AND NOT (boundary - 1)"

text \<open>A symbol that is imported and not resolved is undefined when it has no size.\<close>

definition alloc_common :: "nat \<Rightarrow> nat \<Rightarrow> 'a script_scheme \<Rightarrow> 'a script_scheme" where
  "alloc_common m r s =
     (let y = symbols s ! r; seg = unat (sm_flags y AND SEGM_MASK) in
      if modptr y \<noteq> Some m \<or> has (sm_flags y) A_MASK then s
      else if \<not> has (sm_flags y) (I_MASK OR SA_MASK) then s
      else if sm_value y = 0 then s\<lparr>errcount := errcount s + 1\<rparr>
      else
        upd_mod m (\<lambda>md. md\<lparr>comsize := (comsize md)(seg := comsize md seg + ld_roundup (sm_value y) 4)\<rparr>)
          (upd_symbol r (\<lambda>y. y\<lparr>sm_value := comsize (mods s ! m) seg,
              sm_flags := if has (sm_flags y) SA_MASK then sm_flags y else sm_flags y OR C_MASK\<rparr>) s))"

text \<open>The loops over the symbols of the loaded modules.\<close>

definition loaded_symbols :: "'a link_scheme \<Rightarrow> (nat \<times> nat) list" where
  "loaded_symbols s =
     concat (map (\<lambda>m. if loadflag (mods s ! m) then map (Pair m) (symparray (mods s ! m)) else [])
       [0..<length (mods s)])"

definition alloc_commons :: "'a script_scheme \<Rightarrow> 'a script_scheme" where
  "alloc_commons s = fold (\<lambda>(m, r). alloc_common m r) (loaded_symbols s) s"

section \<open>Addresses of symbols\<close>

definition relocate_symbol :: "nat \<Rightarrow> nat \<Rightarrow> 'a script_scheme \<Rightarrow> 'a script_scheme" where
  "relocate_symbol m r s =
     (let y = symbols s ! r; seg = unat (sm_flags y AND SEGM_MASK) in
      if modptr y \<noteq> Some m \<or> has (sm_flags y) A_MASK then s
      else
        upd_symbol r (\<lambda>y. y\<lparr>sm_value := sm_value y +
          (if has (sm_flags y) (C_MASK OR SA_MASK) then comaddr (mods s ! m) seg else segaddr (mods s ! m) seg)\<rparr>) s)"

definition relocate_symbols :: "'a script_scheme \<Rightarrow> 'a script_scheme" where
  "relocate_symbols s = fold (\<lambda>(m, r). relocate_symbol m r) (loaded_symbols s) s"

text \<open>Everything before the output file is opened.\<close>

definition place_program :: "bool \<Rightarrow> 'a script_scheme \<Rightarrow> stop + 'a script_scheme" where
  "place_program sepid s =
     bindE (script_mark_imports s) (\<lambda>s1.
     bindE (script_layout sepid (headerless s1) (alloc_commons s1)) (\<lambda>s2.
       Inr (script_define_symbols (relocate_symbols s2))))"

section \<open>The header\<close>

definition exec_field :: "u32 \<Rightarrow> byte list" where
  "exec_field v = u2cn target [0, 0, 0, 0] v 4"

text \<open>The value of the first entry symbol.\<close>

definition entry_value :: "'a script_scheme \<Rightarrow> stop + u32" where
  "entry_value s = (case entrylist s of [] \<Rightarrow> Inl NullPointer | r # rs \<Rightarrow> Inr (sm_value (symbols s ! r)))"

definition exec_header :: "u32 \<Rightarrow> 'a script_scheme \<Rightarrow> byte list" where
  "exec_header entry s =
     (let heaptop = (case script_value (bytes_of ''__heap_top'') s of
            None \<Rightarrow> of_int (lay_bss_end s) + heap_top_value s | Some v \<Rightarrow> v)
      in [0x01, 0x03, if lay_sepid s then 0x20 else 0x10, 0x1F, ucast (FILEHEADERLENGTH s), 0, 0, 0] @
         exec_field (of_int (lay_text_end s - lay_text_start s)) @
         exec_field (of_int (lay_data_end s - lay_data_start s)) @
         exec_field (of_int (lay_bss_end s - lay_data_end s)) @
         exec_field entry @
         exec_field (heaptop - of_int (lay_data_start s) + of_int (lay_text_end s) - of_int (lay_text_start s)) @
         exec_field 0)"

definition writeheader :: "'a script_scheme \<Rightarrow> stop + 'a script_scheme" where
  "writeheader s =
     bindE (entry_value s) (\<lambda>entry. Inr (if headerless s then s else writeout (exec_header entry s) s))"

section \<open>The symbol table\<close>

text \<open>A name field of eight bytes: longer names are cut, shorter ones padded.\<close>

definition copyname :: "byte list \<Rightarrow> nat \<Rightarrow> byte list" where
  "copyname name siz = (let len = min siz (length name) in take len name @ replicate (siz - len) 0)"

definition nlist :: "byte list \<Rightarrow> u32 \<Rightarrow> byte \<Rightarrow> byte list" where
  "nlist name value sclass = copyname name 8 @ u4cn target [0, 0, 0, 0] (scast value) 4 @ [sclass, 0, 0, 0]"

definition symbol_class :: "u32 \<Rightarrow> byte" where
  "symbol_class flags =
     (let c = (if has flags A_MASK then 1 else if has flags (E_MASK OR I_MASK) then 0x10 else 0x18)
      in if has flags I_MASK \<and> \<not> has flags C_MASK then c
         else if flags AND (A_MASK OR SEGM_MASK) = 0 then c OR 2
         else if flags AND (A_MASK OR SEGM_MASK) = A_MASK then c
         else if has flags (C_MASK OR SA_MASK) then c OR 4
         else c OR 3)"

text \<open>The rest of a long name follows in entries of its own (\<^verbatim>\<open>-y\<close>).\<close>

function name_entries :: "byte list \<Rightarrow> byte list list" where
  "name_entries name = (if name = [] then [] else nlist (take 8 name) 0 0 # name_entries (drop 8 name))"
  by pat_completeness auto
termination
  by (relation "measure length") auto

declare name_entries.simps [simp del]

definition symbol_entries :: "bool \<Rightarrow> symstruct \<Rightarrow> byte list list" where
  "symbol_entries xsym y =
     nlist (sm_name y) (sm_value y) (symbol_class (sm_flags y)) #
     (if xsym then name_entries (drop 8 (sm_name y)) else [])"

definition script_class :: "sclass \<Rightarrow> byte" where
  "script_class c = (case c of C_TEXT \<Rightarrow> 0x12 | C_DATA \<Rightarrow> 0x13 | C_ABS \<Rightarrow> 1)"

definition script_entries :: "'a script_scheme \<Rightarrow> byte list list" where
  "script_entries s =
     map (\<lambda>ss. nlist (ss_name ss) (of_int (ss_value ss)) (script_class (ss_class ss)))
       (filter (\<lambda>ss. ss_defined ss \<and> \<not> referenced ss) (ssyms s))"

definition table_entries :: "bool \<Rightarrow> 'a script_scheme \<Rightarrow> byte list list" where
  "table_entries xsym s =
     concat (map (\<lambda>(m, r). if modptr (symbols s ! r) = Some m then symbol_entries xsym (symbols s ! r) else [])
       (loaded_symbols s)) @ script_entries s"

definition table_pos :: "'a script_scheme \<Rightarrow> nat" where
  "table_pos s =
     unat (FILEHEADERLENGTH s + scast (of_int (lay_text_end s - lay_text_start s) :: u32) +
           scast (of_int (lay_data_end s - lay_data_start s) :: u32))"

text \<open>
  The entries, written one after the other, and their size in the header, in four
  bytes at the offset 28 even of a file without a header.
\<close>

definition write_table :: "bool \<Rightarrow> 'a script_scheme \<Rightarrow> 'a script_scheme" where
  "write_table xsym s =
     (let es = table_entries xsym s;
          s1 = fold writeout es (seekout (table_pos s) s)
      in writeout (u4cn target [0, 0, 0, 0] (ucast (of_nat (length es) :: u32) * 16) 4) (seekout 28 s1))"

section \<open>The program\<close>

primrec write_modules :: "(byte list \<Rightarrow> byte list) \<Rightarrow> nat list \<Rightarrow> 'a script_scheme \<Rightarrow> stop + 'a script_scheme" where
  "write_modules files [] s = Inr s"
| "write_modules files (m # ms) s =
     (if loadflag (mods s ! m) then
        bindE (linkmod files m s) (\<lambda>s1. bindE (padmod m s1) (write_modules files ms))
      else write_modules files ms s)"

text \<open>Everything that goes to the output file of the linker itself.\<close>

definition write_image :: "(byte list \<Rightarrow> byte list) \<Rightarrow> bool \<Rightarrow> bool \<Rightarrow> 'a script_scheme \<Rightarrow> stop + 'a script_scheme" where
  "write_image files stripflag xsym s =
     bindE (writeheader (openout s)) (\<lambda>s1.
     bindE (script_write_fill s1) (\<lambda>s2.
     bindE (write_modules files [0..<length (mods s2)] s2) (\<lambda>s3.
       let s4 = script_write_data s3
       in Inr (closeout (if stripflag then s4 else write_table xsym s4)))))"

text \<open>The output file in the end: \<^verbatim>\<open>executable\<close> removes it after errors.\<close>

definition executable :: "'a script_scheme \<Rightarrow> byte list option" where
  "executable s = (if errcount s \<noteq> 0 then None else Some (out_file s))"

definition write_elks ::
  "(byte list \<Rightarrow> byte list) \<Rightarrow> byte list \<Rightarrow> bool \<Rightarrow> bool \<Rightarrow> bool \<Rightarrow> bool \<Rightarrow> 'a script_scheme \<Rightarrow>
     stop + byte list option \<times> 'a script_scheme" where
  "write_elks files outfilename reloc_output sepid stripflag xsym s =
     (if reloc_output then Inl (Fatal ''Output binformat not configured relocatable, use -N'')
      else
        bindE (place_program sepid s) (\<lambda>s1.
        bindE (write_image files stripflag xsym s1) (\<lambda>s2.
          if script_records s2 = 0 then Inr (executable s2, s2)
          else
            bindE (entry_value s2) (\<lambda>entry.
              let s3 = s2\<lparr>out_file := script_convert outfilename (out_file s2) entry s2\<rparr>
              in Inr (executable s3, s3)))))"

end
