(* ===== verification/Script_Frame.thy ===== *)
theory Script_Frame
  imports Script_Sound
begin

text \<open>
  What the layout of a script leaves alone: the linker's symbols and modules
  but for the places of their segments, and what the script says about its symbols.
\<close>

section \<open>The frame\<close>

definition bare :: "modstruct \<Rightarrow> modstruct" where
  "bare md = md\<lparr>segaddr := \<lambda>_. 0, comaddr := \<lambda>_. 0, segpad := \<lambda>_. 0, segfill := \<lambda>_. 0,
     segnoload := \<lambda>_. False, segfadj := \<lambda>_. 0\<rparr>"

definition settled :: "ssym \<Rightarrow> ssym" where
  "settled ss = ss\<lparr>assigned := False, ss_value := 0, ss_pvalue := 0\<rparr>"

definition same_link :: "'a script_scheme \<Rightarrow> 'a script_scheme \<Rightarrow> bool" where
  "same_link s t \<longleftrightarrow>
     symbols t = symbols s \<and> hashtab t = hashtab s \<and> entrylist t = entrylist s \<and> errcount t = errcount s \<and>
     headerless t = headerless s \<and> heap_top_value t = heap_top_value s \<and> script_records t = script_records s \<and>
     globalfill t = globalfill s \<and> map bare (mods t) = map bare (mods s) \<and> map settled (ssyms t) = map settled (ssyms s)"

lemma same_link_refl [simp]: "same_link s s"
  by (simp add: same_link_def)

lemma same_link_trans [trans]: "same_link s t \<Longrightarrow> same_link t u \<Longrightarrow> same_link s u"
  by (simp add: same_link_def)

lemma bare_fields:
  assumes "bare a = bare b"
  shows "symparray a = symparray b" "loadflag a = loadflag b" "comsize a = comsize b" "filename a = filename b"
    "textoffset a = textoffset b" "segsize a = segsize b" "segsizedesc a = segsizedesc b"
  using assms by (cases a; cases b; simp add: bare_def)+

lemma settled_fields:
  assumes "settled a = settled b"
  shows "ss_symptr a = ss_symptr b" "ss_name a = ss_name b" "ss_defined a = ss_defined b" "referenced a = referenced b"
    "ss_class a = ss_class b" "hidden a = hidden b" "plain a = plain b" "provide a = provide b" "moddef a = moddef b"
  using assms by (cases a; cases b; simp add: settled_def)+

lemma map_eq_nth: "map f xs = map f ys \<Longrightarrow> i < length ys \<Longrightarrow> f (xs ! i) = f (ys ! i)"
  by (metis length_map nth_map)

lemma same_link_mods:
  assumes "same_link s t"
  shows "length (mods t) = length (mods s)" "m < length (mods s) \<Longrightarrow> bare (mods t ! m) = bare (mods s ! m)"
proof -
  have e: "map bare (mods t) = map bare (mods s)" using assms by (simp add: same_link_def)
  show "length (mods t) = length (mods s)" using arg_cong [OF e, of length] by simp
  show "m < length (mods s) \<Longrightarrow> bare (mods t ! m) = bare (mods s ! m)" by (rule map_eq_nth [OF e])
qed

text \<open>A computation that ends well and leaves the frame alone.\<close>

definition frames :: "'a script_scheme \<Rightarrow> stop + 'a script_scheme \<Rightarrow> bool" where
  "frames s r \<longleftrightarrow> (\<forall>t. r = Inr t \<longrightarrow> same_link s t)"

lemma frames_Inl [simp]: "frames s (Inl e)"
  by (simp add: frames_def)

lemma frames_Inr [simp]: "frames s (Inr t) \<longleftrightarrow> same_link s t"
  by (simp add: frames_def)

lemma frames_bind: "frames s r \<Longrightarrow> (\<And>t. same_link s t \<Longrightarrow> frames t (f t)) \<Longrightarrow> frames s (bindE r f)"
  by (cases r) (auto simp: frames_def intro: same_link_trans)

lemma frames_let: "(\<And>v. frames s (f v)) \<Longrightarrow> frames s (bindE r f)"
  by (cases r) simp_all

lemma frames_if: "(b \<Longrightarrow> frames s r) \<Longrightarrow> (\<not> b \<Longrightarrow> frames s r') \<Longrightarrow> frames s (if b then r else r')"
  by simp

lemma frames_trans: "same_link s t \<Longrightarrow> frames t r \<Longrightarrow> frames s r"
  by (auto simp: frames_def intro: same_link_trans)

section \<open>The layout\<close>

lemma map_upd_bare: "(\<And>md. bare (f md) = bare md) \<Longrightarrow> map bare (ms[m := f (ms ! m)]) = map bare ms"
  by (cases "m < length ms") (auto simp: map_update list_update_beyond intro: list_update_same_conv [THEN iffD2])

lemma map_upd_settled: "(\<And>ss. settled (f ss) = settled ss) \<Longrightarrow> map settled (xs[k := f (xs ! k)]) = map settled xs"
  by (cases "k < length xs") (auto simp: map_update list_update_beyond intro: list_update_same_conv [THEN iffD2])

lemma same_link_upds:
  "same_link s (upd_sect k f s)" "same_link s (upd_piece i g s)" "same_link s (upd_region r h s)"
  by (simp_all add: same_link_def upd_sect_def upd_piece_def upd_region_def)

lemma same_link_upd_ssym: "(\<And>ss. settled (f ss) = settled ss) \<Longrightarrow> same_link s (upd_ssym k f s)"
  by (simp add: same_link_def upd_ssym_def map_upd_settled)

lemma bare_place_module: "bare (place_module pc pad s md) = bare md"
  by (simp add: bare_def place_module_def Let_def)

lemma frames_gap: "frames s (gap a s)"
  by (auto simp: gap_def addextra_def same_link_def intro!: frames_let)

lemma frames_place_piece: "frames s (place_piece sub i s)"
  by (auto simp: place_piece_def Let_def same_link_def upd_piece_def upd_mod_def map_upd_bare bare_place_module
      intro!: frames_let)

lemma frames_place_pieces: "frames s (place_pieces sub is s)"
  by (induction "is" arbitrary: s) (simp_all add: frames_bind frames_place_piece)

lemma settled_assign: "settled (ss\<lparr>ss_value := v, assigned := b\<rparr>) = settled ss"
  by (simp add: settled_def)

lemma frames_assign_symbol: "frames s (assign_symbol ak k e s)"
  by (auto simp: assign_symbol_def settled_assign intro!: frames_let same_link_upd_ssym)

lemma frames_note_assert: "frames s (note_assert st e s)"
  by (auto simp: note_assert_def same_link_def intro!: frames_let)

lemma frames_walk_stmt:
  fixes s :: "'a script_scheme"
  shows "frames s (walk_stmt sub st s)"
proof -
  have "frames s (walk_data n e s)" for n e
    by (auto simp: walk_data_def addextra_def same_link_def intro!: frames_let)
  moreover have "frames s (walk_dot e s)" for e
    unfolding walk_dot_def
  proof (rule frames_let, rule frames_if, rule frames_Inl, rule frames_bind [OF frames_gap])
    show "frames t (Inr (t\<lparr>dot := v\<rparr>))" for t :: "'a script_scheme" and v by (simp add: same_link_def)
  qed
  moreover have "frames s (bindE (fillbyte s e) (\<lambda>b. Inr (s\<lparr>curfill := b\<rparr>)))" for e
    by (auto simp: same_link_def intro!: frames_let)
  ultimately show ?thesis
    by (auto simp: walk_stmt_def frames_assign_symbol frames_note_assert frames_place_pieces
        split: stmt.split option.split)
qed

lemma frames_walk: "frames s (walk sub sts s)"
proof (induction sts arbitrary: s rule: stmt_pieces.induct)
  case (2 l body sts)
  have "same_link s t" if "walk sub (S_ONEPAGE l body # sts) s = Inr t" for t
    using that
  proof (cases rule: walk_onepageE)
    case (stay s1)
    with 2 [of s] 2(2) [of s1] show ?thesis by (auto simp: frames_def intro: same_link_trans)
  next
    case (move s1 a s2 s4)
    let ?u = "s1\<lparr>extras := take (length (extras s)) (extras s1), curfill := curfill s, dot := dot s\<rparr>"
    have "same_link s s1" using 2(1) move(1) by (simp add: frames_def)
    also have "same_link s1 ?u" by (simp add: same_link_def)
    also have "same_link ?u s2" using frames_gap move(5) by (auto simp: frames_def)
    also have "same_link s2 (s2\<lparr>dot := PAGE a\<rparr>)" by (simp add: same_link_def)
    also have "same_link (s2\<lparr>dot := PAGE a\<rparr>) s4" using 2(1) move(6) by (simp add: frames_def)
    also have "same_link s4 t" using 2(2) move(7) by (simp add: frames_def)
    finally show ?thesis .
  qed
  then show ?case by (simp add: frames_def)
qed (auto intro!: frames_bind frames_walk_stmt)


lemma frames_layout_section: "frames s (layout_section k s)"
proof -
  let ?s = "s\<lparr>cursect := Some k\<rparr>"
  have rc: "same_link u (raise_cursor r a u)" for r a and u :: "'a script_scheme"
    by (cases r) (simp_all add: raise_cursor_def same_link_upds)
  have w: "frames s (walk sub sts (upd_sect k f (upd_sect k g ?s)\<lparr>curfill := fill, dot := start\<rparr>))"
    for sub sts f g fill start
    by (rule frames_trans [OF _ frames_walk]) (simp add: same_link_def upd_sect_def)
  have e: "same_link u ((raise_cursor r a (raise_cursor r' a' (upd_sect k f u)))\<lparr>cursect := None\<rparr>)"
    for r a r' a' f and u :: "'a script_scheme"
  proof -
    have "same_link u (upd_sect k f u)" by (rule same_link_upds)
    also note rc
    also note rc
    finally show ?thesis by (simp add: same_link_def)
  qed
  show ?thesis
    unfolding layout_section_def Let_def
    by (rule frames_bind [OF w] | rule frames_let | simp only: frames_Inr e)+
qed

lemma frames_eval_regions: "frames s (eval_regions rs s)"
proof (induction rs arbitrary: s)
  case (Cons r rs)
  have "same_link s (upd_region r g (upd_region r f s))" for f g
    by (rule same_link_trans [OF same_link_upds(3) same_link_upds(3)])
  then show ?case by (auto simp: Let_def intro!: frames_let frames_trans [OF _ Cons])
qed simp

lemma frames_layout_top: "frames s (layout_top sts s)"
proof (induction sts arbitrary: s)
  case (Cons st sts)
  have "frames s (bindE (eval s e) (\<lambda>v. Inr (s\<lparr>dot := v\<rparr>)))" for e
    by (auto simp: same_link_def intro!: frames_let)
  then have "frames s (case st of
              S_SECTION l k \<Rightarrow> layout_section k s
            | S_ASSERT l e msg \<Rightarrow> note_assert st e s
            | S_ASSIGN l ak (Some k) e \<Rightarrow> assign_symbol ak k e s
            | S_ASSIGN l ak None e \<Rightarrow> bindE (eval s e) (\<lambda>v. Inr (s\<lparr>dot := v\<rparr>))
            | _ \<Rightarrow> Inl NullPointer)"
    by (simp add: frames_layout_section frames_note_assert frames_assign_symbol split: stmt.split option.split)
  from frames_bind [OF this Cons] show ?case by simp
qed simp

lemma frames_layout_passes: "frames s (layout_passes n again s)"
proof (induction n arbitrary: again s)
  case (Suc n)
  let ?u = "s\<lparr>ssyms := map (\<lambda>ss. ss\<lparr>assigned := False\<rparr>) (ssyms s), extras := [], failed_assert := None, dot := 0\<rparr>"
  have "same_link s ?u" by (simp add: same_link_def settled_def)
  then have "frames s (eval_regions [0..<length (regions s)] ?u)" by (rule frames_trans [OF _ frames_eval_regions])
  then have "frames s (layout_pass s)"
    unfolding layout_pass_def by (rule frames_bind) (rule frames_layout_top)
  moreover have "frames t (case remember t of (diff, s2) \<Rightarrow>
      if \<not> diff \<and> again then Inr s2 else layout_passes n True s2)" for t :: "'a script_scheme"
  proof -
    have "same_link t (snd (remember t))" by (simp add: remember_def same_link_def settled_def)
    then show ?thesis by (simp add: case_prod_beta frames_trans [OF _ Suc])
  qed
  ultimately show ?case by (simp add: frames_bind)
qed simp

lemma same_link_assign_section: "same_link s (assign_section k s)"
  by (simp add: assign_section_def same_link_def upd_sect_def split: prod.split)

lemma frames_orphans: "frames s (orphans s)"
proof -
  have "frames s (place_orphans part is s)" for part "is" and s :: "'a script_scheme"
    by (simp add: place_orphans_def same_link_def upd_sect_def split: option.split)
  then show ?thesis by (simp add: orphans_def Let_def frames_bind)
qed

lemma bare_unadjusted: "unadjusted a = unadjusted b \<Longrightarrow> bare a = bare b"
  by (cases a; cases b) (simp add: unadjusted_def bare_def)

lemma same_link_adjust: "same_link s (adjust_modules s)"
proof -
  have "map bare (fold (adjust_step s) (pieces s) (mods s)) = map bare (mods s)"
  proof (rule nth_equalityI)
    show "length (map bare (fold (adjust_step s) (pieces s) (mods s))) = length (map bare (mods s))"
      by (simp add: adjust_mods)
    have "bare (fold (adjust_step s) (pieces s) (mods s) ! m) = bare (mods s ! m)" for m
      by (rule bare_unadjusted) (simp add: adjust_mods)
    then show "map bare (fold (adjust_step s) (pieces s) (mods s)) ! m = map bare (mods s) ! m"
      if "m < length (map bare (fold (adjust_step s) (pieces s) (mods s)))" for m
      using that by (simp add: adjust_mods)
  qed
  then show ?thesis by (simp add: adjust_modules_eq same_link_def)
qed

lemma frames_layout_result: "frames s (layout_result sepid binary s)"
proof -
  have "same_link s ((part_bounds s)\<lparr>lay_data_end := e, lay_sepid := b, filelow := f\<rparr>)" for e b f
    by (simp add: part_bounds_def Let_def same_link_def)
  from same_link_trans [OF this same_link_adjust] show ?thesis
    by (simp add: layout_result_def Let_def frames_let)
qed

lemma script_layout_frame:
  assumes "script_layout sepid binary s = Inr t"
  shows "same_link s t"
proof -
  let ?s = "s\<lparr>sepid_option := sepid, binary_output := binary, pieces := input_pieces (mods s)\<rparr>"
  have a: "same_link u (fold assign_section ks u)" for ks and u :: "'a script_scheme"
    by (induction ks arbitrary: u) (auto intro: same_link_trans same_link_assign_section)
  have "same_link s (fold assign_section (section_stmts (top_stmts ?s)) ?s)"
    by (rule same_link_trans [OF _ a]) (simp add: same_link_def)
  then have "frames s (script_layout sepid binary s)"
    unfolding script_layout_def Let_def
    by (intro frames_trans [OF _ frames_bind [OF frames_orphans frames_bind [OF frames_layout_passes frames_layout_result]]])
  with assms show ?thesis by (simp add: frames_def)
qed

end
