(* ===== verification/Write_Props.thy ===== *)
theory Write_Props
  imports Write_Elks Script_Frame
begin

text \<open>
  Where symbols end up: every symbol of a loaded module has the address of its
  segment, as the layout placed it, plus its offset; common blocks do not
  overlap and lie in the pieces that the layout placed for them.
\<close>

section \<open>Each symbol is met once\<close>

text \<open>The symbols of the loaded modules that own them, in the order of the loops.\<close>

definition owned_list :: "'a link_scheme \<Rightarrow> nat list" where
  "owned_list s = map snd (filter (\<lambda>(m, r). modptr (symbols s ! r) = Some m) (loaded_symbols s))"

definition distinct_arrays :: "'a link_scheme \<Rightarrow> bool" where
  "distinct_arrays s \<longleftrightarrow>
     (\<forall>md\<in>set (mods s). distinct (symparray md) \<and> (\<forall>r\<in>set (symparray md). r < length (symbols s)))"

definition owned :: "'a link_scheme \<Rightarrow> nat \<Rightarrow> nat \<Rightarrow> bool" where
  "owned s m r \<longleftrightarrow>
     m < length (mods s) \<and> loadflag (mods s ! m) \<and> r \<in> set (symparray (mods s ! m)) \<and> modptr (symbols s ! r) = Some m"

lemma mem_loaded_symbols:
  "(m, r) \<in> set (loaded_symbols s) \<longleftrightarrow> m < length (mods s) \<and> loadflag (mods s ! m) \<and> r \<in> set (symparray (mods s ! m))"
  by (auto simp: loaded_symbols_def)

lemma mem_owned_list: "r \<in> set (owned_list s) \<longleftrightarrow> (\<exists>m. owned s m r)"
  by (auto simp: owned_list_def owned_def mem_loaded_symbols image_iff intro!: bexI)

lemma distinct_loaded_symbols: "distinct_arrays s \<Longrightarrow> distinct (loaded_symbols s)"
proof -
  assume d: "distinct_arrays s"
  have "distinct (concat (map (\<lambda>m. if loadflag (mods s ! m) then map (Pair m) (symparray (mods s ! m)) else []) ms))"
    if "distinct ms" "set ms \<subseteq> {..<length (mods s)}" for ms
    using that
  proof (induction ms)
    case (Cons m ms)
    then have "distinct (symparray (mods s ! m))" using d by (simp add: distinct_arrays_def)
    with Cons show ?case by (auto simp: distinct_map inj_on_def)
  qed simp
  from this [of "[0..<length (mods s)]"] show ?thesis by (simp add: loaded_symbols_def lessThan_atLeast0)
qed

lemma distinct_owned_list: "distinct_arrays s \<Longrightarrow> distinct (owned_list s)"
  by (auto simp: owned_list_def distinct_map distinct_loaded_symbols inj_on_def)

lemma owned_range: "distinct_arrays s \<Longrightarrow> r \<in> set (owned_list s) \<Longrightarrow> r < length (symbols s)"
  by (auto simp: mem_owned_list owned_def distinct_arrays_def)

text \<open>
  A loop whose steps only act on symbols that belong to the module, and leave the
  owners alone, is a loop over the list of owned symbols.
\<close>

lemma fold_owned:
  fixes s :: "'a script_scheme"
  assumes skip: "\<And>m r (s :: 'a script_scheme). modptr (symbols s ! r) \<noteq> Some m \<Longrightarrow> f m r s = s"
    and keep: "\<And>m r x (s :: 'a script_scheme). modptr (symbols (f m r s) ! x) = modptr (symbols s ! x)"
  shows "fold (\<lambda>(m, r). f m r) (loaded_symbols s) s = fold (\<lambda>r t. f (the (modptr (symbols t ! r))) r t) (owned_list s) s"
proof -
  have "fold (\<lambda>(m, r). f m r) ps t =
      fold (\<lambda>r t. f (the (modptr (symbols t ! r))) r t) (map snd (filter (\<lambda>(m, r). modptr (symbols s ! r) = Some m) ps)) t"
    if "\<And>x. modptr (symbols t ! x) = modptr (symbols s ! x)" for ps and t :: "'a script_scheme"
    using that by (induction ps arbitrary: t) (auto simp: skip keep)
  then show ?thesis by (simp add: owned_list_def)
qed

section \<open>Common blocks\<close>

definition sym_seg :: "symstruct \<Rightarrow> nat" where
  "sym_seg y = unat (sm_flags y AND SEGM_MASK)"

definition unresolved :: "symstruct \<Rightarrow> bool" where
  "unresolved y \<longleftrightarrow> \<not> has (sm_flags y) A_MASK \<and> has (sm_flags y) (I_MASK OR SA_MASK)"

definition is_common :: "symstruct \<Rightarrow> bool" where
  "is_common y \<longleftrightarrow> unresolved y \<and> sm_value y \<noteq> 0"

definition common_len :: "symstruct \<Rightarrow> nat" where
  "common_len y = unat (ld_roundup (sm_value y) 4)"

definition common_in :: "nat \<Rightarrow> nat \<Rightarrow> symstruct \<Rightarrow> bool" where
  "common_in m seg y \<longleftrightarrow> modptr y = Some m \<and> is_common y \<and> sym_seg y = seg"

definition commons_size :: "'a link_scheme \<Rightarrow> nat \<Rightarrow> nat \<Rightarrow> nat list \<Rightarrow> nat" where
  "commons_size s m seg rs =
     sum_list (map (\<lambda>r. common_len (symbols s ! r)) (filter (\<lambda>r. common_in m seg (symbols s ! r)) rs))"

definition alloc_symbol :: "nat \<Rightarrow> 'a script_scheme \<Rightarrow> 'a script_scheme" where
  "alloc_symbol r s = alloc_common (the (modptr (symbols s ! r))) r s"

definition tableless :: "'a script_scheme \<Rightarrow> 'a script_scheme" where
  "tableless s = s\<lparr>symbols := [], mods := [], errcount := 0\<rparr>"

definition alloc_count :: "'a script_scheme \<Rightarrow> nat list \<Rightarrow> nat" where
  "alloc_count s rs = length (filter (\<lambda>r. unresolved (symbols s ! r) \<and> sm_value (symbols s ! r) = 0) rs)"

definition alloc_value :: "'a script_scheme \<Rightarrow> nat \<Rightarrow> nat list \<Rightarrow> nat \<Rightarrow> symstruct" where
  "alloc_value s m rs x =
     (let y = symbols s ! x in
      y\<lparr>sm_value := comsize (mods s ! m) (sym_seg y) + of_nat (commons_size s m (sym_seg y) (takeWhile ((\<noteq>) x) rs)),
        sm_flags := if has (sm_flags y) SA_MASK then sm_flags y else sm_flags y OR C_MASK\<rparr>)"

definition alloc_module :: "'a script_scheme \<Rightarrow> nat list \<Rightarrow> nat \<Rightarrow> modstruct" where
  "alloc_module s rs m =
     (mods s ! m)\<lparr>comsize := \<lambda>seg. comsize (mods s ! m) seg + of_nat (commons_size s m seg rs)\<rparr>"

definition allocated :: "'a script_scheme \<Rightarrow> nat list \<Rightarrow> 'a script_scheme \<Rightarrow> bool" where
  "allocated s rs t \<longleftrightarrow>
     tableless t = tableless s \<and>
     length (symbols t) = length (symbols s) \<and> length (mods t) = length (mods s) \<and>
     (\<forall>x. x \<notin> set rs \<or> \<not> is_common (symbols s ! x) \<longrightarrow> symbols t ! x = symbols s ! x) \<and>
     (\<forall>x\<in>set rs. \<forall>m<length (mods s). is_common (symbols s ! x) \<and> modptr (symbols s ! x) = Some m \<longrightarrow>
        symbols t ! x = alloc_value s m rs x) \<and>
     (\<forall>m<length (mods s). mods t ! m = alloc_module s rs m) \<and>
     errcount t = errcount s + of_nat (alloc_count s rs)"

lemma allocatedD:
  assumes "allocated s rs t"
  shows "tableless t = tableless s" "length (symbols t) = length (symbols s)" "length (mods t) = length (mods s)"
    "x \<notin> set rs \<or> \<not> is_common (symbols s ! x) \<Longrightarrow> symbols t ! x = symbols s ! x"
    "x \<in> set rs \<Longrightarrow> m < length (mods s) \<Longrightarrow> is_common (symbols s ! x) \<Longrightarrow> modptr (symbols s ! x) = Some m \<Longrightarrow>
      symbols t ! x = alloc_value s m rs x"
    "m < length (mods s) \<Longrightarrow> mods t ! m = alloc_module s rs m"
    "errcount t = errcount s + of_nat (alloc_count s rs)"
  using assms unfolding allocated_def by blast+

lemma commons_size_append: "commons_size s m seg (xs @ ys) = commons_size s m seg xs + commons_size s m seg ys"
  by (simp add: commons_size_def)

lemma commons_size_Cons:
  "commons_size s m seg (x # xs) =
     (if common_in m seg (symbols s ! x) then common_len (symbols s ! x) else 0) + commons_size s m seg xs"
  by (simp add: commons_size_def)

lemma commons_size_cong:
  "(\<And>x. x \<in> set xs \<Longrightarrow> symbols t ! x = symbols s ! x) \<Longrightarrow> commons_size t m seg xs = commons_size s m seg xs"
  by (induction xs) (simp_all add: commons_size_Cons, simp add: commons_size_def)

lemma alloc_count_cong:
  "(\<And>x. x \<in> set xs \<Longrightarrow> symbols t ! x = symbols s ! x) \<Longrightarrow> alloc_count t xs = alloc_count s xs"
  by (induction xs) (simp_all add: alloc_count_def)

lemma allocated_append:
  assumes a: "allocated s xs u" and b: "allocated u ys t" and d: "distinct (xs @ ys)"
  shows "allocated s (xs @ ys) t"
proof -
  have ys: "symbols u ! x = symbols s ! x" "x \<notin> set xs" if "x \<in> set ys" for x
    using d that allocatedD(4) [OF a, of x] by auto
  have size: "commons_size u m seg zs = commons_size s m seg zs" if "set zs \<subseteq> set ys" for m seg zs
    using that ys(1) by (intro commons_size_cong) blast
  have same: "alloc_value u m ys x = alloc_value s m (xs @ ys) x" if "x \<in> set ys" "m < length (mods s)" for m x
  proof -
    have "takeWhile ((\<noteq>) x) (xs @ ys) = xs @ takeWhile ((\<noteq>) x) ys" using ys(2) [OF that(1)] by (intro takeWhile_append2) auto
    moreover have "commons_size u m seg (takeWhile ((\<noteq>) x) ys) = commons_size s m seg (takeWhile ((\<noteq>) x) ys)" for seg
      by (intro size) (auto dest: set_takeWhileD)
    ultimately show ?thesis
      using ys(1) [OF that(1)] allocatedD(6) [OF a that(2)]
      by (simp add: alloc_value_def alloc_module_def commons_size_append Let_def add.assoc)
  qed
  have old: "alloc_value s m (xs @ ys) x = alloc_value s m xs x" if "x \<in> set xs" for m x
    using takeWhile_append1 [OF that, of "(\<noteq>) x" ys] by (simp add: alloc_value_def)
  show ?thesis
    unfolding allocated_def
  proof (intro conjI allI ballI impI)
    show "tableless t = tableless s" "length (symbols t) = length (symbols s)" "length (mods t) = length (mods s)"
      using allocatedD(1-3) [OF a] allocatedD(1-3) [OF b] by simp_all
    show "symbols t ! x = symbols s ! x" if "x \<notin> set (xs @ ys) \<or> \<not> is_common (symbols s ! x)" for x
      using that allocatedD(4) [OF a, of x] allocatedD(4) [OF b, of x] by auto
    show "mods t ! m = alloc_module s (xs @ ys) m" if "m < length (mods s)" for m
      using allocatedD(6) [OF b, of m] allocatedD(6) [OF a that] allocatedD(3) [OF a] that size [OF subset_refl]
      by (simp add: alloc_module_def commons_size_append add.assoc)
    have "alloc_count u ys = alloc_count s ys" by (rule alloc_count_cong) (rule ys(1))
    then show "errcount t = errcount s + of_nat (alloc_count s (xs @ ys))"
      using allocatedD(7) [OF a] allocatedD(7) [OF b] by (simp add: alloc_count_def)
    fix x m assume x: "x \<in> set (xs @ ys)" and m: "m < length (mods s)"
      and c: "is_common (symbols s ! x) \<and> modptr (symbols s ! x) = Some m"
    show "symbols t ! x = alloc_value s m (xs @ ys) x"
    proof (cases "x \<in> set ys")
      case True
      then show ?thesis
        using allocatedD(5) [OF b, of x m] ys [of x] same [of x m] m c allocatedD(3) [OF a] by simp
    next
      case False
      then show ?thesis
        using x allocatedD(4) [OF b, of x] allocatedD(5) [OF a, of x m] m c old by simp
    qed
  qed
qed

lemma allocated_Nil: "allocated s [] s"
  by (simp add: allocated_def alloc_module_def commons_size_def alloc_count_def)

lemma has_union: "has f (a OR b) \<longleftrightarrow> has f a \<or> has (f :: 'a::len word) b"
  by (simp add: bit.conj_disj_distrib or_eq_0_iff)

lemma allocated_single:
  assumes "r < length (symbols s)" and m: "m < length (mods s)" "modptr (symbols s ! r) = Some m"
  shows "allocated s [r] (alloc_symbol r s)"
proof -
  let ?y = "symbols s ! r"
  consider (skip) "\<not> unresolved ?y" | (undef) "unresolved ?y" "sm_value ?y = 0" | (common) "is_common ?y"
    by (auto simp: is_common_def)
  then show ?thesis
  proof cases
    case skip
    then have "alloc_symbol r s = s"
      by (auto simp: alloc_symbol_def alloc_common_def m Let_def unresolved_def)
    with skip show ?thesis
      by (simp add: allocated_def alloc_module_def commons_size_Cons alloc_count_def is_common_def common_in_def)
         (simp add: commons_size_def)
  next
    case undef
    then have "alloc_symbol r s = s\<lparr>errcount := errcount s + 1\<rparr>"
      by (auto simp: alloc_symbol_def alloc_common_def m Let_def unresolved_def)
    with undef show ?thesis
      by (simp add: allocated_def alloc_module_def commons_size_Cons alloc_count_def is_common_def common_in_def
          tableless_def) (simp add: commons_size_def)
  next
    case common
    let ?seg = "sym_seg ?y"
    have e: "alloc_symbol r s =
        upd_mod m (\<lambda>md. md\<lparr>comsize := (comsize md)(?seg := comsize md ?seg + ld_roundup (sm_value ?y) 4)\<rparr>)
          (upd_symbol r (\<lambda>y. y\<lparr>sm_value := comsize (mods s ! m) ?seg,
              sm_flags := if has (sm_flags y) SA_MASK then sm_flags y else sm_flags y OR C_MASK\<rparr>) s)"
      using common by (auto simp: alloc_symbol_def alloc_common_def m Let_def unresolved_def is_common_def sym_seg_def)
    have size: "commons_size s k seg [r] = (if k = m \<and> seg = ?seg then common_len ?y else 0)" for k seg
      using common m by (auto simp: commons_size_def common_in_def)
    have id: "md\<lparr>comsize := comsize md\<rparr> = md" for md :: modstruct by simp
    have upd: "(comsize (mods s ! m))(?seg := comsize (mods s ! m) ?seg + ld_roundup (sm_value ?y) 4) =
        (\<lambda>seg. comsize (mods s ! m) seg + of_nat (commons_size s m seg [r]))"
      by (rule ext) (simp add: size common_len_def)
    have "mods (alloc_symbol r s) ! k = alloc_module s [r] k" if "k < length (mods s)" for k
    proof (cases "k = m")
      case True
      then show ?thesis using m by (simp add: e alloc_module_def upd_mod_def upd_symbol_def upd)
    next
      case False
      then show ?thesis by (simp add: e alloc_module_def upd_mod_def upd_symbol_def size id)
    qed
    moreover have "symbols (alloc_symbol r s) ! r = alloc_value s m [r] r"
      using assms(1) by (simp add: e alloc_value_def Let_def upd_mod_def upd_symbol_def commons_size_def)
    moreover have "symbols (alloc_symbol r s) ! x = symbols s ! x" if "x \<noteq> r" for x
      using that by (simp add: e upd_mod_def upd_symbol_def)
    moreover have "alloc_count s [r] = 0" using common by (simp add: alloc_count_def is_common_def)
    ultimately show ?thesis
      using m common by (auto simp: allocated_def tableless_def e upd_mod_def upd_symbol_def)
  qed
qed

lemma alloc_allocated:
  assumes "distinct rs" and "\<forall>r\<in>set rs. r < length (symbols s) \<and> (\<exists>m<length (mods s). modptr (symbols s ! r) = Some m)"
  shows "allocated s rs (fold alloc_symbol rs s)"
  using assms
proof (induction rs rule: rev_induct)
  case Nil
  then show ?case by (simp add: allocated_Nil)
next
  case (snoc r rs)
  let ?u = "fold alloc_symbol rs s"
  have a: "allocated s rs ?u" using snoc by simp
  obtain m where "m < length (mods s)" "modptr (symbols s ! r) = Some m" using snoc.prems by auto
  moreover have "symbols ?u ! r = symbols s ! r" using allocatedD(4) [OF a] snoc.prems(1) by simp
  ultimately have "allocated ?u [r] (alloc_symbol r ?u)"
    using snoc.prems allocatedD(2,3) [OF a] by (intro allocated_single) auto
  from allocated_append [OF a this snoc.prems(1)] show ?case by simp
qed


text \<open>The common blocks of a segment of a module follow each other.\<close>

lemma commons_in_row:
  assumes "distinct rs" and "x \<in> set rs" "common_in m seg (symbols s ! x)"
  shows "commons_size s m seg (takeWhile ((\<noteq>) x) rs) + common_len (symbols s ! x) \<le> commons_size s m seg rs"
    and "y \<in> set rs \<Longrightarrow> common_in m seg (symbols s ! y) \<Longrightarrow> x \<noteq> y \<Longrightarrow>
      commons_size s m seg (takeWhile ((\<noteq>) x) rs) + common_len (symbols s ! x) \<le> commons_size s m seg (takeWhile ((\<noteq>) y) rs) \<or>
      commons_size s m seg (takeWhile ((\<noteq>) y) rs) + common_len (symbols s ! y) \<le> commons_size s m seg (takeWhile ((\<noteq>) x) rs)"
proof -
  have Nil: "commons_size s m seg [] = 0" by (simp add: commons_size_def)
  show "commons_size s m seg (takeWhile ((\<noteq>) x) rs) + common_len (symbols s ! x) \<le> commons_size s m seg rs"
    using assms by (induction rs) (auto simp: commons_size_Cons Nil)
  show "commons_size s m seg (takeWhile ((\<noteq>) x) rs) + common_len (symbols s ! x) \<le> commons_size s m seg (takeWhile ((\<noteq>) y) rs) \<or>
      commons_size s m seg (takeWhile ((\<noteq>) y) rs) + common_len (symbols s ! y) \<le> commons_size s m seg (takeWhile ((\<noteq>) x) rs)"
    if "y \<in> set rs" "common_in m seg (symbols s ! y)" "x \<noteq> y"
    using assms that by (induction rs) (auto simp: commons_size_Cons Nil)
qed

lemma alloc_commons_fold:
  fixes s :: "'a script_scheme"
  shows "alloc_commons s = fold alloc_symbol (owned_list s) s"
proof -
  have "modptr (symbols (alloc_common m r u) ! x) = modptr (symbols u ! x)" for m r x and u :: "'a script_scheme"
    by (cases "x = r"; cases "r < length (symbols u)")
       (simp_all add: alloc_common_def Let_def upd_mod_def upd_symbol_def list_update_beyond not_less)
  moreover have "alloc_common m r u = u" if "modptr (symbols u ! r) \<noteq> Some m" for m r and u :: "'a script_scheme"
    using that by (simp add: alloc_common_def Let_def)
  ultimately show ?thesis
    using fold_owned [of alloc_common s] by (simp add: alloc_commons_def alloc_symbol_def [abs_def])
qed

lemma alloc_commons_allocated:
  assumes "distinct_arrays s"
  shows "allocated s (owned_list s) (alloc_commons s)"
  unfolding alloc_commons_fold
  using distinct_owned_list [OF assms] owned_range [OF assms]
  by (intro alloc_allocated) (auto simp: mem_owned_list owned_def)

section \<open>Relocation\<close>

definition placed_symbol :: "modstruct list \<Rightarrow> symstruct \<Rightarrow> symstruct" where
  "placed_symbol ms y =
     (if has (sm_flags y) A_MASK then y
      else y\<lparr>sm_value := sm_value y +
        (if has (sm_flags y) (C_MASK OR SA_MASK) then comaddr (ms ! the (modptr y)) (sym_seg y)
         else segaddr (ms ! the (modptr y)) (sym_seg y))\<rparr>)"

lemma relocate_one:
  assumes "modptr (symbols u ! r) = Some k" and "r < length (symbols u)"
  shows "relocate_symbol k r u = u\<lparr>symbols := (symbols u)[r := placed_symbol (mods u) (symbols u ! r)]\<rparr>"
proof -
  have "u\<lparr>symbols := symbols u\<rparr> = u" by simp
  with assms show ?thesis
    by (simp add: relocate_symbol_def Let_def placed_symbol_def sym_seg_def upd_symbol_def list_update_same_conv)
qed

lemma relocate_owned:
  fixes s :: "'a script_scheme"
  assumes "distinct rs" and "\<forall>r\<in>set rs. r < length (symbols s) \<and> modptr (symbols s ! r) \<noteq> None"
  shows "let t = fold (\<lambda>r t. relocate_symbol (the (modptr (symbols t ! r))) r t) rs s in
    t = s\<lparr>symbols := symbols t\<rparr> \<and> length (symbols t) = length (symbols s) \<and>
    (\<forall>x. symbols t ! x = (if x \<in> set rs then placed_symbol (mods s) (symbols s ! x) else symbols s ! x))"
  using assms
proof (induction rs rule: rev_induct)
  case (snoc r rs)
  define u where "u = fold (\<lambda>r t. relocate_symbol (the (modptr (symbols t ! r))) r t) rs s"
  have u: "u = s\<lparr>symbols := symbols u\<rparr>" "length (symbols u) = length (symbols s)"
    "\<And>x. symbols u ! x = (if x \<in> set rs then placed_symbol (mods s) (symbols s ! x) else symbols s ! x)"
    using snoc by (simp_all add: Let_def u_def)
  have m: "mods u = mods s" by (subst u(1)) simp
  have r: "symbols u ! r = symbols s ! r" using u(3) snoc.prems by simp
  obtain k where k: "modptr (symbols s ! r) = Some k" using snoc.prems by auto
  have "relocate_symbol k r u = u\<lparr>symbols := (symbols u)[r := placed_symbol (mods s) (symbols s ! r)]\<rparr>"
    using relocate_one [of u r k] k snoc.prems by (simp add: r m u(2))
  moreover have "s\<lparr>symbols := symbols u\<rparr>\<lparr>symbols := X\<rparr> = s\<lparr>symbols := X\<rparr>" for X by simp
  ultimately have e: "relocate_symbol k r u = s\<lparr>symbols := (symbols u)[r := placed_symbol (mods s) (symbols s ! r)]\<rparr>"
    using u(1) by metis
  have f: "fold (\<lambda>r t. relocate_symbol (the (modptr (symbols t ! r))) r t) (rs @ [r]) s = relocate_symbol k r u"
    using k r by (simp add: u_def [symmetric])
  show ?case
    using snoc.prems u(2,3) unfolding f by (simp add: r k e Let_def nth_list_update)
qed simp

lemma relocate_symbols_fold:
  fixes s :: "'a script_scheme"
  shows "relocate_symbols s = fold (\<lambda>r t. relocate_symbol (the (modptr (symbols t ! r))) r t) (owned_list s) s"
proof -
  have "modptr (symbols (relocate_symbol m r u) ! x) = modptr (symbols u ! x)" for m r x and u :: "'a script_scheme"
    by (cases "x = r"; cases "r < length (symbols u)")
       (simp_all add: relocate_symbol_def Let_def upd_symbol_def list_update_beyond not_less)
  moreover have "relocate_symbol m r u = u" if "modptr (symbols u ! r) \<noteq> Some m" for m r and u :: "'a script_scheme"
    using that by (simp add: relocate_symbol_def Let_def)
  ultimately show ?thesis
    using fold_owned [of relocate_symbol s] by (simp add: relocate_symbols_def)
qed

lemma relocate_symbols_values:
  assumes "distinct_arrays s"
  shows "relocate_symbols s = s\<lparr>symbols := symbols (relocate_symbols s)\<rparr>"
    and "length (symbols (relocate_symbols s)) = length (symbols s)"
    and "symbols (relocate_symbols s) ! x =
      (if x \<in> set (owned_list s) then placed_symbol (mods s) (symbols s ! x) else symbols s ! x)"
proof -
  have "\<forall>r\<in>set (owned_list s). r < length (symbols s) \<and> modptr (symbols s ! r) \<noteq> None"
    using owned_range [OF assms] by (auto simp: mem_owned_list owned_def)
  from relocate_owned [OF distinct_owned_list [OF assms] this]
  show "relocate_symbols s = s\<lparr>symbols := symbols (relocate_symbols s)\<rparr>"
    "length (symbols (relocate_symbols s)) = length (symbols s)"
    "symbols (relocate_symbols s) ! x =
      (if x \<in> set (owned_list s) then placed_symbol (mods s) (symbols s ! x) else symbols s ! x)"
    unfolding relocate_symbols_fold Let_def by blast+
qed


section \<open>The imports a script satisfies\<close>

text \<open>What marking them leaves alone.\<close>

definition marks :: "'a script_scheme \<Rightarrow> 'a script_scheme \<Rightarrow> bool" where
  "marks s t \<longleftrightarrow>
     mods t = mods s \<and> length (symbols t) = length (symbols s) \<and>
     (\<forall>x. modptr (symbols t ! x) = modptr (symbols s ! x)) \<and>
     map os_body (sects t) = map os_body (sects s) \<and> section_stmts (top_stmts t) = section_stmts (top_stmts s)"

lemma marks_refl [simp]: "marks s s"
  by (simp add: marks_def)

lemma marks_trans: "marks s t \<Longrightarrow> marks t u \<Longrightarrow> marks s u"
  by (simp add: marks_def)

lemma marks_fold: "(\<And>x t. marks t (f x t)) \<Longrightarrow> marks s (fold f xs s)"
  by (induction xs arbitrary: s) (auto intro: marks_trans)

lemma marks_ssym: "marks s (upd_ssym k f s)"
  by (simp add: marks_def upd_ssym_def)

lemma marks_class_stmts: "marks s (class_stmts sts c s)"
proof (induction sts arbitrary: c s)
  case (Cons st sts)
  have "marks s (fold (set_class c) ks s)" for c ks and s :: "'a script_scheme"
    by (rule marks_fold) (simp add: set_class_def marks_ssym)
  moreover have "marks s (set_class c k s)" for c k and s :: "'a script_scheme"
    by (simp add: set_class_def marks_ssym)
  ultimately show ?case
    by (auto simp: Let_def intro: marks_trans [OF _ Cons.IH] Cons.IH split: stmt.split option.split)
qed simp

lemma os_body_mark: "map os_body (mark_dataparts data secs) = map os_body secs"
  by (induction secs arbitrary: data) (simp_all add: Let_def)

lemma section_stmts_append: "section_stmts (xs @ ys) = section_stmts xs @ section_stmts ys"
  by (simp add: section_stmts_def)

lemma marks_provide: "marks s (provide_bound sect which s)"
proof -
  have "marks s (snd (ssym n s))" for n by (simp add: ssym_def marks_def split: option.split)
  moreover have "section_stmts [S_ASSIGN l ak k e] = []" for l ak k e by (simp add: section_stmts_def)
  ultimately show ?thesis
    by (simp add: provide_bound_def Let_def marks_def upd_ssym_def section_stmts_append split: prod.split)
       (metis snd_conv)
qed

lemma marks_settle: "settle_symbols ks s = Inr t \<Longrightarrow> marks s t"
proof (induction ks arbitrary: s)
  case (Cons k ks)
  have "marks u v" if "settle_symbol k u = Inr v" for u v :: "'a script_scheme"
  proof -
    have "marks w (upd_symbol r (\<lambda>y. y\<lparr>sm_flags := f\<rparr>) w)" for r f and w :: "'a script_scheme"
      by (auto simp: marks_def upd_symbol_def nth_list_update)
         (metis list_update_beyond not_less nth_list_update symstruct.select_convs symstruct.surjective symstruct.update_convs)+
    then have "marks u (upd_symbol r (\<lambda>y. y\<lparr>sm_flags := f\<rparr>) (upd_ssym k g (upd_ssym k h u)))" for r f g h
      by (blast intro: marks_trans marks_ssym)
    then show ?thesis
      using that unfolding settle_symbol_def Let_def
      by (auto simp: marks_ssym split: if_splits option.splits)
  qed
  with Cons show ?case by (auto simp: bindE_Inr_iff intro: marks_trans)
qed simp

lemma script_mark_imports_marks: "script_mark_imports s = Inr t \<Longrightarrow> marks s t"
proof -
  assume m: "script_mark_imports s = Inr t"
  let ?s1 = "s\<lparr>sects := mark_dataparts False (sects s)\<rparr>"
  let ?s2 = "class_stmts (top_stmts ?s1) C_ABS ?s1"
  let ?s3 = "fold (\<lambda>sect t. fold (provide_bound sect) [0, 1, 2] t) (sects ?s2) ?s2"
  let ?s4 = "fold mark_referenced (loaded_refs ?s3) ?s3"
  have "marks s ?s1" by (simp add: marks_def os_body_mark)
  moreover have "marks ?s1 ?s2" by (rule marks_class_stmts)
  moreover have "marks ?s2 ?s3" by (intro marks_fold marks_provide)
  moreover have "marks ?s3 ?s4"
    by (rule marks_fold) (simp add: mark_referenced_def marks_ssym split: option.split)
  moreover have "marks ?s4 t" using m by (intro marks_settle) (simp add: script_mark_imports_def Let_def)
  ultimately show ?thesis by (blast intro: marks_trans)
qed


section \<open>The addresses of symbols\<close>

definition commons_fit :: "'a script_scheme \<Rightarrow> bool" where
  "commons_fit s \<longleftrightarrow> (\<forall>m<length (mods s). \<forall>seg<NSEG. commons_size s m seg (owned_list s) < 2 ^ 31)"

definition link_fresh :: "'a script_scheme \<Rightarrow> bool" where
  "link_fresh s \<longleftrightarrow> script_ready s \<and> distinct_arrays s \<and> (\<forall>md\<in>set (mods s). comsize md = (\<lambda>_. 0))"

lemma NSEG_sym_seg: "sym_seg y < NSEG"
proof -
  have "sm_flags y AND SEGM_MASK \<le> 15" by (simp add: word_and_le1)
  then show ?thesis by (simp add: sym_seg_def word_le_nat_alt)
qed

lemma tableless_fields:
  assumes "tableless t = tableless s"
  shows "sects t = sects s" "top_stmts t = top_stmts s" "headerless t = headerless s" "ssyms t = ssyms s"
    "entrylist t = entrylist s" "out_file t = out_file s" "hashtab t = hashtab s"
  using assms by (cases s; cases t; simp add: tableless_def)+

lemma marks_fields:
  assumes "marks s t"
  shows "mods t = mods s" "length (symbols t) = length (symbols s)" "modptr (symbols t ! x) = modptr (symbols s ! x)"
    "length (sects t) = length (sects s)" "section_stmts (top_stmts t) = section_stmts (top_stmts s)"
    "os_body ` set (sects t) = os_body ` set (sects s)"
proof -
  have b: "map os_body (sects t) = map os_body (sects s)" using assms by (simp add: marks_def)
  show "os_body ` set (sects t) = os_body ` set (sects s)" using arg_cong [OF b, of set] by simp
  show "length (sects t) = length (sects s)" using arg_cong [OF b, of length] by simp
qed (use assms in \<open>simp_all add: marks_def\<close>)

lemma fresh_marks: "marks s t \<Longrightarrow> link_fresh s \<Longrightarrow> link_fresh t"
proof -
  assume m: "marks s t" and f: "link_fresh s"
  have "\<forall>b\<in>os_body ` set (sects s). stmt_pieces b = []" using f by (auto simp: link_fresh_def script_ready_def)
  then have "\<forall>sect\<in>set (sects t). stmt_pieces (os_body sect) = []" by (simp add: marks_fields(6) [OF m, symmetric])
  with f show ?thesis
    by (simp add: link_fresh_def script_ready_def sections_once_def distinct_arrays_def marks_fields(1,2,4,5) [OF m])
qed

lemma fresh_alloc:
  assumes f: "link_fresh s" and fit: "commons_fit s"
  shows "script_ready (alloc_commons s)"
    and "m < length (mods s) \<Longrightarrow> seg < NSEG \<Longrightarrow>
      comsize (mods (alloc_commons s) ! m) seg = of_nat (commons_size s m seg (owned_list s))"
proof -
  note a = alloc_commons_allocated [of s]
  have d: "distinct_arrays s" using f by (simp add: link_fresh_def)
  note a = allocatedD [OF alloc_commons_allocated [OF d]] and t = tableless_fields [OF allocatedD(1) [OF alloc_commons_allocated [OF d]]]
  have c: "comsize (mods (alloc_commons s) ! m) seg = of_nat (commons_size s m seg (owned_list s))"
    if "m < length (mods s)" for m seg
    using a(6) [OF that] f that by (simp add: alloc_module_def link_fresh_def)
  then show "m < length (mods s) \<Longrightarrow> seg < NSEG \<Longrightarrow>
      comsize (mods (alloc_commons s) ! m) seg = of_nat (commons_size s m seg (owned_list s))" by blast
  have "0 \<le> sint (comsize (mods (alloc_commons s) ! m) seg)" if "m < length (mods s)" "seg < NSEG" for m seg
  proof -
    have "commons_size s m seg (owned_list s) < 2 ^ 31" using fit that by (simp add: commons_fit_def)
    then have "sint (of_nat (commons_size s m seg (owned_list s)) :: u32) = int (commons_size s m seg (owned_list s))"
      by (subst signed_of_nat) (simp add: signed_take_bit_int_eq_self)
    then show ?thesis unfolding c [OF that(1)] by simp
  qed
  then have "commons_ok (mods (alloc_commons s))"
    using a(3) by (auto simp: commons_ok_def in_set_conv_nth)
  with f show "script_ready (alloc_commons s)"
    by (simp add: link_fresh_def script_ready_def sections_once_def t)
qed

text \<open>The symbols of the script get the values of its assignments.\<close>

definition set_symbol :: "ssym \<Rightarrow> symstruct list \<Rightarrow> symstruct list" where
  "set_symbol ss ys = (case ss_symptr ss of
     None \<Rightarrow> ys | Some r \<Rightarrow> ys[r := (ys ! r)\<lparr>sm_value := of_int (ss_value ss)\<rparr>])"

lemma define_symbols_list: "script_define_symbols s = s\<lparr>symbols := fold set_symbol (ssyms s) (symbols s)\<rparr>"
proof -
  have "fold (\<lambda>ss t. case ss_symptr ss of
         None \<Rightarrow> t | Some r \<Rightarrow> upd_symbol r (\<lambda>y. y\<lparr>sm_value := of_int (ss_value ss)\<rparr>) t) xs u =
      u\<lparr>symbols := fold set_symbol xs (symbols u)\<rparr>" for xs and u :: "'a script_scheme"
    by (induction xs arbitrary: u) (simp_all add: set_symbol_def upd_symbol_def split: option.split)
  then show ?thesis by (simp add: script_define_symbols_def)
qed

lemma length_set_symbols: "length (fold set_symbol xs ys) = length ys"
  by (induction xs arbitrary: ys) (simp_all add: set_symbol_def split: option.split)

lemma set_symbols_other: "\<forall>ss\<in>set xs. ss_symptr ss \<noteq> Some x \<Longrightarrow> fold set_symbol xs ys ! x = ys ! x"
  by (induction xs arbitrary: ys) (auto simp: set_symbol_def split: option.split)

lemma set_symbols_value:
  "x < length ys \<Longrightarrow> \<exists>ss\<in>set xs. ss_symptr ss = Some x \<Longrightarrow>
     \<exists>ss\<in>set xs. ss_symptr ss = Some x \<and> sm_value (fold set_symbol xs ys ! x) = of_int (ss_value ss)"
proof (induction xs arbitrary: ys)
  case (Cons ss xs)
  show ?case
  proof (cases "\<exists>ss\<in>set xs. ss_symptr ss = Some x")
    case True
    have "length (set_symbol ss ys) = length ys" by (simp add: set_symbol_def split: option.split)
    with True show ?thesis using Cons.IH [of "set_symbol ss ys"] Cons.prems(1) by auto
  next
    case False
    with Cons.prems have "ss_symptr ss = Some x" by auto
    moreover from this have e: "set_symbol ss ys = ys[x := (ys ! x)\<lparr>sm_value := of_int (ss_value ss)\<rparr>]"
      by (simp add: set_symbol_def)
    ultimately show ?thesis
      using set_symbols_other [of xs x "set_symbol ss ys"] False Cons.prems(1) by (auto simp: e)
  qed
qed simp


section \<open>The placed program\<close>

definition symbol_address :: "'a script_scheme \<Rightarrow> modstruct list \<Rightarrow> nat \<Rightarrow> nat \<Rightarrow> u32" where
  "symbol_address s ms m r =
     (let y = symbols s ! r; seg = sym_seg y in
      if has (sm_flags y) A_MASK then sm_value y
      else if is_common y then
        comaddr (ms ! m) seg + of_nat (commons_size s m seg (takeWhile ((\<noteq>) r) (owned_list s)))
      else if has (sm_flags y) (C_MASK OR SA_MASK) then comaddr (ms ! m) seg + sm_value y
      else segaddr (ms ! m) seg + sm_value y)"

definition symbol_resolved :: "'a script_scheme \<Rightarrow> 'a script_scheme \<Rightarrow> nat \<Rightarrow> nat \<Rightarrow> bool" where
  "symbol_resolved s t m r \<longleftrightarrow>
     (if \<exists>ss\<in>set (ssyms t). ss_symptr ss = Some r
      then \<exists>ss\<in>set (ssyms t). ss_symptr ss = Some r \<and> sm_value (symbols t ! r) = of_int (ss_value ss)
      else sm_value (symbols t ! r) = symbol_address s (mods t) m r)"

definition common_placed :: "'a script_scheme \<Rightarrow> 'a script_scheme \<Rightarrow> nat \<Rightarrow> nat \<Rightarrow> bool" where
  "common_placed s t m r \<longleftrightarrow>
     (\<exists>pc\<in>set (pieces t). piece_key pc = (m, sym_seg (symbols s ! r), True) \<and>
        pc_vma pc \<le> uint (symbol_address s (mods t) m r) \<and>
        uint (symbol_address s (mods t) m r) + int (common_len (symbols s ! r)) \<le> pc_vma pc + pc_size pc)"

lemma owned_list_cong:
  assumes len: "length (mods t) = length (mods s)"
    and m: "\<And>m. m < length (mods s) \<Longrightarrow> symparray (mods t ! m) = symparray (mods s ! m) \<and> loadflag (mods t ! m) = loadflag (mods s ! m)"
    and y: "\<And>x. modptr (symbols t ! x) = modptr (symbols s ! x)"
  shows "owned_list t = owned_list s"
proof -
  have "loaded_symbols t = loaded_symbols s"
    unfolding loaded_symbols_def len by (intro arg_cong [of _ _ concat] map_cong) (simp_all add: m)
  then show ?thesis by (simp add: owned_list_def y)
qed

lemma distinct_arrays_cong:
  assumes "length (mods t) = length (mods s)" "length (symbols t) = length (symbols s)"
    and "\<And>m. m < length (mods s) \<Longrightarrow> symparray (mods t ! m) = symparray (mods s ! m)"
    and "distinct_arrays s"
  shows "distinct_arrays t"
  using assms by (simp add: distinct_arrays_def all_set_conv_all_nth)

lemma layout_sound_symbols: "layout_sound s \<Longrightarrow> layout_sound (s\<lparr>symbols := ys\<rparr>)"
proof -
  have "layout_legal (s\<lparr>symbols := ys\<rparr>) = layout_legal s"
    by (simp add: layout_legal_def fits_memory_def no_clash_def)
  moreover have "file_adjust (s\<lparr>symbols := ys\<rparr>) pc = file_adjust s pc" for pc
    by (simp add: file_adjust_def Let_def)
  then have "piece_placed (s\<lparr>symbols := ys\<rparr>) pc = piece_placed s pc" for pc
    by (simp add: piece_placed_def)
  moreover have "share_space (s\<lparr>symbols := ys\<rparr>) pc qc = share_space s pc qc" for pc qc
    by (simp add: share_space_def)
  ultimately show "layout_sound s \<Longrightarrow> layout_sound (s\<lparr>symbols := ys\<rparr>)"
    by (simp add: layout_sound_def)
qed

lemma common_piece:
  assumes "m < length ms" "loadflag (ms ! m)" "seg < NSEG"
  shows "((m, seg, True), sint (comsize (ms ! m) seg)) \<in> piece_input ` set (input_pieces ms)"
proof -
  have "((m, seg, True), sint (comsize md seg)) \<in> piece_input ` set (segment_pieces segs m md cptr)"
    if "seg \<in> set segs" for segs md cptr
    using that by (induction segs arbitrary: cptr) (auto simp: Let_def piece_input_def piece_key_def)
  from this [of "[0..<NSEG]" "ms ! m" "segsize (ms ! m)"] assms show ?thesis
    unfolding input_pieces_def by (fastforce simp: image_iff)
qed

text \<open>The states of \<^verbatim>\<open>write_elks\<close>: after marking, after the common blocks, and after the layout.\<close>

lemma place_programE:
  assumes "place_program sepid s = Inr t" and "script_mark_imports s = Inr s1" and f: "link_fresh s1" and fit: "commons_fit s1"
  obtains s3 where "script_layout sepid (headerless s1) (alloc_commons s1) = Inr s3"
    and "mods t = mods s3" "pieces t = pieces s3" "ssyms t = ssyms s3" "errcount t = errcount s3" "layout_sound t"
    and "same_link (alloc_commons s1) s3"
    and "symbols t = fold set_symbol (ssyms s3) (symbols (relocate_symbols s3))"
    and "owned_list s3 = owned_list s1" and "distinct_arrays s3"
proof -
  from assms(1,2) obtain s3 where l: "script_layout sepid (headerless s1) (alloc_commons s1) = Inr s3"
    and t: "t = script_define_symbols (relocate_symbols s3)"
    by (auto simp: place_program_def bindE_Inr_iff)
  have same: "same_link (alloc_commons s1) s3" by (rule script_layout_frame [OF l])
  have d1: "distinct_arrays s1" using f by (simp add: link_fresh_def)
  note a = allocatedD [OF alloc_commons_allocated [OF d1]]
  have y3: "symbols s3 = symbols (alloc_commons s1)" using same by (simp add: same_link_def)
  have mp: "modptr (symbols s3 ! x) = modptr (symbols s1 ! x)" for x
  proof (cases "x \<in> set (owned_list s1) \<and> is_common (symbols s1 ! x)")
    case True
    then obtain m where "m < length (mods s1)" "modptr (symbols s1 ! x) = Some m" by (auto simp: mem_owned_list owned_def)
    with True show ?thesis using a(5) [of x m] by (simp add: y3 alloc_value_def Let_def)
  next
    case False
    then show ?thesis using a(4) [of x] by (simp add: y3)
  qed
  have ms: "length (mods s3) = length (mods s1)"
    "\<And>m. m < length (mods s1) \<Longrightarrow> symparray (mods s3 ! m) = symparray (mods s1 ! m) \<and> loadflag (mods s3 ! m) = loadflag (mods s1 ! m)"
  proof -
    show len: "length (mods s3) = length (mods s1)" using same_link_mods(1) [OF same] a(3) by simp
    fix m assume m: "m < length (mods s1)"
    then have "bare (mods s3 ! m) = bare (mods (alloc_commons s1) ! m)" using same_link_mods(2) [OF same] a(3) by simp
    from bare_fields(1,2) [OF this] a(6) [OF m]
    show "symparray (mods s3 ! m) = symparray (mods s1 ! m) \<and> loadflag (mods s3 ! m) = loadflag (mods s1 ! m)"
      by (simp add: alloc_module_def)
  qed
  have own: "owned_list s3 = owned_list s1" using ms mp by (rule owned_list_cong)
  have d3: "distinct_arrays s3"
    using ms d1 a(2) by (intro distinct_arrays_cong [of s3 s1]) (simp_all add: y3)
  note r = relocate_symbols_values [OF d3]
  have r': "mods (relocate_symbols s3) = mods s3" "ssyms (relocate_symbols s3) = ssyms s3"
    "pieces (relocate_symbols s3) = pieces s3" "errcount (relocate_symbols s3) = errcount s3"
    by (subst r(1), simp)+
  have "layout_sound s3" using layout_gives [OF fresh_alloc(1) [OF f fit] l] by blast
  then have "layout_sound (relocate_symbols s3)" by (subst r(1)) (rule layout_sound_symbols)
  then have "layout_sound t" unfolding t define_symbols_list by (rule layout_sound_symbols)
  then show ?thesis
    using l same own d3 by (intro that) (simp_all add: t define_symbols_list r')
qed


lemma program_symbol:
  assumes d: "distinct_arrays s1" and o: "owned s1 m r" and same: "same_link (alloc_commons s1) s3"
    and own: "owned_list s3 = owned_list s1" and d3: "distinct_arrays s3" and f: "link_fresh s1"
  shows "sm_value (symbols (relocate_symbols s3) ! r) = symbol_address s1 (mods s3) m r"
proof -
  note a = allocatedD [OF alloc_commons_allocated [OF d]]
  let ?y = "symbols s1 ! r"
  have m: "m < length (mods s1)" "modptr ?y = Some m" and r: "r \<in> set (owned_list s1)"
    using o by (auto simp: owned_def mem_owned_list)
  have c0: "comsize (mods s1 ! m) = (\<lambda>_. 0)" using f m(1) by (simp add: link_fresh_def)
  have y3: "symbols s3 ! r = symbols (alloc_commons s1) ! r" using same by (simp add: same_link_def)
  have v: "symbols (relocate_symbols s3) ! r = placed_symbol (mods s3) (symbols (alloc_commons s1) ! r)"
    using relocate_symbols_values(3) [OF d3, of r] r own y3 by simp
  show ?thesis
  proof (cases "is_common ?y")
    case True
    then have y: "symbols (alloc_commons s1) ! r = alloc_value s1 m (owned_list s1) r"
      using a(5) [OF r m(1) _ m(2)] by blast
    have noa: "\<not> has (sm_flags ?y) A_MASK" using True by (simp add: is_common_def unresolved_def)
    have "sym_seg (alloc_value s1 m (owned_list s1) r) = sym_seg ?y"
      by (simp add: alloc_value_def sym_seg_def Let_def bit.conj_disj_distrib2)
    moreover have "\<not> has (sm_flags (alloc_value s1 m (owned_list s1) r)) A_MASK"
      using noa by (simp add: alloc_value_def Let_def bit.conj_disj_distrib2)
    moreover have "has (sm_flags (alloc_value s1 m (owned_list s1) r)) (C_MASK OR SA_MASK)"
      unfolding has_union by (simp add: alloc_value_def Let_def has_union bit.conj_disj_distrib2)
    ultimately show ?thesis
      using True noa m(2)
      by (simp add: v y placed_symbol_def symbol_address_def Let_def) (simp add: alloc_value_def Let_def c0 add.commute)
  next
    case False
    then have y: "symbols (alloc_commons s1) ! r = ?y" using a(4) by blast
    show ?thesis using False m(2) by (simp add: v y placed_symbol_def symbol_address_def Let_def add.commute)
  qed
qed

lemma program_common:
  assumes d: "distinct_arrays s1" and o: "owned s1 m r" "is_common (symbols s1 ! r)"
    and same: "same_link (alloc_commons s1) s3" and f: "link_fresh s1" and fit: "commons_fit s1"
    and l: "script_layout sepid binary (alloc_commons s1) = Inr s3"
  shows "\<exists>pc\<in>set (pieces s3). piece_key pc = (m, sym_seg (symbols s1 ! r), True) \<and> 0 \<le> pc_vma pc \<and>
      pc_vma pc + pc_size pc \<le> 0x10000 \<and>
      pc_size pc = int (commons_size s1 m (sym_seg (symbols s1 ! r)) (owned_list s1)) \<and>
      comaddr (mods s3 ! m) (sym_seg (symbols s1 ! r)) = of_int (pc_vma pc)"
proof -
  note a = allocatedD [OF alloc_commons_allocated [OF d]]
  let ?seg = "sym_seg (symbols s1 ! r)" and ?n = "commons_size s1 m (sym_seg (symbols s1 ! r)) (owned_list s1)"
  have m: "m < length (mods s1)" "loadflag (mods s1 ! m)" using o by (simp_all add: owned_def)
  have g: "layout_sound s3" "map piece_input (pieces s3) = map piece_input (input_pieces (mods (alloc_commons s1)))"
    using layout_gives [OF fresh_alloc(1) [OF f fit] l] by auto
  have "comsize (mods (alloc_commons s1) ! m) ?seg = of_nat ?n"
    using fresh_alloc(2) [OF f fit m(1) NSEG_sym_seg] .
  moreover have "?n < 2 ^ 31" using fit m(1) NSEG_sym_seg by (simp add: commons_fit_def)
  then have "sint (of_nat ?n :: u32) = int ?n" by (subst signed_of_nat) (simp add: signed_take_bit_int_eq_self)
  moreover have "loadflag (mods (alloc_commons s1) ! m)" using a(6) [OF m(1)] m(2) by (simp add: alloc_module_def)
  ultimately have "((m, ?seg, True), int ?n) \<in> piece_input ` set (input_pieces (mods (alloc_commons s1)))"
    using common_piece [of m "mods (alloc_commons s1)" ?seg] m(1) a(3) NSEG_sym_seg by simp
  also have "piece_input ` set (input_pieces (mods (alloc_commons s1))) = piece_input ` set (pieces s3)"
    using arg_cong [OF g(2), of set] by simp
  finally obtain pc where pc: "pc \<in> set (pieces s3)" "piece_key pc = (m, ?seg, True)" "pc_size pc = int ?n"
    by (auto simp: piece_input_def)
  from g(1) pc(1) have pl: "piece_placed s3 pc" by (simp add: layout_sound_def)
  from pl obtain k where k: "k < length (sects s3)" "vma (sects s3 ! k) \<le> pc_vma pc"
      "pc_vma pc + pc_size pc \<le> vma (sects s3 ! k) + os_size (sects s3 ! k)"
    and c: "comaddr (mods s3 ! m) ?seg = of_int (pc_vma pc)"
    using pc(2) by (auto simp: piece_placed_def piece_key_def Let_def)
  have "fits_memory s3 (sects s3 ! k)" using g(1) k(1) by (simp add: layout_sound_def layout_legal_def)
  then have "0 \<le> vma (sects s3 ! k)" "vma (sects s3 ! k) + os_size (sects s3 ! k) \<le> 0x10000"
    by (simp_all add: fits_memory_def)
  with k pc c show ?thesis by force
qed

text \<open>Common blocks of one segment of a module do not overlap.\<close>

definition commons_apart :: "'a script_scheme \<Rightarrow> 'a script_scheme \<Rightarrow> nat \<Rightarrow> nat \<Rightarrow> nat \<Rightarrow> bool" where
  "commons_apart s t m r x \<longleftrightarrow>
     apart (uint (symbol_address s (mods t) m r)) (int (common_len (symbols s ! r)))
       (uint (symbol_address s (mods t) m x)) (int (common_len (symbols s ! x)))"

lemma common_range:
  assumes o: "owned s1 m r" "is_common (symbols s1 ! r)" and seg: "seg = sym_seg (symbols s1 ! r)"
    and c: "comaddr (ms ! m) seg = of_int v" and v: "0 \<le> v" "v + int (commons_size s1 m seg (owned_list s1)) \<le> 0x10000"
    and d: "distinct_arrays s1"
  shows "uint (symbol_address s1 ms m r) = v + int (commons_size s1 m seg (takeWhile ((\<noteq>) r) (owned_list s1)))"
    and "uint (symbol_address s1 ms m r) + int (common_len (symbols s1 ! r)) \<le> v + int (commons_size s1 m seg (owned_list s1))"
proof -
  have r: "r \<in> set (owned_list s1)" "common_in m seg (symbols s1 ! r)"
    using o seg by (auto simp: mem_owned_list owned_def common_in_def)
  have le: "commons_size s1 m seg (takeWhile ((\<noteq>) r) (owned_list s1)) + common_len (symbols s1 ! r) \<le>
      commons_size s1 m seg (owned_list s1)"
    by (rule commons_in_row(1) [OF distinct_owned_list [OF d] r])
  define w where "w = v + int (commons_size s1 m seg (takeWhile ((\<noteq>) r) (owned_list s1)))"
  have "symbol_address s1 ms m r = of_int w"
    using o(2) c by (simp add: symbol_address_def Let_def seg is_common_def unresolved_def w_def)
  moreover have "0 \<le> w" "w < 2 ^ 32" using v le by (auto simp: w_def)
  ultimately have "uint (symbol_address s1 ms m r) = w" by (simp add: uint_word_of_int)
  then show e: "uint (symbol_address s1 ms m r) = v + int (commons_size s1 m seg (takeWhile ((\<noteq>) r) (owned_list s1)))"
    by (simp add: w_def)
  with le show "uint (symbol_address s1 ms m r) + int (common_len (symbols s1 ! r)) \<le> v + int (commons_size s1 m seg (owned_list s1))"
    by simp
qed

lemma program_placed:
  assumes fr: "link_fresh s" and mk: "script_mark_imports s = Inr s1" and fit: "commons_fit s1"
    and p: "place_program sepid s = Inr t"
  shows "layout_sound t"
    and "owned s1 m r \<Longrightarrow> symbol_resolved s1 t m r"
    and "owned s1 m r \<Longrightarrow> is_common (symbols s1 ! r) \<Longrightarrow> common_placed s1 t m r"
    and "owned s1 m r \<Longrightarrow> is_common (symbols s1 ! r) \<Longrightarrow> owned s1 m x \<Longrightarrow> is_common (symbols s1 ! x) \<Longrightarrow> r \<noteq> x \<Longrightarrow>
      sym_seg (symbols s1 ! x) = sym_seg (symbols s1 ! r) \<Longrightarrow> commons_apart s1 t m r x"
    and "errcount t = errcount s1 + of_nat (alloc_count s1 (owned_list s1))"
proof -
  have f: "link_fresh s1" by (rule fresh_marks [OF script_mark_imports_marks [OF mk] fr])
  then have d: "distinct_arrays s1" by (simp add: link_fresh_def)
  obtain s3 where l: "script_layout sepid (headerless s1) (alloc_commons s1) = Inr s3"
    and t: "mods t = mods s3" "pieces t = pieces s3" "ssyms t = ssyms s3" "errcount t = errcount s3" "layout_sound t"
    and same: "same_link (alloc_commons s1) s3"
    and y: "symbols t = fold set_symbol (ssyms s3) (symbols (relocate_symbols s3))"
    and own: "owned_list s3 = owned_list s1" and d3: "distinct_arrays s3"
    by (rule place_programE [OF p mk f fit])
  show "layout_sound t" by (rule t)
  show "errcount t = errcount s1 + of_nat (alloc_count s1 (owned_list s1))"
    using t(4) same allocatedD(7) [OF alloc_commons_allocated [OF d]] by (simp add: same_link_def)
  note common = program_common [OF d _ _ same f fit l]
  have piece: "\<exists>pc\<in>set (pieces t). piece_key pc = (m, seg, True) \<and> 0 \<le> pc_vma pc \<and>
      pc_size pc = int (commons_size s1 m seg (owned_list s1)) \<and> pc_vma pc + pc_size pc \<le> 0x10000 \<and>
      comaddr (mods t ! m) seg = of_int (pc_vma pc)"
    if "owned s1 m r" "is_common (symbols s1 ! r)" "seg = sym_seg (symbols s1 ! r)" for m r seg
    using common [OF that(1,2)] that(3) t by auto
  show "symbol_resolved s1 t m r" if o: "owned s1 m r"
  proof (cases "\<exists>ss\<in>set (ssyms t). ss_symptr ss = Some r")
    case True
    have "r < length (symbols (relocate_symbols s3))"
      using owned_range [OF d3] own o relocate_symbols_values(2) [OF d3] by (auto simp: mem_owned_list)
    from set_symbols_value [OF this] True show ?thesis by (simp add: symbol_resolved_def y t)
  next
    case False
    then have "sm_value (symbols t ! r) = symbol_address s1 (mods t) m r"
      using set_symbols_other [of "ssyms s3" r] program_symbol [OF d o same own d3 f] t by (simp add: y)
    with False show ?thesis by (simp add: symbol_resolved_def)
  qed
  show "common_placed s1 t m r" if o: "owned s1 m r" "is_common (symbols s1 ! r)"
  proof -
    obtain pc where pc: "pc \<in> set (pieces t)" "piece_key pc = (m, sym_seg (symbols s1 ! r), True)" "0 \<le> pc_vma pc"
        "pc_size pc = int (commons_size s1 m (sym_seg (symbols s1 ! r)) (owned_list s1))"
        "pc_vma pc + pc_size pc \<le> 0x10000" "comaddr (mods t ! m) (sym_seg (symbols s1 ! r)) = of_int (pc_vma pc)"
      using piece [OF o refl] by blast
    show ?thesis
      using common_range [OF o refl pc(6,3) _ d] pc by (auto simp: common_placed_def intro!: bexI [OF _ pc(1)])
  qed
  show "commons_apart s1 t m r x"
    if o: "owned s1 m r" "is_common (symbols s1 ! r)" and x: "owned s1 m x" "is_common (symbols s1 ! x)"
      and ne: "r \<noteq> x" and sg: "sym_seg (symbols s1 ! x) = sym_seg (symbols s1 ! r)"
  proof -
    let ?seg = "sym_seg (symbols s1 ! r)"
    obtain pc :: piece where "pc_size pc = int (commons_size s1 m ?seg (owned_list s1))" "pc_vma pc + pc_size pc \<le> 0x10000"
      and c: "0 \<le> pc_vma pc" "comaddr (mods t ! m) ?seg = of_int (pc_vma pc)"
      using piece [OF o refl] by blast
    then have pc: "comaddr (mods t ! m) ?seg = of_int (pc_vma pc)" "0 \<le> pc_vma pc"
        "pc_vma pc + int (commons_size s1 m ?seg (owned_list s1)) \<le> 0x10000" by simp_all
    have "r \<in> set (owned_list s1)" "common_in m ?seg (symbols s1 ! r)" "x \<in> set (owned_list s1)" "common_in m ?seg (symbols s1 ! x)"
      using o x sg by (auto simp: mem_owned_list owned_def common_in_def)
    from commons_in_row(2) [OF distinct_owned_list [OF d] this ne]
    show ?thesis
      using common_range(1) [OF o refl pc d] common_range(1) [OF x sg [symmetric] pc d]
      by (auto simp: commons_apart_def apart_def)
  qed
qed


definition linked_script :: script where
  "linked_script = small_script\<lparr>
     symbols :=
       [\<lparr>modptr = Some 0, sm_value = 2, sm_flags = 0x80, sm_name = bytes_of ''_a''\<rparr>,
        \<lparr>modptr = Some 0, sm_value = 5, sm_flags = 0x43, sm_name = bytes_of ''_b''\<rparr>,
        \<lparr>modptr = Some 0, sm_value = 2, sm_flags = 0x43, sm_name = bytes_of ''_c''\<rparr>],
     mods := [sample_module\<lparr>symparray := [0, 1, 2]\<rparr>]\<rparr>"

text \<open>The state after the common blocks are allocated, with plain functions.\<close>

definition commons_script :: script where
  "commons_script = linked_script\<lparr>
     symbols :=
       [\<lparr>modptr = Some 0, sm_value = 2, sm_flags = 0x80, sm_name = bytes_of ''_a''\<rparr>,
        \<lparr>modptr = Some 0, sm_value = 0, sm_flags = 0x63, sm_name = bytes_of ''_b''\<rparr>,
        \<lparr>modptr = Some 0, sm_value = 8, sm_flags = 0x63, sm_name = bytes_of ''_c''\<rparr>],
     mods := [sample_module\<lparr>symparray := [0, 1, 2], comsize := (\<lambda>seg. if seg = 3 then 12 else 0)\<rparr>]\<rparr>"

lemma provide_nothing: "findsym n s = None \<Longrightarrow> n = bound_name sect ([''start'', ''end'', ''load''] ! which) \<Longrightarrow>
    provide_bound sect which s = s"
  by (simp add: provide_bound_def Let_def)

lemma linked_marks: "script_mark_imports linked_script = Inr linked_script"
proof -
  let ?s = linked_script
  have top: "top_stmts ?s = [S_SECTION 1 0, S_SECTION 2 1]" and len: "length (sects ?s) = 2" by code_simp+
  have "mark_dataparts False (sects ?s) = sects ?s" by code_simp
  then have s1: "?s\<lparr>sects := mark_dataparts False (sects ?s)\<rparr> = ?s" by simp
  have "body_syms 0 (os_body (sects ?s ! 0)) = []" "body_syms 0 (os_body (sects ?s ! 1)) = []" by code_simp+
  then have s2: "class_stmts (top_stmts ?s) C_ABS ?s = ?s" by (simp add: top)
  have none: "findsym n ?s = None" for n by (simp add: findsym_def linked_script_def small_script_def script_start_def)
  have p: "provide_bound sect which ?s = ?s" for sect which using none by (intro provide_nothing) auto
  have f: "fold (\<lambda>sect t. fold (provide_bound sect) [0, 1, 2] t) secs ?s = ?s" for secs
    by (induction secs) (simp_all add: p)
  have y: "ssyms ?s = []" by code_simp
  then have "mark_referenced r ?s = ?s" for r by (simp add: mark_referenced_def findssym_def find_index_def)
  then have "fold mark_referenced rs ?s = ?s" for rs by (induction rs) simp_all
  then show ?thesis by (simp only: script_mark_imports_def Let_def s1 s2 f) (simp add: y)
qed

lemma linked_allocs: "alloc_commons linked_script = commons_script"
proof -
  have e: "(\<lambda>seg. if seg = 3 then 12 else 0 :: u32) = (\<lambda>_. 0)((3 :: nat) := 12)" by auto
  show ?thesis
    by (simp add: alloc_commons_def commons_script_def linked_script_def small_script_def script_start_def loaded_symbols_def
       sample_module_def alloc_common_def Let_def upd_mod_def upd_symbol_def ld_roundup_def e)
qed

lemma linked_places: "\<exists>t. place_program False linked_script = Inr t \<and> map sm_value (symbols t) = [258, 263, 271]"
proof -
  have "map_sum id (\<lambda>t. map sm_value (symbols t)) (bindE (script_layout False False commons_script)
      (\<lambda>s2. Inr (script_define_symbols (relocate_symbols s2)))) = Inr [258, 263, 271]" by code_simp
  moreover have "headerless linked_script = False" by (simp add: linked_script_def small_script_def script_start_def)
  then have "place_program False linked_script =
      bindE (script_layout False False commons_script) (\<lambda>s2. Inr (script_define_symbols (relocate_symbols s2)))"
    by (simp add: place_program_def linked_marks linked_allocs)
  ultimately have "map_sum id (\<lambda>t. map sm_value (symbols t)) (place_program False linked_script) = Inr [258, 263, 271]"
    by simp
  then show ?thesis by (cases "place_program False linked_script") auto
qed


end
