(* ===== verification/Objheader.thy ===== *)
theory Objheader
  imports Genobj
begin

text \<open>
  The header of an object module, \<^verbatim>\<open>objheader\<close> of \<^verbatim>\<open>as/genobj.c\<close>: sizes of the
  segments, the symbols the module exports and imports, and their names.  The
  linker reads it with \<^verbatim>\<open>readfileheader\<close> and \<^verbatim>\<open>readmodule\<close>.
\<close>

section \<open>The symbols of the module\<close>

abbreviation FILNAMLEN :: nat where "FILNAMLEN \<equiv> 64"

definition in_object :: "bool \<Rightarrow> sym_s \<Rightarrow> bool" where
  "in_object globals_only y \<longleftrightarrow>
     has (sy_type y) EXPBIT \<or> has (sy_data y) IMPBIT \<or>
     \<not> globals_only \<and> take 1 (sy_name y) \<noteq> bytes_of ''.'' \<and> \<not> has (sy_type y) (MNREGBIT OR MACBIT OR VARBIT)"

text \<open>The array \<^verbatim>\<open>arrext\<close>, in the order of the hash table.\<close>

definition object_symbols :: "'a gen_scheme \<Rightarrow> nat list" where
  "object_symbols s =
     filter (\<lambda>r. in_object (globals_only_in_obj s) (syms s ! r)) (concat (map (spt s) [0..<SPTSIZ]))"

definition obj_name :: "sym_s \<Rightarrow> byte list" where
  "obj_name y = take (unat (sy_length y)) (sy_name y)"

definition in_textseg :: "'a gen_scheme \<Rightarrow> sym_s \<Rightarrow> bool" where
  "in_textseg s y \<longleftrightarrow> 0 \<le> textseg s \<and> int (unat (sy_data y AND SEGM)) = textseg s"

definition value_size :: "sym_s \<Rightarrow> nat" where
  "value_size y = (if isge2byteoffset (sy_value y) then 2 else if sy_value y \<noteq> 0 then 1 else 0)"

text \<open>The name of the file after its last slash and before its last dot.\<close>

definition after_last :: "byte \<Rightarrow> byte list \<Rightarrow> byte list" where
  "after_last c bs = rev (takeWhile (\<lambda>b. b \<noteq> c) (rev bs))"

definition before_last :: "byte \<Rightarrow> byte list \<Rightarrow> byte list" where
  "before_last c bs = (if c \<in> set bs then rev (tl (dropWhile (\<lambda>b. b \<noteq> c) (rev bs))) else bs)"

definition obj_modname :: "byte list \<Rightarrow> byte list" where
  "obj_modname truefilename = before_last 46 (after_last 47 truefilename)"

section \<open>Sizes\<close>

definition strings_size :: "byte list \<Rightarrow> 'a gen_scheme \<Rightarrow> nat list \<Rightarrow> u32" where
  "strings_size name s rs =
     fold (\<lambda>r n. n + ucast (sy_length (syms s ! r)) + 1 + (if in_textseg s (syms s ! r) then 2 else 0)) rs
       (of_nat (length name) + 1)"

definition symbols_size :: "'a gen_scheme \<Rightarrow> nat list \<Rightarrow> u32" where
  "symbols_size s rs = fold (\<lambda>r n. n + of_nat (4 + value_size (syms s ! r))) rs 0"

definition text_length :: "lc_s list \<Rightarrow> u32" where
  "text_length lcs = fold (\<lambda>l n. if lc_lc l \<noteq> 0 then n + ucast (lc_lc l) else n) lcs 0"

definition sizes_size :: "lc_s list \<Rightarrow> u32" where
  "sizes_size lcs = fold (\<lambda>l n. if lc_lc l \<noteq> 0 then n + 2 else n) lcs 0"

section \<open>Parts of the header\<close>

definition module_header :: "byte list" where
  "module_header = [0x53, 0x31, 0, 1, 0x85]"

definition seg_max_sizes :: "byte list" where
  "seg_max_sizes = [0x55, 0x55, 0x55, 0x55]"

text \<open>Two bits for each segment, the last one first, four to a byte.\<close>

primrec size_descriptors :: "lc_s list \<Rightarrow> byte \<Rightarrow> byte \<Rightarrow> 'a gen_scheme \<Rightarrow> 'a gen_scheme" where
  "size_descriptors [] byte sizebits s = s"
| "size_descriptors (l # ls) byte sizebits s =
     (let byte' = (if lc_lc l \<noteq> 0 then byte OR sizebits else byte); sizebits' = drop_bit 2 sizebits
      in if sizebits' = 0 then size_descriptors ls 0 0x80 (putobj1 byte' s)
         else size_descriptors ls byte' sizebits' s)"

definition segment_sizes :: "lc_s list \<Rightarrow> 'a gen_scheme \<Rightarrow> 'a gen_scheme" where
  "segment_sizes lcs s = fold (\<lambda>l t. if lc_lc l \<noteq> 0 then putobjword (ucast (lc_lc l)) t else t) lcs s"

text \<open>A common block that is also local is written as storage without the import bit.\<close>

definition local_common :: "sym_s \<Rightarrow> bool" where
  "local_common y \<longleftrightarrow> sy_type y AND (COMMBIT OR REDBIT) = COMMBIT OR REDBIT"

definition symbol_word :: "sym_s \<Rightarrow> u32" where
  "symbol_word y =
     (let n = sy_type y AND ENTBIT;
          sz = (if value_size y = 2 then 0x80 else if value_size y = 1 then 0x40 else 0);
          byte = n OR sz OR (if local_common y then 0x20 else 0);
          data = (if local_common y then sy_data y AND NOT IMPBIT else sy_data y)
      in push_bit 8 (ucast byte) OR ucast (sy_type y AND EXPBIT) OR
         ucast ((data AND (IMPBIT OR RELBIT OR SEGM)) XOR RELBIT))"

definition put_symbol :: "nat \<Rightarrow> u32 \<times> 'a gen_scheme \<Rightarrow> u32 \<times> 'a gen_scheme" where
  "put_symbol r p =
     (case p of (offset, s) \<Rightarrow>
        let y = syms s ! r;
            s1 = putobjword (symbol_word y) (putobjword offset s);
            s2 = (if local_common y then upd_sym r (\<lambda>y. y\<lparr>sy_data := sy_data y OR IMPBIT\<rparr>) s1 else s1);
            s3 = (if value_size y \<noteq> 0 then putobjoffset (sy_value y) (value_size y) s2 else s2)
        in (offset + ucast (sy_length y) + 1 + (if in_textseg s (syms s2 ! r) then 2 else 0), s3))"

definition put_name :: "nat \<Rightarrow> 'a gen_scheme \<Rightarrow> 'a gen_scheme" where
  "put_name r s =
     (let y = syms s ! r;
          s1 = writeobj (obj_name y) s;
          s2 = (if in_textseg s y then putobj1 (hexdigit ! nat (textseg s)) (putobj1 46 s1) else s1)
      in putobj1 0 s2)"

section \<open>The header\<close>

text \<open>
  The file name is copied into an array of \<^verbatim>\<open>FILNAMLEN + 1\<close> bytes; the count of
  symbols starts at zero.
\<close>

definition objheader :: "byte list \<Rightarrow> 'a gen_scheme \<Rightarrow> stop + 'a gen_scheme" where
  "objheader truefilename s0 =
     (let s = s0\<lparr>objectc := objectg s0\<rparr> in
      if \<not> objectc s then Inr s
      else if FILNAMLEN < length (after_last 47 truefilename) then Inl OutOfBounds
      else
        let name = obj_modname truefilename;
            rs = object_symbols s;
            lcs = lctab s;
            s1 = (writeobj module_header s)\<lparr>arrext := rs\<rparr>;
            s2 = putobj4 (5 + 4 + 4 + 2 + 1 + 1 + 4 + 4 + sizes_size lcs + 2 + symbols_size s rs + strings_size name s rs) s1;
            s3 = putobjword (strings_size name s rs) (putobj4 (text_length lcs) s2);
            s4 = writeobj seg_max_sizes (putobj1 0 (putobj1 0 s3));
            s5 = segment_sizes lcs (size_descriptors (rev lcs) 0 0x80 s4);
            s6 = putobjword (of_nat (length rs)) s5;
            s7 = snd (fold put_symbol rs (of_nat (length name) + 1, s6));
            s8 = putobj1 0 (writeobj name s7);
            s9 = fold put_name rs s8
        in Inr (putobj1 OBJ_SET_SEG s9))"

end
