(* ===== verification/Object_File.thy ===== *)
theory Object_File
  imports Objheader Linkmod_Props
begin

text \<open>
  The header that the assembler writes, read by the linker: the object file as
  the contract between \<^verbatim>\<open>objheader\<close> of \<^verbatim>\<open>as/genobj.c\<close> and \<^verbatim>\<open>readfileheader\<close>,
  \<^verbatim>\<open>reedmodheader\<close> and the loops of \<^verbatim>\<open>readmodule\<close> in \<^verbatim>\<open>ld/readobj.c\<close>.
\<close>

section \<open>The bytes of a header\<close>

definition symbol_name :: "'a gen_scheme \<Rightarrow> sym_s \<Rightarrow> byte list" where
  "symbol_name s y = obj_name y @ (if in_textseg s y then [46, hexdigit ! nat (textseg s)] else [])"

primrec symbol_bytes :: "'a gen_scheme \<Rightarrow> sym_s list \<Rightarrow> u32 \<Rightarrow> byte list" where
  "symbol_bytes s [] offset = []"
| "symbol_bytes s (y # ys) offset =
     word_bytes offset @ word_bytes (symbol_word y) @ num_bytes (ucast (sy_value y)) (value_size y) @
     symbol_bytes s ys (offset + ucast (sy_length y) + 1 + (if in_textseg s y then 2 else 0))"

definition name_bytes :: "'a gen_scheme \<Rightarrow> sym_s list \<Rightarrow> byte list" where
  "name_bytes s ys = concat (map (\<lambda>y. symbol_name s y @ [0]) ys)"

primrec descriptor_bytes :: "lc_s list \<Rightarrow> byte \<Rightarrow> byte \<Rightarrow> byte list" where
  "descriptor_bytes [] b sizebits = []"
| "descriptor_bytes (l # ls) b sizebits =
     (let b' = (if lc_lc l \<noteq> 0 then b OR sizebits else b); sizebits' = drop_bit 2 sizebits
      in if sizebits' = 0 then b' # descriptor_bytes ls 0 0x80 else descriptor_bytes ls b' sizebits')"

definition size_bytes :: "lc_s list \<Rightarrow> byte list" where
  "size_bytes lcs = concat (map (\<lambda>l. if lc_lc l \<noteq> 0 then word_bytes (ucast (lc_lc l)) else []) lcs)"

definition header_offset :: "byte list \<Rightarrow> 'a gen_scheme \<Rightarrow> nat list \<Rightarrow> u32" where
  "header_offset name s rs =
     5 + 4 + 4 + 2 + 1 + 1 + 4 + 4 + sizes_size (lctab s) + 2 + symbols_size s rs + strings_size name s rs"

definition fixed_bytes :: "byte list \<Rightarrow> 'a gen_scheme \<Rightarrow> nat list \<Rightarrow> byte list" where
  "fixed_bytes name s rs =
     long_bytes (ucast (header_offset name s rs)) @ long_bytes (ucast (text_length (lctab s))) @
     word_bytes (strings_size name s rs) @ [0, 0] @ seg_max_sizes @ descriptor_bytes (rev (lctab s)) 0 0x80 @
     size_bytes (lctab s)"

definition header_bytes :: "byte list \<Rightarrow> 'a gen_scheme \<Rightarrow> nat list \<Rightarrow> byte list" where
  "header_bytes name s rs =
     module_header @ fixed_bytes name s rs @ word_bytes (of_nat (length rs)) @
     symbol_bytes s (map (\<lambda>r. syms s ! r) rs) (of_nat (length name) + 1) @ name @ [0] @
     name_bytes s (map (\<lambda>r. syms s ! r) rs)"

section \<open>What the assembler writes\<close>

text \<open>Writing changes the output only, besides an import bit that nothing here depends on.\<close>

definition sym_view :: "sym_s \<Rightarrow> u32 \<times> u64 \<times> byte \<times> byte list \<times> byte" where
  "sym_view y = (symbol_word y, sy_value y, sy_length y, sy_name y, sy_data y AND SEGM)"

lemma sym_view_simps:
  assumes "sym_view y = sym_view z"
  shows "symbol_word y = symbol_word z" "sy_value y = sy_value z" "sy_length y = sy_length z" "sy_name y = sy_name z"
    "value_size y = value_size z" "in_textseg s y = in_textseg s z" "obj_name y = obj_name z"
    "symbol_name s y = symbol_name s z"
  using assms by (simp_all add: sym_view_def value_size_def in_textseg_def obj_name_def symbol_name_def)

definition puts :: "'a gen_scheme \<Rightarrow> byte list \<Rightarrow> 'a gen_scheme \<Rightarrow> bool" where
  "puts s bs t \<longleftrightarrow>
     out t = out s @ bs \<and> lctab t = lctab s \<and> textseg t = textseg s \<and> arrext t = arrext s \<and> objectc t = objectc s \<and>
     absbuf t = absbuf s \<and> rmbcount t = rmbcount s \<and> relsize t = relsize s \<and> map sym_view (syms t) = map sym_view (syms s)"

lemma puts_trans: "puts s bs t \<Longrightarrow> puts t cs u \<Longrightarrow> puts s (bs @ cs) u"
  by (simp add: puts_def)

lemma puts_Nil [simp]: "puts s [] s"
  by (simp add: puts_def)

lemma puts_same: "out t = out s @ bs \<and> same_but_out s t \<Longrightarrow> puts s bs t"
proof -
  assume a: "out t = out s @ bs \<and> same_but_out s t"
  then have e: "t = s\<lparr>objbuf := objbuf t, objfil := objfil t\<rparr>" by (simp add: same_but_out_def)
  have "lctab t = lctab s" "textseg t = textseg s" "arrext t = arrext s" "objectc t = objectc s" "absbuf t = absbuf s"
    "rmbcount t = rmbcount s" "relsize t = relsize s" "syms t = syms s"
    by (subst e, simp)+
  with a show ?thesis by (simp add: puts_def)
qed

lemmas puts1 = puts_same [OF putobj1_out]
lemmas puts_word = puts_same [OF putobjword_out]
lemmas puts_write = puts_same [OF writeobj_out]

lemma puts_long: "puts s (long_bytes (ucast v)) (putobj4 v s)"
proof -
  have "take 4 (u4c4 target (replicate 8 0) (ucast v)) = long_bytes (ucast v)"
    by (simp add: u4c4_def typeconv_init_def swap_def numeral_eq_Suc)
  then show ?thesis using puts_write by (simp add: putobj4_def)
qed

lemma puts_view:
  assumes "puts s bs t" shows "sym_view (syms t ! r) = sym_view (syms s ! r) \<or> length (syms s) \<le> r"
    and "length (syms t) = length (syms s)"
proof -
  have e: "map sym_view (syms t) = map sym_view (syms s)" using assms by (simp add: puts_def)
  show l: "length (syms t) = length (syms s)" using arg_cong [OF e, of length] by simp
  show "sym_view (syms t ! r) = sym_view (syms s ! r) \<or> length (syms s) \<le> r"
    using e l by (metis not_le nth_map)
qed

lemma sym_view_import: "local_common y \<Longrightarrow> sym_view (y\<lparr>sy_data := sy_data y OR IMPBIT\<rparr>) = sym_view y"
proof -
  assume "local_common y"
  moreover have "value_size (y\<lparr>sy_data := d\<rparr>) = value_size y" for d by (simp add: value_size_def)
  moreover have "(sy_data y OR IMPBIT) AND NOT IMPBIT = sy_data y AND NOT IMPBIT"
    by (rule bit_word_eqI) (auto simp: bit_simps)
  moreover have "(sy_data y OR IMPBIT) AND SEGM = sy_data y AND SEGM" by (simp add: bit.conj_disj_distrib2)
  ultimately show ?thesis by (simp add: sym_view_def symbol_word_def local_common_def Let_def)
qed

lemma puts_import:
  assumes "local_common (syms s ! r)"
  shows "puts s [] (upd_sym r (\<lambda>y. y\<lparr>sy_data := sy_data y OR IMPBIT\<rparr>) s)"
proof -
  have "map sym_view ((syms s)[r := (syms s ! r)\<lparr>sy_data := sy_data (syms s ! r) OR IMPBIT\<rparr>]) = map sym_view (syms s)"
    by (cases "r < length (syms s)")
       (simp_all add: map_update sym_view_import [OF assms] list_update_same_conv list_update_beyond)
  then show ?thesis by (simp add: puts_def upd_sym_def out_def)
qed


lemma same_out_syms:
  assumes "same_but_out s t" shows "syms t = syms s" "textseg t = textseg s"
  by (subst assms [unfolded same_but_out_def], simp)+

lemma put_symbol_puts:
  assumes y: "sym_view (syms s ! r) = sym_view y"
  shows "\<exists>t. put_symbol r (offset, s) =
      (offset + ucast (sy_length y) + 1 + (if in_textseg s y then 2 else 0), t) \<and>
    puts s (word_bytes offset @ word_bytes (symbol_word y) @ num_bytes (ucast (sy_value y)) (value_size y)) t"
proof -
  note v = sym_view_simps [OF y]
  let ?y = "syms s ! r"
  define s1 where "s1 = putobjword (symbol_word ?y) (putobjword offset s)"
  define s2 where "s2 = (if local_common ?y then upd_sym r (\<lambda>y. y\<lparr>sy_data := sy_data y OR IMPBIT\<rparr>) s1 else s1)"
  define s3 where "s3 = (if value_size ?y \<noteq> 0 then putobjoffset (sy_value ?y) (value_size ?y) s2 else s2)"
  have e1: "syms s1 = syms s" "textseg s1 = textseg s"
    using same_out_syms [OF conjunct2 [OF putobjword_out [of offset s]]]
      same_out_syms [OF conjunct2 [OF putobjword_out [of "symbol_word ?y" "putobjword offset s"]]] by (simp_all add: s1_def)
  have a: "puts s (word_bytes offset @ word_bytes (symbol_word ?y)) s1"
    unfolding s1_def by (rule puts_trans [OF puts_word puts_word])
  have b: "puts s1 [] s2" using puts_import [of s1 r] e1 by (simp add: s2_def)
  have "value_size ?y \<in> {0, 1, 2}" by (simp add: value_size_def)
  then have c: "puts s2 (num_bytes (ucast (sy_value ?y)) (value_size ?y)) s3"
    using puts_same [OF putobjoffset_out [of "value_size ?y" "sy_value ?y" s2]]
    by (cases "value_size ?y = 0") (auto simp: s3_def num_bytes_def)
  have "in_textseg s (syms s2 ! r) = in_textseg s ?y"
    using e1 by (cases "r < length (syms s)")
      (simp_all add: s2_def upd_sym_def in_textseg_def bit.conj_disj_distrib2 list_update_beyond)
  moreover have "put_symbol r (offset, s) =
      (offset + ucast (sy_length ?y) + 1 + (if in_textseg s (syms s2 ! r) then 2 else 0), s3)"
    by (simp only: put_symbol_def Let_def prod.case s1_def s2_def s3_def)
  ultimately have "put_symbol r (offset, s) = (offset + ucast (sy_length ?y) + 1 + (if in_textseg s ?y then 2 else 0), s3)"
    by (simp only:)
  with puts_trans [OF puts_trans [OF a b] c] show ?thesis by (simp add: v)
qed

lemma put_symbols_puts:
  assumes "\<forall>r\<in>set rs. r < length (syms s)" and "map sym_view (syms u) = map sym_view (syms s)" and "textseg u = textseg s"
  shows "\<exists>t offset'. fold put_symbol rs (offset, u) = (offset', t) \<and>
    puts u (symbol_bytes s (map (\<lambda>r. syms s ! r) rs) offset) t"
  using assms
proof (induction rs arbitrary: u offset)
  case (Cons r rs)
  let ?y = "syms s ! r"
  have "sym_view (syms u ! r) = sym_view ?y" using Cons.prems by (metis length_map list.set_intros(1) nth_map)
  moreover have t: "in_textseg u y = in_textseg s y" for y using Cons.prems(3) by (simp add: in_textseg_def)
  ultimately obtain v where v: "put_symbol r (offset, u) =
      (offset + ucast (sy_length ?y) + 1 + (if in_textseg s ?y then 2 else 0), v)"
    "puts u (word_bytes offset @ word_bytes (symbol_word ?y) @ num_bytes (ucast (sy_value ?y)) (value_size ?y)) v"
    using put_symbol_puts [of u r ?y offset] by auto
  have w: "map sym_view (syms v) = map sym_view (syms s)" "textseg v = textseg s"
    using v(2) Cons.prems(2,3) by (simp_all add: puts_def)
  obtain t offset' where "fold put_symbol rs (offset + ucast (sy_length ?y) + 1 + (if in_textseg s ?y then 2 else 0), v) = (offset', t)"
    "puts v (symbol_bytes s (map (\<lambda>r. syms s ! r) rs) (offset + ucast (sy_length ?y) + 1 + (if in_textseg s ?y then 2 else 0))) t"
    using Cons.IH [OF _ w] Cons.prems(1) by (meson list.set_intros(2))
  with v(1) puts_trans [OF v(2)] show ?case by fastforce
qed simp

lemma put_name_puts:
  assumes "sym_view (syms s ! r) = sym_view y"
  shows "puts s (symbol_name s y @ [0]) (put_name r s)"
proof -
  note v = sym_view_simps [OF assms]
  have "puts s (obj_name y @ [0]) (putobj1 0 (writeobj (obj_name y) s))" by (rule puts_trans [OF puts_write puts1])
  moreover have "puts s (obj_name y @ [46, h, 0]) (putobj1 0 (putobj1 h (putobj1 46 (writeobj (obj_name y) s))))" for h
    using puts_trans [OF puts_write puts_trans [OF puts1 puts_trans [OF puts1 puts1]], of s "obj_name y" 46 h 0] by simp
  ultimately show ?thesis by (simp add: put_name_def Let_def v symbol_name_def)
qed

lemma put_names_puts:
  assumes "\<forall>r\<in>set rs. r < length (syms s)" and "map sym_view (syms u) = map sym_view (syms s)" and "textseg u = textseg s"
  shows "puts u (name_bytes s (map (\<lambda>r. syms s ! r) rs)) (fold put_name rs u)"
  using assms
proof (induction rs arbitrary: u)
  case (Cons r rs)
  let ?y = "syms s ! r"
  have "sym_view (syms u ! r) = sym_view ?y" using Cons.prems by (metis length_map list.set_intros(1) nth_map)
  moreover have "symbol_name u y = symbol_name s y" for y
    using Cons.prems(3) by (simp add: symbol_name_def in_textseg_def)
  ultimately have a: "puts u (symbol_name s ?y @ [0]) (put_name r u)"
    using put_name_puts [of u r ?y] by simp
  then have "puts (put_name r u) (name_bytes s (map (\<lambda>r. syms s ! r) rs)) (fold put_name rs (put_name r u))"
    using Cons.prems by (intro Cons.IH) (auto simp: puts_def)
  with puts_trans [OF a this] show ?case by (simp add: name_bytes_def)
qed (simp add: name_bytes_def)

lemma size_descriptors_puts: "puts s (descriptor_bytes ls b n) (size_descriptors ls b n s)"
proof (induction ls arbitrary: b n s)
  case (Cons l ls)
  show ?case
    using puts_trans [OF puts1 Cons.IH] Cons.IH by (auto simp: Let_def)
qed simp

lemma segment_sizes_puts: "puts s (size_bytes lcs) (segment_sizes lcs s)"
proof (induction lcs arbitrary: s)
  case (Cons l lcs)
  have "puts s (size_bytes lcs) (fold (\<lambda>l t. if lc_lc l \<noteq> 0 then putobjword (ucast (lc_lc l)) t else t) lcs s)"
    for s :: "'a gen_scheme" using Cons.IH by (simp add: segment_sizes_def)
  from this puts_trans [OF puts_word this] show ?case by (simp add: segment_sizes_def size_bytes_def)
qed (simp add: segment_sizes_def size_bytes_def)

lemma objheader_bytes:
  assumes o: "objheader fname s = Inr t" and g: "objectg s" and sy: "\<forall>h<SPTSIZ. \<forall>r\<in>set (spt s h). r < length (syms s)"
  shows "out t = out s @ header_bytes (obj_modname fname) s (object_symbols s) @ [OBJ_SET_SEG] \<and>
    arrext t = object_symbols s \<and> objectc t \<and> absbuf t = absbuf s \<and> rmbcount t = rmbcount s \<and> relsize t = relsize s"
proof -
  let ?s = "s\<lparr>objectc := True\<rparr>" and ?name = "obj_modname fname"
  define rs where "rs = object_symbols s"
  define s1 where "s1 = (writeobj module_header ?s)\<lparr>arrext := rs\<rparr>"
  have rs: "\<forall>r\<in>set rs. r < length (syms s)" using sy by (auto simp: rs_def object_symbols_def)
  have "puts ?s module_header (writeobj module_header ?s)" by (rule puts_write)
  then have a: "out s1 = out s @ module_header" "lctab s1 = lctab s" "textseg s1 = textseg s" "arrext s1 = rs" "objectc s1"
    "absbuf s1 = absbuf s" "rmbcount s1 = rmbcount s" "relsize s1 = relsize s" "map sym_view (syms s1) = map sym_view (syms s)"
    by (simp_all add: s1_def puts_def out_def)
  define s2 where "s2 = segment_sizes (lctab s) (size_descriptors (rev (lctab s)) 0 0x80
     (writeobj seg_max_sizes (putobj1 0 (putobj1 0 (putobjword (strings_size ?name s rs)
       (putobj4 (text_length (lctab s)) (putobj4 (header_offset ?name s rs) s1)))))))"
  have "puts s1 (fixed_bytes ?name s rs) s2"
    unfolding s2_def fixed_bytes_def
    using puts_trans [OF puts_long puts_trans [OF puts_long puts_trans [OF puts_word puts_trans [OF puts1 puts_trans [OF puts1
      puts_trans [OF puts_write puts_trans [OF size_descriptors_puts segment_sizes_puts]]]]]]] by simp
  then have b: "puts s1 (fixed_bytes ?name s rs @ word_bytes (of_nat (length rs))) (putobjword (of_nat (length rs)) s2)"
    by (rule puts_trans [OF _ puts_word])
  then obtain s3 where c: "snd (fold put_symbol rs (of_nat (length ?name) + 1, putobjword (of_nat (length rs)) s2)) = s3"
    "puts (putobjword (of_nat (length rs)) s2) (symbol_bytes s (map (\<lambda>r. syms s ! r) rs) (of_nat (length ?name) + 1)) s3"
    using put_symbols_puts [OF rs, of "putobjword (of_nat (length rs)) s2" "of_nat (length ?name) + 1"] a
    by (auto simp: puts_def)
  have d: "puts s3 (?name @ [0]) (putobj1 0 (writeobj ?name s3))" by (rule puts_trans [OF puts_write puts1])
  from puts_trans [OF puts_trans [OF b c(2)] d]
  have e: "puts s1 ((fixed_bytes ?name s rs @ word_bytes (of_nat (length rs))) @
      symbol_bytes s (map (\<lambda>r. syms s ! r) rs) (of_nat (length ?name) + 1) @ ?name @ [0]) (putobj1 0 (writeobj ?name s3))"
    by simp
  then have f: "puts (putobj1 0 (writeobj ?name s3)) (name_bytes s (map (\<lambda>r. syms s ! r) rs)) (fold put_name rs (putobj1 0 (writeobj ?name s3)))"
    using a by (intro put_names_puts [OF rs]) (simp_all add: puts_def)
  have t: "t = putobj1 OBJ_SET_SEG (fold put_name rs (putobj1 0 (writeobj ?name s3)))"
    using o g by (simp add: objheader_def Let_def rs_def s1_def s2_def c(1) [symmetric] header_offset_def object_symbols_def
      strings_size_def symbols_size_def in_textseg_def split: if_splits)
  show ?thesis
    using puts_trans [OF puts_trans [OF e f] puts1, of OBJ_SET_SEG] a
    by (simp add: t [symmetric] puts_def header_bytes_def rs_def [symmetric])
qed


section \<open>The length of a header\<close>

definition names_ok :: "sym_s list \<Rightarrow> bool" where
  "names_ok ys \<longleftrightarrow> (\<forall>y\<in>set ys. length (sy_name y) = unat (sy_length y) \<and> 0 \<notin> set (sy_name y))"

lemma fold_of_nat: "fold (\<lambda>x n. n + of_nat (f x)) xs (of_nat k) = (of_nat (k + sum_list (map f xs)) :: u32)"
  by (induction xs arbitrary: k) (simp_all add: add.assoc flip: of_nat_add)

lemma length_word_bytes [simp]: "length (word_bytes v) = 2"
  by (simp add: u2c2_target)

lemma length_long_bytes [simp]: "length (long_bytes v) = 4"
  by (rule long_codec.enc_length)

lemma length_num_bytes: "n \<in> {0, 1, 2} \<Longrightarrow> length (num_bytes v n) = n"
  by (auto simp: num_bytes_def)

lemma value_size_range: "value_size y \<in> {0, 1, 2}"
  by (simp add: value_size_def)

lemma length_symbol_bytes: "length (symbol_bytes s ys offset) = sum_list (map (\<lambda>y. 4 + value_size y) ys)"
  by (induction ys arbitrary: offset) (simp_all add: length_num_bytes [OF value_size_range])

lemma symbols_size_length: "symbols_size s rs = of_nat (length (symbol_bytes s (map (\<lambda>r. syms s ! r) rs) offset))"
  using fold_of_nat [of "\<lambda>r. 4 + value_size (syms s ! r)" rs 0]
  by (simp add: symbols_size_def length_symbol_bytes o_def)

lemma sizes_size_length: "sizes_size lcs = of_nat (length (size_bytes lcs))"
proof -
  have e: "(\<lambda>l n. if lc_lc l \<noteq> 0 then n + 2 else n) = (\<lambda>l n. n + of_nat (if lc_lc l \<noteq> 0 then 2 else 0) :: u32)"
    by (intro ext) simp
  have "length (size_bytes lcs) = sum_list (map (\<lambda>l. if lc_lc l \<noteq> 0 then 2 else 0) lcs)"
    by (induction lcs) (simp_all add: size_bytes_def)
  with fold_of_nat [of "\<lambda>l. if lc_lc l \<noteq> 0 then 2 else 0" lcs 0] show ?thesis
    unfolding sizes_size_def e by simp
qed

lemma strings_size_length:
  assumes "names_ok (map (\<lambda>r. syms s ! r) rs)"
  shows "strings_size name s rs = of_nat (length (name @ [0]) + length (name_bytes s (map (\<lambda>r. syms s ! r) rs)))"
proof -
  let ?f = "\<lambda>r. length (symbol_name s (syms s ! r)) + 1"
  have "n + ucast (sy_length (syms s ! r)) + 1 + (if in_textseg s (syms s ! r) then 2 else 0) = n + of_nat (?f r)"
    if "r \<in> set rs" for r and n :: u32
  proof -
    have "length (obj_name (syms s ! r)) = unat (sy_length (syms s ! r))"
      using assms that by (simp add: names_ok_def obj_name_def)
    moreover have "(of_nat (unat (sy_length (syms s ! r))) :: u32) = ucast (sy_length (syms s ! r))"
      by (rule word_of_nat_eq_iff [THEN iffD2] | simp)+
    ultimately show ?thesis by (simp add: symbol_name_def)
  qed
  then have "strings_size name s rs = fold (\<lambda>r n. n + of_nat (?f r)) rs (of_nat (length name + 1))"
    unfolding strings_size_def by (intro fold_cong ext) (auto simp: add_ac)
  also have "\<dots> = of_nat (length name + 1 + sum_list (map ?f rs))" by (rule fold_of_nat)
  also have "sum_list (map ?f rs) = length (name_bytes s (map (\<lambda>r. syms s ! r) rs))"
    by (simp add: name_bytes_def length_concat o_def)
  finally show ?thesis by simp
qed

section \<open>Segment sizes\<close>

definition size_byte :: "bool \<Rightarrow> bool \<Rightarrow> bool \<Rightarrow> bool \<Rightarrow> byte" where
  "size_byte a b c d = (if a then 0x80 else 0) OR (if b then 0x20 else 0) OR (if c then 0x08 else 0) OR (if d then 0x02 else 0)"

lemma descriptor_four:
  "descriptor_bytes (a # b # c # d # ls) 0 0x80 =
     size_byte (lc_lc a \<noteq> 0) (lc_lc b \<noteq> 0) (lc_lc c \<noteq> 0) (lc_lc d \<noteq> 0) # descriptor_bytes ls 0 0x80"
  by (simp add: size_byte_def Let_def)

lemma less_four:
  assumes "(j :: nat) < 4"
  obtains "j = 0" | "j = 1" | "j = 2" | "j = 3"
  using assms by linarith

lemma size_byte_bits:
  assumes "j < 4"
  shows "3 AND ucast (drop_bit (2 * j) (scast (size_byte a b c d) :: u32)) = (if [d, c, b, a] ! j then 2 else 0 :: byte)"
  using assms by (elim less_four; cases a; cases b; cases c; cases d) (simp_all add: size_byte_def)

lemma list_16:
  assumes "length xs = 16"
  obtains a b c d e f g h i j k l m n p q where "xs = [a, b, c, d, e, f, g, h, i, j, k, l, m, n, p, q]"
  using assms by (auto simp: numeral_eq_Suc length_Suc_conv)

lemma segment_descriptors:
  assumes "length lcs = 16"
  shows "length (descriptor_bytes (rev lcs) 0 0x80) = 4"
    and "seg < NSEG \<Longrightarrow> segsizecount seg (descriptor_bytes (rev lcs) 0 0x80) = (if lc_lc (lcs ! seg) \<noteq> 0 then 2 else 0)"
proof -
  obtain a b c d e f g h i j k l m n p q where x: "lcs = [a, b, c, d, e, f, g, h, i, j, k, l, m, n, p, q]"
    using assms by (rule list_16)
  have ds: "descriptor_bytes (rev lcs) 0 0x80 =
     [size_byte (lc_lc q \<noteq> 0) (lc_lc p \<noteq> 0) (lc_lc n \<noteq> 0) (lc_lc m \<noteq> 0),
      size_byte (lc_lc l \<noteq> 0) (lc_lc k \<noteq> 0) (lc_lc j \<noteq> 0) (lc_lc i \<noteq> 0),
      size_byte (lc_lc h \<noteq> 0) (lc_lc g \<noteq> 0) (lc_lc f \<noteq> 0) (lc_lc e \<noteq> 0),
      size_byte (lc_lc d \<noteq> 0) (lc_lc c \<noteq> 0) (lc_lc b \<noteq> 0) (lc_lc a \<noteq> 0)]"
    unfolding x rev.simps append.simps descriptor_four descriptor_bytes.simps(1) ..
  show "length (descriptor_bytes (rev lcs) 0 0x80) = 4" by (simp add: ds)
  define z where "z i \<longleftrightarrow> lc_lc (lcs ! i) \<noteq> 0" for i
  have nth: "descriptor_bytes (rev lcs) 0 0x80 ! (3 - r) = size_byte (z (4 * r + 3)) (z (4 * r + 2)) (z (4 * r + 1)) (z (4 * r))"
    if "r < 4" for r
  proof -
    from that consider "r = 0" | "r = 1" | "r = 2" | "r = 3" by linarith
    then show ?thesis unfolding ds z_def by cases (simp_all add: x)
  qed
  assume seg: "seg < NSEG"
  define r j where "r = seg div 4" and "j = seg mod 4"
  have rj: "seg = 4 * r + j" "r < 4" "j < 4" using seg by (auto simp: r_def j_def)
  then have i: "(NSEG - 1 - seg) div 4 = 3 - r" by simp
  have "[z (4 * r), z (4 * r + 1), z (4 * r + 2), z (4 * r + 3)] ! j = z (4 * r + j)"
    using rj(3) by (elim less_four) simp_all
  then have "segbits seg (descriptor_bytes (rev lcs) 0 0x80) = (if z seg then 2 else 0)"
    using size_byte_bits [OF rj(3), of "z (4 * r + 3)" "z (4 * r + 2)" "z (4 * r + 1)" "z (4 * r)"]
    unfolding segbits_def i nth [OF rj(2)] j_def [symmetric] rj(1) [symmetric] by simp
  then show "segsizecount seg (descriptor_bytes (rev lcs) 0 0x80) = (if lc_lc (lcs ! seg) \<noteq> 0 then 2 else 0)"
    by (simp add: segsizecount_def z_def convertsize_def)
qed

end
