(* ===== verification/Object_Read.thy ===== *)
theory Object_Read
  imports Object_File
begin

text \<open>
  The linker reads the header that the assembler wrote: what \<^verbatim>\<open>readmodule\<close> does
  with it is a pure operation on the tables with the symbols of the assembler.
\<close>

section \<open>Reading what was written\<close>

lemma readin_bytes:
  assumes "in_rest s = bs @ rest" and "length bs = n"
  shows "\<exists>t. readin n s = Inr (bs, t) \<and> in_rest t = rest \<and> same_but_input s t"
  using readin_enough [of n s] assms by auto

lemma readsize_bytes:
  assumes "in_rest s = num_bytes v n @ rest" and "n \<in> {0, 1, 2}"
  shows "\<exists>t. readsize n s = Inr (take_bit (8 * n) v, t) \<and> in_rest t = rest \<and> same_but_input s t"
proof (cases "n = 0")
  case True
  then show ?thesis using assms by (auto simp: readsize_def num_bytes_def)
next
  case False
  with assms have "take_num n (in_rest s) = Some (take_bit (8 * n) v, rest)" using take_num_bytes by auto
  then show ?thesis by (rule readsize_take)
qed

lemma readsize_word:
  assumes "in_rest s = word_bytes v @ rest"
  shows "\<exists>t. readsize 2 s = Inr (take_bit 16 v, t) \<and> in_rest t = rest \<and> same_but_input s t"
  using readsize_bytes [of s v 2 rest] assms by (simp add: num_bytes_def)

section \<open>The descriptor of a symbol\<close>

lemma word_fields:
  "take_bit 16 (push_bit 8 (ucast (b :: byte)) :: u32) = push_bit 8 (ucast b)"
  "take_bit 16 (ucast b :: u32) = ucast b"
  by (rule bit_word_eqI; auto simp: bit_simps dest: bit_imp_le_length)+

lemma symbol_word_16: "take_bit 16 (symbol_word y) = symbol_word y"
  by (simp only: symbol_word_def Let_def take_bit_or word_fields)

lemma symbol_word_size:
  "bit (symbol_word y) 14 = (value_size y = 1)" "bit (symbol_word y) 15 = (value_size y = 2)"
  by (simp_all add: symbol_word_def Let_def bit_simps)

lemma size_field: "drop_bit 14 (w AND 0xC000) = (if bit w 15 then 2 else 0) + (if bit w 14 then 1 else 0 :: u32)"
proof -
  have m: "(0xC000 :: u32) = push_bit 14 (mask 2)" by (simp add: mask_eq_decr_exp)
  have "drop_bit 14 (w AND 0xC000) = take_bit 2 (drop_bit 14 w)"
    unfolding m by (rule bit_word_eqI) (auto simp: bit_simps)
  also have "\<dots> = (if bit w 15 then 2 else 0) + (if bit w 14 then 1 else 0 :: u32)"
    by (rule bit_word_eqI) (auto simp: bit_simps less_Suc_eq numeral_eq_Suc)
  finally show ?thesis .
qed

lemma symbol_size_read: "convertsize (ucast (drop_bit 14 (symbol_word y AND SZ_MASK))) = value_size y"
  using value_size_range [of y] unfolding size_field symbol_word_size by (auto simp: convertsize_def)

lemma read_value: "readconvsize (ucast (drop_bit 14 (symbol_word y) AND 3)) w = readsize (value_size y) w"
  using symbol_size_read [of y] by (simp add: readconvsize_def)

lemma read_descriptors_symbols:
  assumes "in_rest w = symbol_bytes s ys offset @ rest"
  shows "\<exists>t. read_descriptors (length ys) w =
      Inr (map (\<lambda>y. (take_bit (8 * value_size y) (ucast (sy_value y)), symbol_word y)) ys, t) \<and>
    in_rest t = rest \<and> same_but_input w t"
  using assms
proof (induction ys arbitrary: w offset)
  case (Cons y ys)
  obtain w1 where 1: "readsize 2 w = Inr (take_bit 16 offset, w1)" "same_but_input w w1"
    "in_rest w1 = word_bytes (symbol_word y) @ num_bytes (ucast (sy_value y)) (value_size y) @
      symbol_bytes s ys (offset + ucast (sy_length y) + 1 + (if in_textseg s y then 2 else 0)) @ rest"
    using readsize_word [of w offset] Cons.prems by auto
  obtain w2 where 2: "readsize 2 w1 = Inr (symbol_word y, w2)" "same_but_input w1 w2"
    "in_rest w2 = num_bytes (ucast (sy_value y)) (value_size y) @
      symbol_bytes s ys (offset + ucast (sy_length y) + 1 + (if in_textseg s y then 2 else 0)) @ rest"
    using readsize_word [OF 1(3)] by (auto simp: symbol_word_16)
  obtain w3 where 3: "readsize (value_size y) w2 = Inr (take_bit (8 * value_size y) (ucast (sy_value y)), w3)"
    "same_but_input w2 w3"
    "in_rest w3 = symbol_bytes s ys (offset + ucast (sy_length y) + 1 + (if in_textseg s y then 2 else 0)) @ rest"
    using readsize_bytes [OF 2(3) value_size_range] by auto
  obtain w4 where 4: "read_descriptors (length ys) w3 =
      Inr (map (\<lambda>y. (take_bit (8 * value_size y) (ucast (sy_value y)), symbol_word y)) ys, w4)"
    "in_rest w4 = rest" "same_but_input w3 w4"
    using Cons.IH [OF 3(3)] by auto
  show ?case
    using 1 2 3 4 same_but_input_trans [OF same_but_input_trans [OF same_but_input_trans [OF 1(2) 2(2)] 3(2)] 4(3)]
    by (simp add: read_value)
qed simp

section \<open>The tables do not depend on the position in the file\<close>

definition moved :: "'a input_scheme \<Rightarrow> 'a input_scheme \<Rightarrow> 'a input_scheme" where
  "moved w s = s\<lparr>in_file := in_file w, in_fpos := in_fpos w, inbuf := inbuf w, inbufptr := inbufptr w\<rparr>"

lemma moved_simps [simp]:
  "in_fpos (moved w s) = in_fpos w" "inbuf (moved w s) = inbuf w" "inbufptr (moved w s) = inbufptr w"
  "in_file (moved w s) = in_file w" "moved w (moved v s) = moved w s" "moved w w = w"
  "in_rest (moved w s) = in_rest w"
  by (simp_all add: moved_def in_rest_def)

lemma moved_link [simp]:
  "symbols (moved w s) = symbols s" "hashtab (moved w s) = hashtab s" "mods (moved w s) = mods s"
  "entrylist (moved w s) = entrylist s" "redefs (moved w s) = redefs s"
  by (simp_all add: moved_def)

lemma moved_tables:
  "findsym name (moved w s) = findsym name s" "upd_symbol r f (moved w s) = moved w (upd_symbol r f s)"
  "addsym name (moved w s) = map_prod id (moved w) (addsym name s)"
  "entrysym r (moved w s) = moved w (entrysym r s)"
  "upd_mod m g (moved w s) = moved w (upd_mod m g s)"
  by (simp_all add: findsym_def upd_symbol_def addsym_def entrysym_def upd_mod_def moved_def Let_def)

lemma moved_redefined: "redefined r (moved w s) = map_sum id (moved w) (redefined r s)"
  by (simp add: redefined_def) (simp add: moved_def)

lemma moved_redsym: "redsym r v (moved w s) = map_sum id (map_prod id (moved w)) (redsym r v s)"
  by (simp add: redsym_def Let_def moved_tables split: option.splits) (auto simp: moved_def upd_symbol_def)

lemma moved_take: "take_symbol r v fl (moved w s) = moved w (take_symbol r v fl s)"
  by (simp add: take_symbol_def define_symbol_def Let_def moved_tables)

lemma bindE_map:
  "map_sum id h (bindE m f) = bindE m (\<lambda>x. map_sum id h (f x))"
  "bindE (map_sum id g m) k = bindE m (\<lambda>x. k (g x))"
  by (cases m; simp)+

lemma moved_meet: "meet_symbol r v fl (moved w s) = map_sum id (moved w) (meet_symbol r v fl s)"
  unfolding meet_symbol_def Let_def moved_tables moved_link moved_take moved_redefined moved_redsym bindE_map
  by (simp add: if_distrib [where f = "map_sum id (moved w)"] bindE_map case_prod_unfold moved_redefined cong: if_cong)

lemma moved_enter: "enter_symbol name v fl (moved w s) = map_sum id (map_prod id (moved w)) (enter_symbol name v fl s)"
  by (cases "addsym name s")
     (simp add: enter_symbol_def moved_tables moved_take moved_meet bindE_map split: option.splits)

lemma moved_same: "same_but_input s t \<Longrightarrow> moved w t = moved w s \<and> moved t s = t"
  unfolding same_but_input_def moved_def by (cases s; cases t) simp

lemma enter_symbol_same: "enter_symbol name v fl s = Inr (r, t) \<Longrightarrow> in_rest t = in_rest s"
  using moved_enter [of name v fl s s] by (metis Inr_inject map_prod_simp map_sum.simps(2) moved_simps(7) moved_simps(6) prod.inject)

section \<open>Entering the symbols of a module\<close>

primrec enter_names :: "(byte list \<times> u32 \<times> u32) list \<Rightarrow> 'a link_scheme \<Rightarrow> stop + nat list \<times> 'a link_scheme" where
  "enter_names [] s = Inr ([], s)"
| "enter_names (x # xs) s =
     bindE (enter_symbol (fst x) (fst (snd x)) (snd (snd x)) s) (\<lambda>(r, s1).
     bindE (enter_names xs s1) (\<lambda>(rs, s2). Inr (r # rs, s2)))"

lemma enter_symbols_names:
  assumes "in_rest w = concat (map (\<lambda>x. fst x @ [0]) xs) @ rest" and "\<forall>x\<in>set xs. 0 \<notin> set (fst x)"
  shows "map_sum id (map_prod id (moved z)) (enter_symbols (map snd xs) w) = enter_names xs (moved z w) \<and>
    (\<forall>rs t. enter_symbols (map snd xs) w = Inr (rs, t) \<longrightarrow> in_rest t = rest)"
  using assms
proof (induction xs arbitrary: w)
  case (Cons x xs)
  obtain w1 where 1: "readstring w = Inr (fst x, w1)" "in_rest w1 = concat (map (\<lambda>x. fst x @ [0]) xs) @ rest"
      "same_but_input w w1"
    using readstring_rest [of w "fst x" "concat (map (\<lambda>x. fst x @ [0]) xs) @ rest"] Cons.prems by auto
  have e: "enter_symbol (fst x) (fst (snd x)) (snd (snd x)) (moved z w) =
      map_sum id (map_prod id (moved z)) (enter_symbol (fst x) (fst (snd x)) (snd (snd x)) w1)"
    using moved_same [OF 1(3), of z] moved_enter [of _ _ _ z w1] by simp
  show ?case
  proof (cases "enter_symbol (fst x) (fst (snd x)) (snd (snd x)) w1")
    case (Inl y)
    then show ?thesis using 1(1) e by simp
  next
    case (Inr q)
    obtain r w2 where q: "q = (r, w2)" by (cases q)
    then have "in_rest w2 = concat (map (\<lambda>x. fst x @ [0]) xs) @ rest"
      using enter_symbol_same Inr 1(2) by metis
    from Cons.IH [OF this] Cons.prems(2)
    have "enter_names xs (moved z w2) = map_sum id (map_prod id (moved z)) (enter_symbols (map snd xs) w2)"
      and "\<forall>rs t. enter_symbols (map snd xs) w2 = Inr (rs, t) \<longrightarrow> in_rest t = rest" by (simp_all add: id_def)
    then show ?thesis
      using 1(1) e Inr q by (cases "enter_symbols (map snd xs) w2") auto
  qed
qed simp

text \<open>A module whose header and symbols are known.\<close>

definition load_module :: "modstruct \<Rightarrow> (byte list \<times> u32 \<times> u32) list \<Rightarrow> 'a link_scheme \<Rightarrow> stop + 'a link_scheme" where
  "load_module md xs s =
     bindE (enter_names xs (s\<lparr>mods := mods s @ [md]\<rparr>)) (\<lambda>(ptrs, u).
       Inr (upd_mod (modlast u) (\<lambda>m. m\<lparr>symparray := ptrs\<rparr>) u))"

section \<open>The sizes of the segments\<close>

primrec declared_sizes :: "nat list \<Rightarrow> byte list \<Rightarrow> byte list \<Rightarrow> u32 list" where
  "declared_sizes [] sizedesc sizeptr = []"
| "declared_sizes (seg # segs) sizedesc sizeptr =
     cnu2 target sizeptr (segsizecount seg sizedesc) # declared_sizes segs sizedesc (drop (segsizecount seg sizedesc) sizeptr)"

definition size_field_bytes :: "lc_s \<Rightarrow> byte list" where
  "size_field_bytes l = (if lc_lc l \<noteq> 0 then word_bytes (ucast (lc_lc l)) else [])"

lemma size_bytes_nth:
  assumes "length lcs = n" shows "size_bytes lcs = concat (map (\<lambda>seg. size_field_bytes (lcs ! seg)) [0..<n])"
proof -
  have "size_bytes lcs = concat (map size_field_bytes lcs)"
    by (simp add: size_bytes_def size_field_bytes_def [abs_def])
  also have "map size_field_bytes lcs = map (\<lambda>seg. size_field_bytes (lcs ! seg)) [0..<n]"
    using assms by (simp add: list_eq_iff_nth_eq)
  finally show ?thesis .
qed

lemma read_segsizes_fields:
  assumes "in_rest w = concat (map f segs) @ rest" and "\<forall>seg\<in>set segs. length (f seg) = segsizecount seg d"
  shows "\<exists>t. read_segsizes segs d w = Inr (concat (map f segs), t) \<and> in_rest t = rest \<and> same_but_input w t"
  using assms
proof (induction segs arbitrary: w)
  case (Cons seg segs)
  obtain w1 where 1: "readin (segsizecount seg d) w = Inr (f seg, w1)" "in_rest w1 = concat (map f segs) @ rest"
      "same_but_input w w1"
    using readin_bytes [of w "f seg" "concat (map f segs) @ rest" "segsizecount seg d"] Cons.prems by auto
  obtain t where "read_segsizes segs d w1 = Inr (concat (map f segs), t)" "in_rest t = rest" "same_but_input w1 t"
    using Cons.IH [OF 1(2)] Cons.prems(2) by auto
  with 1 show ?case by (auto intro: same_but_input_trans)
qed simp

lemma declared_sizes_fields:
  assumes "\<forall>seg\<in>set segs. segsizecount seg d = (if lc_lc (lcs ! seg) \<noteq> 0 then 2 else 0)"
  shows "declared_sizes segs d (concat (map (\<lambda>seg. size_field_bytes (lcs ! seg)) segs)) =
    map (\<lambda>seg. take_bit 16 (ucast (lc_lc (lcs ! seg)))) segs"
  using assms
proof (induction segs)
  case (Cons seg segs)
  have "cnu2 target (word_bytes v @ bs) 2 = take_bit 16 v" for v bs
    using word_codec.dec_take_enc [of v] by (simp add: cnu2_def u2c2_target c2u2_target)
  moreover have "cnu2 target bs 0 = 0" for bs by (simp add: cnu2_def)
  ultimately show ?case using Cons by (simp add: size_field_bytes_def)
qed simp


section \<open>The header as the linker reads it\<close>

text \<open>The symbols of a module with the values and flags the header has for them.\<close>

definition exported :: "'a gen_scheme \<Rightarrow> (byte list \<times> u32 \<times> u32) list" where
  "exported s =
     map (\<lambda>r. let y = syms s ! r in (symbol_name s y, take_bit (8 * value_size y) (ucast (sy_value y)), symbol_word y))
       (object_symbols s)"

definition header_module :: "byte list \<Rightarrow> byte list option \<Rightarrow> byte list \<Rightarrow> 'a gen_scheme \<Rightarrow> nat \<Rightarrow> modstruct" where
  "header_module fname aentry name s offset =
     \<lparr>filename = fname, archentry = aentry, modname = name, textoffset = of_nat offset, mclass = 0,
      loadflag = False, segmaxsize = seg_max_sizes, segsizedesc = descriptor_bytes (rev (lctab s)) 0 0x80, symparray = [],
      segaddr = (\<lambda>_. 0), comaddr = (\<lambda>_. 0), comsize = (\<lambda>_. 0), segfadj = (\<lambda>_. 0), segpad = (\<lambda>_. 0),
      segfill = (\<lambda>_. 0), segnoload = (\<lambda>_. False), segsize = size_bytes (lctab s)\<rparr>"

lemma read_fixed:
  assumes w: "in_rest w = fixed_bytes name s rs @ rest" and l: "length (lctab s) = NSEG"
    and n: "header_offset name s rs = of_nat n" "n < 2 ^ 32"
  shows "\<exists>t. reedmodheader w = Inr (t\<lparr>mods := mods t @ [header_module [] None [] s n]\<rparr>) \<and> in_rest t = rest \<and> same_but_input w t"
proof -
  let ?d = "descriptor_bytes (rev (lctab s)) 0 0x80"
  define mh where "mh = long_bytes (ucast (header_offset name s rs)) @ long_bytes (ucast (text_length (lctab s))) @
     word_bytes (strings_size name s rs) @ [0, 0]"
  obtain w1 where 1: "readin 12 w = Inr (mh, w1)" "in_rest w1 = seg_max_sizes @ ?d @ size_bytes (lctab s) @ rest"
      "same_but_input w w1"
    using readin_bytes [of w mh "seg_max_sizes @ ?d @ size_bytes (lctab s) @ rest" 12] w by (auto simp: fixed_bytes_def mh_def)
  obtain w2 where 2: "readin 4 w1 = Inr (seg_max_sizes, w2)" "in_rest w2 = ?d @ size_bytes (lctab s) @ rest"
      "same_but_input w1 w2"
    using readin_bytes [OF 1(2), of 4] by (auto simp: seg_max_sizes_def)
  obtain w3 where 3: "readin 4 w2 = Inr (?d, w3)" "in_rest w3 = size_bytes (lctab s) @ rest" "same_but_input w2 w3"
    using readin_bytes [OF 2(2) segment_descriptors(1) [OF l]] by auto
  have "\<forall>seg\<in>set [0..<NSEG]. length (size_field_bytes (lctab s ! seg)) = segsizecount seg ?d"
    using segment_descriptors(2) [OF l] by (simp add: size_field_bytes_def)
  from read_segsizes_fields [OF 3(2) [unfolded size_bytes_nth [OF l]] this]
  obtain w4 where 4: "read_segsizes [0..<NSEG] ?d w3 = Inr (size_bytes (lctab s), w4)" "in_rest w4 = rest" "same_but_input w3 w4"
    by (auto simp: size_bytes_nth [OF l])
  have "c4u4 target (take 4 mh) = take_bit 32 (ucast (header_offset name s rs))"
    unfolding mh_def by (rule long_codec.dec_take_enc)
  also have "\<dots> = of_nat n"
    using n by (simp add: unsigned_of_nat take_bit_of_nat take_bit_nat_eq_self)
  finally have off: "c4u4 target (take 4 mh) = of_nat n" .
  have cls: "mh ! 10 = 0" by (simp add: mh_def nth_append)
  have "same_but_input w w4" using 1(3) 2(3) 3(3) 4(3) same_but_input_trans by blast
  then show ?thesis
    using 1(1) 2(1) 3(1) 4(1,2) off cls by (auto simp del: readin.simps simp: reedmodheader_def header_module_def)
qed

lemma obj_modname_chars: "set (obj_modname fname) \<subseteq> set fname"
proof -
  have "set (before_last c bs) \<subseteq> set bs" for c bs
    by (auto simp: before_last_def dest!: list.set_sel(2) [rotated] set_dropWhileD)
  moreover have "set (after_last c bs) \<subseteq> set bs" for c bs by (auto simp: after_last_def dest: set_takeWhileD)
  ultimately show ?thesis unfolding obj_modname_def by blast
qed

lemma symbol_name_nonzero:
  assumes "0 \<notin> set (sy_name y)" shows "0 \<notin> set (symbol_name s y)"
proof -
  have "unat (sy_data y AND SEGM) \<le> 15" using word_and_le1 [of "sy_data y" SEGM] by (simp add: word_le_nat_alt)
  then have "unat (sy_data y AND SEGM) < length hexdigit" by (simp add: hexdigit_def)
  moreover have "0 \<notin> set hexdigit" by (simp add: hexdigit_def)
  ultimately have "hexdigit ! unat (sy_data y AND SEGM) \<noteq> 0" by (metis nth_mem)
  moreover have "in_textseg s y \<Longrightarrow> nat (textseg s) = unat (sy_data y AND SEGM)"
    by (metis in_textseg_def nat_int)
  ultimately show ?thesis
    using assms by (auto simp: symbol_name_def obj_name_def dest: in_set_takeD)
qed


lemma header_offset_length:
  assumes "names_ok (map (\<lambda>r. syms s ! r) rs)" and "length (lctab s) = NSEG"
  shows "header_offset name s rs = of_nat (length (header_bytes name s rs))"
  using segment_descriptors(1) [OF assms(2)]
  by (simp add: header_offset_def header_bytes_def fixed_bytes_def module_header_def seg_max_sizes_def
      sizes_size_length strings_size_length [OF assms(1)] symbols_size_length [of s rs "of_nat (length name) + 1"])

lemma readmodule_header:
  assumes w: "in_rest w = fixed_bytes name s (object_symbols s) @ word_bytes (of_nat (length (object_symbols s))) @
      symbol_bytes s (map (\<lambda>r. syms s ! r) (object_symbols s)) (of_nat (length name) + 1) @ name @ 0 #
      name_bytes s (map (\<lambda>r. syms s ! r) (object_symbols s)) @ rest"
    and l: "length (lctab s) = NSEG" and n: "header_offset name s (object_symbols s) = of_nat n" "n < 2 ^ 32"
    and k: "length (object_symbols s) < 2 ^ 16" and nz: "0 \<notin> set name"
    and nn: "names_ok (map (\<lambda>r. syms s ! r) (object_symbols s))"
  shows "map_sum id (moved z) (readmodule fname aentry w) =
      load_module (header_module fname aentry name s n) (exported s) (moved z w) \<and>
    (\<forall>u. readmodule fname aentry w = Inr u \<longrightarrow> in_rest u = rest)"
proof -
  define rs ys where "rs = object_symbols s" and "ys = map (\<lambda>r. syms s ! r) rs"
  note w = w [folded rs_def, folded ys_def]
  obtain w1 where 1: "reedmodheader w = Inr (w1\<lparr>mods := mods w1 @ [header_module [] None [] s n]\<rparr>)" "same_but_input w w1"
    "in_rest w1 = word_bytes (of_nat (length rs)) @ symbol_bytes s ys (of_nat (length name) + 1) @ name @ 0 # name_bytes s ys @ rest"
    using read_fixed [OF w l n [folded rs_def]] by auto
  define v1 where "v1 = w1\<lparr>mods := mods w1 @ [header_module [] None [] s n]\<rparr>"
  have "in_rest v1 = in_rest w1" by (simp add: v1_def in_rest_def)
  moreover have "take_bit 16 (of_nat (length rs) :: u32) = of_nat (length rs)"
    using k by (simp add: rs_def take_bit_of_nat take_bit_nat_eq_self)
  ultimately obtain w2 where 2: "readsize 2 v1 = Inr (of_nat (length rs), w2)" "same_but_input v1 w2"
    "in_rest w2 = symbol_bytes s ys (of_nat (length name) + 1) @ name @ 0 # name_bytes s ys @ rest"
    using readsize_word [of v1 "of_nat (length rs)"] 1(3) by auto
  obtain w3 where 3: "read_descriptors (length ys) w2 =
      Inr (map (\<lambda>y. (take_bit (8 * value_size y) (ucast (sy_value y)), symbol_word y)) ys, w3)" "same_but_input w2 w3"
    "in_rest w3 = name @ 0 # name_bytes s ys @ rest"
    using read_descriptors_symbols [OF 2(3)] by auto
  obtain w4 where 4: "readstring w3 = Inr (name, w4)" "same_but_input w3 w4" "in_rest w4 = name_bytes s ys @ rest"
    using readstring_rest [OF 3(3) nz] by auto
  have len: "unat (of_nat (length rs) :: u32) = length ys" using k by (simp add: ys_def rs_def unat_of_nat)
  define v4 where "v4 = upd_mod (modlast w4) (\<lambda>m. m\<lparr>filename := fname, archentry := aentry, modname := name\<rparr>) w4"
  have x: "map snd (exported s) = map (\<lambda>y. (take_bit (8 * value_size y) (ucast (sy_value y)), symbol_word y)) ys"
    "name_bytes s ys = concat (map (\<lambda>x. fst x @ [0]) (exported s))"
    by (simp_all add: exported_def ys_def rs_def Let_def name_bytes_def o_def)
  have nz': "\<forall>x\<in>set (exported s). 0 \<notin> set (fst x)"
    using nn symbol_name_nonzero by (auto simp: exported_def Let_def names_ok_def)
  have r4: "in_rest v4 = concat (map (\<lambda>x. fst x @ [0]) (exported s)) @ rest"
    using 4(3) x(2) by (simp add: v4_def upd_mod_def in_rest_def)
  have same: "same_but_input v1 w4" using 2(2) 3(2) 4(2) same_but_input_trans by blast
  have "moved z w4 = (moved z w)\<lparr>mods := mods w @ [header_module [] None [] s n]\<rparr>"
  proof -
    have "moved z w4 = moved z v1" using moved_same [OF same] by simp
    also have "\<dots> = (moved z w1)\<lparr>mods := mods w1 @ [header_module [] None [] s n]\<rparr>" by (simp add: v1_def moved_def)
    also have "moved z w1 = moved z w" using moved_same [OF 1(2)] by simp
    also have "mods w1 = mods w" by (rule same_but_input_link(3) [OF 1(2)])
    finally show ?thesis .
  qed
  moreover have "mods w4 = mods w @ [header_module [] None [] s n]"
    using same_but_input_link(3) [OF same] same_but_input_link(3) [OF 1(2)] by (simp add: v1_def)
  then have "v4 = w4\<lparr>mods := mods w @ [header_module fname aentry name s n]\<rparr>"
    by (simp add: v4_def upd_mod_def header_module_def)
  then have "moved z v4 = (moved z w4)\<lparr>mods := mods w @ [header_module fname aentry name s n]\<rparr>"
    by (simp add: moved_def)
  ultimately have v4: "moved z v4 = (moved z w)\<lparr>mods := mods (moved z w) @ [header_module fname aentry name s n]\<rparr>"
    by simp
  have e: "readmodule fname aentry w = bindE (enter_symbols (map snd (exported s)) v4)
      (\<lambda>(ptrs, s5). Inr (upd_mod (modlast s5) (\<lambda>m. m\<lparr>symparray := ptrs\<rparr>) s5))"
    using 1(1) 2(1) 3(1) 4(1) by (simp add: readmodule_def v1_def [symmetric] len v4_def x(1) del: read_descriptors.simps)
  have ld: "load_module (header_module fname aentry name s n) (exported s) (moved z w) =
      bindE (enter_names (exported s) (moved z v4)) (\<lambda>(ptrs, u).
        Inr (upd_mod (modlast u) (\<lambda>m. m\<lparr>symparray := ptrs\<rparr>) u))"
    by (simp only: load_module_def v4)
  have h: "enter_names (exported s) (moved z v4) = map_sum id (map_prod id (moved z)) (enter_symbols (map snd (exported s)) v4)"
    "\<And>rs t. enter_symbols (map snd (exported s)) v4 = Inr (rs, t) \<Longrightarrow> in_rest t = rest"
    using enter_symbols_names [OF r4 nz', of z] by simp_all
  show ?thesis
  proof (cases "enter_symbols (map snd (exported s)) v4")
    case (Inl y)
    then show ?thesis by (simp add: e ld h)
  next
    case (Inr q)
    obtain ptrs u where q: "q = (ptrs, u)" by (cases q)
    then have "enter_names (exported s) (moved z v4) = Inr (ptrs, moved z u)" "in_rest u = rest" using h Inr by auto
    then show ?thesis
      by (simp add: e Inr q ld moved_tables) (simp add: upd_mod_def in_rest_def)
  qed
qed



text \<open>An exported label in segment 3 and an imported one.\<close>

definition header_sample :: gen where
  "header_sample =
     gen_start\<lparr>
       syms := [\<lparr>sy_type = 0x84, sy_data = 0x13, sy_value = 0x102, sy_length = 4, sy_name = bytes_of ''main''\<rparr>,
                \<lparr>sy_type = 0, sy_data = 0x5F, sy_value = 0, sy_length = 4, sy_name = bytes_of ''puts''\<rparr>],
       spt := (\<lambda>h. if h = 7 then [1, 0] else []),
       lctab := (replicate 16 \<lparr>lc_data = RELBIT, lc_lc = 0\<rparr>)[3 := \<lparr>lc_data = RELBIT, lc_lc = 0x10A\<rparr>]\<rparr>"

lemma one_chain: "concat (map (\<lambda>h. if h = k then rs else []) [0..<n]) = (if k < n then rs else [])"
  by (induction n) (auto simp: less_Suc_eq)

lemma object_symbols_sample: "object_symbols header_sample = [1, 0]"
  unfolding object_symbols_def header_sample_def gen.simps
  by (simp add: one_chain in_object_def)


end
