(* ===== verification/Script_Parse.thy ===== *)
theory Script_Parse
  imports Script
begin

text \<open>
  The parser of the script language, \<^verbatim>\<open>ld/script.c\<close>.  It works on the characters
  of the text: the static variable \<^verbatim>\<open>p\<close> is the text from there to its terminating
  null byte, and goes with the line number as a pair, \<open>src\<close>.  The recursive
  routines carry fuel; \<open>Script_Parse_Props\<close> shows that what they are given is enough.
\<close>

section \<open>Characters\<close>

type_synonym src = "byte list \<times> nat"

definition c_isdigit :: "byte \<Rightarrow> bool" where
  "c_isdigit c \<longleftrightarrow> 48 \<le> c \<and> c \<le> 57"

definition c_isalpha :: "byte \<Rightarrow> bool" where
  "c_isalpha c \<longleftrightarrow> 65 \<le> c \<and> c \<le> 90 \<or> 97 \<le> c \<and> c \<le> 122"

definition identchar :: "byte \<Rightarrow> bool" where
  "identchar c \<longleftrightarrow> c_isalpha c \<or> c_isdigit c \<or> c = 95 \<or> c = 46 \<or> c = 36"

text \<open>The character at the front, the terminating null byte at the end of the text.\<close>

definition ch :: "byte list \<Rightarrow> byte" where
  "ch t = (case t of [] \<Rightarrow> 0 | c # _ \<Rightarrow> c)"

text \<open>The text of a comment up to its end mark.\<close>

fun skip_comment :: "byte list \<Rightarrow> nat \<Rightarrow> src option" where
  "skip_comment [] l = None"
| "skip_comment (c # t) l =
     (if c = 42 \<and> ch t = 47 then Some (tl t, l)
      else skip_comment t (if c = 10 then l + 1 else l))"

lemma skip_comment_shorter: "skip_comment t l = Some (t', l') \<Longrightarrow> length t' \<le> length t"
  by (induction t l rule: skip_comment.induct) (fastforce split: if_splits)+

function skipspace :: "byte list \<Rightarrow> nat \<Rightarrow> stop + src" where
  "skipspace t l =
     (if c_isspace (ch t) then skipspace (tl t) (if ch t = 10 then l + 1 else l)
      else if ch t = 47 \<and> ch (tl t) = 42 then
        (case skip_comment (drop 2 t) l of
           None \<Rightarrow> Inl (Fatal ''unterminated comment'')
         | Some (t', l') \<Rightarrow> skipspace t' l')
      else if ch t = 35 then skipspace (dropWhile (\<lambda>c. c \<noteq> 10) t) l
      else Inr (t, l))"
  by pat_completeness auto
termination
proof (relation "measure (\<lambda>(t, l). length t)")
  show "((dropWhile (\<lambda>c. c \<noteq> 10) t, l), t, l) \<in> measure (\<lambda>(t, l). length t)" if "ch t = 35" for t :: "byte list" and l :: nat
    using that length_dropWhile_le [of "\<lambda>c. c \<noteq> 10" "tl t"] by (cases t) (auto simp: ch_def less_Suc_eq_le)
  show "((t', l'), t, l) \<in> measure (\<lambda>(t, l). length t)"
    if "ch t = 47 \<and> ch (tl t) = 42" "skip_comment (drop 2 t) l = Some p" "(t', l') = p" for t t' :: "byte list" and l l' :: nat and p
    using that skip_comment_shorter [of "drop 2 t" l t' l'] by (cases t) (auto simp: ch_def)
qed (auto simp: ch_def c_isspace_def split: list.splits)

declare skipspace.simps [simp del]

text \<open>
  Punctuation or a keyword: whether it comes next, and then the text after it.
  A keyword is not the beginning of a longer name.
\<close>

definition accept :: "string \<Rightarrow> src \<Rightarrow> stop + bool \<times> src" where
  "accept w s =
     (case s of (t, l) \<Rightarrow>
      bindE (skipspace t l) (\<lambda>(t1, l1).
        let n = length w in
        if take n t1 \<noteq> bytes_of w \<or> c_isalpha (ch (bytes_of w)) \<and> identchar (ch (drop n t1)) then Inr (False, t1, l1)
        else Inr (True, drop n t1, l1)))"

definition expect :: "string \<Rightarrow> src \<Rightarrow> stop + src" where
  "expect w s =
     bindE (accept w s) (\<lambda>(ok, s1). if ok then Inr s1 else Inl (Fatal (''expected '' @ w)))"

definition name :: "src \<Rightarrow> stop + byte list \<times> src" where
  "name s =
     (case s of (t, l) \<Rightarrow>
      bindE (skipspace t l) (\<lambda>(t1, l1).
        if \<not> (c_isalpha (ch t1) \<or> ch t1 = 95 \<or> ch t1 = 46) then Inl (Fatal ''expected a name'')
        else Inr (takeWhile identchar t1, dropWhile identchar t1, l1)))"

definition patchar :: "byte \<Rightarrow> bool" where
  "patchar c \<longleftrightarrow> c \<noteq> 0 \<and> \<not> c_isspace c \<and> c \<notin> set (bytes_of ''(){};=,'')"

definition pattern :: "src \<Rightarrow> stop + byte list \<times> src" where
  "pattern s =
     (case s of (t, l) \<Rightarrow>
      bindE (skipspace t l) (\<lambda>(t1, l1).
        if takeWhile patchar t1 = [] then Inl (Fatal ''expected a pattern'')
        else Inr (takeWhile patchar t1, dropWhile patchar t1, l1)))"

definition strchar :: "byte \<Rightarrow> bool" where
  "strchar c \<longleftrightarrow> c \<noteq> 0 \<and> c \<noteq> 34 \<and> c \<noteq> 10"

definition quoted :: "src \<Rightarrow> stop + byte list \<times> src" where
  "quoted s =
     (case s of (t, l) \<Rightarrow>
      bindE (skipspace t l) (\<lambda>(t1, l1).
        if ch t1 \<noteq> 34 then Inl (Fatal ''expected a string in double quotes'')
        else if ch (dropWhile strchar (tl t1)) \<noteq> 34 then Inl (Fatal ''unterminated string'')
        else Inr (takeWhile strchar (tl t1), tl (dropWhile strchar (tl t1)), l1)))"

section \<open>Numbers\<close>

text \<open>
  \<^verbatim>\<open>strtoul\<close> with the text after the number, or \<open>None\<close> where there is none:
  white space, a sign, the prefix of the base, digits.
\<close>

definition is_hex_prefix :: "byte list \<Rightarrow> bool" where
  "is_hex_prefix t \<longleftrightarrow> ch t = 48 \<and> (ch (tl t) = 120 \<or> ch (tl t) = 88) \<and> digit_value (ch (drop 2 t)) < 16"

definition is_digit_in :: "nat \<Rightarrow> byte \<Rightarrow> bool" where
  "is_digit_in base c \<longleftrightarrow> digit_value c < base"

definition digits_int :: "nat \<Rightarrow> byte list \<Rightarrow> int" where
  "digits_int base ds = fold (\<lambda>c n. n * int base + int (digit_value c)) ds 0"

definition strtoul :: "nat \<Rightarrow> byte list \<Rightarrow> (bool \<times> int \<times> byte list) option" where
  "strtoul base t =
     (let t1 = dropWhile c_isspace t;
          neg = (ch t1 = 45);
          t2 = (if ch t1 = 45 \<or> ch t1 = 43 then tl t1 else t1);
          hex = ((base = 0 \<or> base = 16) \<and> is_hex_prefix t2);
          b = (if base \<noteq> 0 then base else if hex then 16 else if ch t2 = 48 then 8 else 10);
          t3 = (if hex then drop 2 t2 else t2);
          ds = takeWhile (is_digit_in b) t3
      in if ds = [] then None else Some (neg, digits_int b ds, dropWhile (is_digit_in b) t3))"

text \<open>The result as a \<^verbatim>\<open>long\<close>; a value of 2 to the 64 or more is the error \<^verbatim>\<open>ERANGE\<close>.\<close>

definition number_value :: "bool \<Rightarrow> int \<Rightarrow> int" where
  "number_value neg n = sint (of_int (if neg then - n else n) :: u64)"

definition number_expr :: "src \<Rightarrow> stop + sexpr \<times> src" where
  "number_expr s =
     (case s of (t, l) \<Rightarrow>
        let dollar = (ch t = 36) in
        case strtoul (if dollar then 16 else 0) (if dollar then tl t else t) of
          None \<Rightarrow> Inl (Fatal ''bad number'')
        | Some (neg, n, t1) \<Rightarrow>
            if 2 ^ 64 \<le> n then Inl (Fatal ''bad number'')
            else
              bindE (if ch t1 = 75 \<or> ch t1 = 107 then bindE (long (number_value neg n * 1024)) (\<lambda>v. Inr (v, tl t1))
                     else Inr (number_value neg n, t1)) (\<lambda>(v, t2).
              if identchar (ch t2) then Inl (Fatal ''bad number'')
              else Inr (X_NUM l v, t2, l)))"

section \<open>Operators\<close>

text \<open>The binary operators with their levels, in the order of the table.\<close>

definition binops :: "(string \<times> binop \<times> nat) list" where
  "binops =
     [(''||'', X_LOR, 1), (''&&'', X_LAND, 2), (''|'', X_OR, 3), (''^'', X_XOR, 4), (''&'', X_AND, 5),
      (''=='', X_EQ, 6), (''!='', X_NE, 6), (''<='', X_LE, 7), (''>='', X_GE, 7),
      (''<<'', X_SHL, 8), (''>>'', X_SHR, 8), (''<'', X_LT, 7), (''>'', X_GT, 7),
      (''+'', X_ADD, 9), (''-'', X_SUB, 9), (''*'', X_MUL, 10), (''/'', X_DIV, 10), (''%'', X_MOD, 10)]"

text \<open>A single character that is the beginning of a longer operator is not taken.\<close>

definition takes_op :: "nat \<Rightarrow> byte list \<Rightarrow> string \<times> binop \<times> nat \<Rightarrow> bool" where
  "takes_op level t r =
     (case r of (w, q, lev) \<Rightarrow>
        lev = level \<and> take (length w) t = bytes_of w \<and>
        \<not> (length w = 1 \<and> (ch (tl t) = ch t \<or> ch (tl t) = 61) \<and> ch t \<in> set (bytes_of ''|&<>'')) \<and>
        \<not> (length w = 1 \<and> ch t = 33))"

definition find_op :: "nat \<Rightarrow> byte list \<Rightarrow> (string \<times> binop \<times> nat) option" where
  "find_op level t = List.find (takes_op level t) binops"

section \<open>Expressions\<close>

definition unary_op :: "src \<Rightarrow> stop + unop option option \<times> src" where
  "unary_op s =
     bindE (accept ''-'' s) (\<lambda>(ok, s). if ok then Inr (Some (Some X_NEG), s) else
     bindE (accept ''~'' s) (\<lambda>(ok, s). if ok then Inr (Some (Some X_COMPL), s) else
     bindE (accept ''!'' s) (\<lambda>(ok, s). if ok then Inr (Some (Some X_NOT), s) else
     bindE (accept ''+'' s) (\<lambda>(ok, s). if ok then Inr (Some None, s) else Inr (None, s)))))"

definition fname_in :: "string list \<Rightarrow> byte list \<Rightarrow> bool" where
  "fname_in ws n \<longleftrightarrow> n \<in> set (map bytes_of ws)"

text \<open>
  The argument of \<^verbatim>\<open>ADDR\<close> and the like: the node has the line before the name.
\<close>

definition name_arg :: "src \<Rightarrow> stop + sexpr \<times> src" where
  "name_arg s = bindE (name s) (\<lambda>(n, s1). Inr (X_SYM (snd s) n, s1))"

text \<open>
  The routines call each other through a parser for the routine that is asked
  for.
\<close>

datatype routine = EXPRESSION | BINARY nat | BINARY_LOOP nat sexpr | UNARY | PRIMARY | FUNCTION nat "byte list"

type_synonym parser = "routine \<Rightarrow> src \<Rightarrow> stop + sexpr \<times> src"

definition expression_step :: "parser \<Rightarrow> src \<Rightarrow> stop + sexpr \<times> src" where
  "expression_step run s =
     bindE (run (BINARY 1) s) (\<lambda>(e, s1).
     bindE (accept ''?'' s1) (\<lambda>(ok, s2).
       if \<not> ok then Inr (e, s2)
       else
         bindE (run EXPRESSION s2) (\<lambda>(b, s3).
         bindE (expect '':'' s3) (\<lambda>s4.
         bindE (run EXPRESSION s4) (\<lambda>(c, s5). Inr (X_COND (snd s2) e b c, s5))))))"

definition binary_step :: "parser \<Rightarrow> nat \<Rightarrow> src \<Rightarrow> stop + sexpr \<times> src" where
  "binary_step run level s =
     (if 10 < level then run UNARY s
      else bindE (run (BINARY (level + 1)) s) (\<lambda>(e, s1). run (BINARY_LOOP level e) s1))"

definition binary_loop_step :: "parser \<Rightarrow> nat \<Rightarrow> sexpr \<Rightarrow> src \<Rightarrow> stop + sexpr \<times> src" where
  "binary_loop_step run level e s =
     bindE (skipspace (fst s) (snd s)) (\<lambda>s1.
       case find_op level (fst s1) of
         None \<Rightarrow> Inr (e, s1)
       | Some (w, q, _) \<Rightarrow>
           bindE (run (BINARY (level + 1)) (drop (length w) (fst s1), snd s1)) (\<lambda>(b, s2).
             run (BINARY_LOOP level (X_BIN (snd s1) q e b)) s2))"

definition unary_step :: "parser \<Rightarrow> src \<Rightarrow> stop + sexpr \<times> src" where
  "unary_step run s =
     bindE (unary_op s) (\<lambda>(q, s1).
       case q of
         None \<Rightarrow> run PRIMARY s1
       | Some None \<Rightarrow> run UNARY s1
       | Some (Some u) \<Rightarrow> bindE (run UNARY s1) (\<lambda>(a, s2). Inr (X_UN (snd s1) u a, s2)))"

text \<open>A symbol, or the call of a function.\<close>

definition named_step :: "parser \<Rightarrow> src \<Rightarrow> stop + sexpr \<times> src" where
  "named_step run s =
     bindE (name s) (\<lambda>(nm, s1).
     bindE (accept ''('' s1) (\<lambda>(ok, s2).
       if \<not> ok then Inr (X_SYM (snd s) nm, s2)
       else bindE (run (FUNCTION (snd s) nm) s2) (\<lambda>(e, s3). bindE (expect '')'' s3) (\<lambda>s4. Inr (e, s4)))))"

definition primary_step :: "parser \<Rightarrow> src \<Rightarrow> stop + sexpr \<times> src" where
  "primary_step run s =
     bindE (skipspace (fst s) (snd s)) (\<lambda>s1.
       if c_isdigit (ch (fst s1)) \<or> ch (fst s1) = 36 then number_expr s1
       else
         bindE (accept ''('' s1) (\<lambda>(ok, s2).
           if ok then bindE (run EXPRESSION s2) (\<lambda>(e, s3). bindE (expect '')'' s3) (\<lambda>s4. Inr (e, s4)))
           else if ch (fst s2) = 46 \<and> \<not> identchar (ch (tl (fst s2))) then Inr (X_DOT (snd s2), tl (fst s2), snd s2)
           else named_step run s2))"

definition function_step :: "parser \<Rightarrow> nat \<Rightarrow> byte list \<Rightarrow> src \<Rightarrow> stop + sexpr \<times> src" where
  "function_step run l nm s =
     (if fname_in [''ADDR'', ''LOADADDR'', ''SIZEOF'', ''DEFINED''] nm then
        bindE (name_arg s) (\<lambda>(a, s1). Inr (X_FUNC l nm a None, s1))
      else if fname_in [''ALIGN''] nm then
        bindE (run EXPRESSION s) (\<lambda>(a, s1).
        bindE (accept '','' s1) (\<lambda>(ok, s2).
          if ok then bindE (run EXPRESSION s2) (\<lambda>(b, s3). Inr (X_FUNC l nm a (Some b), s3))
          else Inr (X_FUNC l nm a None, s2)))
      else if fname_in [''MAX'', ''MIN''] nm then
        bindE (run EXPRESSION s) (\<lambda>(a, s1).
        bindE (expect '','' s1) (\<lambda>s2.
        bindE (run EXPRESSION s2) (\<lambda>(b, s3). Inr (X_FUNC l nm a (Some b), s3))))
      else if fname_in [''ORIGIN'', ''LENGTH''] nm then
        bindE (name_arg s) (\<lambda>(a, s1). Inr (X_FUNC l nm a None, s1))
      else Inl (Fatal ''unknown function''))"

primrec parse_expr :: "nat \<Rightarrow> parser" where
  "parse_expr 0 = (\<lambda>r s. Inl NoFuel)"
| "parse_expr (Suc n) =
     (\<lambda>r s. case r of
        EXPRESSION \<Rightarrow> expression_step (parse_expr n) s
      | BINARY level \<Rightarrow> binary_step (parse_expr n) level s
      | BINARY_LOOP level e \<Rightarrow> binary_loop_step (parse_expr n) level e s
      | UNARY \<Rightarrow> unary_step (parse_expr n) s
      | PRIMARY \<Rightarrow> primary_step (parse_expr n) s
      | FUNCTION l nm \<Rightarrow> function_step (parse_expr n) l nm s)"

text \<open>Fuel for the text left, twenty levels of calls for each of its characters.\<close>

definition expression :: "src \<Rightarrow> stop + sexpr \<times> src" where
  "expression s = parse_expr (20 * length (fst s) + 20) EXPRESSION s"

section \<open>Statements\<close>

text \<open>The state of the parser: the script so far and the text left.\<close>

record parse = script +
  ptext :: "byte list"

definition lexed :: "(src \<Rightarrow> stop + 'b \<times> src) \<Rightarrow> 'a parse_scheme \<Rightarrow> stop + 'b \<times> 'a parse_scheme" where
  "lexed f s =
     bindE (f (ptext s, sc_line s)) (\<lambda>(x, s1). Inr (x, s\<lparr>ptext := fst s1, sc_line := snd s1\<rparr>))"

definition expects :: "string \<Rightarrow> 'a parse_scheme \<Rightarrow> stop + 'a parse_scheme" where
  "expects w s = bindE (expect w (ptext s, sc_line s)) (\<lambda>s1. Inr (s\<lparr>ptext := fst s1, sc_line := snd s1\<rparr>))"

definition skips :: "'a parse_scheme \<Rightarrow> stop + 'a parse_scheme" where
  "skips s = bindE (skipspace (ptext s) (sc_line s)) (\<lambda>s1. Inr (s\<lparr>ptext := fst s1, sc_line := snd s1\<rparr>))"

text \<open>A parenthesised part of a statement.\<close>

definition parens :: "(src \<Rightarrow> stop + 'b \<times> src) \<Rightarrow> 'a parse_scheme \<Rightarrow> stop + 'b \<times> 'a parse_scheme" where
  "parens f s =
     bindE (expects ''('' s) (\<lambda>s1.
     bindE (lexed f s1) (\<lambda>(x, s2).
     bindE (expects '')'' s2) (\<lambda>s3. Inr (x, s3))))"

definition mark_assign :: "akind \<Rightarrow> ssym \<Rightarrow> ssym" where
  "mark_assign k y =
     (case k of A_PLAIN \<Rightarrow> y\<lparr>plain := True\<rparr> | A_PROVIDE \<Rightarrow> y\<lparr>provide := True\<rparr> | A_HIDDEN \<Rightarrow> y\<lparr>hidden := True\<rparr>)"

text \<open>\<^verbatim>\<open>assignment\<close> from the target on; the line is that of the statement.\<close>

definition assign_target :: "nat \<Rightarrow> akind \<Rightarrow> byte list \<Rightarrow> 'a parse_scheme \<Rightarrow> stop + stmt \<times> 'a parse_scheme" where
  "assign_target l k tgt s =
     (if tgt = bytes_of ''.'' \<and> k \<noteq> A_PLAIN then Inl (Fatal ''can't use . in PROVIDE or HIDDEN'')
      else
        let (sy, s1) = (if tgt = bytes_of ''.'' then (None, s) else (case ssym tgt s of (r, t) \<Rightarrow> (Some r, t))) in
        bindE (expects ''='' s1) (\<lambda>s2.
        bindE (lexed expression s2) (\<lambda>(e, s3).
        bindE (if k = A_PLAIN then expects '';'' s3
               else bindE (expects '')'' s3) (\<lambda>s4. bindE (lexed (accept '';'') s4) (\<lambda>(ok, s5). Inr s5))) (\<lambda>s6.
          Inr (S_ASSIGN l k sy e, case sy of None \<Rightarrow> s6 | Some r \<Rightarrow> upd_ssym r (mark_assign k) s6)))))"

definition assignment :: "akind \<Rightarrow> byte list \<Rightarrow> 'a parse_scheme \<Rightarrow> stop + stmt \<times> 'a parse_scheme" where
  "assignment k tgt s =
     (if k = A_PLAIN then assign_target (sc_line s) k tgt s
      else
        bindE (expects ''('' s) (\<lambda>s1.
        bindE (lexed name s1) (\<lambda>(n, s2). assign_target (sc_line s) k n s2)))"

definition assertion :: "'a parse_scheme \<Rightarrow> stop + stmt \<times> 'a parse_scheme" where
  "assertion s =
     bindE (expects ''('' s) (\<lambda>s1.
     bindE (lexed expression s1) (\<lambda>(e, s2).
     bindE (expects '','' s2) (\<lambda>s3.
     bindE (lexed quoted s3) (\<lambda>(msg, s4).
     bindE (expects '')'' s4) (\<lambda>s5.
     bindE (lexed (accept '';'') s5) (\<lambda>(ok, s6). Inr (S_ASSERT (sc_line s) e msg, s6)))))))"

text \<open>The section patterns of an input statement, up to the parenthesis.\<close>

primrec patterns :: "nat \<Rightarrow> 'a parse_scheme \<Rightarrow> stop + byte list list \<times> 'a parse_scheme" where
  "patterns 0 s = Inl NoFuel"
| "patterns (Suc n) s =
     bindE (lexed (accept '')'') s) (\<lambda>(ok, s1).
       if ok then Inr ([], s1)
       else
         bindE (lexed pattern s1) (\<lambda>(pat, s2).
         bindE (patterns n s2) (\<lambda>(pats, s3). Inr (pat # pats, s3))))"

definition input_stmt :: "byte list \<Rightarrow> 'a parse_scheme \<Rightarrow> stop + stmt \<times> 'a parse_scheme" where
  "input_stmt word s =
     bindE (skips s) (\<lambda>s1.
       if ch (ptext s1) = 61 then assignment A_PLAIN word s1
       else if ch (ptext s1) \<noteq> 40 then Inl (Fatal ''expected an input pattern or an assignment'')
       else
         bindE (patterns (length (ptext s1)) (s1\<lparr>ptext := tl (ptext s1)\<rparr>)) (\<lambda>(pats, s2).
           if pats = [] then Inl (Fatal ''no input sections'')
           else Inr (S_INPUT (sc_line s1) False (Some word) pats [], s2)))"

text \<open>\<^verbatim>\<open>keep\<close> is a field of every statement, but means something for input only.\<close>

definition set_keep :: "stmt \<Rightarrow> stmt" where
  "set_keep x = (case x of S_INPUT l _ f pats ps \<Rightarrow> S_INPUT l True f pats ps | _ \<Rightarrow> x)"

text \<open>The keywords that start a statement of a section, tried in turn.\<close>

definition keyword :: "string list \<Rightarrow> 'a parse_scheme \<Rightarrow> stop + string option \<times> 'a parse_scheme" where
  "keyword ws s =
     fold (\<lambda>w m. bindE m (\<lambda>(r, t).
         if r \<noteq> None then Inr (r, t)
         else bindE (lexed (accept w) t) (\<lambda>(ok, t1). Inr (if ok then Some w else None, t1))))
       ws (Inr (None, s))"

definition statement_step ::
  "('a parse_scheme \<Rightarrow> stop + stmt list \<times> 'a parse_scheme) \<Rightarrow> 'a parse_scheme \<Rightarrow> stop + stmt \<times> 'a parse_scheme" where
  "statement_step stmts s =
     bindE (keyword [''PROVIDE'', ''HIDDEN'', ''ONEPAGE'', ''BYTE'', ''WORD'', ''FILL'', ''ASSERT'', ''KEEP''] s) (\<lambda>(kw, s1).
       let l = sc_line s1; tail = (\<lambda>x s2. bindE (lexed (accept '';'') s2) (\<lambda>(ok, s3). Inr (x, s3))) in
       if kw = Some ''PROVIDE'' then assignment A_PROVIDE [] s1
       else if kw = Some ''HIDDEN'' then assignment A_HIDDEN [] s1
       else if kw = Some ''ONEPAGE'' then
         bindE (expects ''{'' s1) (\<lambda>s2.
         bindE (stmts s2) (\<lambda>(body, s3).
         bindE (expects ''}'' s3) (\<lambda>s4. Inr (S_ONEPAGE l body, s4))))
       else if kw = Some ''BYTE'' \<or> kw = Some ''WORD'' then
         bindE (parens expression s1) (\<lambda>(e, s2). tail (S_DATA l (if kw = Some ''BYTE'' then 1 else 2) e) s2)
       else if kw = Some ''FILL'' then bindE (parens expression s1) (\<lambda>(e, s2). tail (S_FILL l e) s2)
       else if kw = Some ''ASSERT'' then assertion s1
       else if kw = Some ''KEEP'' then
         bindE (expects ''('' s1) (\<lambda>s2.
         bindE (lexed pattern s2) (\<lambda>(word, s3).
         bindE (input_stmt word s3) (\<lambda>(x, s4).
         bindE (expects '')'' s4) (\<lambda>s5. Inr (set_keep x, s5)))))
       else bindE (lexed pattern s1) (\<lambda>(word, s2). input_stmt word s2))"

primrec statements_f :: "nat \<Rightarrow> 'a parse_scheme \<Rightarrow> stop + stmt list \<times> 'a parse_scheme" where
  "statements_f 0 s = Inl NoFuel"
| "statements_f (Suc n) s =
     bindE (skips s) (\<lambda>s1.
       if ch (ptext s1) = 0 \<or> ch (ptext s1) = 125 then Inr ([], s1)
       else
         bindE (statement_step (statements_f n) s1) (\<lambda>(x, s2).
         bindE (statements_f n s2) (\<lambda>(xs, s3). Inr (x # xs, s3))))"

definition statements :: "'a parse_scheme \<Rightarrow> stop + stmt list \<times> 'a parse_scheme" where
  "statements s = statements_f (length (ptext s) + 1) s"


section \<open>Sections\<close>

text \<open>
  \<^verbatim>\<open>(NOLOAD)\<close>: where something else follows, the text is put back but not the
  line number.
\<close>

definition noload_mark :: "'a parse_scheme \<Rightarrow> stop + bool \<times> 'a parse_scheme" where
  "noload_mark s =
     bindE (lexed (accept ''('') s) (\<lambda>(a, s1).
     bindE (if a then lexed (accept ''NOLOAD'') s1 else Inr (False, s1)) (\<lambda>(b, s2).
     bindE (if b then lexed (accept '')'') s2 else Inr (False, s2)) (\<lambda>(c, s3).
       if c then Inr (True, s3) else Inr (False, s3\<lparr>ptext := ptext s\<rparr>))))"

definition new_sect :: "byte list \<Rightarrow> nat \<Rightarrow> osect" where
  "new_sect n l =
     \<lparr>os_name = n, os_line = l, os_addr = None, os_at = None, os_align = None, os_subalign = None, os_body = [],
      datapart = False, noload = False, os_region = None, lmaregion = None, fillexpr = None, os_sub = 0,
      vma = 0, lma = 0, os_size = 0, pvma = 0, plma = 0, psize = 0\<rparr>"

primrec section_attrs :: "nat \<Rightarrow> osect \<Rightarrow> 'a parse_scheme \<Rightarrow> stop + osect \<times> 'a parse_scheme" where
  "section_attrs 0 sect s = Inl NoFuel"
| "section_attrs (Suc n) sect s =
     bindE (keyword [''AT'', ''ALIGN'', ''SUBALIGN''] s) (\<lambda>(kw, s1).
       if kw = None then Inr (sect, s1)
       else
         bindE (parens expression s1) (\<lambda>(e, s2).
           section_attrs n
             (if kw = Some ''AT'' then sect\<lparr>os_at := Some e\<rparr>
              else if kw = Some ''ALIGN'' then sect\<lparr>os_align := Some e\<rparr>
              else sect\<lparr>os_subalign := Some e\<rparr>) s2))"

definition region_name :: "'a parse_scheme \<Rightarrow> stop + nat \<times> 'a parse_scheme" where
  "region_name s = bindE (lexed name s) (\<lambda>(n, s1). bindE (findregion n s1) (\<lambda>r. Inr (r, s1)))"

primrec section_places :: "nat \<Rightarrow> osect \<Rightarrow> 'a parse_scheme \<Rightarrow> stop + osect \<times> 'a parse_scheme" where
  "section_places 0 sect s = Inl NoFuel"
| "section_places (Suc n) sect s =
     bindE (keyword [''AT'', ''>'', ''=''] s) (\<lambda>(kw, s1).
       if kw = Some ''AT'' then
         bindE (expects ''>'' s1) (\<lambda>s2.
         bindE (region_name s2) (\<lambda>(r, s3). section_places n (sect\<lparr>lmaregion := Some r\<rparr>) s3))
       else if kw = Some ''>'' then
         bindE (region_name s1) (\<lambda>(r, s2). section_places n (sect\<lparr>os_region := Some r\<rparr>) s2)
       else if kw = Some ''='' then
         bindE (lexed expression s1) (\<lambda>(e, s2). section_places n (sect\<lparr>fillexpr := Some e\<rparr>) s2)
       else Inr (sect, s1))"

definition section_address :: "osect \<Rightarrow> 'a parse_scheme \<Rightarrow> stop + osect \<times> 'a parse_scheme" where
  "section_address sect s =
     bindE (noload_mark s) (\<lambda>(nl, s1).
       if nl then Inr (sect\<lparr>noload := True\<rparr>, s1)
       else if ch (ptext s1) \<noteq> 58 then
         bindE (lexed expression s1) (\<lambda>(e, s2).
         bindE (noload_mark s2) (\<lambda>(nl, s3). Inr (sect\<lparr>os_addr := Some e, noload := nl\<rparr>, s3)))
       else Inr (sect, s1))"

definition section_stmt :: "byte list \<Rightarrow> 'a parse_scheme \<Rightarrow> stop + stmt \<times> 'a parse_scheme" where
  "section_stmt sname s =
     (if findsect sname s \<noteq> None then Inl (Fatal ''section is defined more than once'')
      else
        bindE (skips s) (\<lambda>s1.
        bindE (section_address (new_sect sname (sc_line s)) s1) (\<lambda>(sect, s2).
        bindE (expects '':'' s2) (\<lambda>s3.
        bindE (section_attrs (length (ptext s3) + 1) sect s3) (\<lambda>(sect1, s4).
        bindE (expects ''{'' s4) (\<lambda>s5.
        bindE (statements s5) (\<lambda>(body, s6).
        bindE (expects ''}'' s6) (\<lambda>s7.
        bindE (section_places (length (ptext s7) + 1) (sect1\<lparr>os_body := body\<rparr>) s7) (\<lambda>(sect2, s8).
          Inr (S_SECTION (sc_line s) (length (sects s8)), s8\<lparr>sects := sects s8 @ [sect2]\<rparr>))))))))))"

definition addtop :: "stop + stmt \<times> 'a parse_scheme \<Rightarrow> stop + 'a parse_scheme" where
  "addtop m = bindE m (\<lambda>(x, s). Inr (s\<lparr>top_stmts := top_stmts s @ [x]\<rparr>))"

section \<open>Memory\<close>

text \<open>\<^verbatim>\<open>keyword = expression [,]\<close>\<close>

definition region_field :: "string list \<Rightarrow> string \<Rightarrow> 'a parse_scheme \<Rightarrow> stop + sexpr \<times> 'a parse_scheme" where
  "region_field ws msg s =
     bindE (keyword ws s) (\<lambda>(kw, s1).
       if kw = None then Inl (Fatal msg)
       else
         bindE (expects ''='' s1) (\<lambda>s2.
         bindE (lexed expression s2) (\<lambda>(e, s3).
         bindE (lexed (accept '','') s3) (\<lambda>(ok, s4). Inr (e, s4)))))"

definition region_attrs :: "'a parse_scheme \<Rightarrow> stop + byte list option \<times> 'a parse_scheme" where
  "region_attrs s =
     bindE (lexed (accept ''('') s) (\<lambda>(ok, s1).
       if \<not> ok then Inr (None, s1)
       else
         bindE (skips s1) (\<lambda>s2.
         bindE (expects '')'' (s2\<lparr>ptext := dropWhile (\<lambda>c. c \<noteq> 0 \<and> c \<noteq> 41) (ptext s2)\<rparr>)) (\<lambda>s3.
           Inr (Some (takeWhile (\<lambda>c. c \<noteq> 0 \<and> c \<noteq> 41) (ptext s2)), s3))))"

definition region_def :: "'a parse_scheme \<Rightarrow> stop + 'a parse_scheme" where
  "region_def s =
     bindE (lexed name s) (\<lambda>(n, s1).
     bindE (region_attrs s1) (\<lambda>(attr, s2).
     bindE (expects '':'' s2) (\<lambda>s3.
     bindE (region_field [''ORIGIN'', ''org'', ''o''] ''expected ORIGIN'' s3) (\<lambda>(e1, s4).
     bindE (region_field [''LENGTH'', ''len'', ''l''] ''expected LENGTH'' s4) (\<lambda>(e2, s5).
       Inr (s5\<lparr>regions := regions s5 @
         [\<lparr>rg_name = n, rg_attr = attr, rg_line = sc_line s, rg_origin = e1, rg_length = e2,
           rg_org = 0, rg_len = 0, rg_cursor = 0\<rparr>]\<rparr>))))))"

primrec memory_f :: "nat \<Rightarrow> 'a parse_scheme \<Rightarrow> stop + 'a parse_scheme" where
  "memory_f 0 s = Inl NoFuel"
| "memory_f (Suc n) s =
     bindE (lexed (accept ''}'') s) (\<lambda>(ok, s1).
       if ok then Inr s1 else bindE (region_def s1) (memory_f n))"

definition memory :: "'a parse_scheme \<Rightarrow> stop + 'a parse_scheme" where
  "memory s = bindE (expects ''{'' s) (\<lambda>s1. memory_f (length (ptext s1) + 1) s1)"

section \<open>The script\<close>

text \<open>
  The text of a file, to its first null byte; \<open>files\<close> gives \<open>None\<close> for a file that
  can't be opened.
\<close>

definition readfile :: "(byte list \<Rightarrow> byte list option) \<Rightarrow> byte list \<Rightarrow> stop + byte list" where
  "readfile files fname =
     (case files fname of
        None \<Rightarrow> Inl (Fatal ''can't open the linker script'')
      | Some t \<Rightarrow> Inr (takeWhile (\<lambda>c. c \<noteq> 0) t))"

text \<open>
  \<^verbatim>\<open>INCLUDE\<close>: \<open>body\<close> reads the included file in the context of the command; there is
  none when \<^verbatim>\<open>includes\<close> exceeds 10.
\<close>

definition include_file ::
  "(byte list \<Rightarrow> byte list option) \<Rightarrow> ('a parse_scheme \<Rightarrow> stop + 'a parse_scheme) option \<Rightarrow>
   'a parse_scheme \<Rightarrow> stop + 'a parse_scheme" where
  "include_file files body s =
     bindE (lexed quoted s) (\<lambda>(fname, s1).
       case body of
         None \<Rightarrow> Inl (Fatal ''INCLUDE is nested too deeply'')
       | Some f \<Rightarrow>
           bindE (readfile files fname) (\<lambda>t.
           bindE (f (s1\<lparr>ptext := t, sc_line := 1\<rparr>)) (\<lambda>s2.
             Inr (s2\<lparr>ptext := ptext s1, sc_line := sc_line s1\<rparr>))))"

text \<open>A command of \<^verbatim>\<open>SECTIONS\<close> that starts with a name.\<close>

definition named_command :: "'a parse_scheme \<Rightarrow> stop + 'a parse_scheme" where
  "named_command s =
     bindE (lexed name s) (\<lambda>(word, s1).
     bindE (skips s1) (\<lambda>s2.
       if ch (ptext s2) = 61 \<and> ch (tl (ptext s2)) \<noteq> 61 then addtop (assignment A_PLAIN word s2)
       else addtop (section_stmt word s2)))"

definition section_command ::
  "(byte list \<Rightarrow> byte list option) \<Rightarrow> ('a parse_scheme \<Rightarrow> stop + 'a parse_scheme) option \<Rightarrow>
   'a parse_scheme \<Rightarrow> stop + 'a parse_scheme" where
  "section_command files body s =
     bindE (keyword [''PROVIDE'', ''HIDDEN'', ''ASSERT'', ''INCLUDE''] s) (\<lambda>(kw, s1).
       if kw = Some ''PROVIDE'' then addtop (assignment A_PROVIDE [] s1)
       else if kw = Some ''HIDDEN'' then addtop (assignment A_HIDDEN [] s1)
       else if kw = Some ''ASSERT'' then addtop (assertion s1)
       else if kw = Some ''INCLUDE'' then include_file files body s1
       else named_command s1)"

primrec sections_f ::
  "nat \<Rightarrow> (byte list \<Rightarrow> byte list option) \<Rightarrow> ('a parse_scheme \<Rightarrow> stop + 'a parse_scheme) option \<Rightarrow> bool \<Rightarrow>
   'a parse_scheme \<Rightarrow> stop + 'a parse_scheme" where
  "sections_f 0 files body infile s = Inl NoFuel"
| "sections_f (Suc n) files body infile s =
     bindE (skips s) (\<lambda>s1.
       if ch (ptext s1) = 0 then (if infile then Inr s1 else Inl (Fatal ''expected }''))
       else
         bindE (if infile then Inr (False, s1) else lexed (accept ''}'') s1) (\<lambda>(ok, s2).
           if ok then Inr s2
           else bindE (section_command files body s2) (sections_f n files body infile)))"

text \<open>The argument counts the files that may still be included.\<close>

primrec sections_body :: "nat \<Rightarrow> (byte list \<Rightarrow> byte list option) \<Rightarrow> bool \<Rightarrow> 'a parse_scheme \<Rightarrow> stop + 'a parse_scheme" where
  "sections_body 0 files infile s = sections_f (length (ptext s) + 1) files None infile s"
| "sections_body (Suc d) files infile s =
     sections_f (length (ptext s) + 1) files (Some (sections_body d files True)) infile s"

definition entry_command :: "'a parse_scheme \<Rightarrow> stop + 'a parse_scheme" where
  "entry_command s = bindE (parens name s) (\<lambda>(n, s1). Inr (s1\<lparr>entryname := Some n\<rparr>))"

definition output_format :: "'a parse_scheme \<Rightarrow> stop + 'a parse_scheme" where
  "output_format s =
     bindE (expects ''('' s) (\<lambda>s1.
     bindE (lexed name s1) (\<lambda>(word, s2).
     bindE (if word = bytes_of ''srec'' then Inr (s2\<lparr>script_binary := True, script_records := 1\<rparr>)
            else if word = bytes_of ''ihex'' then Inr (s2\<lparr>script_binary := True, script_records := 2\<rparr>)
            else if word = bytes_of ''aout'' then Inr (s2\<lparr>script_binary := False, script_records := 0\<rparr>)
            else if word = bytes_of ''binary'' then Inr (s2\<lparr>script_binary := True, script_records := 0\<rparr>)
            else Inl (Fatal ''unknown output format'')) (expects '')'')))"

definition plain_command :: "'a parse_scheme \<Rightarrow> stop + 'a parse_scheme" where
  "plain_command s =
     bindE (lexed name s) (\<lambda>(word, s1).
     bindE (skips s1) (\<lambda>s2.
       if ch (ptext s2) \<noteq> 61 then Inl (Fatal ''unknown command'')
       else addtop (assignment A_PLAIN word s2)))"

definition command ::
  "nat \<Rightarrow> (byte list \<Rightarrow> byte list option) \<Rightarrow> ('a parse_scheme \<Rightarrow> stop + 'a parse_scheme) option \<Rightarrow>
   'a parse_scheme \<Rightarrow> stop + 'a parse_scheme" where
  "command d files body s =
     bindE (keyword [''ENTRY'', ''OUTPUT_FORMAT'', ''SECTIONS'', ''MEMORY'', ''INCLUDE'', ''FILL'', ''ASSERT'', ''PROVIDE'', ''HIDDEN''] s)
       (\<lambda>(kw, s1).
       if kw = Some ''ENTRY'' then entry_command s1
       else if kw = Some ''OUTPUT_FORMAT'' then output_format s1
       else if kw = Some ''SECTIONS'' then bindE (expects ''{'' s1) (sections_body d files False)
       else if kw = Some ''MEMORY'' then memory s1
       else if kw = Some ''INCLUDE'' then include_file files body s1
       else if kw = Some ''FILL'' then
         bindE (parens expression s1) (\<lambda>(e, s2). Inr (s2\<lparr>globalfill := Some e\<rparr>))
       else if kw = Some ''ASSERT'' then addtop (assertion s1)
       else if kw = Some ''PROVIDE'' then addtop (assignment A_PROVIDE [] s1)
       else if kw = Some ''HIDDEN'' then addtop (assignment A_HIDDEN [] s1)
       else plain_command s1)"

primrec commands_f ::
  "nat \<Rightarrow> nat \<Rightarrow> (byte list \<Rightarrow> byte list option) \<Rightarrow> ('a parse_scheme \<Rightarrow> stop + 'a parse_scheme) option \<Rightarrow>
   'a parse_scheme \<Rightarrow> stop + 'a parse_scheme" where
  "commands_f 0 d files body s = Inl NoFuel"
| "commands_f (Suc n) d files body s =
     bindE (skips s) (\<lambda>s1.
       if ch (ptext s1) = 0 then Inr s1
       else bindE (command d files body s1) (commands_f n d files body))"

primrec commands :: "nat \<Rightarrow> (byte list \<Rightarrow> byte list option) \<Rightarrow> 'a parse_scheme \<Rightarrow> stop + 'a parse_scheme" where
  "commands 0 files s = commands_f (length (ptext s) + 1) 0 files None s"
| "commands (Suc d) files s = commands_f (length (ptext s) + 1) (Suc d) files (Some (commands d files)) s"

definition parse_text :: "(byte list \<Rightarrow> byte list option) \<Rightarrow> byte list \<Rightarrow> 'a parse_scheme \<Rightarrow> stop + 'a parse_scheme" where
  "parse_text files t s = commands 10 files (s\<lparr>ptext := t, sc_line := 1\<rparr>)"

definition script_read :: "(byte list \<Rightarrow> byte list option) \<Rightarrow> byte list \<Rightarrow> 'a parse_scheme \<Rightarrow> stop + 'a parse_scheme" where
  "script_read files fname s = bindE (readfile files fname) (\<lambda>t. parse_text files t s)"

text \<open>\<^verbatim>\<open>-A sym=value\<close>; the argument has no null byte.\<close>

definition script_define :: "byte list \<Rightarrow> 'a parse_scheme \<Rightarrow> stop + 'a parse_scheme" where
  "script_define arg s =
     (if 61 \<notin> set arg \<or> ch arg = 61 then Inl (Fatal ''expected symbol=value'')
      else
        bindE (lexed name (s\<lparr>ptext := arg @ bytes_of '';'', sc_line := 0\<rparr>)) (\<lambda>(n, s1).
        bindE (assignment A_PLAIN n s1) (\<lambda>(x, s2).
        bindE (skips s2) (\<lambda>s3.
          if ch (ptext s3) \<noteq> 0 then Inl (Fatal ''expected symbol=value'')
          else Inr (s3\<lparr>script_defines := script_defines s3 @ [x]\<rparr>)))))"


section \<open>The default script\<close>

definition text_line :: "byte list list \<Rightarrow> byte list" where
  "text_line ws = concat ws @ [10]"

definition addcounter :: "nat \<Rightarrow> bool \<Rightarrow> bool \<Rightarrow> byte list" where
  "addcounter seg indented data =
     (let ind = bytes_of (if indented then ''            '' else ''        ''); d = fmt_X 1 seg in
      text_line [ind, bytes_of ''PROVIDE(__seg'', d, bytes_of ''DL = .);''] @
      (if data then text_line [ind, bytes_of ''HIDDEN(__dpos = .);''] else []) @
      text_line [ind, bytes_of ''*(LOC'', decimal seg, bytes_of '')''] @
      (if data then text_line [ind, bytes_of ''HIDDEN(__dend = . != __dpos ? . : __dend);''] else []) @
      text_line [ind, bytes_of ''PROVIDE(__seg'', d, bytes_of ''DH = .);''] @
      text_line [ind, bytes_of ''PROVIDE(__seg'', d, bytes_of ''CL = .);''] @
      text_line [ind, bytes_of ''*(COMMON'', decimal seg, bytes_of '')''] @
      text_line [ind, bytes_of ''PROVIDE(__seg'', d, bytes_of ''CH = .);''])"

text \<open>\<^verbatim>\<open>0x%04lX\<close> of a value that is widened to \<^verbatim>\<open>unsigned long\<close> with its sign.\<close>

definition hex_address :: "u32 \<Rightarrow> byte list" where
  "hex_address v = bytes_of ''0x'' @ fmt_X 4 (unat (scast v :: u64))"

definition default_data :: "bool \<Rightarrow> 'a script_scheme \<Rightarrow> byte list" where
  "default_data sepid s =
     (if data_base_value s \<noteq> 0 then hex_address (data_base_value s)
      else if sepid then bytes_of ''0x0000'' else bytes_of ''__etext'')"

definition default_comment :: "'a script_scheme \<Rightarrow> byte list" where
  "default_comment s =
     text_line [bytes_of ''/* Default linker script for ld01.''] @
     text_line [bytes_of ''   Values from the command line: -T '', hex_address (text_base_value s), bytes_of '', '',
       (if data_base_value s \<noteq> 0 then bytes_of ''-D '' @ hex_address (data_base_value s) else bytes_of ''no -D''),
       bytes_of '', '',
       (if heap_top_value s \<noteq> 0 then bytes_of ''-H '' @ hex_address (heap_top_value s) else bytes_of ''no -H''),
       bytes_of ''. */''] @ text_line []"

definition default_script :: "bool \<Rightarrow> bool \<Rightarrow> 'a script_scheme \<Rightarrow> byte list" where
  "default_script sepid binary s =
     default_comment s @
     text_line [bytes_of ''OUTPUT_FORMAT('', bytes_of (if binary then ''binary'' else ''aout''), bytes_of '')''] @
     text_line [] @
     text_line [bytes_of ''SECTIONS''] @ text_line [bytes_of ''{''] @
     text_line [bytes_of ''    .text '', hex_address (text_base_value s), bytes_of '' : SUBALIGN(4)''] @
     text_line [bytes_of ''    {''] @
     text_line [bytes_of ''        __btext = .;''] @
     text_line [bytes_of ''        PROVIDE(__segoff = 0);''] @
     addcounter 0 False False @ addcounter 1 False False @
     text_line [bytes_of ''        __etext = .;''] @
     (if sepid then text_line [bytes_of ''        . = ALIGN(16);''] else []) @
     text_line [bytes_of ''    }''] @ text_line [] @
     text_line [bytes_of ''    .data '', default_data sepid s, bytes_of '' : SUBALIGN(4)''] @
     text_line [bytes_of ''    {''] @
     text_line [bytes_of ''        __bdata = .;''] @
     text_line [bytes_of ''        HIDDEN(__dend = .);''] @ text_line [] @
     text_line [bytes_of ''        ONEPAGE''] @ text_line [bytes_of ''        {''] @
     addcounter 2 True True @
     text_line [bytes_of ''        }''] @
     concat (map (\<lambda>seg. text_line [] @ addcounter seg False True) [3..<NSEG]) @
     text_line [] @ text_line [bytes_of ''        __edata = __dend;''] @
     text_line [bytes_of ''        __end = .;''] @
     text_line [bytes_of ''    }''] @ text_line [] @
     text_line [bytes_of ''    PROVIDE(__heap_top = __end + '', hex_address (heap_top_value s), bytes_of '');''] @
     text_line [bytes_of ''}'']"

definition script_use_default :: "(byte list \<Rightarrow> byte list option) \<Rightarrow> bool \<Rightarrow> bool \<Rightarrow> 'a parse_scheme \<Rightarrow> stop + 'a parse_scheme" where
  "script_use_default files sepid binary s = parse_text files (default_script sepid binary s) s"


end
