(* ===== verification/Script_Expr.thy ===== *)
theory Script_Expr
  imports Script_Parse
begin

text \<open>
  Expressions of the script language: the parser returns from every text, with a
  well-typed tree and less text left, or stops with a message; a well-typed
  tree is evaluated without following a null pointer.
\<close>

section \<open>Results of the parser\<close>

text \<open>The ways the parser stops: a message, or a number that is too big for \<^verbatim>\<open>K\<close>.\<close>

definition parse_stop :: "stop \<Rightarrow> bool" where
  "parse_stop e \<longleftrightarrow> (\<exists>msg. e = Fatal msg) \<or> e = Overflow"

lemma parse_stop_simps [simp]:
  "parse_stop (Fatal msg)" "parse_stop Overflow" "\<not> parse_stop NoFuel" "\<not> parse_stop NullPointer"
  by (simp_all add: parse_stop_def)

definition gives :: "('r \<Rightarrow> bool) \<Rightarrow> stop + 'r \<Rightarrow> bool" where
  "gives Q m \<longleftrightarrow> (case m of Inl e \<Rightarrow> parse_stop e | Inr r \<Rightarrow> Q r)"

lemma gives_simps [simp]: "gives Q (Inl e) = parse_stop e" "gives Q (Inr r) = Q r"
  by (simp_all add: gives_def)

lemma gives_bind: "gives R (bindE m f) = gives (\<lambda>r. gives R (f r)) m"
  by (cases m) simp_all

lemma gives_weaken: "\<lbrakk>gives Q m; \<And>r. Q r \<Longrightarrow> R r\<rbrakk> \<Longrightarrow> gives R m"
  by (cases m) simp_all

text \<open>A value with less text left than \<open>k\<close>.\<close>

definition below :: "nat \<Rightarrow> ('x \<Rightarrow> bool) \<Rightarrow> stop + 'x \<times> src \<Rightarrow> bool" where
  "below k Q = gives (\<lambda>(x, s). length (fst s) < k \<and> Q x)"

lemma below_simps [simp]: "below k Q (Inl e) = parse_stop e" "below k Q (Inr (x, s)) = (length (fst s) < k \<and> Q x)"
  by (simp_all add: below_def)

lemma below_weaken: "\<lbrakk>below j Q m; j \<le> k; \<And>x. Q x \<Longrightarrow> R x\<rbrakk> \<Longrightarrow> below k R m"
  by (cases m) auto

section \<open>Symbols of the text\<close>

lemma skipspace_gives: "gives (\<lambda>s. length (fst s) \<le> length t) (skipspace t l)"
proof (induction t l rule: skipspace.induct)
  case (1 t l)
  show ?case
  proof (cases "c_isspace (ch t)")
    case True
    then show ?thesis using 1(1) by (subst skipspace.simps) (auto elim!: gives_weaken)
  next
    case space: False
    show ?thesis
    proof (cases "ch t = 47 \<and> ch (tl t) = 42")
      case True
      show ?thesis
      proof (cases "skip_comment (drop 2 t) l")
        case None
        then show ?thesis using space True by (subst skipspace.simps) simp
      next
        case (Some p)
        obtain t' l' where p: "p = (t', l')" by (cases p)
        have "length t' \<le> length (drop 2 t)" using skip_comment_shorter Some p by blast
        moreover have "gives (\<lambda>s. length (fst s) \<le> length t') (skipspace t' l')"
          using 1(2) [OF space True Some p [symmetric]] .
        ultimately show ?thesis using space True Some p by (subst skipspace.simps) (auto elim!: gives_weaken)
      qed
    next
      case False
      show ?thesis
      proof (cases "ch t = 35")
        case True
        then have "gives (\<lambda>s. length (fst s) \<le> length (dropWhile (\<lambda>c. c \<noteq> 10) t)) (skipspace (dropWhile (\<lambda>c. c \<noteq> 10) t) l)"
          using 1(3) space False by blast
        then show ?thesis
          using space False True length_dropWhile_le [of "\<lambda>c. c \<noteq> 10" t]
          by (subst skipspace.simps) (auto elim!: gives_weaken)
      next
        case other: False
        then show ?thesis using space False by (subst skipspace.simps) auto
      qed
    qed
  qed
qed

lemma skipspace_below: "below (Suc (length (fst s))) (\<lambda>_. True) (bindE (skipspace (fst s) (snd s)) (\<lambda>s1. Inr ((), s1)))"
  using skipspace_gives [of "fst s" "snd s"] by (cases "skipspace (fst s) (snd s)") simp_all

lemma accept_gives:
  assumes "w \<noteq> []"
  shows "gives (\<lambda>(ok, s1). length (fst s1) + (if ok then 1 else 0) \<le> length (fst s)) (accept w s)"
proof -
  have "length (drop (length w) t) + 1 \<le> length (fst s)" if "length t \<le> length (fst s)" "take (length w) t = bytes_of w" for t :: "byte list"
    using that assms arg_cong [OF that(2), of length] by (cases w; cases t) auto
  then show ?thesis
    unfolding accept_def case_prod_unfold
    by (auto simp: gives_bind Let_def intro!: gives_weaken [OF skipspace_gives])
qed

lemma expect_gives:
  assumes "w \<noteq> []" shows "gives (\<lambda>s1. length (fst s1) < length (fst s)) (expect w s)"
  unfolding expect_def by (auto simp: gives_bind intro!: gives_weaken [OF accept_gives [OF assms]])

lemma name_below: "below (length (fst s)) (\<lambda>_. True) (name s)"
proof -
  have "length (dropWhile identchar t) < length t" if "c_isalpha (ch t) \<or> ch t = 95 \<or> ch t = 46" for t
    using that length_dropWhile_le [of identchar "tl t"]
    by (cases t) (auto simp: ch_def identchar_def c_isalpha_def less_Suc_eq_le)
  then show ?thesis
    unfolding name_def case_prod_unfold below_def
    by (fastforce simp: gives_bind intro!: gives_weaken [OF skipspace_gives])
qed

lemma pattern_below: "below (length (fst s)) (\<lambda>_. True) (pattern s)"
proof -
  have "length (dropWhile patchar t) < length t" if "takeWhile patchar t \<noteq> []" for t
    using that length_dropWhile_le [of patchar "tl t"] by (cases t) (auto split: if_splits simp: less_Suc_eq_le)
  then show ?thesis
    unfolding pattern_def case_prod_unfold below_def
    by (fastforce simp: gives_bind intro!: gives_weaken [OF skipspace_gives])
qed

lemma quoted_below: "below (length (fst s)) (\<lambda>_. True) (quoted s)"
proof -
  have "length (tl (dropWhile strchar (tl t))) < length t" if "ch t = 34" for t
    using that length_dropWhile_le [of strchar "tl t"] by (cases t) (auto simp: ch_def)
  then show ?thesis
    unfolding quoted_def case_prod_unfold below_def
    by (fastforce simp: gives_bind intro!: gives_weaken [OF skipspace_gives])
qed

section \<open>Well-typed expressions\<close>

text \<open>Every function has the arguments it needs, and every number fits a \<^verbatim>\<open>long\<close>.\<close>

fun typed :: "sexpr \<Rightarrow> bool" where
  "typed (X_NUM l n) = (- (2 ^ 63) \<le> n \<and> n < 2 ^ 63)"
| "typed (X_DOT l) = True"
| "typed (X_SYM l n) = True"
| "typed (X_FUNC l n a None) =
     ((case a of X_SYM l' m \<Rightarrow> True | _ \<Rightarrow> False) \<and>
        fname_in [''ADDR'', ''LOADADDR'', ''SIZEOF'', ''DEFINED'', ''ORIGIN'', ''LENGTH''] n \<or>
      fname_in [''ALIGN''] n \<and> typed a)"
| "typed (X_FUNC l n a (Some b)) = (fname_in [''ALIGN'', ''MAX'', ''MIN''] n \<and> typed a \<and> typed b)"
| "typed (X_COND l a b c) = (typed a \<and> typed b \<and> typed c)"
| "typed (X_UN l u a) = typed a"
| "typed (X_BIN l q a b) = (typed a \<and> typed b)"


text \<open>Evaluating a well-typed expression never follows a null pointer.\<close>

definition no_null :: "stop + 'r \<Rightarrow> bool" where
  "no_null m \<longleftrightarrow> m \<noteq> Inl NullPointer"

lemma no_null_simps [simp]: "no_null (Inr r)" "no_null (Inl e) \<longleftrightarrow> e \<noteq> NullPointer"
  by (simp_all add: no_null_def)

lemma no_null_bind: "\<lbrakk>no_null m; \<And>x. m = Inr x \<Longrightarrow> no_null (f x)\<rbrakk> \<Longrightarrow> no_null (bindE m f)"
  by (cases m) simp_all

lemma no_null_parts:
  "no_null (long i)" "no_null (symvalue n s)" "no_null (findregion n s)" "no_null (unary_value u v)"
  by (simp_all add: long_def symvalue_def findregion_def unary_value_def Let_def split: option.split unop.split)

lemma no_null_ops: "no_null (align_to v w)" "no_null (binary_value q v w)"
  by (auto simp: align_to_def binary_value_def no_null_parts intro!: no_null_bind split: binop.split)

lemma name_func_safe: "name_func n (X_SYM l m) s = Some r \<Longrightarrow> no_null r"
  by (auto simp: name_func_def sectarg_def arg_name_def no_null_parts split: if_splits option.splits intro!: no_null_bind)

lemma name_func_iff:
  "name_func n a s = None \<longleftrightarrow> \<not> fname_in [''ADDR'', ''LOADADDR'', ''SIZEOF'', ''DEFINED'', ''ORIGIN'', ''LENGTH''] n"
  by (auto simp: name_func_def fname_in_def)

lemma name_func_other: "fname_in [''ALIGN'', ''MAX'', ''MIN''] n \<Longrightarrow> name_func n a s = None"
  by (auto simp: name_func_def fname_in_def)

lemma eval_typed: "typed e \<Longrightarrow> no_null (eval s e)"
proof (induction s e rule: eval.induct)
  case (4 s l n a)
  show ?case
  proof (cases "fname_in [''ALIGN''] n")
    case True
    then have n: "name_func n a s = None" "n = bytes_of ''ALIGN''"
      by (auto intro!: name_func_other simp: fname_in_def)
    have "typed a"
      using 4(3) n(2) by (cases a) (auto simp: fname_in_def)
    then have "no_null (eval s a)" using 4(1) n by simp
    then show ?thesis using n by (simp add: no_null_bind no_null_ops)
  next
    case False
    with 4(3) obtain l' m where "a = X_SYM l' m" "name_func n a s \<noteq> None"
      by (cases a) (auto simp: name_func_iff)
    then show ?thesis using name_func_safe by auto
  qed
next
  case (5 s l n a b)
  then have "name_func n a s = None" by (intro name_func_other) simp
  with 5 show ?case by (auto simp: no_null_ops intro!: no_null_bind)
qed (auto simp: no_null_parts no_null_ops intro!: no_null_bind)

section \<open>The parser of expressions\<close>

lemma takeWhile_shorter: "takeWhile p xs \<noteq> [] \<Longrightarrow> length (dropWhile p xs) < length xs"
  using length_dropWhile_le [of p "tl xs"] by (cases xs) (auto split: if_splits simp: less_Suc_eq_le)

lemma number_below:
  assumes "c_isdigit (ch (fst s)) \<or> ch (fst s) = 36"
  shows "below (length (fst s)) typed (number_expr s)"
proof -
  obtain t l where s: "s = (t, l)" by (cases s)
  let ?u = "if ch t = 36 then tl t else t"
  have len: "length r < length u" if "strtoul b u = Some (neg, n, r)" for b u neg n r
  proof -
    define t1 where "t1 = dropWhile c_isspace u"
    define t2 where "t2 = (if ch t1 = 45 \<or> ch t1 = 43 then tl t1 else t1)"
    define hex where "hex \<longleftrightarrow> (b = 0 \<or> b = 16) \<and> is_hex_prefix t2"
    define t3 where "t3 = (if hex then drop 2 t2 else t2)"
    define d where "d = is_digit_in (if b \<noteq> 0 then b else if hex then 16 else if ch t2 = 48 then 8 else 10)"
    have "strtoul b u = (if takeWhile d t3 = [] then None
        else Some (ch t1 = 45, digits_int (if b \<noteq> 0 then b else if hex then 16 else if ch t2 = 48 then 8 else 10) (takeWhile d t3), dropWhile d t3))"
      unfolding strtoul_def Let_def t1_def t2_def hex_def t3_def d_def ..
    with that have "r = dropWhile d t3" "takeWhile d t3 \<noteq> []" by (simp_all split: if_splits)
    moreover have "length t1 \<le> length u" by (simp add: t1_def length_dropWhile_le)
    then have "length t3 \<le> length u" unfolding t3_def t2_def by (auto intro: le_trans [OF diff_le_self])
    ultimately show ?thesis using takeWhile_shorter [of d t3] by simp
  qed
  have long_typed: "gives (\<lambda>v. - (2 ^ 63) \<le> v \<and> v < 2 ^ 63) (long i)" for i by (simp add: long_def)
  have num: "- (2 ^ 63) \<le> number_value neg n \<and> number_value neg n < 2 ^ 63" for neg n
    using sint_range_size [of "of_int (if neg then - n else n) :: u64"] by (simp add: number_value_def word_size)
  show ?thesis
  proof (cases "strtoul (if ch t = 36 then 16 else 0) ?u")
    case None
    then show ?thesis by (simp add: s number_expr_def Let_def)
  next
    case (Some p)
    obtain neg n r where p: "p = (neg, n, r)" by (cases p)
    have r: "length r < length t" using len [OF Some [unfolded p]] by (auto split: if_splits)
    have tl: "length (tl r) < length t" using r by simp
    show ?thesis
      using Some r tl num long_typed [of "number_value neg n * 1024"]
      by (auto simp: s p number_expr_def Let_def bindE_def gives_def split: sum.splits)
  qed
qed

text \<open>The fuel a routine needs besides twenty for each character, and the calls that occur.\<close>

fun need :: "routine \<Rightarrow> nat" where
  "need EXPRESSION = 14"
| "need (BINARY level) = 14 - level"
| "need (BINARY_LOOP level e) = 1"
| "need UNARY = 2"
| "need PRIMARY = 1"
| "need (FUNCTION l n) = 15"

fun callable :: "routine \<Rightarrow> bool" where
  "callable (BINARY level) = (1 \<le> level \<and> level \<le> 11)"
| "callable (BINARY_LOOP level e) = (1 \<le> level \<and> level \<le> 10 \<and> typed e)"
| "callable r = True"

text \<open>Every routine but the loop uses up some text.\<close>

definition good :: "routine \<Rightarrow> src \<Rightarrow> stop + sexpr \<times> src \<Rightarrow> bool" where
  "good r s m = below (length (fst s) + (case r of BINARY_LOOP level e \<Rightarrow> 1 | _ \<Rightarrow> 0)) typed m"

definition runs :: "nat \<Rightarrow> parser \<Rightarrow> bool" where
  "runs n run \<longleftrightarrow> (\<forall>r s. callable r \<longrightarrow> 20 * length (fst s) + need r \<le> n \<longrightarrow> good r s (run r s))"

lemma runsD: "\<lbrakk>runs n run; callable r; 20 * length (fst s) + need r \<le> n\<rbrakk> \<Longrightarrow> good r s (run r s)"
  unfolding runs_def by blast

lemma runs_expression: "\<lbrakk>runs n run; 20 * length (fst s) + 14 \<le> n\<rbrakk> \<Longrightarrow> below (length (fst s)) typed (run EXPRESSION s)"
  using runsD [of n run EXPRESSION s] by (simp add: good_def)

lemmas gives_expression = gives_weaken [OF runs_expression [unfolded below_def]]
lemmas gives_accept = gives_weaken [OF accept_gives]
lemmas gives_expect = gives_weaken [OF expect_gives]
lemmas gives_name = gives_weaken [OF name_below [unfolded below_def]]
lemmas gives_skipspace = gives_weaken [OF skipspace_gives]

lemma expression_good:
  assumes "runs n run" and "20 * length (fst s) + 14 \<le> Suc n"
  shows "below (length (fst s)) typed (expression_step run s)"
proof -
  have b: "below (length (fst s)) typed (run (BINARY 1) s)"
    using runsD [OF assms(1), of "BINARY 1" s] assms(2) by (simp add: good_def)
  show ?thesis
    unfolding expression_step_def below_def gives_bind
    using assms(2)
    by (auto simp: gives_bind intro!: gives_weaken [OF b [unfolded below_def One_nat_def]] gives_accept gives_expect gives_expression [OF assms(1)])
qed


lemma binary_good:
  assumes "runs n run" and "20 * length (fst s) + (14 - level) \<le> Suc n" and "1 \<le> level" "level \<le> 11"
  shows "below (length (fst s)) typed (binary_step run level s)"
proof (cases "level = 11")
  case True
  then show ?thesis
    using runsD [OF assms(1), of UNARY s] assms(2) by (simp add: binary_step_def good_def)
next
  case False
  have b: "below (length (fst s)) typed (run (BINARY (level + 1)) s)"
    using runsD [OF assms(1), of "BINARY (level + 1)" s] assms(2-4) False by (simp add: good_def)
  have l: "gives (\<lambda>(x, s'). length (fst s') < length (fst s) \<and> typed x) (run (BINARY_LOOP level e) s1)"
    if "length (fst s1) < length (fst s)" "typed e" for e s1
    using runsD [OF assms(1), of "BINARY_LOOP level e" s1] that assms(2-4) False
    by (auto simp: good_def below_def elim!: gives_weaken)
  show ?thesis
    using assms(3,4) False unfolding binary_step_def below_def
    by (auto simp: gives_bind intro!: gives_weaken [OF b [unfolded below_def Suc_eq_plus1 [symmetric]]] l)
qed

lemma binop_words: "r \<in> set binops \<Longrightarrow> fst r \<noteq> []"
  by (auto simp: binops_def)

lemma find_op_shorter:
  assumes "find_op level t = Some (w, q, lev)" shows "length (drop (length w) t) < length t"
proof -
  have "(w, q, lev) \<in> set binops" "takes_op level t (w, q, lev)"
    using assms by (auto simp: find_op_def find_Some_iff)
  then have "w \<noteq> []" "take (length w) t = bytes_of w" using binop_words by (fastforce simp: takes_op_def)+
  then show ?thesis by (cases w; cases t) auto
qed

lemma binary_loop_good:
  assumes "runs n run" and "20 * length (fst s) + 1 \<le> Suc n" and "1 \<le> level" "level \<le> 10" "typed e"
  shows "below (length (fst s) + 1) typed (binary_loop_step run level e s)"
proof -
  have b: "gives (\<lambda>(x, s'). length (fst s') < length t1 \<and> typed x) (run (BINARY (Suc level)) (drop (length w) t1, k))"
    if "find_op level t1 = Some (w, r)" "length t1 \<le> length (fst s)" for t1 w r k
  proof -
    have d: "length (drop (length w) t1) < length t1"
      using find_op_shorter [of level t1 w "fst r" "snd r"] that(1) by simp
    then have "20 * length (drop (length w) t1) + need (BINARY (Suc level)) \<le> n"
      using that(2) assms(2) unfolding need.simps by linarith
    then have "below (length (drop (length w) t1)) typed (run (BINARY (Suc level)) (drop (length w) t1, k))"
      using runsD [OF assms(1), of "BINARY (Suc level)" "(drop (length w) t1, k)"] assms(3,4)
      by (simp only: good_def fst_conv) simp
    then show ?thesis using d unfolding below_def by (auto elim!: gives_weaken)
  qed
  have l: "gives (\<lambda>(x, s'). length (fst s') < Suc (length (fst s)) \<and> typed x) (run (BINARY_LOOP level x) s2)"
    if "length (fst s2) < length (fst s)" "typed x" for x s2
    using runsD [OF assms(1), of "BINARY_LOOP level x" s2] that assms(2-4)
    by (auto simp: good_def below_def elim!: gives_weaken)
  show ?thesis
    using assms(5) unfolding binary_loop_step_def below_def
    by (auto simp: gives_bind split: option.split intro!: gives_skipspace gives_weaken [OF b] l)
qed

lemma unary_op_gives: "gives (\<lambda>(q, s1). length (fst s1) + (if q = None then 0 else 1) \<le> length (fst s)) (unary_op s)"
  unfolding unary_op_def
  by (auto simp: gives_bind intro!: gives_accept split: if_splits)

lemma unary_good:
  assumes "runs n run" and "20 * length (fst s) + 2 \<le> Suc n"
  shows "below (length (fst s)) typed (unary_step run s)"
proof -
  have u: "gives (\<lambda>(x, s'). length (fst s') < length (fst s1) \<and> typed x) (run UNARY s1)"
    if "length (fst s1) < length (fst s)" for s1
    using runsD [OF assms(1), of UNARY s1] that assms(2) by (simp add: good_def below_def)
  have p: "gives (\<lambda>(x, s'). length (fst s') < length (fst s1) \<and> typed x) (run PRIMARY s1)"
    if "length (fst s1) \<le> length (fst s)" for s1
    using runsD [OF assms(1), of PRIMARY s1] that assms(2) by (simp add: good_def below_def)
  show ?thesis
    unfolding unary_step_def below_def
    by (auto simp: gives_bind split: option.split intro!: gives_weaken [OF unary_op_gives] gives_weaken [OF u] gives_weaken [OF p])
qed

lemma name_arg_gives:
  "gives (\<lambda>(a, s1). length (fst s1) < length (fst s) \<and> (\<exists>l m. a = X_SYM l m)) (name_arg s)"
  unfolding name_arg_def by (auto simp: gives_bind intro!: gives_name)

lemma fname_more:
  "fname_in [''ADDR'', ''LOADADDR'', ''SIZEOF'', ''DEFINED''] n \<Longrightarrow>
     fname_in [''ADDR'', ''LOADADDR'', ''SIZEOF'', ''DEFINED'', ''ORIGIN'', ''LENGTH''] n"
  "fname_in [''ORIGIN'', ''LENGTH''] n \<Longrightarrow>
     fname_in [''ADDR'', ''LOADADDR'', ''SIZEOF'', ''DEFINED'', ''ORIGIN'', ''LENGTH''] n"
  "fname_in [''ALIGN''] n \<Longrightarrow> fname_in [''ALIGN'', ''MAX'', ''MIN''] n"
  "fname_in [''MAX'', ''MIN''] n \<Longrightarrow> fname_in [''ALIGN'', ''MAX'', ''MIN''] n"
  by (auto simp: fname_in_def)

lemma function_good:
  assumes "runs n run" and "20 * length (fst s) + 15 \<le> Suc n"
  shows "below (length (fst s)) typed (function_step run l nm s)"
  using assms(2) unfolding function_step_def below_def
  by (auto simp: gives_bind fname_more
      intro!: gives_weaken [OF name_arg_gives] gives_expression [OF assms(1)] gives_accept gives_expect)

lemma named_good:
  assumes "runs n run" and "20 * length (fst s) + 1 \<le> Suc n"
  shows "gives (\<lambda>(x, s'). length (fst s') < length (fst s) \<and> typed x) (named_step run s)"
proof -
  have f: "gives (\<lambda>(x, s'). length (fst s') < length (fst s2) \<and> typed x) (run (FUNCTION l nm) s2)"
    if "length (fst s2) + 2 \<le> length (fst s)" for s2 l nm
    using runsD [OF assms(1), of "FUNCTION l nm" s2] that assms(2) by (simp add: good_def below_def)
  show ?thesis
    unfolding named_step_def
    by (auto simp: gives_bind intro!: gives_name gives_accept gives_weaken [OF f] gives_expect)
qed

lemma primary_good:
  assumes "runs n run" and "20 * length (fst s) + 1 \<le> Suc n"
  shows "below (length (fst s)) typed (primary_step run s)"
proof -
  have num: "gives (\<lambda>(x, s'). length (fst s') < length (fst s) \<and> typed x) (number_expr s1)"
    if "c_isdigit (ch (fst s1)) \<or> ch (fst s1) = 36" "length (fst s1) \<le> length (fst s)" for s1
    using number_below [OF that(1)] that(2) by (auto simp: below_def elim!: gives_weaken)
  have nm: "gives (\<lambda>(x, s'). length (fst s') < length (fst s) \<and> typed x) (named_step run s2)"
    if "length (fst s2) \<le> length (fst s)" for s2
    using named_good [OF assms(1), of s2] assms(2) that by (auto elim!: gives_weaken)
  have dot: "length t - Suc 0 < length (fst s)" if "ch t = 46" "length t \<le> length (fst s)" for t
    using that by (cases t) (auto simp: ch_def)
  show ?thesis
    using assms(2) unfolding primary_step_def below_def
    by (auto simp: gives_bind
        intro!: gives_skipspace num gives_accept gives_expression [OF assms(1)] gives_expect nm dot)
qed

lemma parse_expr_runs: "runs n (parse_expr n)"
proof (induction n)
  case 0
  have "need r = 0 \<Longrightarrow> \<not> callable r" for r by (cases r) auto
  then show ?case by (auto simp: runs_def)
next
  case (Suc n)
  show ?case
    unfolding runs_def
  proof (intro allI impI)
    fix r and s :: src assume r: "callable r" "20 * length (fst s) + need r \<le> Suc n"
    show "good r s (parse_expr (Suc n) r s)"
    proof (cases r)
      case EXPRESSION
      then show ?thesis using expression_good [OF Suc] r by (simp add: good_def)
    next
      case (BINARY level)
      then show ?thesis using binary_good [OF Suc] r by (simp add: good_def)
    next
      case (BINARY_LOOP level e)
      then show ?thesis using binary_loop_good [OF Suc] r by (simp add: good_def)
    next
      case UNARY
      then show ?thesis using unary_good [OF Suc] r by (simp add: good_def)
    next
      case PRIMARY
      then show ?thesis using primary_good [OF Suc] r by (simp add: good_def)
    next
      case (FUNCTION l nm)
      then show ?thesis using function_good [OF Suc] r by (simp add: good_def)
    qed
  qed
qed

lemma expression_below: "below (length (fst s)) typed (expression s)"
  using runsD [OF parse_expr_runs, of EXPRESSION s "20 * length (fst s) + 20"]
  by (simp add: expression_def good_def)

end
