(* ===== verification/Script_Parse_Props.thy ===== *)
theory Script_Parse_Props
  imports Script_Expr Script_Sound
begin

text \<open>
  What the parser of scripts builds: it returns from every text, or stops with a
  message; the script is well formed, so that the layout can start from it.
\<close>

section \<open>Well-formed scripts\<close>

text \<open>
  A statement of a section: symbols of the table, patterns, typed expressions,
  no input sections yet.
\<close>

fun stmt_ok :: "nat \<Rightarrow> stmt \<Rightarrow> bool" where
  "stmt_ok n (S_ASSIGN l k sy e) = ((case sy of None \<Rightarrow> k = A_PLAIN | Some r \<Rightarrow> r < n) \<and> typed e)"
| "stmt_ok n (S_INPUT l kp f pats ps) = (f \<noteq> None \<and> pats \<noteq> [] \<and> ps = [])"
| "stmt_ok n (S_ONEPAGE l body) = list_all (stmt_ok n) body"
| "stmt_ok n (S_SECTION l k) = False"
| "stmt_ok n (S_DATA l sz e) = (sz \<in> {1, 2} \<and> typed e)"
| "stmt_ok n (S_FILL l e) = typed e"
| "stmt_ok n (S_ASSERT l e msg) = typed e"

lemma stmt_ok_mono: "stmt_ok m x \<Longrightarrow> m \<le> n \<Longrightarrow> stmt_ok n x"
  by (induction m x rule: stmt_ok.induct) (auto simp: list_all_iff split: option.splits)

lemma stmts_ok_mono: "list_all (stmt_ok m) xs \<Longrightarrow> m \<le> n \<Longrightarrow> list_all (stmt_ok n) xs"
  by (auto simp: list_all_iff intro: stmt_ok_mono)

text \<open>A statement outside the sections: an assignment or an assertion.\<close>

fun outer_ok :: "stmt \<Rightarrow> bool" where
  "outer_ok (S_ASSIGN l k sy e) = True"
| "outer_ok (S_ASSERT l e msg) = True"
| "outer_ok x = False"

definition opt_typed :: "sexpr option \<Rightarrow> bool" where
  "opt_typed a \<longleftrightarrow> (\<forall>e. a = Some e \<longrightarrow> typed e)"

definition sect_ok :: "nat \<Rightarrow> nat \<Rightarrow> osect \<Rightarrow> bool" where
  "sect_ok nsyms nregs sect \<longleftrightarrow>
     list_all (stmt_ok nsyms) (os_body sect) \<and>
     opt_typed (os_addr sect) \<and> opt_typed (os_at sect) \<and> opt_typed (os_align sect) \<and> opt_typed (os_subalign sect) \<and>
     opt_typed (fillexpr sect) \<and>
     (\<forall>r. os_region sect = Some r \<or> lmaregion sect = Some r \<longrightarrow> r < nregs)"

definition top_ok :: "nat \<Rightarrow> stmt \<Rightarrow> bool" where
  "top_ok n x \<longleftrightarrow> (\<exists>l k. x = S_SECTION l k) \<or> outer_ok x \<and> stmt_ok n x"

definition script_wf :: "'a script_scheme \<Rightarrow> bool" where
  "script_wf s \<longleftrightarrow>
     section_stmts (top_stmts s) = [0..<length (sects s)] \<and>
     (\<forall>x\<in>set (top_stmts s). top_ok (length (ssyms s)) x) \<and>
     (\<forall>x\<in>set (script_defines s). outer_ok x \<and> stmt_ok (length (ssyms s)) x) \<and>
     distinct (map os_name (sects s)) \<and> distinct (map ss_name (ssyms s)) \<and>
     (\<forall>sect\<in>set (sects s). sect_ok (length (ssyms s)) (length (regions s)) sect) \<and>
     (\<forall>r\<in>set (regions s). typed (rg_origin r) \<and> typed (rg_length r)) \<and> opt_typed (globalfill s)"

section \<open>Steps of the parser\<close>

text \<open>Reading statements changes the text and adds symbols, nothing else.\<close>

definition reads_on :: "'a parse_scheme \<Rightarrow> 'a parse_scheme \<Rightarrow> bool" where
  "reads_on s t \<longleftrightarrow>
     t = s\<lparr>ssyms := ssyms t, ptext := ptext t, sc_line := sc_line t\<rparr> \<and> length (ssyms s) \<le> length (ssyms t) \<and>
     (distinct (map ss_name (ssyms s)) \<longrightarrow> distinct (map ss_name (ssyms t)))"

lemma reads_on_refl [simp]: "reads_on s s"
  by (simp add: reads_on_def)

lemma reads_on_trans: "reads_on s t \<Longrightarrow> reads_on t u \<Longrightarrow> reads_on s u"
  unfolding reads_on_def by (cases s; cases t; cases u) simp

lemma reads_on_text: "reads_on s (s\<lparr>ptext := t, sc_line := l\<rparr>)" "reads_on s (s\<lparr>ptext := t\<rparr>)"
  by (simp_all add: reads_on_def)

lemma reads_on_simps:
  assumes "reads_on s t"
  shows "sects t = sects s" "regions t = regions s" "top_stmts t = top_stmts s" "script_defines t = script_defines s"
    "globalfill t = globalfill s" "mods t = mods s"
  by (subst conjunct1 [OF assms [unfolded reads_on_def]], simp)+

lemma reads_on_grows: "reads_on s t \<Longrightarrow> length (ssyms s) \<le> length (ssyms t)"
  by (simp add: reads_on_def)

lemma reads_on_wf: "reads_on s t \<Longrightarrow> script_wf s \<Longrightarrow> script_wf t"
  using reads_on_simps [of s t] reads_on_grows [of s t] unfolding script_wf_def top_ok_def sect_ok_def
  by (simp add: reads_on_def) (meson stmt_ok_mono stmts_ok_mono)

text \<open>A state reached from \<open>s0\<close> with at least \<open>k\<close> characters less than in \<open>s\<close>.\<close>

definition on :: "'a parse_scheme \<Rightarrow> 'a parse_scheme \<Rightarrow> nat \<Rightarrow> 'a parse_scheme \<Rightarrow> bool" where
  "on s0 s k t \<longleftrightarrow> reads_on s0 t \<and> length (ptext t) + k \<le> length (ptext s) \<and> length (ssyms s) \<le> length (ssyms t)"

lemma lexed_gives:
  assumes "reads_on s0 s" and "gives (\<lambda>(x, s1). length (fst s1) + k x \<le> length (ptext s) \<and> Q x) (f (ptext s, sc_line s))"
    and "\<And>x t. \<lbrakk>on s0 s (k x) t; Q x\<rbrakk> \<Longrightarrow> R (x, t)"
  shows "gives R (lexed f s)"
proof -
  have "on s0 s (k x) (s\<lparr>ptext := t, sc_line := l\<rparr>)" if "length t + k x \<le> length (ptext s)" for x t l
    using that assms(1) reads_on_trans [OF assms(1) reads_on_text(1)] by (simp add: on_def)
  then show ?thesis
    unfolding lexed_def gives_bind using assms(2,3) by (fastforce elim!: gives_weaken)
qed

lemma gives_lexed_accept:
  assumes "reads_on s0 s" "w \<noteq> []" "\<And>ok t. on s0 s (if ok then 1 else 0) t \<Longrightarrow> R (ok, t)"
  shows "gives R (lexed (accept w) s)"
  using assms accept_gives [OF assms(2), of "(ptext s, sc_line s)"]
  by (intro lexed_gives [where k = "\<lambda>ok. if ok then 1 else 0" and Q = "\<lambda>_. True"]) simp_all

lemma gives_lexed:
  assumes "reads_on s0 s" "below (length (ptext s)) Q (f (ptext s, sc_line s))" "\<And>x t. \<lbrakk>on s0 s 1 t; Q x\<rbrakk> \<Longrightarrow> R (x, t)"
  shows "gives R (lexed f s)"
  using assms by (intro lexed_gives [where k = "\<lambda>_. 1" and Q = Q]) (auto simp: below_def elim!: gives_weaken)

lemma gives_lexed_name: "\<lbrakk>reads_on s0 s; \<And>x t. on s0 s 1 t \<Longrightarrow> R (x, t)\<rbrakk> \<Longrightarrow> gives R (lexed name s)"
  using name_below [of "(ptext s, sc_line s)"] by (intro gives_lexed [where Q = "\<lambda>_. True"]) simp_all

lemma gives_lexed_pattern: "\<lbrakk>reads_on s0 s; \<And>x t. on s0 s 1 t \<Longrightarrow> R (x, t)\<rbrakk> \<Longrightarrow> gives R (lexed pattern s)"
  using pattern_below [of "(ptext s, sc_line s)"] by (intro gives_lexed [where Q = "\<lambda>_. True"]) simp_all

lemma gives_lexed_quoted: "\<lbrakk>reads_on s0 s; \<And>x t. on s0 s 1 t \<Longrightarrow> R (x, t)\<rbrakk> \<Longrightarrow> gives R (lexed quoted s)"
  using quoted_below [of "(ptext s, sc_line s)"] by (intro gives_lexed [where Q = "\<lambda>_. True"]) simp_all

lemma gives_lexed_expression:
  "\<lbrakk>reads_on s0 s; \<And>x t. \<lbrakk>on s0 s 1 t; typed x\<rbrakk> \<Longrightarrow> R (x, t)\<rbrakk> \<Longrightarrow> gives R (lexed expression s)"
  using expression_below [of "(ptext s, sc_line s)"] by (intro gives_lexed [where Q = typed]) simp_all

lemma gives_expects: "\<lbrakk>reads_on s0 s; w \<noteq> []; \<And>t. on s0 s 1 t \<Longrightarrow> R t\<rbrakk> \<Longrightarrow> gives R (expects w s)"
  using expect_gives [of w "(ptext s, sc_line s)"] reads_on_trans [OF _ reads_on_text(1)]
  unfolding expects_def gives_bind by (fastforce simp: on_def elim!: gives_weaken)

lemma gives_skips: "\<lbrakk>reads_on s0 s; \<And>t. on s0 s 0 t \<Longrightarrow> R t\<rbrakk> \<Longrightarrow> gives R (skips s)"
  using skipspace_gives [of "ptext s" "sc_line s"] reads_on_trans [OF _ reads_on_text(1)]
  unfolding skips_def gives_bind by (fastforce simp: on_def elim!: gives_weaken)

lemma onD: "on s0 s k t \<Longrightarrow> reads_on s0 t"
  by (simp add: on_def)

lemmas parse_gives = gives_lexed_accept gives_lexed_name gives_lexed_pattern gives_lexed_quoted gives_lexed_expression
  gives_expects gives_skips

section \<open>Statements\<close>

lemma find_index_None: "find_index P xs = None \<longleftrightarrow> (\<forall>x\<in>set xs. \<not> P x)"
  by (auto simp: find_index_def find_None_iff all_set_conv_all_nth)

lemma find_index_Some: "find_index P xs = Some k \<Longrightarrow> k < length xs \<and> P (xs ! k)"
  by (auto simp: find_index_def find_Some_iff)

lemma ssym_reads:
  assumes "ssym n s = (r, t)"
  shows "reads_on s t \<and> r < length (ssyms t) \<and> ptext t = ptext s"
proof (cases "findssym n s")
  case None
  then have "\<forall>y\<in>set (ssyms s). ss_name y \<noteq> n" by (simp add: findssym_def find_index_None)
  then have "n \<notin> ss_name ` set (ssyms s)" by auto
  then show ?thesis
    using assms None by (auto simp: ssym_def reads_on_def new_ssym_def)
next
  case (Some k)
  then show ?thesis using assms find_index_Some by (auto simp: ssym_def findssym_def)
qed

lemma reads_on_mark: "reads_on s (upd_ssym r (mark_assign k) s)"
proof -
  have "map ss_name ((ssyms s)[r := mark_assign k (ssyms s ! r)]) = map ss_name (ssyms s)"
    by (cases "r < length (ssyms s)") (auto simp: map_update mark_assign_def list_update_same_conv list_update_beyond split: akind.split)
  then show ?thesis by (simp add: reads_on_def upd_ssym_def)
qed

lemma gives_accept_tail:
  "\<lbrakk>reads_on s0 s; \<And>t. on s0 s 0 t \<Longrightarrow> R t\<rbrakk> \<Longrightarrow> gives R (bindE (lexed (accept '';'') s) (\<lambda>(ok, t). Inr t))"
  by (auto simp: gives_bind on_def intro!: gives_lexed_accept)

lemma assign_rest:
  assumes "reads_on s0 s" and sy: "case sy of None \<Rightarrow> k = A_PLAIN | Some r \<Rightarrow> r < length (ssyms s)"
  shows "gives (\<lambda>(x, t). on s0 s 1 t \<and> stmt_ok (length (ssyms t)) x \<and> outer_ok x)
    (bindE (expects ''='' s) (\<lambda>s2.
        bindE (lexed expression s2) (\<lambda>(e, s3).
        bindE (if k = A_PLAIN then expects '';'' s3
               else bindE (expects '')'' s3) (\<lambda>s4. bindE (lexed (accept '';'') s4) (\<lambda>(ok, s5). Inr s5))) (\<lambda>s6.
          Inr (S_ASSIGN l k sy e, case sy of None \<Rightarrow> s6 | Some r \<Rightarrow> upd_ssym r (mark_assign k) s6)))))"
proof -
  have m: "reads_on s0 t \<Longrightarrow> reads_on s0 (upd_ssym r (mark_assign k') t)" for t :: "'a parse_scheme" and r k'
    using reads_on_trans reads_on_mark by blast
  have n: "ptext (upd_ssym r (mark_assign k') t) = ptext t" "length (ssyms (upd_ssym r (mark_assign k') t)) = length (ssyms t)"
    for t :: "'a parse_scheme" and r k' by (simp_all add: upd_ssym_def)
  show ?thesis
    using assms by (auto simp: gives_bind on_def n split: option.splits intro!: parse_gives m)
qed

lemma assign_target_gives:
  assumes "reads_on s0 s"
  shows "gives (\<lambda>(x, t). on s0 s 1 t \<and> stmt_ok (length (ssyms t)) x \<and> outer_ok x) (assign_target l k tgt s)"
proof (cases "tgt = bytes_of ''.''")
  case True
  then show ?thesis using assign_rest [OF assms, where sy = None and k = k and l = l] by (auto simp: assign_target_def)
next
  case False
  obtain r t where t: "ssym tgt s = (r, t)" by (cases "ssym tgt s")
  have a: "reads_on s0 t" "r < length (ssyms t)" "ptext t = ptext s" "length (ssyms s) \<le> length (ssyms t)"
    using ssym_reads [OF t] assms reads_on_trans reads_on_grows by blast+
  then have "gives (\<lambda>(x, u). on s0 s 1 u \<and> stmt_ok (length (ssyms u)) x \<and> outer_ok x)
      (assign_target l k tgt s)"
    using assign_rest [OF a(1), where sy = "Some r" and k = k and l = l] False
    by (auto simp: assign_target_def t on_def elim!: gives_weaken)
  then show ?thesis .
qed

lemma assignment_gives:
  assumes "reads_on s0 s"
  shows "gives (\<lambda>(x, t). on s0 s 1 t \<and> stmt_ok (length (ssyms t)) x \<and> outer_ok x) (assignment k tgt s)"
proof -
  have a: "gives (\<lambda>(x, t). on s0 s 1 t \<and> stmt_ok (length (ssyms t)) x \<and> outer_ok x) (assign_target l k n s2)"
    if "on s0 s 0 s2" for l n s2
    using assign_target_gives [OF onD [OF that], where l = l and k = k and tgt = n] that by (auto simp: on_def elim!: gives_weaken)
  show ?thesis
    using assms a [of s] unfolding assignment_def
    by (auto simp: gives_bind on_def intro!: parse_gives a [unfolded on_def, simplified])
qed

lemma assertion_gives:
  assumes "reads_on s0 s"
  shows "gives (\<lambda>(x, t). on s0 s 1 t \<and> stmt_ok (length (ssyms t)) x \<and> outer_ok x) (assertion s)"
  using assms unfolding assertion_def by (auto simp: gives_bind on_def intro!: parse_gives)

lemma patterns_gives:
  assumes "reads_on s0 s" and "length (ptext s) < n"
  shows "gives (\<lambda>(x, t). on s0 s 0 t) (patterns n s)"
  using assms
proof (induction n arbitrary: s)
  case (Suc n)
  have ih: "gives (\<lambda>(x, t). on s0 s 0 t) (patterns n s2)" if "on s0 s 1 s2" for s2
    using Suc.IH [OF onD [OF that]] Suc.prems(2) that by (auto simp: on_def elim!: gives_weaken)
  then show ?case
    using Suc.prems(1) by (auto simp: gives_bind on_def intro!: parse_gives gives_weaken [OF ih [unfolded on_def, simplified]])
qed simp

lemma input_gives:
  assumes "reads_on s0 s"
  shows "gives (\<lambda>(x, t). on s0 s 0 t \<and> stmt_ok (length (ssyms t)) x) (input_stmt word s)"
proof -
  have p: "gives (\<lambda>(x, t). on s0 s 0 t) (patterns (length (ptext s1)) (s1\<lparr>ptext := tl (ptext s1)\<rparr>))"
    if "on s0 s 0 s1" "ch (ptext s1) = 40" for s1
  proof -
    have "length (tl (ptext s1)) < length (ptext s1)" using that(2) by (cases "ptext s1") (auto simp: ch_def)
    then show ?thesis
      using patterns_gives [of s0 "s1\<lparr>ptext := tl (ptext s1)\<rparr>" "length (ptext s1)"] that(1)
        reads_on_trans [OF onD [OF that(1)] reads_on_text(2)]
      by (auto simp: on_def elim!: gives_weaken)
  qed
  have a: "gives (\<lambda>(x, t). on s0 s 0 t \<and> stmt_ok (length (ssyms t)) x) (assignment A_PLAIN word s1)"
    if "on s0 s 0 s1" for s1
    using assignment_gives [OF onD [OF that], where k = A_PLAIN and tgt = word] that by (auto simp: on_def elim!: gives_weaken)
  show ?thesis
    using assms unfolding input_stmt_def
    by (auto simp: gives_bind on_def intro!: parse_gives a [unfolded on_def, simplified] gives_weaken [OF p [unfolded on_def, simplified]])
qed

lemma keyword_gives:
  assumes "reads_on s0 s" and "[] \<notin> set ws"
  shows "gives (\<lambda>(kw, t). on s0 s (if kw = None then 0 else 1) t \<and> (\<forall>w. kw = Some w \<longrightarrow> w \<in> set ws)) (keyword ws s)"
proof -
  have "gives (\<lambda>(kw, t). on s0 s (if kw = None then 0 else 1) t \<and> (\<forall>w. kw = Some w \<longrightarrow> w \<in> V)) (fold (\<lambda>w m. bindE m (\<lambda>(r, t).
         if r \<noteq> None then Inr (r, t)
         else bindE (lexed (accept w) t) (\<lambda>(ok, t1). Inr (if ok then Some w else None, t1)))) ws m)"
    if "gives (\<lambda>(kw, t). on s0 s (if kw = None then 0 else 1) t \<and> (\<forall>w. kw = Some w \<longrightarrow> w \<in> V)) m" "[] \<notin> set ws" "set ws \<subseteq> V"
    for ws V and m :: "stop + string option \<times> 'a parse_scheme"
    using that
  proof (induction ws arbitrary: m)
    case (Cons w ws)
    have "gives (\<lambda>(kw, t). on s0 s (if kw = None then 0 else 1) t \<and> (\<forall>w. kw = Some w \<longrightarrow> w \<in> V))
        (bindE m (\<lambda>(r, t). if r \<noteq> None then Inr (r, t)
         else bindE (lexed (accept w) t) (\<lambda>(ok, t1). Inr (if ok then Some w else None, t1))))"
      unfolding gives_bind
      using Cons.prems by (auto simp: gives_bind on_def intro!: gives_weaken [OF Cons.prems(1)] gives_lexed_accept split: if_splits)
    then show ?case using Cons by simp
  qed simp
  from this [where m = "Inr (None, s)" and ws = ws and V = "set ws"] show ?thesis using assms by (simp add: keyword_def on_def)
qed


lemma gives_if: "\<lbrakk>b \<Longrightarrow> gives R m; \<not> b \<Longrightarrow> gives R n\<rbrakk> \<Longrightarrow> gives R (if b then m else n)"
  by simp

lemma gives_parens_expression:
  "\<lbrakk>reads_on s0 s; \<And>x t. \<lbrakk>on s0 s 1 t; typed x\<rbrakk> \<Longrightarrow> R (x, t)\<rbrakk> \<Longrightarrow> gives R (parens expression s)"
  unfolding parens_def by (auto simp: gives_bind on_def intro!: parse_gives)

lemma gives_parens_name:
  "\<lbrakk>reads_on s0 s; \<And>x t. on s0 s 1 t \<Longrightarrow> R (x, t)\<rbrakk> \<Longrightarrow> gives R (parens name s)"
  unfolding parens_def by (auto simp: gives_bind on_def intro!: parse_gives)

lemma stmt_ok_keep [simp]: "stmt_ok n (set_keep x) = stmt_ok n x"
  by (cases x) (auto simp: set_keep_def)

lemma gives_assignment:
  "\<lbrakk>reads_on s0 s; \<And>x t. \<lbrakk>on s0 s 1 t; stmt_ok (length (ssyms t)) x; outer_ok x\<rbrakk> \<Longrightarrow> R (x, t)\<rbrakk> \<Longrightarrow> gives R (assignment k tgt s)"
  using assignment_gives by (fastforce elim!: gives_weaken)

lemma gives_assertion:
  "\<lbrakk>reads_on s0 s; \<And>x t. \<lbrakk>on s0 s 1 t; stmt_ok (length (ssyms t)) x; outer_ok x\<rbrakk> \<Longrightarrow> R (x, t)\<rbrakk> \<Longrightarrow> gives R (assertion s)"
  using assertion_gives by (fastforce elim!: gives_weaken)

lemma gives_input:
  "\<lbrakk>reads_on s0 s; \<And>x t. \<lbrakk>on s0 s 0 t; \<forall>n\<ge>length (ssyms t). stmt_ok n x\<rbrakk> \<Longrightarrow> R (x, t)\<rbrakk> \<Longrightarrow> gives R (input_stmt word s)"
  by (rule gives_weaken [OF input_gives]) (auto intro: stmt_ok_mono)

lemma gives_keyword:
  "\<lbrakk>reads_on s0 s; [] \<notin> set ws; \<And>kw t. on s0 s (if kw = None then 0 else 1) t \<Longrightarrow> R (kw, t)\<rbrakk> \<Longrightarrow> gives R (keyword ws s)"
  using keyword_gives by (fastforce elim!: gives_weaken)

lemmas stmt_gives = parse_gives gives_parens_expression gives_parens_name gives_assignment gives_assertion gives_input

lemma statement_gives:
  assumes s: "reads_on s0 s"
    and st: "\<And>s2. on s0 s 1 s2 \<Longrightarrow> gives (\<lambda>(xs, t). on s0 s2 0 t \<and> list_all (stmt_ok (length (ssyms t))) xs) (stmts s2)"
  shows "gives (\<lambda>(x, t). on s0 s 1 t \<and> stmt_ok (length (ssyms t)) x) (statement_step stmts s)"
proof -
  let ?R = "\<lambda>(x, t). on s0 s 1 t \<and> stmt_ok (length (ssyms t)) x"
  have body: "gives (\<lambda>(xs, t). on s0 s2 0 t \<and> (\<forall>n\<ge>length (ssyms t). list_all (stmt_ok n) xs)) (stmts s2)"
    if "on s0 s 1 s2" for s2
    using st [OF that] by (auto elim!: gives_weaken intro: stmts_ok_mono)
  have 1: "gives ?R (assignment k' [] s1)" if "on s0 s 0 s1" for s1 k'
    using that by (auto simp: on_def intro!: gives_assignment)
  have 2: "gives ?R (assertion s1)" if "on s0 s 0 s1" for s1
    using that by (auto simp: on_def intro!: gives_assertion)
  have 3: "gives ?R (bindE (expects ''{'' s1) (\<lambda>s2. bindE (stmts s2) (\<lambda>(body, s3).
       bindE (expects ''}'' s3) (\<lambda>s4. Inr (S_ONEPAGE l body, s4)))))" if "on s0 s 0 s1" for s1 l
    using that by (auto simp: gives_bind on_def intro!: parse_gives gives_weaken [OF body [unfolded on_def, simplified]])
  have 4: "gives ?R (bindE (parens expression s1) (\<lambda>(e, s2). bindE (lexed (accept '';'') s2) (\<lambda>(ok, s3). Inr (F e, s3))))"
    if "on s0 s 0 s1" "\<And>n e. typed e \<Longrightarrow> stmt_ok n (F e)" for s1 F
    using that by (auto simp: gives_bind on_def intro!: gives_parens_expression gives_lexed_accept)
  have 5: "gives ?R (bindE (expects ''('' s1) (\<lambda>s2. bindE (lexed pattern s2) (\<lambda>(word, s3).
       bindE (input_stmt word s3) (\<lambda>(x, s4). bindE (expects '')'' s4) (\<lambda>s5. Inr (set_keep x, s5))))))"
    if "on s0 s 0 s1" for s1
    using that by (auto simp: gives_bind on_def intro!: gives_expects gives_lexed_pattern gives_input)
  have 6: "gives ?R (bindE (lexed pattern s1) (\<lambda>(word, s2). input_stmt word s2))" if "on s0 s 0 s1" for s1
    using that by (auto simp: gives_bind on_def intro!: gives_lexed_pattern gives_input)
  have k: "on s0 s (if kw = None then 0 else 1) s1 \<Longrightarrow> on s0 s 0 s1" for kw :: "string option" and s1
    by (auto simp: on_def split: if_splits)
  show ?thesis
    unfolding statement_step_def gives_bind Let_def
    by (rule gives_keyword [OF s], simp, drule k, unfold prod.case, intro gives_if 1 2 3 4 5 6) simp_all
qed

lemma statements_gives:
  assumes "reads_on s0 s" and "length (ptext s) < n"
  shows "gives (\<lambda>(xs, t). on s0 s 0 t \<and> list_all (stmt_ok (length (ssyms t))) xs) (statements_f n s)"
  using assms
proof (induction n arbitrary: s)
  case (Suc n)
  have ih: "gives (\<lambda>(xs, t). on s0 s2 0 t \<and> list_all (stmt_ok (length (ssyms t))) xs) (statements_f n s2)"
    if "on s0 s 1 s2" for s2
    using Suc.IH [OF onD [OF that]] Suc.prems(2) that by (simp add: on_def)
  have stm: "gives (\<lambda>(x, t). on s0 s1 1 t \<and> stmt_ok (length (ssyms t)) x) (statement_step (statements_f n) s1)"
    if "on s0 s 0 s1" for s1
    using that by (intro statement_gives [OF onD [OF that]] ih) (simp add: on_def)
  show ?case
    using Suc.prems(1)
    by (auto simp: gives_bind on_def intro!: parse_gives gives_weaken [OF stm [unfolded on_def, simplified]]
        gives_weaken [OF ih [unfolded on_def, simplified]]) (erule stmt_ok_mono, simp)+
qed simp

lemma gives_statements:
  "\<lbrakk>reads_on s0 s; \<And>xs t. \<lbrakk>on s0 s 0 t; list_all (stmt_ok (length (ssyms t))) xs\<rbrakk> \<Longrightarrow> R (xs, t)\<rbrakk> \<Longrightarrow> gives R (statements s)"
  using statements_gives [of s0 s "length (ptext s) + 1"] unfolding statements_def by (fastforce elim!: gives_weaken)

section \<open>Sections\<close>

lemma noload_gives:
  assumes "reads_on s0 s" shows "gives (\<lambda>(nl, t). on s0 s 0 t) (noload_mark s)"
proof -
  have p: "reads_on s0 t \<Longrightarrow> reads_on s0 (t\<lparr>ptext := x\<rparr>)" for t :: "'a parse_scheme" and x
    using reads_on_trans reads_on_text(2) by blast
  show ?thesis
    using assms unfolding noload_mark_def
    by (auto simp: gives_bind on_def intro!: parse_gives p split: if_splits)
qed

lemma gives_noload: "\<lbrakk>reads_on s0 s; \<And>nl t. on s0 s 0 t \<Longrightarrow> R (nl, t)\<rbrakk> \<Longrightarrow> gives R (noload_mark s)"
  using noload_gives by (fastforce elim!: gives_weaken)

lemma sect_ok_grow: "sect_ok m r sect \<Longrightarrow> m \<le> n \<Longrightarrow> sect_ok n r sect"
  by (auto simp: sect_ok_def intro: stmts_ok_mono)

lemma new_sect_ok: "sect_ok n r (new_sect nm l)"
  by (simp add: sect_ok_def new_sect_def opt_typed_def)

lemma opt_typed_simps [simp]: "opt_typed None" "opt_typed (Some e) = typed e"
  by (simp_all add: opt_typed_def)

text \<open>The description of a section under construction keeps its name.\<close>

definition describes :: "byte list \<Rightarrow> 'a parse_scheme \<Rightarrow> osect \<Rightarrow> bool" where
  "describes nm t sect \<longleftrightarrow> os_name sect = nm \<and> sect_ok (length (ssyms t)) (length (regions t)) sect"

lemma describes_on: "\<lbrakk>describes nm s sect; reads_on s0 s; on s0 s k t\<rbrakk> \<Longrightarrow> describes nm t sect"
  using reads_on_simps(2) [of s0 s] reads_on_simps(2) [of s0 t]
  by (auto simp: describes_def on_def intro: sect_ok_grow)

lemma section_attrs_gives:
  assumes "reads_on s0 s" and "length (ptext s) < n" and "describes nm s sect"
  shows "gives (\<lambda>(sect', t). on s0 s 0 t \<and> describes nm t sect') (section_attrs n sect s)"
  using assms
proof (induction n arbitrary: s sect)
  case (Suc n)
  have ih: "gives (\<lambda>(sect', t). on s0 s 0 t \<and> describes nm t sect') (section_attrs n sect' s2)"
    if "on s0 s 1 s2" "describes nm s2 sect'" for s2 sect'
    using Suc.IH [OF onD [OF that(1)] _ that(2)] Suc.prems(2) that(1) by (auto simp: on_def elim!: gives_weaken)
  show ?case
    unfolding section_attrs.simps gives_bind
  proof (rule gives_keyword [OF Suc.prems(1)])
    fix kw :: "string option" and s1 assume k: "on s0 s (if kw = None then 0 else 1) s1"
    have d: "describes nm s1 sect" using describes_on [OF Suc.prems(3,1) k] .
    have e: "gives (\<lambda>(sect', t). on s0 s 0 t \<and> describes nm t sect') (section_attrs n (f e) s2)"
      if "on s0 s1 1 s2" "typed e" "describes nm s2 sect \<Longrightarrow> typed e \<Longrightarrow> describes nm s2 (f e)" for f s2 and e :: sexpr
      using that k d describes_on [OF d onD [OF k] that(1)] by (intro ih) (auto simp: on_def)
    show "gives (\<lambda>(sect', t). on s0 s 0 t \<and> describes nm t sect')
        (case (kw, s1) of (kw, s1) \<Rightarrow> if kw = None then Inr (sect, s1)
         else bindE (parens expression s1) (\<lambda>(e, s2).
           section_attrs n (if kw = Some ''AT'' then sect\<lparr>os_at := Some e\<rparr>
              else if kw = Some ''ALIGN'' then sect\<lparr>os_align := Some e\<rparr>
              else sect\<lparr>os_subalign := Some e\<rparr>) s2))"
      unfolding prod.case
    proof (intro gives_if)
      assume "kw = None" then show "gives (\<lambda>(sect', t). on s0 s 0 t \<and> describes nm t sect') (Inr (sect, s1))"
        using k d by simp
    next
      show "gives (\<lambda>(sect', t). on s0 s 0 t \<and> describes nm t sect') (bindE (parens expression s1) (\<lambda>(e, s2).
           section_attrs n (if kw = Some ''AT'' then sect\<lparr>os_at := Some e\<rparr>
              else if kw = Some ''ALIGN'' then sect\<lparr>os_align := Some e\<rparr>
              else sect\<lparr>os_subalign := Some e\<rparr>) s2))"
        unfolding gives_bind
        by (rule gives_parens_expression [OF onD [OF k]], unfold prod.case, rule e)
           (auto simp: describes_def sect_ok_def)
    qed
  qed simp
qed simp


lemma gives_section_attrs:
  "\<lbrakk>reads_on s0 s; describes nm s sect; \<And>sect' t. \<lbrakk>on s0 s 0 t; describes nm t sect'\<rbrakk> \<Longrightarrow> R (sect', t)\<rbrakk> \<Longrightarrow>
     gives R (section_attrs (length (ptext s) + 1) sect s)"
  by (rule gives_weaken [OF section_attrs_gives]) auto

lemma gives_region_name:
  assumes "reads_on s0 s" "\<And>r t. \<lbrakk>on s0 s 1 t; r < length (regions t)\<rbrakk> \<Longrightarrow> R (r, t)"
  shows "gives R (region_name s)"
proof -
  have r: "gives (\<lambda>r. r < length (regions t)) (findregion n t)" for n and t :: "'a parse_scheme"
    using find_index_Some [of "\<lambda>r. rg_name r = n" "regions t"] by (auto simp: findregion_def split: option.split)
  show ?thesis
    unfolding region_name_def gives_bind
    by (rule gives_lexed_name [OF assms(1)], unfold prod.case gives_bind, rule gives_weaken [OF r]) (simp add: assms(2))
qed

lemma section_places_gives:
  assumes "reads_on s0 s" and "length (ptext s) < n" and "describes nm s sect"
  shows "gives (\<lambda>(sect', t). on s0 s 0 t \<and> describes nm t sect') (section_places n sect s)"
  using assms
proof (induction n arbitrary: s sect)
  case (Suc n)
  let ?R = "\<lambda>(sect', t). on s0 s 0 t \<and> describes nm t sect'"
  have ih: "gives ?R (section_places n sect' s2)" if "on s0 s 1 s2" "describes nm s2 sect'" for s2 sect'
    using Suc.IH [OF onD [OF that(1)] _ that(2)] Suc.prems(2) that(1) by (auto simp: on_def elim!: gives_weaken)
  have next_on: "on s0 s 1 s2 \<and> describes nm s2 sect" if "on s0 s 0 s1" "on s0 s1 1 s2" for s1 s2
    using that describes_on [OF Suc.prems(3,1), of 1 s2] by (auto simp: on_def)
  have region: "gives ?R (bindE (region_name s1) (\<lambda>(r, s2). section_places n (f r sect) s2))"
    if "on s0 s 0 s1" "\<And>r (t :: 'a parse_scheme). \<lbrakk>describes nm t sect; r < length (regions t)\<rbrakk> \<Longrightarrow> describes nm t (f r sect)" for s1 f
    unfolding gives_bind
    by (rule gives_region_name [OF onD [OF that(1)]], unfold prod.case, rule ih)
       (use next_on [OF that(1)] that(2) in blast)+
  have expr: "gives ?R (bindE (lexed expression s1) (\<lambda>(e, s2). section_places n (sect\<lparr>fillexpr := Some e\<rparr>) s2))"
    if "on s0 s 0 s1" for s1
    unfolding gives_bind
    by (rule gives_lexed_expression [OF onD [OF that]], unfold prod.case, rule ih)
       (use next_on [OF that(1)] in \<open>auto simp: describes_def sect_ok_def\<close>)
  have at: "gives ?R (bindE (expects ''>'' s1) (\<lambda>s2.
       bindE (region_name s2) (\<lambda>(r, s3). section_places n (sect\<lparr>lmaregion := Some r\<rparr>) s3)))"
    if "on s0 s 0 s1" for s1
    unfolding gives_bind [of _ "expects ''>'' s1"] using that
    by (intro gives_expects [OF onD [OF that]] region) (auto simp: on_def describes_def sect_ok_def)
  have stop: "?R (sect, s1)" if "on s0 s 0 s1" for s1
    using that describes_on [OF Suc.prems(3,1), of 0 s1] by simp
  have k: "on s0 s (if kw = None then 0 else 1) s1 \<Longrightarrow> on s0 s 0 s1" for kw :: "string option" and s1
    by (auto simp: on_def split: if_splits)
  show ?case
    unfolding section_places.simps gives_bind [of _ "keyword _ _"]
    by (rule gives_keyword [OF Suc.prems(1)], simp, drule k, unfold prod.case,
        intro gives_if at region [of _ "\<lambda>r sect. sect\<lparr>os_region := Some r\<rparr>"] expr)
       (auto simp: describes_def sect_ok_def dest: stop)
qed simp

lemma gives_section_places:
  "\<lbrakk>reads_on s0 s; describes nm s sect; \<And>sect' t. \<lbrakk>on s0 s 0 t; describes nm t sect'\<rbrakk> \<Longrightarrow> R (sect', t)\<rbrakk> \<Longrightarrow>
     gives R (section_places (length (ptext s) + 1) sect s)"
  by (rule gives_weaken [OF section_places_gives]) auto

lemma gives_section_address:
  assumes "reads_on s0 s" "\<And>sect t. \<lbrakk>on s0 s 0 t; describes nm t sect\<rbrakk> \<Longrightarrow> R (sect, t)"
  shows "gives R (section_address (new_sect nm l) s)"
proof -
  have d: "describes nm t (new_sect nm l)" "describes nm t ((new_sect nm l)\<lparr>noload := True\<rparr>)"
    "typed e \<Longrightarrow> describes nm t ((new_sect nm l)\<lparr>os_addr := Some e, noload := b\<rparr>)" for t :: "'a parse_scheme" and e b
    using new_sect_ok [of "length (ssyms t)" "length (regions t)" nm l]
    by (auto simp: describes_def sect_ok_def new_sect_def)
  show ?thesis
    using assms(1) unfolding section_address_def
    by (auto simp: gives_bind on_def intro!: gives_noload gives_lexed_expression d assms(2) [unfolded on_def])
qed


section \<open>The script grows well formed\<close>

definition keeps_wf :: "'a parse_scheme \<Rightarrow> 'a parse_scheme \<Rightarrow> bool" where
  "keeps_wf s t \<longleftrightarrow> (script_wf s \<longrightarrow> script_wf t) \<and> mods t = mods s"

definition builds :: "nat \<Rightarrow> 'a parse_scheme \<Rightarrow> 'a parse_scheme \<Rightarrow> bool" where
  "builds k s t \<longleftrightarrow> keeps_wf s t \<and> length (ptext t) + k \<le> length (ptext s)"

lemma builds_trans: "builds j s t \<Longrightarrow> builds k t u \<Longrightarrow> i \<le> j + k \<Longrightarrow> builds i s u"
  by (auto simp: builds_def keeps_wf_def)

lemma builds_on: "on s s k t \<Longrightarrow> builds k s t"
  using reads_on_simps(6) [of s t] by (auto simp: on_def builds_def keeps_wf_def intro: reads_on_wf)

lemma script_wf_text [simp]:
  "script_wf (s\<lparr>ptext := t\<rparr>) = script_wf s" "script_wf (s\<lparr>ptext := t, sc_line := l\<rparr>) = script_wf s"
  "script_wf (s\<lparr>entryname := n\<rparr>) = script_wf s" "script_wf (s\<lparr>script_binary := b, script_records := r\<rparr>) = script_wf s"
  by (simp_all add: script_wf_def)

lemma section_stmts_outer: "outer_ok x \<Longrightarrow> section_stmts [x] = []"
  by (cases x) (simp_all add: section_stmts_def)

lemma section_stmts_join: "section_stmts (xs @ ys) = section_stmts xs @ section_stmts ys"
  by (simp add: section_stmts_def)

lemma wf_top:
  "\<lbrakk>script_wf t; outer_ok x; stmt_ok (length (ssyms t)) x\<rbrakk> \<Longrightarrow> script_wf (t\<lparr>top_stmts := top_stmts t @ [x]\<rparr>)"
  by (auto simp: script_wf_def top_ok_def section_stmts_join section_stmts_outer)

lemma wf_section:
  assumes "script_wf u" "describes nm u sect" "nm \<notin> os_name ` set (sects u)"
  shows "script_wf (u\<lparr>sects := sects u @ [sect], top_stmts := top_stmts u @ [S_SECTION l (length (sects u))]\<rparr>)"
proof -
  have "section_stmts [S_SECTION l k] = [k]" for k by (simp add: section_stmts_def)
  then show ?thesis using assms by (auto simp: script_wf_def top_ok_def section_stmts_join describes_def)
qed

lemma wf_region:
  assumes "script_wf u" "typed (rg_origin r)" "typed (rg_length r)"
  shows "script_wf (u\<lparr>regions := regions u @ [r]\<rparr>)"
  using assms by (auto simp: script_wf_def sect_ok_def less_Suc_eq)

lemma gives_addtop:
  assumes "gives (\<lambda>(x, t). on s s 1 t \<and> stmt_ok (length (ssyms t)) x \<and> outer_ok x) m"
  shows "gives (builds 1 s) (addtop m)"
  unfolding addtop_def gives_bind
proof (rule gives_weaken [OF assms], clarsimp)
  fix x t assume t: "on s s (Suc 0) t" and x: "stmt_ok (length (ssyms t)) x" "outer_ok x"
  show "builds (Suc 0) s (t\<lparr>top_stmts := top_stmts t @ [x]\<rparr>)"
    using builds_on [OF t] wf_top [OF _ x(2,1)] by (simp add: builds_def keeps_wf_def)
qed

lemma describes_body:
  assumes "describes nm s4 sect" "on s0 s4 j s5" "on s0 s5 k s6" "on s0 s6 l s7" "reads_on s0 s4"
    "list_all (stmt_ok (length (ssyms s6))) body"
  shows "describes nm s7 (sect\<lparr>os_body := body\<rparr>)"
proof -
  have "describes nm s7 sect" using assms(1-5) by (meson describes_on onD)
  moreover have "list_all (stmt_ok (length (ssyms s7))) body"
    using assms(4,6) by (auto simp: on_def intro: stmts_ok_mono)
  ultimately show ?thesis by (simp add: describes_def sect_ok_def)
qed

lemma section_stmt_gives:
  assumes "findsect nm s = None"
  shows "gives (\<lambda>(x, t). \<exists>sect u l. on s s 1 u \<and> describes nm u sect \<and> x = S_SECTION l (length (sects u)) \<and>
      t = u\<lparr>sects := sects u @ [sect]\<rparr>) (section_stmt nm s)"
  apply (simp only: section_stmt_def assms simp_thms if_False gives_bind prod.case)
  apply (rule gives_skips [OF reads_on_refl])
  apply (rule gives_section_address, erule onD)
  apply (simp only: gives_bind prod.case)
  apply (rule gives_expects, erule onD, simp)
  apply (rule gives_section_attrs, erule onD, erule describes_on, erule onD, assumption)
  apply (simp only: gives_bind prod.case)
  apply (rule gives_expects, erule onD, simp)
  apply (rule gives_statements, erule onD)
  apply (simp only: gives_bind prod.case)
  apply (rule gives_expects, erule onD, simp)
  apply (rule gives_section_places, erule onD)
   apply (rule describes_body, assumption+, erule onD, assumption)
  apply (fastforce simp: on_def)
  done

lemma gives_section:
  "gives (builds 1 s) (addtop (section_stmt nm s))"
proof (cases "findsect nm s")
  case None
  then have new: "nm \<notin> os_name ` set (sects s)" by (auto simp: findsect_def find_index_None)
  show ?thesis
    unfolding addtop_def gives_bind
  proof (rule gives_weaken [OF section_stmt_gives [OF None]], clarsimp)
    fix sect u l assume u: "on s s (Suc 0) u" and d: "describes nm u sect"
    have "sects u = sects s" using reads_on_simps(1) [OF onD [OF u]] .
    then show "builds (Suc 0) s (u\<lparr>sects := sects u @ [sect], top_stmts := top_stmts u @ [S_SECTION l (length (sects u))]\<rparr>)"
      using builds_on [OF u] wf_section [OF _ d] new by (simp add: builds_def keeps_wf_def)
  qed
qed (simp add: section_stmt_def addtop_def)

section \<open>Commands\<close>

lemma gives_add_assignment: "gives (builds 1 s) (addtop (assignment k n s))"
  by (rule gives_addtop, rule assignment_gives, simp)

lemma gives_add_assertion: "gives (builds 1 s) (addtop (assertion s))"
  by (rule gives_addtop, rule assertion_gives, simp)

lemma builds_shift:
  assumes "on s s k t" "gives (builds j t) m" "i \<le> k + j" shows "gives (builds i s) m"
  by (rule gives_weaken [OF assms(2)]) (rule builds_trans [OF builds_on [OF assms(1)] _ assms(3)])

lemma gives_region_field:
  assumes "reads_on s0 s" "[] \<notin> set ws" "\<And>e t. \<lbrakk>on s0 s 1 t; typed e\<rbrakk> \<Longrightarrow> R (e, t)"
  shows "gives R (region_field ws msg s)"
proof -
  have "gives R (bindE (expects ''='' s1) (\<lambda>s2.
         bindE (lexed expression s2) (\<lambda>(e, s3). bindE (lexed (accept '','') s3) (\<lambda>(ok, s4). Inr (e, s4)))))"
    if "on s0 s 0 s1" for s1
    using that by (auto simp: gives_bind on_def intro!: parse_gives assms(3) [unfolded on_def])
  then show ?thesis
    unfolding region_field_def gives_bind [of _ "keyword _ _"]
    by (intro gives_keyword [OF assms(1,2)]) (auto simp: on_def split: if_splits)
qed

lemma gives_region_attrs:
  assumes "reads_on s0 s" "\<And>a t. on s0 s 0 t \<Longrightarrow> R (a, t)"
  shows "gives R (region_attrs s)"
proof -
  have p: "reads_on s0 t \<Longrightarrow> reads_on s0 (t\<lparr>ptext := x\<rparr>)" for t :: "'a parse_scheme" and x
    using reads_on_trans reads_on_text(2) by blast
  have e: "gives (\<lambda>s3. gives R (Inr (a, s3))) (expects '')'' (s2\<lparr>ptext := dropWhile q (ptext s2)\<rparr>))"
    if "on s0 s 0 s2" for s2 q a
    using that p [of s2] length_dropWhile_le [of q "ptext s2"]
    by (auto simp: on_def intro!: gives_expects assms(2) [unfolded on_def])
  have r: "R (a, t)" if "on s0 s k t" for a k t
    using that by (intro assms(2)) (simp add: on_def)
  show ?thesis
    unfolding region_attrs_def gives_bind
    apply (rule gives_lexed_accept [OF assms(1)], simp)
    apply (simp only: prod.case)
    apply (intro gives_if)
     apply (simp add: r)
    apply (simp only: gives_bind)
    apply (rule gives_skips, erule onD)
    apply (rule e, simp add: on_def)
    done
qed

lemma region_added:
  "\<lbrakk>on s s k u; typed e1; typed e2\<rbrakk> \<Longrightarrow> \<exists>v r. on s s k v \<and> typed (rg_origin r) \<and> typed (rg_length r) \<and>
     u\<lparr>regions := regions u @ [\<lparr>rg_name = n, rg_attr = a, rg_line = l, rg_origin = e1, rg_length = e2,
       rg_org = 0, rg_len = 0, rg_cursor = 0\<rparr>]\<rparr> = v\<lparr>regions := regions v @ [r]\<rparr>"
  by (intro exI [of _ u] exI [of _ "\<lparr>rg_name = n, rg_attr = a, rg_line = l, rg_origin = e1, rg_length = e2,
       rg_org = 0, rg_len = 0, rg_cursor = 0\<rparr>"]) simp

lemma gives_region: "gives (builds 1 s) (region_def s)"
proof -
  have "gives (\<lambda>t. \<exists>u r. on s s 1 u \<and> typed (rg_origin r) \<and> typed (rg_length r) \<and> t = u\<lparr>regions := regions u @ [r]\<rparr>)
      (region_def s)"
    unfolding region_def_def
    apply (simp only: gives_bind prod.case)
    apply (rule gives_lexed_name [OF reads_on_refl])
    apply (simp only: gives_bind prod.case)
    apply (rule gives_region_attrs, erule onD)
    apply (simp only: gives_bind prod.case)
    apply (rule gives_expects, erule onD, simp)
    apply (rule gives_region_field, erule onD, simp)
    apply (simp only: gives_bind prod.case)
    apply (rule gives_region_field, erule onD, simp)
    apply (simp only: prod.case gives_simps)
    apply (rule region_added)
      apply (simp add: on_def)
     apply assumption+
    done
  then show ?thesis
  proof (rule gives_weaken, clarsimp)
    fix u :: "'a parse_scheme" and r :: region
    assume u: "on s s (Suc 0) u" and r: "typed (rg_origin r)" "typed (rg_length r)"
    show "builds (Suc 0) s (u\<lparr>regions := regions u @ [r]\<rparr>)"
      using builds_on [OF u] wf_region [of u, OF _ r] by (simp add: builds_def keeps_wf_def)
  qed
qed

lemma on_builds: "on s s k t \<Longrightarrow> builds 0 s t"
  by (drule builds_on) (simp add: builds_def)

lemma memory_gives: "length (ptext s) < n \<Longrightarrow> gives (builds 0 s) (memory_f n s)"
proof (induction n arbitrary: s)
  case (Suc n)
  have step: "gives (builds 0 s) (bindE (region_def s1) (memory_f n))" if "on s s 0 s1" for s1
    unfolding gives_bind
  proof (rule gives_weaken [OF gives_region])
    fix t assume t: "builds 1 s1 t"
    then have b: "builds 1 s t" using builds_trans [OF builds_on [OF that] t] by simp
    then have "length (ptext t) < n" using Suc.prems by (simp add: builds_def)
    then have "gives (builds 0 t) (memory_f n t)" by (rule Suc.IH)
    then show "gives (builds 0 s) (memory_f n t)" by (rule gives_weaken) (rule builds_trans [OF b], assumption, simp)
  qed
  have onk: "on s s 0 t" if "on s s k t" for k t
    using that by (simp add: on_def)
  show ?case
    unfolding memory_f.simps gives_bind [of _ "lexed _ _"]
    apply (rule gives_lexed_accept [OF reads_on_refl], simp)
    apply (unfold prod.case)
    apply (intro gives_if)
     apply (simp only: gives_simps)
     apply (erule on_builds)
    apply (rule step, erule onk)
    done
qed simp


lemma gives_memory: "gives (builds 1 s) (memory s)"
  unfolding memory_def gives_bind
  by (rule gives_expects [OF reads_on_refl], simp, erule builds_shift, rule memory_gives) simp_all

section \<open>The whole script\<close>

text \<open>A reader of an included file keeps the script well formed and ends.\<close>

definition body_ok :: "('a parse_scheme \<Rightarrow> stop + 'a parse_scheme) option \<Rightarrow> bool" where
  "body_ok body \<longleftrightarrow> (\<forall>f s. body = Some f \<longrightarrow> gives (keeps_wf s) (f s))"

lemma keeps_wf_text [simp]:
  "keeps_wf s (t\<lparr>ptext := x, sc_line := l\<rparr>) = keeps_wf s t" "keeps_wf (s\<lparr>ptext := x, sc_line := l\<rparr>) t = keeps_wf s t"
  by (simp_all add: keeps_wf_def)

lemma readfile_gives: "gives (\<lambda>t. True) (readfile files fname)"
  by (simp add: readfile_def split: option.split)

lemma include_gives:
  assumes "body_ok body"
  shows "gives (builds 1 s) (include_file files body s)"
proof -
  have b: "gives (\<lambda>s2. builds 1 s (s2\<lparr>ptext := ptext s1, sc_line := sc_line s1\<rparr>)) (f (s1\<lparr>ptext := t, sc_line := 1\<rparr>))"
    if "on s s 1 s1" "body = Some f" for f s1 t
  proof (rule gives_weaken)
    show "gives (keeps_wf (s1\<lparr>ptext := t, sc_line := 1\<rparr>)) (f (s1\<lparr>ptext := t, sc_line := 1\<rparr>))"
      using assms that(2) by (simp add: body_ok_def)
    show "builds 1 s (s2\<lparr>ptext := ptext s1, sc_line := sc_line s1\<rparr>)" if "keeps_wf (s1\<lparr>ptext := t, sc_line := 1\<rparr>) s2" for s2
      using that builds_on [OF \<open>on s s 1 s1\<close>] by (simp add: builds_def) (simp add: keeps_wf_def)
  qed
  show ?thesis
    unfolding include_file_def gives_bind
    apply (rule gives_lexed_quoted [OF reads_on_refl])
    apply (simp only: prod.case)
    apply (cases body)
     apply simp
    apply (simp add: gives_bind)
    apply (rule gives_weaken [OF readfile_gives])
    apply (rule b [simplified]; simp)
    done
qed

lemma builds_after: "on s s k t \<Longrightarrow> gives (builds j t) m \<Longrightarrow> gives (builds j s) m"
  by (rule builds_shift [OF _ _ le_add2])

lemma builds_skips:
  "(\<And>t. on s s 0 t \<Longrightarrow> gives (builds j t) (f t)) \<Longrightarrow> gives (builds j s) (bindE (skips s) f)"
  unfolding gives_bind by (rule gives_skips [OF reads_on_refl], rule builds_after)

lemma named_gives: "gives (builds 1 s) (named_command s)"
  unfolding named_command_def gives_bind [of _ "lexed _ _"]
  apply (rule gives_lexed_name [OF reads_on_refl])
  apply (simp only: prod.case)
  apply (rule builds_after, assumption)
  apply (rule builds_skips)
  apply (rule gives_if)
   apply (rule gives_add_assignment)
  apply (rule gives_section)
  done

lemma gives_keyword_builds:
  assumes "[] \<notin> set ws" and "\<And>kw t. kw \<in> {None} \<union> Some ` set ws \<Longrightarrow> gives (builds 1 t) (f (kw, t))"
  shows "gives (builds 1 s) (bindE (keyword ws s) f)"
  unfolding gives_bind
proof (rule gives_weaken [OF keyword_gives [OF reads_on_refl assms(1)]], clarsimp)
  fix kw t assume o: "on s s (if kw = None then 0 else 1) t" and w: "\<forall>w. kw = Some w \<longrightarrow> w \<in> set ws"
  have "gives (builds 1 t) (f (kw, t))" using w by (intro assms(2)) (cases kw; simp)
  from builds_after [OF o this] show "gives (builds (Suc 0) s) (f (kw, t))" by simp
qed

lemma section_command_gives: "body_ok body \<Longrightarrow> gives (builds 1 s) (section_command files body s)"
  unfolding section_command_def
  by (rule gives_keyword_builds, simp, unfold prod.case)
    (intro gives_if gives_add_assignment gives_add_assertion include_gives named_gives)

lemma sections_f_gives: "body_ok body \<Longrightarrow> length (ptext s) < n \<Longrightarrow> gives (builds 0 s) (sections_f n files body infile s)"
proof (induction n arbitrary: s)
  case (Suc n)
  have more: "gives (builds 0 s1) (bindE (section_command files body s1) (sections_f n files body infile))"
    if "length (ptext s1) \<le> n" for s1
    unfolding gives_bind
  proof (rule gives_weaken [OF section_command_gives [OF Suc.prems(1)]])
    fix t assume b: "builds 1 s1 t"
    then have "length (ptext t) < n" using that by (simp add: builds_def)
    with Suc.prems(1) have "gives (builds 0 t) (sections_f n files body infile t)" by (rule Suc.IH)
    then show "gives (builds 0 s1) (sections_f n files body infile t)" by (rule gives_weaken) (rule builds_trans [OF b], assumption, simp)
  qed
  have len: "on s1 s1 k t \<Longrightarrow> length (ptext s1) \<le> n \<Longrightarrow> length (ptext t) \<le> n" for s1 k and t :: "'a parse_scheme"
    by (simp add: on_def)
  have close: "gives (builds 0 s1) (bindE (lexed (accept ''}'') s1) (\<lambda>(ok, s2).
      if ok then Inr s2 else bindE (section_command files body s2) (sections_f n files body infile)))"
    if l: "length (ptext s1) \<le> n" for s1
    unfolding gives_bind [of _ "lexed _ _"]
    apply (rule gives_lexed_accept [OF reads_on_refl], simp)
    apply (simp only: prod.case)
    apply (rule builds_after, assumption)
    apply (rule gives_if)
     apply (simp add: builds_def keeps_wf_def)
    apply (rule more, erule len, rule l)
    done
  have if_bind: "bindE (if infile then Inr (False, t) else m) f = (if infile then f (False, t) else bindE m f)"
    for t :: "'a parse_scheme" and m and f :: "_ \<Rightarrow> stop + 'a parse_scheme"
    by simp
  have s: "length (ptext s) \<le> n" using Suc.prems(2) by simp
  show ?case
    unfolding sections_f.simps if_bind
    apply (rule builds_skips)
    apply (intro gives_if)
       apply (simp add: builds_def keeps_wf_def)
      apply simp
     apply (unfold prod.case if_False)
     apply (rule more, erule len, rule s)
    apply (rule close, erule len, rule s)
    done
qed simp

lemma sections_body_gives:
  fixes s :: "'a parse_scheme"
  shows "gives (builds 0 s) (sections_body d files infile s)"
proof (induction d arbitrary: infile s)
  case (Suc d)
  have "keeps_wf s t" if "builds 0 s t" for s t :: "'a parse_scheme" using that by (simp add: builds_def)
  then have "gives (keeps_wf s) (sections_body d files True s)" for s :: "'a parse_scheme"
    by (rule gives_weaken [OF Suc])
  then have "body_ok (Some (sections_body d files True :: 'a parse_scheme \<Rightarrow> _))" by (simp add: body_ok_def)
  then show ?case unfolding sections_body.simps by (rule sections_f_gives) simp
next
  case 0
  show ?case unfolding sections_body.simps by (rule sections_f_gives) (simp_all add: body_ok_def)
qed

section \<open>Commands of the script\<close>

lemma builds_expects: "w \<noteq> [] \<Longrightarrow> gives (builds 1 s) (expects w s)"
  by (rule gives_expects [OF reads_on_refl], assumption, erule builds_on)

lemma entry_gives: "gives (builds 1 s) (entry_command s)"
  unfolding entry_command_def gives_bind
  apply (rule gives_parens_name [OF reads_on_refl], drule builds_on)
  apply (simp add: builds_def keeps_wf_def)
  done

lemma wf_globalfill: "script_wf t \<Longrightarrow> typed e \<Longrightarrow> script_wf (t\<lparr>globalfill := Some e\<rparr>)"
  by (simp add: script_wf_def opt_typed_def)

lemma globalfill_gives: "gives (builds 1 s) (bindE (parens expression s) (\<lambda>(e, s2). Inr (s2\<lparr>globalfill := Some e\<rparr>)))"
  unfolding gives_bind
  apply (rule gives_parens_expression [OF reads_on_refl], drule builds_on)
  apply (simp add: builds_def keeps_wf_def wf_globalfill)
  done

lemma builds_mode: "gives (builds 1 (t\<lparr>script_binary := b, script_records := r\<rparr>)) m \<Longrightarrow> gives (builds 1 t) m"
  by (erule gives_weaken) (simp add: builds_def keeps_wf_def)

lemma output_format_gives: "gives (builds 1 s) (output_format s)"
proof -
  have if_bind: "bindE (if b then Inr t else m) f = (if b then f t else bindE m f)"
    for b t m and f :: "_ \<Rightarrow> stop + 'a parse_scheme"
    by simp
  show ?thesis
    unfolding output_format_def
    apply (simp only: gives_bind [of _ "expects _ _"])
    apply (rule gives_expects [OF reads_on_refl], simp)
    apply (rule builds_after, assumption)
    apply (simp only: gives_bind [of _ "lexed _ _"])
    apply (rule gives_lexed_name [OF reads_on_refl])
    apply (simp only: prod.case if_bind)
    apply (rule builds_after, assumption)
    apply (intro gives_if)
        apply (rule builds_mode, rule builds_expects, simp)+
    apply simp
    done
qed

lemma plain_gives: "gives (builds 1 s) (plain_command s)"
  unfolding plain_command_def gives_bind [of _ "lexed _ _"]
  apply (rule gives_lexed_name [OF reads_on_refl])
  apply (simp only: prod.case)
  apply (rule builds_after, assumption)
  apply (rule builds_skips)
  apply (intro gives_if gives_add_assignment)
  apply simp
  done

lemma sections_gives: "gives (builds 1 s) (bindE (expects ''{'' s) (sections_body d files False))"
  unfolding gives_bind
  by (rule gives_expects [OF reads_on_refl], simp, erule builds_shift, rule sections_body_gives) simp

lemma command_gives: "body_ok body \<Longrightarrow> gives (builds 1 s) (command d files body s)"
  unfolding command_def
  by (rule gives_keyword_builds, simp, unfold prod.case)
    (intro gives_if gives_add_assignment gives_add_assertion include_gives entry_gives output_format_gives sections_gives
      gives_memory globalfill_gives plain_gives)

lemma commands_f_gives: "body_ok body \<Longrightarrow> length (ptext s) < n \<Longrightarrow> gives (keeps_wf s) (commands_f n d files body s)"
proof (induction n arbitrary: s)
  case (Suc n)
  have more: "gives (keeps_wf s) (bindE (command d files body s1) (commands_f n d files body))" if "on s s 0 s1" for s1
    unfolding gives_bind
  proof (rule gives_weaken [OF command_gives [OF Suc.prems(1)]])
    fix t assume b: "builds 1 s1 t"
    then have "length (ptext t) < n" and k: "keeps_wf s t"
      using that Suc.prems(2) builds_trans [OF builds_on [OF that] b order_refl] by (simp_all add: builds_def on_def)
    with Suc.prems(1) have "gives (keeps_wf t) (commands_f n d files body t)" by (intro Suc.IH)
    then show "gives (keeps_wf s) (commands_f n d files body t)" by (rule gives_weaken) (use k in \<open>auto simp: keeps_wf_def\<close>)
  qed
  have "keeps_wf s t" if "on s s 0 t" for t using builds_on [OF that] by (simp add: builds_def)
  then show ?case
    unfolding commands_f.simps gives_bind [of _ "skips _"]
    by (intro gives_skips [OF reads_on_refl] gives_if more) simp_all
qed simp

lemma commands_gives:
  fixes s :: "'a parse_scheme"
  shows "gives (keeps_wf s) (commands d files s)"
proof (induction d arbitrary: s)
  case (Suc d)
  then have "body_ok (Some (commands d files :: 'a parse_scheme \<Rightarrow> _))" by (simp add: body_ok_def)
  then show ?case unfolding commands.simps by (rule commands_f_gives) simp
next
  case 0
  show ?case unfolding commands.simps by (rule commands_f_gives) (simp_all add: body_ok_def)
qed

lemma parse_text_gives:
  fixes s :: "'a parse_scheme"
  shows "gives (keeps_wf s) (parse_text files t s)"
proof -
  have "keeps_wf (s\<lparr>ptext := t, sc_line := 1\<rparr>) = keeps_wf s" by (rule ext) simp
  then show ?thesis
    using commands_gives [of "s\<lparr>ptext := t, sc_line := 1\<rparr>" 10 files] unfolding parse_text_def by (simp only:)
qed

lemma script_read_gives: "gives (keeps_wf s) (script_read files fname s)"
  unfolding script_read_def gives_bind by (rule gives_weaken [OF readfile_gives]) (rule parse_text_gives)

section \<open>Properties\<close>

lemma stmts_ok_pieces: "list_all (stmt_ok n) xs \<Longrightarrow> stmt_pieces xs = []"
  by (induction xs rule: stmt_pieces.induct) (auto elim: stmt_ok.elims)

lemma script_wf_ready: "script_wf s \<Longrightarrow> commons_ok (mods s) \<Longrightarrow> script_ready s"
  by (auto simp: script_ready_def sections_once_def script_wf_def sect_ok_def stmts_ok_pieces)

text \<open>The parser starts on a script with no statements yet.\<close>

definition parse_start :: "modstruct list \<Rightarrow> parse" where
  "parse_start ms = script.extend (script_start\<lparr>mods := ms\<rparr>) (parse.fields [])"

definition small_text :: "byte list" where
  "small_text = bytes_of ''SECTIONS { .text 0x100 : { *(LOC0) } .data : { *(*) BYTE(7) } }''"




lemma parse_start_simps:
  "mods (parse_start ms) = ms" "top_stmts (parse_start ms) = []" "sects (parse_start ms) = []" "ssyms (parse_start ms) = []"
  "regions (parse_start ms) = []" "script_defines (parse_start ms) = []" "globalfill (parse_start ms) = None"
  by (simp_all add: parse_start_def script.extend_def parse.fields_def script_start_def)

lemma parse_start_wf: "script_wf (parse_start ms)"
  by (simp add: script_wf_def parse_start_simps opt_typed_def section_stmts_def)

lemma sample_commons: "commons_ok [sample_module]"
  by (simp add: commons_ok_def sample_module_def)




end
