(* ===== verification/Script_Default.thy ===== *)
theory Script_Default
  imports Script_Parse_Props
begin

text \<open>
  The default script: the addresses it prints are read back by the parser as the
  values of the command line.
\<close>

section \<open>Hexadecimal numbers\<close>

lemma hex_digit_value: "k < 16 \<Longrightarrow> digit_value (xdigit k) = k" (is "_ \<Longrightarrow> ?thesis")
proof -
  assume "k < 16"
  moreover have "\<forall>k\<in>set [0..<16]. digit_value (xdigit k) = k" by code_simp
  ultimately show ?thesis by simp
qed

lemma digits_int_append: "digits_int b (xs @ ys) = fold (\<lambda>c n. n * int b + int (digit_value c)) ys (digits_int b xs)"
  by (simp add: digits_int_def)

lemma xdigits_read: "digits_int 16 (xdigits n) = int n \<and> (\<forall>c\<in>set (xdigits n). is_digit_in 16 c)"
proof (induction n rule: xdigits.induct)
  case (1 n)
  show ?case
  proof (cases "n < 16")
    case True
    then show ?thesis by (simp add: xdigits.simps [of n] digits_int_def is_digit_in_def hex_digit_value)
  next
    case False
    then show ?thesis
      using 1 by (simp add: xdigits.simps [of n] digits_int_append is_digit_in_def hex_digit_value)
        (simp add: zmod_int zdiv_int)
  qed
qed

lemma digits_int_zeros: "digits_int 16 (replicate k 48 @ ds) = digits_int 16 ds"
proof -
  have "digits_int 16 (replicate k 48) = 0" by (induction k) (simp_all add: digits_int_def digit_value_def)
  then show ?thesis by (simp add: digits_int_append) (simp add: digits_int_def)
qed

lemma fmt_X_read:
  "digits_int 16 (fmt_X w n) = int n" "\<forall>c\<in>set (fmt_X w n). is_digit_in 16 c"
proof -
  have "is_digit_in 16 48" by (simp add: is_digit_in_def digit_value_def)
  then show "digits_int 16 (fmt_X w n) = int n" "\<forall>c\<in>set (fmt_X w n). is_digit_in 16 c"
    using xdigits_read [of n] by (auto simp: fmt_X_def Let_def digits_int_zeros)
qed

lemma fmt_X_some: "fmt_X w n \<noteq> []"
  by (simp add: fmt_X_def Let_def xdigits.simps [of n])

text \<open>A digit of a number is a character of a name, so a number ends before the next blank or operator.\<close>

lemma digit_identchar: "is_digit_in 16 c \<Longrightarrow> identchar c"
  by (auto simp: is_digit_in_def digit_value_def identchar_def c_isalpha_def c_isdigit_def word_le_nat_alt Let_def split: if_splits)

lemma strtoul_hex:
  assumes "\<forall>c\<in>set ds. is_digit_in 16 c" and "ds \<noteq> []" and "\<not> identchar (ch rest)"
  shows "strtoul 0 (bytes_of ''0x'' @ ds @ rest) = Some (False, digits_int 16 ds, rest)"
proof -
  have r: "\<not> is_digit_in 16 (ch rest)" using assms(3) digit_identchar by blast
  then have e: "takeWhile (is_digit_in 16) rest = []" "dropWhile (is_digit_in 16) rest = rest"
    by (cases rest; simp add: ch_def)+
  have t: "takeWhile (is_digit_in 16) (ds @ rest) = ds" "dropWhile (is_digit_in 16) (ds @ rest) = rest"
    using assms(1) e by (simp_all add: takeWhile_append2 dropWhile_append2)
  have "digit_value (ch (ds @ rest)) < 16"
    using assms(1,2) by (cases ds) (simp_all add: ch_def is_digit_in_def)
  then show ?thesis
    using t assms(2) by (simp add: strtoul_def is_hex_prefix_def c_isspace_def ch_def)
qed

lemma address_value: "number_value False (int (unat (scast v :: u64))) = sint (v :: u32)"
proof -
  have "(of_int (int (unat (scast v :: u64))) :: u64) = scast v" by simp
  then show ?thesis by (simp add: number_value_def sint_up_scast is_up)
qed



end
