(* ===== verification/Spec2Isabelle.thy ===== *)
theory Spec2Isabelle
  imports Keyword_Table Express_Spec Pops_Spec Assemble Readobj_Props Linkmod_Props Write_Props Object_Read Script_Default
begin

text \<open>
  Verification of \<^verbatim>\<open>as01\<close> and \<^verbatim>\<open>ld01\<close>, the assembler (\<^verbatim>\<open>src/as\<close>) and the linker
  (\<^verbatim>\<open>src/ld\<close>) for the Motorola 6800, 6801, 6803 and 6303.

  The program.  The assembler reads a line, takes it apart into symbols
  (\<^verbatim>\<open>scan.c\<close>, with the tables of \<^verbatim>\<open>table.c\<close> and \<^verbatim>\<open>keywords.c\<close>), and calls the routine
  of its operation: a machine instruction (\<^verbatim>\<open>mops.c\<close>) or a pseudo-operation
  (\<^verbatim>\<open>pops.c\<close>), whose operands are expressions (\<^verbatim>\<open>express.c\<close>).  The bytes go to an
  object file (\<^verbatim>\<open>genobj.c\<close>), to a binary file (\<^verbatim>\<open>genbin.c\<close>) and to the listing
  (\<^verbatim>\<open>genlist.c\<close>).  The linker reads object files and archives (\<^verbatim>\<open>readobj.c\<close>) through
  buffered files (\<^verbatim>\<open>io.c\<close>) into its symbol table (\<^verbatim>\<open>table.c\<close>), chooses the modules to
  load (\<^verbatim>\<open>linksyms.c\<close>), lets a linker script place their segments (\<^verbatim>\<open>script.c\<close>) and
  writes an executable (\<^verbatim>\<open>writex86.c\<close>) or records (\<^verbatim>\<open>srec.c\<close>).  The contract of the
  two tools is the object format: numbers of fixed size (\<^verbatim>\<open>typeconv.c\<close>), a header
  with symbols, and a text of commands.

  Conventions.  The host is LP64 with signed \<^verbatim>\<open>char\<close>, the target big-endian.
  \<^verbatim>\<open>unsigned\<close> is \<open>u32\<close>; the assembler's \<^verbatim>\<open>offset_t\<close> is a 64-bit unsigned number whose
  low 16 bits count (\<^verbatim>\<open>SIZEOF_OFFSET_T\<close> is 2, the branches for longer offsets are
  compiled out); the linker's \<^verbatim>\<open>bin_off_t\<close> is 32 bits, compared as signed where the
  code does; \<^verbatim>\<open>long\<close> in scripts is an integer whose overflow stops the model.  A
  character is a byte.  State is a record that grows with the programs' parts, from
  \<open>symtab\<close> to \<open>trans\<close> in the assembler and from \<open>input\<close> to \<open>script\<close> in the linker; a
  pointer into a table is an index.  An operation that can stop gives
  \<open>stop + 'a\<close>: \<open>Inl (Fatal msg)\<close> for the program's own exits with the fixed part of
  the message, other values for what C leaves undefined (a null pointer, an index
  outside an array, signed overflow, a division by zero) so that no theorem
  rests on it.  Failing system calls are not modelled.

  Theories of both tools.  \<open>Prelude\<close>: integer types, results, shared lemmas.
  \<open>Typeconv\<close>: \<^verbatim>\<open>typeconv.c\<close> of both tools, with the locale \<open>sized_codec\<close>.  \<open>Objformat\<close>:
  the commands of an object text, a decoder, and the image a text denotes.

  Theories of the assembler.  \<open>Symtab\<close> (\<^verbatim>\<open>table.c\<close>; the locale \<open>name_table\<close>), \<open>Scan\<close>
  (\<^verbatim>\<open>scan.c\<close>; the locale \<open>token_source\<close>), \<open>Keywords\<close> and \<open>Keyword_Table\<close> (\<^verbatim>\<open>keywords.c\<close>,
  the packed tables and their installation), \<open>Errors\<close> (\<^verbatim>\<open>error\<close> and the number
  formats of \<^verbatim>\<open>genlist.c\<close>), \<open>Express\<close> and \<open>Express_Spec\<close> (\<^verbatim>\<open>express.c\<close>), \<open>Genobj\<close> and
  \<open>Objheader\<close> (\<^verbatim>\<open>genobj.c\<close>), \<open>Genbin\<close> (\<^verbatim>\<open>genbin.c\<close>), \<open>Mops\<close> (\<^verbatim>\<open>mops.c\<close>), \<open>Pops\<close>, \<open>Pops_Props\<close>
  and \<open>Pops_Spec\<close> (\<^verbatim>\<open>pops.c\<close>), \<open>Assemble\<close> (\<^verbatim>\<open>assemble.c\<close>).

  Theories of the linker.  \<open>Ldio\<close> (\<^verbatim>\<open>io.c\<close>; the locales \<open>byte_source\<close> and
  \<open>byte_sink\<close>), \<open>Ldtable\<close> (\<^verbatim>\<open>table.c\<close>, an instance of \<open>name_table\<close>), \<open>Readobj\<close> and
  \<open>Readobj_Props\<close> (\<^verbatim>\<open>readobj.c\<close>), \<open>Linksyms\<close> and \<open>Linksyms_Props\<close> (\<^verbatim>\<open>linksyms.c\<close>),
  \<open>Linkmod\<close> and \<open>Linkmod_Props\<close> (\<^verbatim>\<open>linkmod\<close> and \<^verbatim>\<open>padmod\<close> of \<^verbatim>\<open>writex86.c\<close>), \<open>Srec\<close>
  (\<^verbatim>\<open>srec.c\<close>), \<open>Script_Parse\<close>, \<open>Script_Expr\<close>, \<open>Script_Parse_Props\<close> and \<open>Script_Default\<close>
  (the parser of \<^verbatim>\<open>script.c\<close> and the default script), \<open>Script\<close>, \<open>Script_Layout\<close>, \<open>Script_Walk\<close>, \<open>Script_Deal\<close>, \<open>Script_Props\<close>,
  \<open>Script_Sound\<close> and \<open>Script_Frame\<close> (\<^verbatim>\<open>script.c\<close>), \<open>Write_Elks\<close> and \<open>Write_Props\<close>
  (\<^verbatim>\<open>write_elks\<close> of \<^verbatim>\<open>writex86.c\<close>).

  What is shown.  Tables: lookup is a map from names to entries, and every
  keyword is found (\<open>Symtab\<close>, \<open>Keyword_Table\<close>, \<open>Ldtable\<close>).  Scanner: the end of the
  line is always reached, numbers have their positional value.  Expressions: the
  parser always returns, and it computes the value of the syntax tree for every
  placement of the segments.  Instructions: every operand gives an instruction of
  the processor, every branch reaches its target or is reported.
  Pseudo-operations: the stacks and counters stay well formed over every line, and
  conditionals, blocks, segments and \<^verbatim>\<open>EQU\<close> implement their abstract versions.
  Object files: the text the assembler writes denotes what it was asked to write
  (\<open>Genobj\<close>), the header it writes is entered by the linker symbol by symbol
  (\<open>Object_File\<close>, \<open>Object_Read\<close>), the linker executes a text exactly
  (\<open>Linkmod_Props\<close>), and this theory composes the first and the last.  Linking:
  reading any bytes is safe, exactly the modules that are needed are loaded,
  reading the text of any script, included files with it, ends with a message or
  with a well-formed script (\<open>Script_Parse_Props\<close>), the
  layout of a script deals every input section once, places it inside its
  section, its region and the file without overlap, and every symbol and common
  block gets its address from it (\<open>Script_Deal\<close> to \<open>Write_Props\<close>).  Output: the
  buffered file is the file of direct writes, records load back as the image.

  Bounds and fuel.  Recursion that is not structural and has no measure in the
  state carries fuel, and running out is the value \<open>NoFuel\<close>, which is shown not to
  arise or is excluded by the theorem's conclusion.  Expressions get eight units
  for each symbol left on the line and \<open>enough_fuel\<close> shows that more never
  changes a result; the loops over operand lists get one unit for each
  symbol left (\<open>keeps\<close> in \<open>Pops_Props\<close> excludes \<open>NoFuel\<close>); the search for modules
  gets one unit for each module and its rounds 256 for each entry of the
  redefinition list, since a round that asks for another one raises the class, a
  byte, of a definition (\<open>Linksyms_Props\<close>); an archive and the text of a module get one unit for
  each byte left (\<open>Readobj_Props\<close>, \<open>linkmod_runs\<close>).  The passes over a script are
  bounded by the program's own \<^verbatim>\<open>MAXPASSES\<close>, the error buffer by \<^verbatim>\<open>MAXERR\<close>, the
  stacks by \<^verbatim>\<open>MAXIF\<close> and \<^verbatim>\<open>MAXBLOCK\<close>.

  Parameters.  The assembler's source reader and macro expander are the record
  \<open>source_ops\<close> of \<open>Assemble\<close>; files that the linker reads are given by a function
  from names to contents; the modules that a script keeps are an argument of
  \<^verbatim>\<open>linksyms\<close>.

  Not modelled.  \<^verbatim>\<open>as.c\<close> and \<^verbatim>\<open>ld.c\<close> (command lines), \<^verbatim>\<open>alloc.c\<close> and the storage
  routines of the linker's \<^verbatim>\<open>table.c\<close> (memory is unbounded), \<^verbatim>\<open>readsrc.c\<close> and
  \<^verbatim>\<open>macro.c\<close> (parameters, above), \<^verbatim>\<open>gensym.c\<close> and the printed lines of \<^verbatim>\<open>genlist.c\<close>
  (output for a reader), \<^verbatim>\<open>bintrailer\<close> of \<^verbatim>\<open>genbin.c\<close>, the printed map in
  \<^verbatim>\<open>script.c\<close>, \<^verbatim>\<open>dumps.c\<close> and \<^verbatim>\<open>mkar.c\<close>, \<^verbatim>\<open>objcopy.c\<close>, \<^verbatim>\<open>objdump86.c\<close> (printing), and
  \<^verbatim>\<open>ar.c\<close>, which is GNU code kept in the repository.
\<close>

section \<open>From the assembler to the linked program\<close>

text \<open>
  C25: from the assembler's requests to the linked program.  When the text that
  the assembler wrote for a sequence of bytes, spaces, relocatable fields and
  segment changes is the text of a module, and the layout has room for it, the
  linker executes it to the end; the fields of the image that the requests
  denote, in order and at the addresses the layout gives their segments, are
  exactly what it writes to the output, relocated, besides zeros for the spaces.
\<close>

theorem assembled_module_linked:
  fixes s :: "'a gen_scheme" and w :: "'b writer_scheme"
  assumes "gen_rel h im s im" and "list_all req_ok rs" and "length (arrext s) < 0x10000"
    and "files (filename (mods w ! m)) = objfil (objtrailer (fold do_req rs s))"
    and "unat (textoffset (mods w ! m)) = h"
    and "cs = butlast (fst (the (decode 2 (drop h (objfil (objtrailer (fold do_req rs s)))))))"
    and "at_image (module_place (mods w ! m)) (2, im)"
    and "\<forall>x\<in>set (text_items cs (module_place (mods w ! m))). fits (prepare (mods w ! m) w) x"
    and "\<forall>c\<in>set cs. symbols_ok w m c"
  shows "\<exists>t. linkmod files m w = Inr t \<and>
    out_view t = fold (write_item (prepare (mods w ! m) w) m)
      (text_items cs (module_place (mods w ! m))) (out_view w) \<and>
    im_data (fold (req_image (arrext s)) rs im) =
      im_data im @ item_atoms (text_items cs (module_place (mods w ! m)))"
proof -
  let ?text = "drop h (objfil (objtrailer (fold do_req rs s)))"
  have "gen_rel h im (fold do_req rs s) (fold (req_image (arrext s)) rs im)"
    using do_reqs_rel [OF assms(1-3)] .
  then obtain ds r where d: "decode 2 ?text = Some (ds @ [CEnd], r)" "CEnd \<notin> set ds"
      "snd (fold exec_cmd ds (2, im)) = fold (req_image (arrext s)) rs im"
    by (rule objtrailer_text)
  have cs: "cs = ds" using assms(6) d(1) by simp
  have text_at: "drop (unat (textoffset (mods w ! m))) (files (filename (mods w ! m))) = ?text @ []"
    using assms(4,5) by simp
  obtain t where t: "linkmod files m w = Inr t"
      "out_view t = fold (write_item (prepare (mods w ! m) w) m)
        (text_items cs (module_place (mods w ! m))) (out_view w)"
    using linkmod_runs [of w m files ?text "[]" ds r, OF text_at d(1,2)] assms(8,9) cs by blast
  moreover have "im_data (fold (req_image (arrext s)) rs im) =
      im_data im @ item_atoms (text_items cs (module_place (mods w ! m)))"
    using text_items_image [OF assms(7), of ds] d(3) cs by simp
  ultimately show ?thesis by blast
qed

definition sample_reqs :: "req list" where
  "sample_reqs =
     [RByte 0xCE, RAddr \<lparr>a_offset = 5, a_data = RELBIT OR 1, a_sym = None\<rparr> 2 0, RSpace 2, RByte 0x39]"

definition sample_image :: image where
  "sample_image = \<lparr>im_seg = 0, im_pos = (\<lambda>g. if g = 0 then 0x100 else 0x800), im_data = []\<rparr>"

theorem assembled_module_linked_witness:
  "\<exists>t. linkmod (\<lambda>_. objfil (objtrailer (fold do_req sample_reqs gen_start))) 0 writer_start = Inr t \<and>
     out_view t = [0xCE, 0x08, 0x05, 0, 0, 0x39]"
proof -
  let ?obj = "objfil (objtrailer (fold do_req sample_reqs gen_start))"
  let ?cs = "butlast (fst (the (decode 2 (drop 0 ?obj))))"
  have h1: "gen_rel 0 sample_image gen_start sample_image" by (rule gen_rel_start)
  have h2: "list_all req_ok sample_reqs" by (simp add: sample_reqs_def)
  have h3: "length (arrext gen_start) < 0x10000" by simp
  have h5: "unat (textoffset (mods writer_start ! 0)) = 0" by (simp add: writer_start_def plain_module_def)
  have h7: "at_image (module_place (mods writer_start ! 0)) (2, sample_image)"
    by (simp add: at_image_def module_place_def sample_image_def writer_start_def word_of_nat_eq_0_iff)
       (auto dest: dvd_imp_le)
  have h8: "\<forall>x\<in>set (text_items ?cs (module_place (mods writer_start ! 0))).
      fits (prepare (mods writer_start ! 0) writer_start) x" by code_simp
  have h9: "\<forall>c\<in>set ?cs. symbols_ok writer_start 0 c" by code_simp
  have h10: "fold (write_item (prepare (mods writer_start ! 0) writer_start) 0)
      (text_items ?cs (module_place (mods writer_start ! 0))) (out_view writer_start) =
    [0xCE, 0x08, 0x05, 0, 0, 0x39]" by code_simp
  show ?thesis
    using assembled_module_linked [OF h1 h2 h3 refl h5 refl h7 h8 h9] h10 by metis
qed

end
